(* ===== verification/Kiseki_Prelude.thy ===== *)
theory Kiseki_Prelude
  imports Main "HOL-Library.Word"
begin

text \<open>
  Shared ground of the development: the machine types and the Rust integer operations the
  sources use, results as sums with \<^verbatim>\<open>?\<close> as \<open>rbind\<close>, textual formatting of numbers
  (\<^verbatim>\<open>{:0>8}\<close>, \<^verbatim>\<open>{:08X}\<close>), and generic facts on lists and sums the components use.

  Conventions. A \<^verbatim>\<open>u8\<close>/\<^verbatim>\<open>u32\<close> on which the code works bitwise is an \<open>8 word\<close>/\<open>32 word\<close>.
  \<^verbatim>\<open>u64\<close> and \<^verbatim>\<open>usize\<close> quantities (inodes, lengths, offsets, indices) are \<open>nat\<close>; where the
  source's arithmetic could leave 64 bits the wrap-around of the release profile is written out
  with \<open>wrap64\<close>, and an \<^verbatim>\<open>as u32\<close> narrowing with \<open>as_u32\<close>. Rust strings and byte
  vectors are \<open>string\<close>: a HOL character is one byte, and \<open>length\<close> is \<^verbatim>\<open>str::len\<close>.
\<close>

section \<open>Collections of facts\<close>

named_theorems kiseki_simps \<open>unfolding rules of the small operations\<close>
named_theorems view_simps \<open>typed views of the metadata store after a write\<close>
named_theorems key_simps \<open>distinctness and injectivity of metadata keys\<close>

section \<open>Machine types\<close>

unbundle bit_operations_syntax

type_synonym u8 = "8 word"
type_synonym u32 = "32 word"
type_synonym bytes = string
type_synonym ino = nat
type_synonym systime = int \<comment> \<open>\<^verbatim>\<open>SystemTime\<close>: nanoseconds since the epoch, possibly before it\<close>
type_synonym duration = nat

definition u64_max :: nat where
  "u64_max = 2 ^ 64 - 1"

definition wrap64 :: "nat \<Rightarrow> nat" where
  "wrap64 n = n mod 2 ^ 64"

definition as_u32 :: "nat \<Rightarrow> nat" where
  "as_u32 n = n mod 2 ^ 32"

text \<open>\<^verbatim>\<open>usize::checked_add\<close>.\<close>

definition checked_add64 :: "nat \<Rightarrow> nat \<Rightarrow> nat option" where
  "checked_add64 a b = (if a + b < 2 ^ 64 then Some (a + b) else None)"

text \<open>\<^verbatim>\<open>SystemTime::duration_since\<close>: an error (here \<open>None\<close>) when the argument is later.\<close>

definition duration_since :: "systime \<Rightarrow> systime \<Rightarrow> duration option" where
  "duration_since now t = (if t \<le> now then Some (nat (now - t)) else None)"

lemma wrap64_id [simp]: "n < 2 ^ 64 \<Longrightarrow> wrap64 n = n"
  by (simp add: wrap64_def)

lemma wrap64_less: "wrap64 n < 2 ^ 64"
  by (simp add: wrap64_def)

lemma as_u32_id [simp]: "n < 2 ^ 32 \<Longrightarrow> as_u32 n = n"
  by (simp add: as_u32_def)

lemma as_u32_less: "as_u32 n < 2 ^ 32"
  by (simp add: as_u32_def)

lemma checked_add64_Some [simp]:
  "checked_add64 a b = Some c \<longleftrightarrow> c = a + b \<and> a + b < 2 ^ 64"
  by (auto simp: checked_add64_def)

section \<open>Results\<close>

text \<open>The \<^verbatim>\<open>?\<close> operator: an error ends the computation.\<close>

definition rbind :: "'e + 'a \<Rightarrow> ('a \<Rightarrow> 'e + 'b) \<Rightarrow> 'e + 'b" where
  "rbind m f = (case m of Inl e \<Rightarrow> Inl e | Inr x \<Rightarrow> f x)"

lemma rbind_simps [simp]:
  "rbind (Inl e) f = Inl e"
  "rbind (Inr x) f = f x"
  by (simp_all add: rbind_def)

lemma rbind_eq_Inr: "rbind m f = Inr y \<longleftrightarrow> (\<exists>x. m = Inr x \<and> f x = Inr y)"
  by (cases m) simp_all

lemma rbind_eq_Inl: "rbind m f = Inl e \<longleftrightarrow> m = Inl e \<or> (\<exists>x. m = Inr x \<and> f x = Inl e)"
  by (cases m) simp_all

lemma rbind_cong [fundef_cong]:
  "m = m' \<Longrightarrow> (\<And>x. m' = Inr x \<Longrightarrow> f x = g x) \<Longrightarrow> rbind m f = rbind m' g"
  by (cases m') simp_all

lemma if_Inl_eq_Inr [simp]: "((if b then Inl e else x) = Inr y) \<longleftrightarrow> (\<not> b \<and> x = Inr y)"
  by simp

text \<open>\<^verbatim>\<open>Result::ok_or\<close>/snafu's \<^verbatim>\<open>context\<close> on an option.\<close>

definition ok_or :: "'a option \<Rightarrow> 'e \<Rightarrow> 'e + 'a" where
  "ok_or x e = (case x of None \<Rightarrow> Inl e | Some v \<Rightarrow> Inr v)"

lemma ok_or_simps [simp]:
  "ok_or None e = Inl e"
  "ok_or (Some v) e = Inr v"
  by (simp_all add: ok_or_def)

lemma ok_or_eq_Inr [simp]: "ok_or x e = Inr v \<longleftrightarrow> x = Some v"
  by (cases x) simp_all

definition is_ok :: "'e + 'a \<Rightarrow> bool" where
  "is_ok r = (case r of Inl _ \<Rightarrow> False | Inr _ \<Rightarrow> True)"

lemma is_ok_simps [simp]:
  "\<not> is_ok (Inl e)"
  "is_ok (Inr x)"
  by (simp_all add: is_ok_def)

lemma is_ok_iff: "is_ok r \<longleftrightarrow> (\<exists>x. r = Inr x)"
  by (cases r) simp_all

section \<open>Formatting and parsing of numbers\<close>

definition digit_char :: "nat \<Rightarrow> char" where
  "digit_char d = (if d < 10 then char_of (48 + d) else char_of (55 + d))"

text \<open>The digits of a number in a radix, most significant first, upper case.\<close>

fun fmt_radix :: "nat \<Rightarrow> nat \<Rightarrow> string" where
  "fmt_radix r n =
     (if r < 2 \<or> n < r then [digit_char n]
      else fmt_radix r (n div r) @ [digit_char (n mod r)])"

declare fmt_radix.simps [simp del]

text \<open>Padding on the left with \<open>0\<close> to a minimal width.\<close>

definition pad0 :: "nat \<Rightarrow> string \<Rightarrow> string" where
  "pad0 w s = replicate (w - length s) CHR ''0'' @ s"

definition dec8 :: "nat \<Rightarrow> string" where
  "dec8 n = pad0 8 (fmt_radix 10 n)"

definition hex8 :: "nat \<Rightarrow> string" where
  "hex8 n = pad0 8 (fmt_radix 16 n)"

text \<open>\<^verbatim>\<open>char::to_digit(16)\<close>: both letter cases are digits.\<close>

definition hex_digit :: "char \<Rightarrow> nat option" where
  "hex_digit c =
     (let k = (of_char c :: nat) in
      if 48 \<le> k \<and> k < 58 then Some (k - 48)
      else if 65 \<le> k \<and> k < 71 then Some (k - 55)
      else if 97 \<le> k \<and> k < 103 then Some (k - 87)
      else None)"

fun hex_value :: "nat \<Rightarrow> string \<Rightarrow> nat option" where
  "hex_value acc [] = Some acc"
| "hex_value acc (c # cs) =
     (case hex_digit c of
        None \<Rightarrow> None
      | Some d \<Rightarrow> (if 16 * acc + d < 2 ^ 64 then hex_value (16 * acc + d) cs else None))"

text \<open>
  \<^verbatim>\<open>u64::from_str_radix(s, 16)\<close>: an optional leading \<open>+\<close>, at least one digit, no overflow.
\<close>

definition u64_from_hex :: "string \<Rightarrow> nat option" where
  "u64_from_hex s =
     (let t = (case s of c # cs \<Rightarrow> if c = CHR ''+'' then cs else s | [] \<Rightarrow> s)
      in if t = [] then None else hex_value 0 t)"

text \<open>\<^verbatim>\<open>str::split(c)\<close>: the pieces between the separators, empty ones included.\<close>

fun split_on :: "char \<Rightarrow> string \<Rightarrow> string list" where
  "split_on c [] = [[]]"
| "split_on c (x # xs) =
     (if x = c then [] # split_on c xs
      else (case split_on c xs of [] \<Rightarrow> [[x]] | p # ps \<Rightarrow> (x # p) # ps))"

text \<open>\<^verbatim>\<open>str::strip_prefix\<close>.\<close>

definition strip_prefix :: "string \<Rightarrow> string \<Rightarrow> string option" where
  "strip_prefix p s = (if take (length p) s = p then Some (drop (length p) s) else None)"


subsection \<open>Numbers read back what was printed\<close>

definition digits_value :: "nat \<Rightarrow> string \<Rightarrow> nat" where
  "digits_value r s = foldl (\<lambda>a c. r * a + the (hex_digit c)) 0 s"

definition is_dig :: "nat \<Rightarrow> char \<Rightarrow> bool" where
  "is_dig r c = (\<exists>d<r. c = digit_char d)"

lemma hex_digit_digit_char [simp]: "d < 16 \<Longrightarrow> hex_digit (digit_char d) = Some d"
proof -
  assume "d < 16"
  then have k: "(of_char (char_of k :: char) :: nat) = k" if "k < 72" for k
    using that by simp
  show ?thesis
    using \<open>d < 16\<close> k [of "48 + d"] k [of "55 + d"]
    by (cases "d < 10") (simp_all add: hex_digit_def digit_char_def Let_def del: of_char_of)
qed

lemma is_dig_digit_char [simp]: "d < r \<Longrightarrow> is_dig r (digit_char d)"
  by (auto simp: is_dig_def)

lemma fmt_radix_base: "r < 2 \<or> n < r \<Longrightarrow> fmt_radix r n = [digit_char n]"
  by (simp add: fmt_radix.simps [of r n])

lemma fmt_radix_step:
  "2 \<le> r \<Longrightarrow> r \<le> n \<Longrightarrow> fmt_radix r n = fmt_radix r (n div r) @ [digit_char (n mod r)]"
  by (simp add: fmt_radix.simps [of r n])

lemma radix_induct [consumes 1, case_names base step]:
  assumes "2 \<le> r"
    and "\<And>n. n < r \<Longrightarrow> P n"
    and "\<And>n. r \<le> n \<Longrightarrow> P (n div r) \<Longrightarrow> P n"
  shows "P (n :: nat)"
proof (induction n rule: less_induct)
  case (less n)
  show ?case
  proof (cases "n < r")
    case False
    then have "n div r < n" using assms(1) by simp
    then show ?thesis using less assms(3) False by simp
  qed (rule assms(2))
qed

lemma fmt_radix_dig:
  assumes r: "2 \<le> r"
  shows "c \<in> set (fmt_radix r n) \<Longrightarrow> is_dig r c"
  using r
proof (induction n rule: radix_induct)
  case (step n)
  then show ?case using r by (auto simp: fmt_radix_step)
qed (use r in \<open>auto simp: fmt_radix_base\<close>)

lemma fmt_radix_not_Nil [simp]: "fmt_radix r n \<noteq> []"
  by (cases "r < 2 \<or> n < r") (auto simp: fmt_radix_base fmt_radix_step)

lemma digits_value_fmt_radix [simp]:
  assumes r: "2 \<le> r" "r \<le> 16"
  shows "digits_value r (fmt_radix r n) = n"
  using r(1)
proof (induction n rule: radix_induct)
  case (step n)
  moreover have "n mod r < 16" using r mod_less_divisor [of r n] by linarith
  ultimately show ?case using r by (simp add: fmt_radix_step digits_value_def)
qed (use r in \<open>simp add: fmt_radix_base digits_value_def\<close>)

lemma foldl_zero_digits:
  "foldl (\<lambda>a c. r * a + the (hex_digit c)) 0 (replicate k CHR ''0'') = 0"
  by (induction k) (auto simp: hex_digit_def)

lemma digits_value_pad0 [simp]: "digits_value r (pad0 w s) = digits_value r s"
  by (simp add: digits_value_def pad0_def foldl_zero_digits)

lemma zero_char: "CHR ''0'' = digit_char 0"
  by code_simp

lemma pad0_dig:
  "0 < r \<Longrightarrow> (\<And>c. c \<in> set s \<Longrightarrow> is_dig r c) \<Longrightarrow> c \<in> set (pad0 w s) \<Longrightarrow> is_dig r c"
  by (auto simp: pad0_def zero_char)

lemma dec8_dig: "c \<in> set (dec8 n) \<Longrightarrow> is_dig 10 c"
  unfolding dec8_def by (rule pad0_dig) (auto intro: fmt_radix_dig [of 10])

lemma hex8_dig: "c \<in> set (hex8 n) \<Longrightarrow> is_dig 16 c"
  unfolding hex8_def by (rule pad0_dig) (auto intro: fmt_radix_dig [of 16])

lemma is_dig_code:
  "r \<le> 10 \<Longrightarrow> is_dig r c \<longleftrightarrow> 48 \<le> (of_char c :: nat) \<and> of_char c < 48 + r"
proof
  assume "r \<le> 10" and c: "48 \<le> (of_char c :: nat) \<and> of_char c < 48 + r"
  then have "c = digit_char (of_char c - 48)" "of_char c - 48 < r"
    by (auto simp: digit_char_def)
  then show "is_dig r c" using is_dig_def by blast
qed (auto simp: is_dig_def digit_char_def)

lemma not_dig10 [simp]:
  "\<not> is_dig 10 CHR ''I''" "\<not> is_dig 10 CHR ''X''" "\<not> is_dig 10 CHR ''D''"
  "\<not> is_dig 10 CHR ''P''" "\<not> is_dig 10 CHR ''S''" "\<not> is_dig 10 CHR ''C''"
  by (simp_all add: is_dig_code)

lemma digit_char_neq_sep: "d < 16 \<Longrightarrow> digit_char d \<noteq> CHR ''_'' \<and> digit_char d \<noteq> CHR ''+''"
proof -
  assume "d < 16"
  then have "hex_digit (digit_char d) = Some d" by simp
  moreover have "hex_digit CHR ''_'' = None" "hex_digit CHR ''+'' = None"
    by (simp_all add: hex_digit_def)
  ultimately show ?thesis by auto
qed

lemma not_dig16_sep [simp]: "\<not> is_dig 16 CHR ''_''" "\<not> is_dig 16 CHR ''+''"
  using digit_char_neq_sep by (force simp: is_dig_def)+

lemma dec8_value: "digits_value 10 (dec8 n) = n"
  by (simp add: dec8_def)

lemma inject_inverse: "(\<And>x. g (f x) = x) \<Longrightarrow> f m = f n \<longleftrightarrow> m = n"
  by metis

lemma dec8_inject [simp, key_simps]: "dec8 m = dec8 n \<longleftrightarrow> m = n"
  by (rule inject_inverse [of "digits_value 10"]) (rule dec8_value)

lemma fmt10_inject [simp, key_simps]: "fmt_radix 10 m = fmt_radix 10 n \<longleftrightarrow> m = n"
  by (rule inject_inverse [of "digits_value 10"]) simp

text \<open>A run of digits followed by a character that is not one determines the number.\<close>

lemma digits_sep:
  assumes "\<And>c. c \<in> set xs \<Longrightarrow> P c" "\<And>c. c \<in> set ys \<Longrightarrow> P c" "\<not> P x" "\<not> P y"
    and "xs @ x # s = ys @ y # t"
  shows "xs = ys \<and> x = y \<and> s = t"
proof -
  have "takeWhile P (xs @ x # s) = xs" "takeWhile P (ys @ y # t) = ys"
    using assms(1-4) by (simp_all add: takeWhile_tail)
  then show ?thesis using assms(5) by auto
qed


section \<open>Fixed-width little-endian integers\<close>

fun le_bytes :: "nat \<Rightarrow> nat \<Rightarrow> bytes" where
  "le_bytes 0 n = []"
| "le_bytes (Suc k) n = char_of n # le_bytes k (n div 256)"

fun le_value :: "bytes \<Rightarrow> nat" where
  "le_value [] = 0"
| "le_value (c # cs) = of_char c + 256 * le_value cs"

lemma length_le_bytes [simp]: "length (le_bytes k n) = k"
  by (induction k arbitrary: n) simp_all

lemma le_value_le_bytes [simp]: "n < 256 ^ k \<Longrightarrow> le_value (le_bytes k n) = n"
proof (induction k arbitrary: n)
  case (Suc k)
  have "n div 256 < 256 ^ k" using Suc.prems by (simp add: less_mult_imp_div_less mult.commute)
  then show ?case using Suc.IH by simp
qed simp

end
