(* ===== verification/Kiseki_Types.thy ===== *)
theory Kiseki_Types
  imports Kiseki_Prelude
begin

text \<open>
  The data every component shares: the constants of \<^verbatim>\<open>components/common\<close>, the alignment
  helpers of \<^verbatim>\<open>components/utils\<close>, and inodes, attributes, entries, internal nodes and the
  volume format of \<^verbatim>\<open>components/types\<close>. Clock readings are arguments (\<open>now\<close>).
\<close>

section \<open>Constants (\<^verbatim>\<open>common/src/lib.rs\<close>)\<close>

definition MAX_NAME_LENGTH :: nat where "MAX_NAME_LENGTH = 255"
definition DOT :: string where "DOT = ''.''"
definition DOT_DOT :: string where "DOT_DOT = ''..''"
definition MODE_MASK_R :: u8 where "MODE_MASK_R = 4"
definition MODE_MASK_W :: u8 where "MODE_MASK_W = 2"
definition MODE_MASK_X :: u8 where "MODE_MASK_X = 1"
definition PAGE_SIZE :: nat where "PAGE_SIZE = 131072"
definition BLOCK_SIZE :: nat where "BLOCK_SIZE = 4194304"
definition MIN_BLOCK_SIZE :: nat where "MIN_BLOCK_SIZE = PAGE_SIZE"
definition MAX_BLOCK_SIZE :: nat where "MAX_BLOCK_SIZE = 16777216"
definition CHUNK_SIZE :: nat where "CHUNK_SIZE = 67108864"
definition MAX_FILE_SIZE :: nat where "MAX_FILE_SIZE = CHUNK_SIZE * 2 ^ 31"
definition MAX_SYMLINK_LEN :: nat where "MAX_SYMLINK_LEN = 4096"

definition cal_chunk_idx :: "nat \<Rightarrow> nat \<Rightarrow> nat" where
  "cal_chunk_idx offset chunk_size = offset div chunk_size"

definition cal_chunk_offset :: "nat \<Rightarrow> nat \<Rightarrow> nat" where
  "cal_chunk_offset offset chunk_size = offset mod chunk_size"

lemma chunk_split: "cal_chunk_idx p c * c + cal_chunk_offset p c = p"
  by (simp add: cal_chunk_idx_def cal_chunk_offset_def)

section \<open>Alignment (\<^verbatim>\<open>utils/src/align.rs\<close>)\<close>

definition align4k :: "64 word \<Rightarrow> int" where
  "align4k len =
     (if len = 0 then 2 ^ 12
      else (let blocks_needed = (len - 1) div 4096 + 1 in sint (blocks_needed * 4096)))"

text \<open>The \<^verbatim>\<open>while s > 1\<close> loop of \<^verbatim>\<open>align_to_block\<close>: the remaining \<^verbatim>\<open>s\<close> and the shift count.\<close>

fun align_loop :: "nat \<Rightarrow> nat \<Rightarrow> nat \<times> nat" where
  "align_loop s bits = (if s > 1 then align_loop (s div 2) (bits + 1) else (s, bits))"

declare align_loop.simps [simp del]

definition align_to_block :: "nat \<Rightarrow> nat" where
  "align_to_block s0 =
     (case align_loop s0 0 of (s, bits) \<Rightarrow>
        let adjusted_size = s * 2 ^ bits in
        if adjusted_size < MIN_BLOCK_SIZE then MIN_BLOCK_SIZE
        else if adjusted_size > MAX_BLOCK_SIZE then MAX_BLOCK_SIZE
        else adjusted_size)"

section \<open>Inodes (\<^verbatim>\<open>types/src/ino.rs\<close>)\<close>

definition ZERO_INO :: ino where "ZERO_INO = 0"
definition ROOT_INO :: ino where "ROOT_INO = 1"
definition MIN_INTERNAL_INODE :: ino where "MIN_INTERNAL_INODE = 0x7FFFFFFF00000000"
definition LOG_INODE :: ino where "LOG_INODE = 0x7FFFFFFF00000001"
definition CONTROL_INODE :: ino where "CONTROL_INODE = 0x7FFFFFFF00000002"
definition STATS_INODE :: ino where "STATS_INODE = 0x7FFFFFFF00000003"
definition CONFIG_INODE :: ino where "CONFIG_INODE = 0x7FFFFFFF00000004"

definition ino_is_special :: "ino \<Rightarrow> bool" where
  "ino_is_special i = (i \<ge> MIN_INTERNAL_INODE)"

definition ino_is_normal :: "ino \<Rightarrow> bool" where
  "ino_is_normal i = (\<not> ino_is_special i)"

definition ino_is_zero :: "ino \<Rightarrow> bool" where
  "ino_is_zero i = (i = 0)"

definition ino_is_root :: "ino \<Rightarrow> bool" where
  "ino_is_root i = (i = ROOT_INO)"

text \<open>\<^verbatim>\<open>generate_key\<close> appends to a buffer that already holds ten zero bytes.\<close>

definition generate_key :: "ino \<Rightarrow> bytes" where
  "generate_key i = replicate 10 (char_of (0::nat)) @ ''A'' @ le_bytes 8 i @ ''I''"

section \<open>Attributes (\<^verbatim>\<open>types/src/attr.rs\<close>)\<close>

datatype file_type =
  NamedPipe | CharDevice | BlockDevice | Directory | RegularFile | Symlink | Socket

text \<open>The bits of \<^verbatim>\<open>SetAttrFlags\<close> and \<^verbatim>\<open>Flags\<close>; \<^verbatim>\<open>contains\<close> asks for every bit.\<close>

definition SAF_MODE :: u32 where "SAF_MODE = 1"
definition SAF_UID :: u32 where "SAF_UID = 2"
definition SAF_GID :: u32 where "SAF_GID = 4"
definition SAF_SIZE :: u32 where "SAF_SIZE = 8"
definition SAF_ATIME :: u32 where "SAF_ATIME = 16"
definition SAF_MTIME :: u32 where "SAF_MTIME = 32"
definition SAF_CTIME :: u32 where "SAF_CTIME = 64"
definition SAF_ATIME_NOW :: u32 where "SAF_ATIME_NOW = 128"
definition SAF_MTIME_NOW :: u32 where "SAF_MTIME_NOW = 256"
definition SAF_FLAG :: u32 where "SAF_FLAG = 32768"
definition FLAG_IMMUTABLE :: u8 where "FLAG_IMMUTABLE = 1"
definition FLAG_APPEND :: u8 where "FLAG_APPEND = 2"

definition flags_contains :: "'a::len word \<Rightarrow> 'a word \<Rightarrow> bool" where
  "flags_contains fs f = (fs AND f = f)"

record inode_attr =
  a_flags :: u32
  a_kind :: file_type
  a_mode :: u32
  a_uid :: u32
  a_gid :: u32
  a_rdev :: u32
  a_atime :: systime
  a_mtime :: systime
  a_ctime :: systime
  a_crtime :: systime
  a_nlink :: u32
  a_length :: nat
  a_parent :: ino
  a_keep_cache :: bool

definition UNIX_EPOCH :: systime where "UNIX_EPOCH = 0"

definition hard_code_inode_attr :: "bool \<Rightarrow> inode_attr" where
  "hard_code_inode_attr is_trash =
     \<lparr> a_flags = 0, a_kind = Directory, a_mode = (if is_trash then 0x16d else 0x1ff),
       a_uid = 0, a_gid = 0, a_rdev = 0,
       a_atime = UNIX_EPOCH, a_mtime = UNIX_EPOCH, a_ctime = UNIX_EPOCH, a_crtime = UNIX_EPOCH,
       a_nlink = 2, a_length = 4096, a_parent = ROOT_INO, a_keep_cache = False \<rparr>"

definition attr_empty :: inode_attr where
  "attr_empty =
     \<lparr> a_flags = 0, a_kind = Directory, a_mode = 0, a_uid = 0, a_gid = 0, a_rdev = 0,
       a_atime = UNIX_EPOCH, a_mtime = UNIX_EPOCH, a_ctime = UNIX_EPOCH, a_crtime = UNIX_EPOCH,
       a_nlink = 0, a_length = 0, a_parent = ROOT_INO, a_keep_cache = False \<rparr>"

definition attr_default :: "systime \<Rightarrow> inode_attr" where
  "attr_default now =
     \<lparr> a_flags = 0, a_kind = RegularFile, a_mode = 0, a_uid = 0, a_gid = 0, a_rdev = 0,
       a_atime = now, a_mtime = now, a_ctime = now, a_crtime = now,
       a_nlink = 1, a_length = 0, a_parent = 0, a_keep_cache = False \<rparr>"

definition update_modification_time_with :: "systime \<Rightarrow> inode_attr \<Rightarrow> inode_attr" where
  "update_modification_time_with t a = a\<lparr>a_mtime := t, a_ctime := t\<rparr>"

text \<open>The two clock readings of \<^verbatim>\<open>update_modification_time\<close> are separate arguments.\<close>

definition update_modification_time :: "systime \<Rightarrow> systime \<Rightarrow> inode_attr \<Rightarrow> inode_attr" where
  "update_modification_time now1 now2 a = a\<lparr>a_mtime := now1, a_ctime := now2\<rparr>"

definition update_length :: "nat \<Rightarrow> systime \<Rightarrow> systime \<Rightarrow> inode_attr \<Rightarrow> inode_attr" where
  "update_length len now1 now2 a = update_modification_time now1 now2 (a\<lparr>a_length := len\<rparr>)"

definition update_modification_time_if ::
  "systime \<Rightarrow> duration \<Rightarrow> inode_attr \<Rightarrow> bool \<times> inode_attr" where
  "update_modification_time_if now skip a =
     (if (case duration_since now (a_mtime a) of None \<Rightarrow> 0 | Some d \<Rightarrow> d) > skip
      then (True, a\<lparr>a_mtime := now, a_ctime := now\<rparr>)
      else (False, a))"

definition access_mode :: "inode_attr \<Rightarrow> u32 \<Rightarrow> u32 list \<Rightarrow> u8" where
  "access_mode a uid gids =
     (if uid = 0 then 7
      else if uid = a_uid a then ucast (drop_bit 6 (a_mode a)) AND 7
      else if a_gid a \<in> set gids then ucast (drop_bit 3 (a_mode a)) AND 7
      else ucast (a_mode a AND 7))"

definition attr_is_dir :: "inode_attr \<Rightarrow> bool" where
  "attr_is_dir a = (a_kind a = Directory)"

definition attr_is_file :: "inode_attr \<Rightarrow> bool" where
  "attr_is_file a = (a_kind a = RegularFile)"

definition attr_is_immutable :: "inode_attr \<Rightarrow> bool" where
  "attr_is_immutable a = flags_contains (ucast (a_flags a) AND 3) FLAG_IMMUTABLE"

definition attr_is_append_only :: "inode_attr \<Rightarrow> bool" where
  "attr_is_append_only a = flags_contains (ucast (a_flags a) AND 3) FLAG_APPEND"

definition attr_is_normal :: "inode_attr \<Rightarrow> bool" where
  "attr_is_normal a =
     (let flag = ucast (a_flags a) AND 3
      in \<not> (flags_contains flag FLAG_IMMUTABLE \<or> flags_contains flag FLAG_APPEND))"

primrec get_mode_t_from_filetype :: "file_type \<Rightarrow> u32" where
  "get_mode_t_from_filetype Directory = 0x4000"
| "get_mode_t_from_filetype RegularFile = 0x8000"
| "get_mode_t_from_filetype Symlink = 0xa000"
| "get_mode_t_from_filetype BlockDevice = 0x6000"
| "get_mode_t_from_filetype CharDevice = 0x2000"
| "get_mode_t_from_filetype NamedPipe = 0x1000"
| "get_mode_t_from_filetype Socket = 0xc000"

definition make_smode :: "file_type \<Rightarrow> u32 \<Rightarrow> 16 word" where
  "make_smode kind perm = ucast (get_mode_t_from_filetype kind OR perm)"

record file_attr =
  fa_ino :: nat
  fa_size :: nat
  fa_blocks :: nat
  fa_atime :: systime
  fa_mtime :: systime
  fa_ctime :: systime
  fa_crtime :: systime
  fa_kind :: file_type
  fa_perm :: "16 word"
  fa_nlink :: u32
  fa_uid :: u32
  fa_gid :: u32
  fa_rdev :: u32
  fa_blksize :: u32
  fa_flags :: u32

definition to_fuse_attr :: "inode_attr \<Rightarrow> nat \<Rightarrow> file_attr" where
  "to_fuse_attr a inode =
     (let fa = \<lparr> fa_ino = inode, fa_size = 0, fa_blocks = 0, fa_atime = a_atime a,
                 fa_mtime = a_mtime a, fa_ctime = a_ctime a, fa_crtime = a_crtime a,
                 fa_kind = a_kind a, fa_perm = make_smode (a_kind a) (a_mode a),
                 fa_nlink = a_nlink a, fa_uid = a_uid a, fa_gid = a_gid a,
                 fa_rdev = a_rdev a, fa_blksize = 0x10000, fa_flags = a_flags a \<rparr>
      in (case fa_kind fa of
            Directory \<Rightarrow> fa\<lparr>fa_size := a_length a, fa_blocks := (a_length a + 511) div 512\<rparr>
          | Symlink \<Rightarrow> fa\<lparr>fa_size := a_length a, fa_blocks := (a_length a + 511) div 512\<rparr>
          | RegularFile \<Rightarrow> fa\<lparr>fa_size := a_length a, fa_blocks := (a_length a + 511) div 512\<rparr>
          | BlockDevice \<Rightarrow> fa\<lparr>fa_rdev := a_rdev a\<rparr>
          | CharDevice \<Rightarrow> fa\<lparr>fa_rdev := a_rdev a\<rparr>
          | _ \<Rightarrow> fa))"


section \<open>Entries (\<^verbatim>\<open>types/src/entry.rs\<close>)\<close>

record full_entry =
  fe_inode :: ino
  fe_name :: string
  fe_attr :: inode_attr

record dentry =
  de_parent :: ino
  de_name :: string
  de_inode :: ino
  de_typ :: file_type

datatype entry = Full full_entry | DEntry dentry

definition new_basic_entry_pair :: "ino \<Rightarrow> ino \<Rightarrow> entry list" where
  "new_basic_entry_pair ino parent =
     [DEntry \<lparr> de_parent = ZERO_INO, de_name = DOT, de_inode = ino, de_typ = Directory \<rparr>,
      DEntry \<lparr> de_parent = ZERO_INO, de_name = DOT_DOT, de_inode = parent, de_typ = Directory \<rparr>]"

primrec entry_get_inode :: "entry \<Rightarrow> ino" where
  "entry_get_inode (Full e) = fe_inode e"
| "entry_get_inode (DEntry e) = de_inode e"

primrec entry_get_file_type :: "entry \<Rightarrow> file_type" where
  "entry_get_file_type (Full e) = a_kind (fe_attr e)"
| "entry_get_file_type (DEntry e) = de_typ e"

primrec entry_get_name :: "entry \<Rightarrow> string" where
  "entry_get_name (Full e) = fe_name e"
| "entry_get_name (DEntry e) = de_name e"

definition entry_is_file :: "entry \<Rightarrow> bool" where
  "entry_is_file e = (entry_get_file_type e = RegularFile)"

section \<open>Internal nodes (\<^verbatim>\<open>types/src/internal_nodes.rs\<close>)\<close>

text \<open>
  The table is a hash map from names; an association list with one entry per name models it.
  \<open>now\<close> is one clock reading per default attribute.
\<close>

type_synonym internal_node_table = "(string \<times> full_entry) list"

definition internal_node :: "ino \<Rightarrow> string \<Rightarrow> u32 \<Rightarrow> systime \<Rightarrow> full_entry" where
  "internal_node i nm mode now =
     \<lparr> fe_inode = i, fe_name = nm, fe_attr = (attr_default now)\<lparr>a_mode := mode\<rparr> \<rparr>"

definition internal_table_new :: "(nat \<Rightarrow> systime) \<Rightarrow> internal_node_table" where
  "internal_table_new now =
     [(''.accesslog'', internal_node LOG_INODE ''.accesslog'' 0x100 (now 1)),
      (''.control'', internal_node CONTROL_INODE ''.control'' 0x1b6 (now 0)),
      (''.stats'', internal_node STATS_INODE ''.stats'' 0x100 (now 2)),
      (''.config'', internal_node CONFIG_INODE ''.config'' 0x100 (now 3))]"

definition get_internal_node_by_name :: "internal_node_table \<Rightarrow> string \<Rightarrow> full_entry option" where
  "get_internal_node_by_name t nm = map_of t nm"

definition get_internal_node :: "internal_node_table \<Rightarrow> ino \<Rightarrow> full_entry option" where
  "get_internal_node t i = List.find (\<lambda>n. fe_inode n = i) (map snd t)"

definition internal_add_prefix :: "internal_node_table \<Rightarrow> internal_node_table" where
  "internal_add_prefix t = map (\<lambda>(k, n). (k, n\<lparr>fe_name := ''.kfs'' @ fe_name n\<rparr>)) t"

definition internal_contains_name :: "internal_node_table \<Rightarrow> string \<Rightarrow> bool" where
  "internal_contains_name t nm = (nm \<in> fst ` set t)"

section \<open>Volume format (\<^verbatim>\<open>types/src/setting.rs\<close>)\<close>

datatype format_layout_field = ChunkSize | BlockSize | PageSize

record format_layout_mismatch =
  flm_field :: format_layout_field
  flm_stored :: nat
  flm_requested :: nat

record format =
  f_name :: string
  f_chunk_size :: nat
  f_block_size :: nat
  f_page_size :: nat
  f_max_capacity :: "nat option"
  f_max_inodes :: "nat option"

definition format_default :: format where
  "format_default =
     \<lparr> f_name = ''kiseki'', f_chunk_size = CHUNK_SIZE, f_block_size = BLOCK_SIZE,
       f_page_size = PAGE_SIZE, f_max_capacity = None, f_max_inodes = None \<rparr>"

fun find_map :: "('a \<Rightarrow> 'b option) \<Rightarrow> 'a list \<Rightarrow> 'b option" where
  "find_map f [] = None"
| "find_map f (x # xs) = (case f x of None \<Rightarrow> find_map f xs | Some y \<Rightarrow> Some y)"

definition layout_mismatch :: "format \<Rightarrow> format \<Rightarrow> format_layout_mismatch option" where
  "layout_mismatch self requested =
     find_map (\<lambda>(field, stored, req).
         if stored \<noteq> req
         then Some \<lparr> flm_field = field, flm_stored = stored, flm_requested = req \<rparr> else None)
       [(ChunkSize, f_chunk_size self, f_chunk_size requested),
        (BlockSize, f_block_size self, f_block_size requested),
        (PageSize, f_page_size self, f_page_size requested)]"

definition merge_mutable_from :: "format \<Rightarrow> format \<Rightarrow> format" where
  "merge_mutable_from self requested =
     self\<lparr>f_name := f_name requested, f_max_capacity := f_max_capacity requested,
          f_max_inodes := f_max_inodes requested\<rparr>"

section \<open>Statistics (\<^verbatim>\<open>types/src/stat.rs\<close>)\<close>

record dir_stat =
  ds_length :: int
  ds_space :: int
  ds_inodes :: int

record fs_stat =
  fss_total_size :: nat
  fss_used_size :: nat
  fss_file_count :: nat

definition fs_stat_default :: fs_stat where
  "fs_stat_default = \<lparr> fss_total_size = u64_max, fss_used_size = 0, fss_file_count = 0 \<rparr>"

section \<open>Facts\<close>

lemma align_loop_power:
  "0 < s \<Longrightarrow> \<exists>k. align_loop s bits = (1, bits + k) \<and> 2 ^ k \<le> s \<and> s < 2 ^ (k + 1)"
proof (induction s bits rule: align_loop.induct)
  case (1 s bits)
  show ?case
  proof (cases "s > 1")
    case True
    then have "0 < s div 2" by simp
    with 1(1) [OF True] obtain k
      where k: "align_loop (s div 2) (bits + 1) = (1, bits + 1 + k)"
        "2 ^ k \<le> s div 2" "s div 2 < 2 ^ (k + 1)" by auto
    have "2 ^ Suc k \<le> s" "s < 2 ^ Suc (Suc k)" using k(2,3) by simp_all
    then show ?thesis
      using k(1) True by (intro exI [of _ "Suc k"]) (simp add: align_loop.simps [of s bits])
  next
    case False
    then show ?thesis using 1(2) by (intro exI [of _ 0]) (simp add: align_loop.simps [of s bits])
  qed
qed

lemma align_to_block_zero: "align_to_block 0 = MIN_BLOCK_SIZE"
  by (simp add: align_to_block_def align_loop.simps MIN_BLOCK_SIZE_def PAGE_SIZE_def)

lemma access_mode_bits: "access_mode a uid gids \<le> 7"
proof -
  have "x AND 7 \<le> 7" for x :: "8 word" by (rule word_and_le1)
  moreover have "ucast (y AND 7) = (ucast y AND 7 :: 8 word)" for y :: u32
    by (simp add: unsigned_and_eq)
  ultimately show ?thesis by (simp add: access_mode_def)
qed

lemma find_map_None: "find_map f xs = None \<longleftrightarrow> (\<forall>x\<in>set xs. f x = None)"
  by (induction xs) (auto split: option.splits)

lemma merge_mutable_layout [simp]:
  "layout_mismatch self (merge_mutable_from self requested) = None"
  by (simp add: layout_mismatch_def merge_mutable_from_def)

lemma layout_mismatch_None:
  "layout_mismatch s r = None \<longleftrightarrow>
     f_chunk_size s = f_chunk_size r \<and> f_block_size s = f_block_size r
     \<and> f_page_size s = f_page_size r"
  by (simp add: layout_mismatch_def)

end
