(* ===== verification/Meta_Base.thy ===== *)
theory Meta_Base
  imports Kiseki_Types
begin

text \<open>
  The error values of the metadata engine (\<^verbatim>\<open>meta/src/err.rs\<close>) with their mapping to errno,
  and the caller's identity with its permission check (\<^verbatim>\<open>meta/src/context.rs\<close>). Source
  locations and the payload of third-party errors are not kept.
\<close>

section \<open>Errors (\<^verbatim>\<open>meta/src/err.rs\<close>)\<close>

datatype errno =
  EACCES | EBADF | ECANCELED | EEXIST | EFBIG | EINTR | EINVAL | EIO | ENAMETOOLONG | ENOENT
| ENOSPC | ENOTDIR | ENOTEMPTY | ENOTSUP | EPERM | EROFS

datatype model_kind =
  KAttrModel | KDEntryModel | KSymlinkModel | KSettingModel | KCounterModel | KChunkSlicesModel
| KDirStatModel | KHardLinkCountModel | KSustainedModel | KDeleteInodeModel

datatype model_error =
  NotFound model_kind
| Corruption model_kind
| CorruptionString model_kind

text \<open>\<open>Panicked\<close> stands for an \<^verbatim>\<open>expect\<close>, \<^verbatim>\<open>assert\<close> or arithmetic panic.\<close>

datatype meta_error =
  Unknown
| UnsupportedMetaDSN string
| TokioJoinError
| RocksdbError
| ModelError model_error
| UninitializedEngine
| AlreadyInitialized
| IncompatibleFormat format_layout_field nat nat
| InvalidSetting bytes
| LibcError errno
| Panicked

type_synonym 'a mresult = "meta_error + 'a"

primrec model_is_not_found :: "model_error \<Rightarrow> bool" where
  "model_is_not_found (NotFound k) = True"
| "model_is_not_found (Corruption k) = False"
| "model_is_not_found (CorruptionString k) = False"

definition is_not_found :: "meta_error \<Rightarrow> bool" where
  "is_not_found e = (case e of ModelError m \<Rightarrow> model_is_not_found m | _ \<Rightarrow> False)"

text \<open>A panic aborts the process: it has no errno.\<close>

fun to_errno :: "meta_error \<Rightarrow> errno option" where
  "to_errno Unknown = Some EINTR"
| "to_errno (UnsupportedMetaDSN _) = Some EINTR"
| "to_errno TokioJoinError = Some EINTR"
| "to_errno RocksdbError = Some EINTR"
| "to_errno (ModelError m) = Some (if model_is_not_found m then ENOENT else EINTR)"
| "to_errno UninitializedEngine = Some EINTR"
| "to_errno AlreadyInitialized = Some EEXIST"
| "to_errno (IncompatibleFormat _ _ _) = Some EINVAL"
| "to_errno (InvalidSetting _) = Some EINTR"
| "to_errno (LibcError e) = Some e"
| "to_errno Panicked = None"

abbreviation fail_errno :: "errno \<Rightarrow> 'a mresult" where
  "fail_errno e \<equiv> Inl (LibcError e)"

text \<open>snafu's \<^verbatim>\<open>ensure!\<close>.\<close>

definition ensure :: "bool \<Rightarrow> meta_error \<Rightarrow> unit mresult" where
  "ensure b e = (if b then Inr () else Inl e)"

lemma ensure_simps [simp]:
  "ensure True e = Inr ()"
  "ensure False e = Inl e"
  by (simp_all add: ensure_def)

lemma ensure_eq_Inr [simp]: "ensure b e = Inr u \<longleftrightarrow> b"
  by (simp add: ensure_def)

lemma rbind_ensure: "rbind (ensure b e) f = (if b then f () else Inl e)"
  by (simp add: ensure_def)

section \<open>Caller identity (\<^verbatim>\<open>meta/src/context.rs\<close>)\<close>

record fuse_context =
  cx_unique :: nat
  cx_gid :: u32
  cx_gid_list :: "u32 list"
  cx_uid :: u32
  cx_pid :: u32
  cx_check_permission :: bool
  cx_cancelled :: bool

definition from_identity :: "nat \<Rightarrow> u32 \<Rightarrow> u32 \<Rightarrow> u32 \<Rightarrow> fuse_context" where
  "from_identity unique uid gid pid =
     \<lparr> cx_unique = unique, cx_gid = gid, cx_gid_list = [gid], cx_uid = uid, cx_pid = pid,
       cx_check_permission = True, cx_cancelled = False \<rparr>"

definition from_uid_gid_pid :: "u32 \<Rightarrow> u32 \<Rightarrow> u32 \<Rightarrow> fuse_context" where
  "from_uid_gid_pid uid gid pid = from_identity 0 uid gid pid"

definition background :: fuse_context where
  "background =
     \<lparr> cx_unique = 0, cx_gid = 2, cx_gid_list = [2, 3], cx_uid = 1, cx_pid = 10,
       cx_check_permission = True, cx_cancelled = False \<rparr>"

definition check_access :: "fuse_context \<Rightarrow> inode_attr \<Rightarrow> u8 \<Rightarrow> unit mresult" where
  "check_access cx a perm_mask =
     (if cx_uid cx = 0 then Inr ()
      else if \<not> cx_check_permission cx then Inr ()
      else (let mode = access_mode a (cx_uid cx) (cx_gid_list cx)
            in ensure (mode AND perm_mask = perm_mask) (LibcError EACCES)))"

definition contains_gid :: "fuse_context \<Rightarrow> u32 \<Rightarrow> bool" where
  "contains_gid cx gid = (gid \<in> set (cx_gid_list cx))"

lemma check_access_result:
  "check_access cx a m = Inr () \<or> check_access cx a m = Inl (LibcError EACCES)"
  by (simp add: check_access_def ensure_def Let_def)

text \<open>One bit of a mode word after the shift and mask of \<^verbatim>\<open>access_mode\<close>.\<close>

lemma shifted_bit:
  fixes m :: u32
  assumes "k < 3"
  shows "bit (ucast (drop_bit n m) AND 7 :: u8) k \<longleftrightarrow> bit m (n + k)"
proof -
  have "bit (7 :: u8) k" using assms
    by (auto simp: less_Suc_eq numeral_eq_Suc bit_numeral_rec)
  then show ?thesis using assms
    by (auto simp: bit_and_iff bit_ucast_iff bit_drop_bit_eq dest: bit_imp_le_length)
qed

end
