(* ===== verification/Meta_Keys.thy ===== *)
theory Meta_Keys
  imports Meta_Base "HOL-Library.Sublist"
begin

text \<open>
  The keys of the metadata store (\<^verbatim>\<open>meta/src/backend/key.rs\<close>), byte for byte. The facts at
  the end say that two keys are equal only when they have the same kind and arguments, and
  which keys a prefix scan returns; every view of the store rests on them.
\<close>

definition CURRENT_FORMAT :: bytes where "CURRENT_FORMAT = ''current_format''"

datatype counter = UsedSpace | TotalInodes | LegacySessions | NextTrash | NextInode | NextSlice

primrec key_counter :: "counter \<Rightarrow> bytes" where
  "key_counter UsedSpace = ''used_space''"
| "key_counter TotalInodes = ''total_inodes''"
| "key_counter LegacySessions = ''legacy_sessions''"
| "key_counter NextTrash = ''next_trash''"
| "key_counter NextInode = ''next_inode''"
| "key_counter NextSlice = ''next_slice''"

text \<open>\<open>None\<close> is the panic of the counters that have no step.\<close>

fun get_step :: "counter \<Rightarrow> nat option" where
  "get_step NextTrash = Some 1"
| "get_step NextInode = Some (2 ^ 10)"
| "get_step NextSlice = Some (4 * 2 ^ 10)"
| "get_step _ = None"

definition key_attr :: "ino \<Rightarrow> bytes" where
  "key_attr i = ''A'' @ dec8 i @ ''I''"

definition key_xattr :: "ino \<Rightarrow> string \<Rightarrow> bytes" where
  "key_xattr i nm = ''A'' @ dec8 i @ ''X'' @ nm"

definition key_xattr_prefix :: "ino \<Rightarrow> bytes" where
  "key_xattr_prefix i = ''A'' @ dec8 i @ ''X''"

definition key_dentry :: "ino \<Rightarrow> string \<Rightarrow> bytes" where
  "key_dentry parent nm = ''A'' @ dec8 parent @ ''D/'' @ nm"

definition key_dentry_prefix :: "ino \<Rightarrow> bytes" where
  "key_dentry_prefix parent = ''A'' @ dec8 parent @ ''D/''"

definition key_parent :: "ino \<Rightarrow> ino \<Rightarrow> bytes" where
  "key_parent i parent = ''A'' @ dec8 i @ ''P'' @ dec8 parent"

definition key_parent_prefix :: "ino \<Rightarrow> bytes" where
  "key_parent_prefix i = ''A'' @ dec8 i @ ''P''"

definition key_symlink :: "ino \<Rightarrow> bytes" where
  "key_symlink i = ''A'' @ dec8 i @ ''S''"

definition key_sustained :: "nat \<Rightarrow> ino \<Rightarrow> bytes" where
  "key_sustained sid i = ''SS'' @ dec8 sid @ dec8 i"

definition key_delete_chunk_after :: "ino \<Rightarrow> bytes" where
  "key_delete_chunk_after i = ''D'' @ dec8 i"

definition key_chunk_slices :: "ino \<Rightarrow> nat \<Rightarrow> bytes" where
  "key_chunk_slices i chunk_idx = ''A'' @ dec8 i @ ''C/'' @ fmt_radix 10 chunk_idx"

definition key_chunk_slices_prefix :: "ino \<Rightarrow> bytes" where
  "key_chunk_slices_prefix i = ''A'' @ dec8 i @ ''C/''"

definition key_slice_ref :: "nat \<Rightarrow> bytes" where
  "key_slice_ref slice_id = ''K'' @ dec8 slice_id"

definition key_dir_stat :: "ino \<Rightarrow> bytes" where
  "key_dir_stat i = ''U'' @ dec8 i @ ''I''"

section \<open>The keys as a typed space\<close>

datatype db_key =
  KFormat
| KCounter counter
| KAttr ino
| KXattr ino string
| KDentry ino string
| KParent ino ino
| KSymlink ino
| KSustained nat ino
| KDelChunk ino
| KChunk ino nat
| KSliceRef nat
| KDirStat ino

primrec render :: "db_key \<Rightarrow> bytes" where
  "render KFormat = CURRENT_FORMAT"
| "render (KCounter c) = key_counter c"
| "render (KAttr i) = key_attr i"
| "render (KXattr i nm) = key_xattr i nm"
| "render (KDentry p nm) = key_dentry p nm"
| "render (KParent i p) = key_parent i p"
| "render (KSymlink i) = key_symlink i"
| "render (KSustained s i) = key_sustained s i"
| "render (KDelChunk i) = key_delete_chunk_after i"
| "render (KChunk i c) = key_chunk_slices i c"
| "render (KSliceRef s) = key_slice_ref s"
| "render (KDirStat i) = key_dir_stat i"

lemmas key_defs =
  CURRENT_FORMAT_def key_attr_def key_xattr_def key_dentry_def key_parent_def key_symlink_def
  key_sustained_def key_delete_chunk_after_def key_chunk_slices_def key_slice_ref_def
  key_dir_stat_def key_xattr_prefix_def key_dentry_prefix_def key_parent_prefix_def
  key_chunk_slices_prefix_def

text \<open>The session id of a sustained key: zero for every other key.\<close>

primrec key_session :: "db_key \<Rightarrow> nat option" where
  "key_session KFormat = None"
| "key_session (KCounter c) = None"
| "key_session (KAttr i) = None"
| "key_session (KXattr i nm) = None"
| "key_session (KDentry p nm) = None"
| "key_session (KParent i p) = None"
| "key_session (KSymlink i) = None"
| "key_session (KSustained s i) = Some s"
| "key_session (KDelChunk i) = None"
| "key_session (KChunk i c) = None"
| "key_session (KSliceRef s) = None"
| "key_session (KDirStat i) = None"

lemma dec8_tag [key_simps]:
  assumes "\<not> is_dig 10 x" "\<not> is_dig 10 y"
  shows "dec8 i @ x # s = dec8 j @ y # t \<longleftrightarrow> i = j \<and> x = y \<and> s = t"
  using digits_sep [of "dec8 i" "is_dig 10" "dec8 j" x y s t] assms dec8_dig by auto

lemma key_counter_inject: "key_counter c = key_counter d \<longleftrightarrow> c = d"
  by (cases c; cases d) simp_all

lemma key_counter_hd:
  "key_counter c = x # xs \<Longrightarrow> x \<in> {CHR ''u'', CHR ''t'', CHR ''l'', CHR ''n''}"
  by (cases c) auto

lemma key_counter_neq:
  "key_counter c \<noteq> CHR ''A'' # s" "key_counter c \<noteq> CHR ''S'' # s"
  "key_counter c \<noteq> CHR ''D'' # s" "key_counter c \<noteq> CHR ''K'' # s"
  "key_counter c \<noteq> CHR ''U'' # s" "key_counter c \<noteq> CHR ''c'' # s"
  by (auto dest: key_counter_hd)

lemma render_inject_sess:
  assumes "key_session k = key_session k' \<or> key_session k = None \<or> key_session k' = None"
  shows "render k = render k' \<longleftrightarrow> k = k'"
  using assms
  by (cases k; cases k')
    (simp_all add: key_defs dec8_tag key_counter_inject key_counter_neq key_counter_neq [symmetric])

text \<open>Every key function is an instance of \<open>render\<close>, so equality of keys is decided by \<open>simp\<close>.\<close>

lemma key_render:
  "CURRENT_FORMAT = render KFormat"
  "key_counter c = render (KCounter c)"
  "key_attr i = render (KAttr i)"
  "key_xattr i nm = render (KXattr i nm)"
  "key_dentry p nm = render (KDentry p nm)"
  "key_parent i p = render (KParent i p)"
  "key_symlink i = render (KSymlink i)"
  "key_sustained s i = render (KSustained s i)"
  "key_delete_chunk_after i = render (KDelChunk i)"
  "key_chunk_slices i idx = render (KChunk i idx)"
  "key_slice_ref sl = render (KSliceRef sl)"
  "key_dir_stat i = render (KDirStat i)"
  by simp_all

lemma prefix_dec8_tag:
  assumes "\<not> is_dig 10 x" "\<not> is_dig 10 y"
  shows "prefix (dec8 i @ x # s) (dec8 j @ y # t) \<longleftrightarrow> i = j \<and> x = y \<and> prefix s t"
  using assms by (auto simp: prefix_def dec8_tag)


lemma key_counter_Nil [simp]: "key_counter c \<noteq> []"
  by (cases c) simp_all

lemma key_counter_prefix [simp]: "\<not> prefix (CHR ''A'' # s) (key_counter c)"
  by (cases c) simp_all

lemma not_prefix_dec8 [simp]:
  assumes "\<not> is_dig 10 x"
  shows "\<not> prefix (dec8 i @ x # s) (dec8 j)"
proof
  assume "prefix (dec8 i @ x # s) (dec8 j)"
  then have "x \<in> set (dec8 j)" by (auto simp: prefix_def)
  then show False using assms dec8_dig by blast
qed

lemma dentry_prefix_scan:
  "prefix (key_dentry_prefix p) (render k) \<longleftrightarrow> (\<exists>nm. k = KDentry p nm)"
  by (cases k) (auto simp: key_defs prefix_dec8_tag)

lemma chunk_prefix_scan:
  "prefix (key_chunk_slices_prefix i) (render k) \<longleftrightarrow> (\<exists>c. k = KChunk i c)"
  by (cases k) (auto simp: key_defs prefix_dec8_tag)

lemma parent_prefix_scan:
  "prefix (key_parent_prefix i) (render k) \<longleftrightarrow> (\<exists>p. k = KParent i p)"
  by (cases k) (auto simp: key_defs prefix_dec8_tag)

lemma xattr_prefix_scan:
  "prefix (key_xattr_prefix i) (render k) \<longleftrightarrow> (\<exists>nm. k = KXattr i nm)"
  by (cases k) (auto simp: key_defs prefix_dec8_tag)

text \<open>Conversely a key found under the dentry prefix is the key of a name.\<close>

lemma dentry_prefix_key: "prefix (key_dentry_prefix p) k \<longleftrightarrow> (\<exists>nm. k = key_dentry p nm)"
  by (auto simp: key_defs prefix_def)


section \<open>Properties\<close>



text \<open>C38. A scan of the directory-entry prefix of an inode meets exactly the entries of that
  directory, and a scan of its chunk prefix exactly its chunks: no record of another inode,
  even one whose decimal id extends it, is listed or deleted.\<close>

theorem prefix_scans_exact:
  "(prefix (key_dentry_prefix i) (render k) \<longleftrightarrow> (\<exists>nm. k = KDentry i nm)) \<and>
   (prefix (key_chunk_slices_prefix i) (render k) \<longleftrightarrow> (\<exists>c. k = KChunk i c)) \<and>
   (prefix (key_parent_prefix i) (render k) \<longleftrightarrow> (\<exists>p. k = KParent i p))"
  by (simp add: dentry_prefix_scan chunk_prefix_scan parent_prefix_scan)


end
