(* ===== verification/Range_Maps.thy ===== *)
theory Range_Maps
  imports Kiseki_Prelude
begin

text \<open>
  The \<^verbatim>\<open>rangemap::RangeMap\<close> of the third-party crate the reader and \<^verbatim>\<open>Slices::overlook\<close>
  rely on. Its operations are a record every client takes as an argument, its documented
  behaviour is the locale \<open>range_map\<close>: insertion overwrites the part of the map it overlaps,
  iteration is in key order over disjoint non-empty ranges, \<^verbatim>\<open>gaps\<close> yields what no stored
  range covers. A list of segments implements the contract. An insertion of an empty
  range panics in the crate, so clients guard it.
\<close>

type_synonym 'v segment = "(nat \<times> nat) \<times> 'v"

record ('rm, 'v) range_map_ops =
  rm_new :: 'rm
  rm_insert :: "nat \<Rightarrow> nat \<Rightarrow> 'v \<Rightarrow> 'rm \<Rightarrow> 'rm"
  rm_get :: "'rm \<Rightarrow> nat \<Rightarrow> 'v option"
  rm_iter :: "'rm \<Rightarrow> 'v segment list"
  rm_overlapping :: "'rm \<Rightarrow> nat \<Rightarrow> nat \<Rightarrow> 'v segment list"
  rm_gaps :: "'rm \<Rightarrow> nat \<Rightarrow> nat \<Rightarrow> (nat \<times> nat) list"

text \<open>Ranges in order, non-empty, disjoint.\<close>

fun ranges_ok :: "nat \<Rightarrow> (nat \<times> nat) list \<Rightarrow> bool" where
  "ranges_ok lo [] = True"
| "ranges_ok lo ((a, b) # rs) = (lo \<le> a \<and> a < b \<and> ranges_ok b rs)"

abbreviation segs_ok :: "'v segment list \<Rightarrow> bool" where
  "segs_ok xs \<equiv> ranges_ok 0 (map fst xs)"

abbreviation in_range :: "nat \<Rightarrow> nat \<times> nat \<Rightarrow> bool" where
  "in_range p r \<equiv> fst r \<le> p \<and> p < snd r"

lemma ranges_ok_mono: "ranges_ok lo rs \<Longrightarrow> lo' \<le> lo \<Longrightarrow> ranges_ok lo' rs"
  by (cases rs) auto

lemma ranges_ok_bounds: "ranges_ok lo rs \<Longrightarrow> r \<in> set rs \<Longrightarrow> lo \<le> fst r \<and> fst r < snd r"
  by (induction lo rs rule: ranges_ok.induct) fastforce+

lemma ranges_ok_append:
  "ranges_ok lo (xs @ ys) \<longleftrightarrow>
     ranges_ok lo xs \<and> ranges_ok (if xs = [] then lo else snd (last xs)) ys"
  by (induction lo xs rule: ranges_ok.induct) auto

lemma ranges_ok_filter: "ranges_ok lo rs \<Longrightarrow> ranges_ok lo (filter P rs)"
  by (induction lo rs rule: ranges_ok.induct) (auto intro: ranges_ok_mono)

lemma find_snoc:
  "List.find P (xs @ [x]) =
     (case List.find P xs of Some y \<Rightarrow> Some y | None \<Rightarrow> if P x then Some x else None)"
  by (induction xs) auto

locale range_map =
  fixes ops :: "('rm, 'v) range_map_ops"
    and valid :: "'rm \<Rightarrow> bool"
  assumes valid_new: "valid (rm_new ops)"
    and valid_insert: "valid m \<Longrightarrow> s < e \<Longrightarrow> valid (rm_insert ops s e v m)"
    and get_new: "rm_get ops (rm_new ops) p = None"
    and get_insert:
      "valid m \<Longrightarrow> s < e \<Longrightarrow>
       rm_get ops (rm_insert ops s e v m) p = (if s \<le> p \<and> p < e then Some v else rm_get ops m p)"
    and iter_ok: "valid m \<Longrightarrow> segs_ok (rm_iter ops m)"
    and iter_get:
      "valid m \<Longrightarrow> rm_get ops m p = Some v \<longleftrightarrow> (\<exists>r. (r, v) \<in> set (rm_iter ops m) \<and> in_range p r)"
    and overlapping_iter:
      "valid m \<Longrightarrow> rm_overlapping ops m s e =
         filter (\<lambda>(r, v). fst r < e \<and> s < snd r) (rm_iter ops m)"
    and gaps_ok: "valid m \<Longrightarrow> s \<le> e \<Longrightarrow> ranges_ok s (rm_gaps ops m s e)"
    and gaps_get:
      "valid m \<Longrightarrow> s \<le> e \<Longrightarrow>
       (\<exists>r \<in> set (rm_gaps ops m s e). in_range p r) \<longleftrightarrow> s \<le> p \<and> p < e \<and> rm_get ops m p = None"
begin

text \<open>Folding insertions: the last covering range wins.\<close>

definition insert_all :: "'v segment list \<Rightarrow> 'rm \<Rightarrow> 'rm" where
  "insert_all segs m = foldl (\<lambda>m ((s, e), v). rm_insert ops s e v m) m segs"

lemma insert_all_simps [simp]:
  "insert_all [] m = m"
  "insert_all (((s, e), v) # segs) m = insert_all segs (rm_insert ops s e v m)"
  by (simp_all add: insert_all_def)

lemma valid_insert_all:
  "valid m \<Longrightarrow> list_all (\<lambda>(r, v). fst r < snd r) segs \<Longrightarrow> valid (insert_all segs m)"
  by (induction segs arbitrary: m) (auto simp: valid_insert)

lemma get_insert_all:
  "valid m \<Longrightarrow> list_all (\<lambda>(r, v). fst r < snd r) segs \<Longrightarrow>
   rm_get ops (insert_all segs m) p =
    (case List.find (\<lambda>(r, v). in_range p r) (rev segs) of
       Some (r, v) \<Rightarrow> Some v | None \<Rightarrow> rm_get ops m p)"
  by (induction segs arbitrary: m)
    (auto simp: valid_insert get_insert find_snoc split: option.splits if_splits)

end

section \<open>An implementation: sorted segments\<close>

definition seg_left :: "nat \<Rightarrow> 'v segment list \<Rightarrow> 'v segment list" where
  "seg_left s xs = concat (map (\<lambda>((a, b), v). if a < min b s then [((a, min b s), v)] else []) xs)"

definition seg_right :: "nat \<Rightarrow> 'v segment list \<Rightarrow> 'v segment list" where
  "seg_right e xs = concat (map (\<lambda>((a, b), v). if max a e < b then [((max a e, b), v)] else []) xs)"

definition seg_insert :: "nat \<Rightarrow> nat \<Rightarrow> 'v \<Rightarrow> 'v segment list \<Rightarrow> 'v segment list" where
  "seg_insert s e v xs = seg_left s xs @ [((s, e), v)] @ seg_right e xs"

definition seg_get :: "'v segment list \<Rightarrow> nat \<Rightarrow> 'v option" where
  "seg_get xs p = map_option snd (List.find (\<lambda>x. in_range p (fst x)) xs)"

fun seg_gaps :: "nat \<Rightarrow> nat \<Rightarrow> (nat \<times> nat) list \<Rightarrow> (nat \<times> nat) list" where
  "seg_gaps c e [] = (if c < e then [(c, e)] else [])"
| "seg_gaps c e ((a, b) # rs) =
     (if b \<le> c then seg_gaps c e rs
      else if e \<le> a then (if c < e then [(c, e)] else [])
      else (if c < a then [(c, a)] else []) @ seg_gaps b e rs)"

definition seg_ops :: "('v segment list, 'v) range_map_ops" where
  "seg_ops = \<lparr>
     rm_new = [], rm_insert = seg_insert, rm_get = seg_get, rm_iter = (\<lambda>xs. xs),
     rm_overlapping = (\<lambda>xs s e. filter (\<lambda>(r, v). fst r < e \<and> s < snd r) xs),
     rm_gaps = (\<lambda>xs s e. seg_gaps s e (map fst xs)) \<rparr>"


lemma seg_get_Some:
  "ranges_ok lo (map fst xs) \<Longrightarrow>
   seg_get xs p = Some v \<longleftrightarrow> (\<exists>r. (r, v) \<in> set xs \<and> in_range p r)"
proof (induction xs arbitrary: lo)
  case (Cons x xs)
  obtain a b w where x: "x = ((a, b), w)" by (metis prod.exhaust)
  have ok: "ranges_ok b (map fst xs)" "a < b" using Cons.prems x by simp_all
  have "\<not> in_range p r" if "(r, v) \<in> set xs" "p < b" for r
    using ranges_ok_bounds [OF ok(1), of r] that by force
  then show ?case using Cons.IH [OF ok(1)] by (auto simp: x seg_get_def)
qed (simp add: seg_get_def)

lemma seg_get_None: "seg_get xs p = None \<longleftrightarrow> (\<forall>x\<in>set xs. \<not> in_range p (fst x))"
  unfolding seg_get_def option.map_disc_iff find_None_iff by blast

lemma seg_left_ok:
  "ranges_ok lo (map fst xs) \<Longrightarrow>
   ranges_ok lo (map fst (seg_left s xs)) \<and> (\<forall>x\<in>set (seg_left s xs). snd (fst x) \<le> s)"
proof (induction xs arbitrary: lo)
  case (Cons x xs)
  obtain a b w where x: "x = ((a, b), w)" by (metis prod.exhaust)
  have ok: "ranges_ok b (map fst xs)" "a < b" "lo \<le> a" using Cons.prems x by simp_all
  show ?case
    using Cons.IH [OF ok(1)] ok by (auto simp: x seg_left_def intro: ranges_ok_mono)
qed (simp add: seg_left_def)

lemma seg_right_ok:
  "ranges_ok lo (map fst xs) \<Longrightarrow> ranges_ok (max lo e) (map fst (seg_right e xs))"
proof (induction xs arbitrary: lo)
  case (Cons x xs)
  obtain a b w where x: "x = ((a, b), w)" by (metis prod.exhaust)
  have ok: "ranges_ok b (map fst xs)" "a < b" "lo \<le> a" using Cons.prems x by simp_all
  have "ranges_ok (max b e) (map fst (seg_right e xs))" by (rule Cons.IH [OF ok(1)])
  then show ?case using ok by (auto simp: x seg_right_def max_def intro: ranges_ok_mono)
qed (simp add: seg_right_def)

lemma seg_insert_ok:
  assumes "segs_ok xs" "s < e"
  shows "segs_ok (seg_insert s e v xs)"
proof -
  have l: "segs_ok (seg_left s xs)" "\<forall>x\<in>set (seg_left s xs). snd (fst x) \<le> s"
    using seg_left_ok [OF assms(1)] by simp_all
  have r: "ranges_ok e (map fst (seg_right e xs))"
    using seg_right_ok [OF assms(1), of e] by simp
  show ?thesis
    using l r assms(2) by (auto simp: seg_insert_def ranges_ok_append last_map)
qed

lemma seg_left_Cons:
  "seg_left s (((a, b), v) # xs) =
     (if a < min b s then [((a, min b s), v)] else []) @ seg_left s xs"
  by (simp add: seg_left_def)

lemma seg_right_Cons:
  "seg_right e (((a, b), v) # xs) =
     (if max a e < b then [((max a e, b), v)] else []) @ seg_right e xs"
  by (simp add: seg_right_def)

lemma in_seg_left:
  "(\<exists>r. (r, v) \<in> set (seg_left s xs) \<and> in_range p r) \<longleftrightarrow>
   p < s \<and> (\<exists>r. (r, v) \<in> set xs \<and> in_range p r)" (is "?L xs \<longleftrightarrow> p < s \<and> ?X xs")
proof (induction xs)
  case (Cons x xs)
  obtain a b w where x: "x = ((a, b), w)" by (metis prod.exhaust)
  have "?L (x # xs) \<longleftrightarrow> (v = w \<and> a \<le> p \<and> p < b \<and> p < s) \<or> ?L xs"
    unfolding x seg_left_Cons by (auto simp: ex_disj_distrib conj_disj_distribR)
  also have "\<dots> \<longleftrightarrow> p < s \<and> ?X (x # xs)" using Cons.IH by (auto simp: x)
  finally show ?case .
qed (simp add: seg_left_def)

lemma in_seg_right:
  "(\<exists>r. (r, v) \<in> set (seg_right e xs) \<and> in_range p r) \<longleftrightarrow>
   e \<le> p \<and> (\<exists>r. (r, v) \<in> set xs \<and> in_range p r)" (is "?R xs \<longleftrightarrow> e \<le> p \<and> ?X xs")
proof (induction xs)
  case (Cons x xs)
  obtain a b w where x: "x = ((a, b), w)" by (metis prod.exhaust)
  have "?R (x # xs) \<longleftrightarrow> (v = w \<and> a \<le> p \<and> p < b \<and> e \<le> p) \<or> ?R xs"
    unfolding x seg_right_Cons by (auto simp: ex_disj_distrib conj_disj_distribR)
  also have "\<dots> \<longleftrightarrow> e \<le> p \<and> ?X (x # xs)" using Cons.IH by (auto simp: x)
  finally show ?case .
qed (simp add: seg_right_def)

lemma seg_get_insert:
  assumes "segs_ok xs" "s < e"
  shows "seg_get (seg_insert s e v xs) p = (if s \<le> p \<and> p < e then Some v else seg_get xs p)"
proof -
  have "seg_get (seg_insert s e v xs) p = Some w \<longleftrightarrow>
        (if s \<le> p \<and> p < e then Some v else seg_get xs p) = Some w" for w
    using assms in_seg_left [of w s xs p] in_seg_right [of w e xs p]
    unfolding seg_get_Some [OF seg_insert_ok [OF assms]] seg_get_Some [OF assms(1)]
    by (auto simp: seg_insert_def seg_get_Some [OF assms(1)])
  then show ?thesis by (metis not_None_eq)
qed


lemma seg_gaps_ok: "ranges_ok lo rs \<Longrightarrow> c \<le> e \<Longrightarrow> ranges_ok c (seg_gaps c e rs)"
proof (induction c e rs arbitrary: lo rule: seg_gaps.induct)
  case (2 c e a b rs)
  have ok: "ranges_ok b rs" "a < b" using 2(3) by simp_all
  show ?case
  proof (cases "b \<le> e")
    case True
    then have "ranges_ok b (seg_gaps b e rs)" if "\<not> b \<le> c" "\<not> e \<le> a"
      using 2(2) [OF that] ok(1) by simp
    then show ?thesis using 2 ok by (auto intro: ranges_ok_mono)
  next
    case False
    have "seg_gaps b e rs = []"
      using ok False by (cases rs) (auto dest: ranges_ok_bounds)
    then show ?thesis using 2 ok False by auto
  qed
qed simp

lemma seg_gaps_in:
  "ranges_ok lo rs \<Longrightarrow>
   (\<exists>r\<in>set (seg_gaps c e rs). in_range p r) \<longleftrightarrow>
     c \<le> p \<and> p < e \<and> (\<forall>r\<in>set rs. \<not> in_range p r)"
proof (induction c e rs arbitrary: lo rule: seg_gaps.induct)
  case (2 c e a b rs)
  have ok: "ranges_ok b rs" "a < b" using 2(3) by simp_all
  have above: "b \<le> fst r" if "r \<in> set rs" for r
    using ranges_ok_bounds [OF ok(1) that] by simp
  have no: "\<not> in_range p r" if "p < b" "r \<in> set rs" for r
    using above [OF that(2)] that(1) by simp
  consider "b \<le> c" | "\<not> b \<le> c" "e \<le> a" | "\<not> b \<le> c" "\<not> e \<le> a" by blast
  then show ?case
  proof cases
    case 1
    then show ?thesis using 2(1) [OF 1 ok(1)] ok by auto
  next
    case 2
    then show ?thesis using no ok by auto
  next
    case 3
    have "(\<exists>r\<in>set (seg_gaps b e rs). in_range p r) \<longleftrightarrow>
          b \<le> p \<and> p < e \<and> (\<forall>r\<in>set rs. \<not> in_range p r)"
      by (rule 2(2) [OF 3 ok(1)])
    then show ?thesis using 3 ok no by auto
  qed
qed auto

interpretation seg: range_map seg_ops segs_ok
proof unfold_locales
  fix m :: "'v segment list" and s e p :: nat
  assume m: "segs_ok m" and "s \<le> e"
  then show "ranges_ok s (rm_gaps seg_ops m s e)"
    by (simp add: seg_ops_def seg_gaps_ok)
  show "(\<exists>r\<in>set (rm_gaps seg_ops m s e). in_range p r) \<longleftrightarrow>
      s \<le> p \<and> p < e \<and> rm_get seg_ops m p = None"
    using seg_gaps_in [OF m, of s e p] by (simp add: seg_ops_def seg_get_None)
qed (simp_all add: seg_ops_def seg_insert_ok seg_get_insert seg_get_Some seg_get_def [of "[]"])

end
