(* ===== verification/Slices.thy ===== *)
theory Slices
  imports Kiseki_Types Range_Maps
begin

text \<open>
  Slices and their keys (\<^verbatim>\<open>types/src/slice.rs\<close>): a chunk of a file is a list of slices in
  commit order, stored as fixed-width records; \<^verbatim>\<open>overlook\<close> builds the range map the reader
  walks; a \<open>slice_key\<close> names one stored block of a slice. bincode's codec of one slice is the
  argument \<open>enc\<close>/\<open>dec\<close> with the laws of the locale \<open>slice_codec\<close>.
\<close>

datatype slice_error =
  InvalidSliceBuf nat
| InvalidSliceKeyStr string
| DecodeSliceBufError
| ParseSliceKeyFailed string

definition EMPTY_SLICE_ID :: nat where "EMPTY_SLICE_ID = 0"
definition SLICE_BYTES :: nat where "SLICE_BYTES = 28"

text \<open>\<^verbatim>\<open>Owned\<close> chunk_pos id size padding; \<^verbatim>\<open>Borrowed\<close> chunk_pos id size off len.\<close>

datatype slice =
  Owned nat nat nat nat
| Borrowed nat nat nat nat nat

definition new_owned :: "nat \<Rightarrow> nat \<Rightarrow> nat \<Rightarrow> slice" where
  "new_owned chunk_pos slice_id sz = Owned (as_u32 chunk_pos) slice_id (as_u32 sz) 0"

primrec get_chunk_pos :: "slice \<Rightarrow> nat" where
  "get_chunk_pos (Owned chunk_pos i sz pad) = chunk_pos"
| "get_chunk_pos (Borrowed chunk_pos i sz off len) = as_u32 (chunk_pos + off)"

primrec get_id :: "slice \<Rightarrow> nat" where
  "get_id (Owned chunk_pos i sz pad) = i"
| "get_id (Borrowed chunk_pos i sz off len) = i"

primrec get_size :: "slice \<Rightarrow> nat" where
  "get_size (Owned chunk_pos i sz pad) = sz"
| "get_size (Borrowed chunk_pos i sz off len) = len"

primrec get_underlying_size :: "slice \<Rightarrow> nat" where
  "get_underlying_size (Owned chunk_pos i sz pad) = sz"
| "get_underlying_size (Borrowed chunk_pos i sz off len) = sz"

primrec get_underlying_offset :: "slice \<Rightarrow> nat" where
  "get_underlying_offset (Owned chunk_pos i sz pad) = 0"
| "get_underlying_offset (Borrowed chunk_pos i sz off len) = off"

section \<open>Lists of slices\<close>

definition slice_decode :: "(bytes \<Rightarrow> slice option) \<Rightarrow> bytes \<Rightarrow> slice_error + slice" where
  "slice_decode dec buf =
     (if length buf < SLICE_BYTES then Inl (InvalidSliceBuf (length buf))
      else ok_or (dec buf) DecodeSliceBufError)"

function decode_loop ::
  "(bytes \<Rightarrow> slice option) \<Rightarrow> bytes \<Rightarrow> nat \<Rightarrow> slice list \<Rightarrow> slice_error + slice list" where
  "decode_loop dec buf i slices =
     (if i < length buf
      then rbind (slice_decode dec (take SLICE_BYTES (drop i buf)))
             (\<lambda>s. decode_loop dec buf (i + SLICE_BYTES) (slices @ [s]))
      else Inr slices)"
  by pat_completeness auto
termination
  by (relation "measure (\<lambda>(dec, buf, i, slices). length buf - i)") (auto simp: SLICE_BYTES_def)

declare decode_loop.simps [simp del]

definition slices_decode :: "(bytes \<Rightarrow> slice option) \<Rightarrow> bytes \<Rightarrow> slice_error + slice list" where
  "slices_decode dec buf =
     (if length buf mod SLICE_BYTES \<noteq> 0 then Inl (InvalidSliceBuf (length buf))
      else decode_loop dec buf 0 [])"

text \<open>\<open>None\<close> is the panic of inserting an empty range.\<close>

fun overlook_loop :: "('rm, slice) range_map_ops \<Rightarrow> 'rm \<Rightarrow> slice list \<Rightarrow> 'rm option" where
  "overlook_loop ops rm [] = Some rm"
| "overlook_loop ops rm (s # ss) =
     (if get_size s = 0 then None
      else overlook_loop ops
             (rm_insert ops (get_chunk_pos s) (get_chunk_pos s + get_size s) s rm) ss)"

definition overlook :: "('rm, slice) range_map_ops \<Rightarrow> slice list \<Rightarrow> 'rm option" where
  "overlook ops ss = overlook_loop ops (rm_new ops) ss"

text \<open>What a chunk position shows: the last slice of the list that covers it.\<close>

definition slice_covers :: "nat \<Rightarrow> slice \<Rightarrow> bool" where
  "slice_covers p s = (get_chunk_pos s \<le> p \<and> p < get_chunk_pos s + get_size s)"

definition visible_slice :: "slice list \<Rightarrow> nat \<Rightarrow> slice option" where
  "visible_slice ss p = List.find (slice_covers p) (rev ss)"

definition slice_seg :: "slice \<Rightarrow> slice segment" where
  "slice_seg s = ((get_chunk_pos s, get_chunk_pos s + get_size s), s)"

section \<open>Keys of stored blocks\<close>

record slice_key =
  sk_slice_id :: nat
  sk_block_idx :: nat
  sk_block_size :: nat

definition slice_key_new :: "nat \<Rightarrow> nat \<Rightarrow> nat \<Rightarrow> slice_key" where
  "slice_key_new slice_id block_idx block_size =
     \<lparr> sk_slice_id = slice_id, sk_block_idx = block_idx, sk_block_size = block_size \<rparr>"

definition slice_key_fmt :: "slice_key \<Rightarrow> string" where
  "slice_key_fmt k =
     hex8 (sk_slice_id k div 1000 div 1000) @ ''_'' @ hex8 (sk_slice_id k div 1000) @ ''_'' @
     hex8 (sk_slice_id k) @ ''_'' @ hex8 (sk_block_idx k) @ ''_'' @ hex8 (sk_block_size k)"

definition gen_path_for_local_sto :: "slice_key \<Rightarrow> string" where
  "gen_path_for_local_sto k = slice_key_fmt k"

definition gen_path_for_object_sto :: "slice_key \<Rightarrow> string" where
  "gen_path_for_object_sto k = ''chunks'' @ slice_key_fmt k"

definition make_slice_object_key :: "nat \<Rightarrow> nat \<Rightarrow> nat \<Rightarrow> string" where
  "make_slice_object_key slice_id block_idx block_size =
     gen_path_for_object_sto (slice_key_new slice_id block_idx block_size)"

datatype ordering = Less | Equal | Greater

definition cmp_nat :: "nat \<Rightarrow> nat \<Rightarrow> ordering" where
  "cmp_nat a b = (if a < b then Less else if a = b then Equal else Greater)"

definition slice_key_partial_cmp :: "slice_key \<Rightarrow> slice_key \<Rightarrow> ordering" where
  "slice_key_partial_cmp k k' =
     (let sc = cmp_nat (sk_slice_id k) (sk_slice_id k')
      in if sc = Equal then cmp_nat (sk_block_idx k) (sk_block_idx k') else sc)"

definition slice_key_from_str :: "string \<Rightarrow> slice_error + slice_key" where
  "slice_key_from_str s =
     (case strip_prefix ''chunks'' s of
        None \<Rightarrow> Inl (InvalidSliceKeyStr s)
      | Some encoded \<Rightarrow>
          (case split_on CHR ''_'' encoded of
             [_, _, slice_id, block_idx, block_size] \<Rightarrow>
               rbind (ok_or (u64_from_hex slice_id) (ParseSliceKeyFailed s)) (\<lambda>i.
               rbind (ok_or (u64_from_hex block_idx) (ParseSliceKeyFailed s)) (\<lambda>bi.
               rbind (ok_or (u64_from_hex block_size) (ParseSliceKeyFailed s)) (\<lambda>bs.
                 let key = slice_key_new i bi bs in
                 if gen_path_for_object_sto key = s then Inr key
                 else Inl (InvalidSliceKeyStr s))))
           | _ \<Rightarrow> Inl (InvalidSliceKeyStr s)))"

section \<open>Facts\<close>

text \<open>The fields fit their Rust types.\<close>

primrec slice_wf :: "slice \<Rightarrow> bool" where
  "slice_wf (Owned p i sz pad) = (p < 2 ^ 32 \<and> i < 2 ^ 64 \<and> sz < 2 ^ 32 \<and> pad < 2 ^ 64)"
| "slice_wf (Borrowed p i sz off len) =
     (p < 2 ^ 32 \<and> i < 2 ^ 64 \<and> sz < 2 ^ 32 \<and> off < 2 ^ 32 \<and> len < 2 ^ 32)"

lemma new_owned_wf: "i < 2 ^ 64 \<Longrightarrow> slice_wf (new_owned p i sz)"
  by (simp add: new_owned_def as_u32_def)

locale slice_codec =
  fixes enc :: "slice \<Rightarrow> bytes" and dec :: "bytes \<Rightarrow> slice option"
  assumes enc_length: "length (enc s) = SLICE_BYTES"
    and dec_enc: "slice_wf s \<Longrightarrow> dec (enc s) = Some s"
begin

definition encode_all :: "slice list \<Rightarrow> bytes" where
  "encode_all ss = concat (map enc ss)"

lemma length_encode_all: "length (encode_all ss) = length ss * SLICE_BYTES"
  by (induction ss) (simp_all add: encode_all_def enc_length)

lemma decode_loop_encode:
  "list_all slice_wf ss \<Longrightarrow>
   decode_loop dec (pre @ encode_all ss) (length pre) acc = Inr (acc @ ss)"
proof (induction ss arbitrary: pre acc)
  case Nil
  then show ?case by (simp add: encode_all_def decode_loop.simps)
next
  case (Cons s ss)
  have "decode_loop dec ((pre @ enc s) @ encode_all ss) (length (pre @ enc s)) (acc @ [s])
      = Inr ((acc @ [s]) @ ss)"
    by (rule Cons.IH) (use Cons.prems in simp)
  moreover have "slice_decode dec (enc s) = Inr s"
    using Cons.prems by (simp add: slice_decode_def enc_length dec_enc)
  ultimately show ?case
    by (subst decode_loop.simps) (simp add: encode_all_def enc_length add.commute SLICE_BYTES_def)
qed

lemma slices_decode_encode:
  "list_all slice_wf ss \<Longrightarrow> slices_decode dec (encode_all ss) = Inr ss"
  using decode_loop_encode [of ss "[]" "[]"] by (simp add: slices_decode_def length_encode_all)

lemma encode_all_append: "encode_all (ss @ ts) = encode_all ss @ encode_all ts"
  by (simp add: encode_all_def)

lemma encode_all_inject:
  "list_all slice_wf ss \<Longrightarrow> list_all slice_wf ts \<Longrightarrow> encode_all ss = encode_all ts \<longleftrightarrow> ss = ts"
  by (metis Inr_inject slices_decode_encode)

lemma encode_all_Nil [simp]: "encode_all ss = [] \<longleftrightarrow> ss = []"
  by (simp flip: length_0_conv add: length_encode_all SLICE_BYTES_def)

end

text \<open>
  The fixed-width little-endian layout: a four-byte variant tag followed by the fields.
\<close>

primrec enc_slice_le :: "slice \<Rightarrow> bytes" where
  "enc_slice_le (Owned p i sz pad) =
     le_bytes 4 0 @ le_bytes 4 p @ le_bytes 8 i @ le_bytes 4 sz @ le_bytes 8 pad"
| "enc_slice_le (Borrowed p i sz off len) =
     le_bytes 4 1 @ le_bytes 4 p @ le_bytes 8 i @ le_bytes 4 sz @ le_bytes 4 off @ le_bytes 4 len"

definition field_le :: "nat \<Rightarrow> nat \<Rightarrow> bytes \<Rightarrow> nat" where
  "field_le off w b = le_value (take w (drop off b))"

definition dec_slice_le :: "bytes \<Rightarrow> slice option" where
  "dec_slice_le b =
     (if length b < SLICE_BYTES then None
      else if field_le 0 4 b = 0
      then Some (Owned (field_le 4 4 b) (field_le 8 8 b) (field_le 16 4 b) (field_le 20 8 b))
      else if field_le 0 4 b = 1
      then Some (Borrowed (field_le 4 4 b) (field_le 8 8 b) (field_le 16 4 b)
                   (field_le 20 4 b) (field_le 24 4 b))
      else None)"

interpretation le: slice_codec enc_slice_le dec_slice_le
proof
  fix s show "length (enc_slice_le s) = SLICE_BYTES"
    by (cases s) (simp_all add: SLICE_BYTES_def)
next
  fix s assume "slice_wf s"
  then show "dec_slice_le (enc_slice_le s) = Some s"
    by (cases s) (simp_all add: dec_slice_le_def field_le_def SLICE_BYTES_def)
qed

lemma overlook_loop_valid:
  assumes "range_map ops valid" "valid rm"
  shows "overlook_loop ops rm ss =
    (if \<exists>s\<in>set ss. get_size s = 0 then None
     else Some (range_map.insert_all ops (map slice_seg ss) rm))"
  using assms(2)
proof (induction ss arbitrary: rm)
  case (Cons s ss)
  then show ?case
    using range_map.valid_insert [OF assms(1)]
    by (auto simp: range_map.insert_all_simps [OF assms(1)] slice_seg_def)
qed (simp add: range_map.insert_all_simps [OF assms(1)])

lemma slice_segs_nonempty:
  "\<forall>s\<in>set ss. get_size s \<noteq> 0 \<Longrightarrow> list_all (\<lambda>(r, v). fst r < snd r) (map slice_seg ss)"
  by (induction ss) (auto simp: slice_seg_def)

lemma find_slice_seg:
  "(case List.find (\<lambda>(r, v). in_range p r) (map slice_seg ss) of
      Some (r, v) \<Rightarrow> Some v | None \<Rightarrow> None) = List.find (slice_covers p) ss"
  by (induction ss) (auto simp: slice_seg_def slice_covers_def)

lemma overlook_get:
  assumes "range_map ops valid" "overlook ops ss = Some rm"
  shows "valid rm" and "rm_get ops rm p = visible_slice ss p"
proof -
  note new = range_map.valid_new [OF assms(1)]
  have ne: "\<forall>s\<in>set ss. get_size s \<noteq> 0" and rm: "rm = range_map.insert_all ops (map slice_seg ss) (rm_new ops)"
    using assms(2) overlook_loop_valid [OF assms(1) new, of ss]
    by (auto simp: overlook_def split: if_splits)
  note segs = slice_segs_nonempty [OF ne]
  show "valid rm"
    using range_map.valid_insert_all [OF assms(1) new segs] rm by simp
  show "rm_get ops rm p = visible_slice ss p"
    using range_map.get_insert_all [OF assms(1) new segs, of p]
    unfolding range_map.get_new [OF assms(1)]
    by (simp add: rm visible_slice_def rev_map find_slice_seg)
qed

text \<open>Reading a hexadecimal field back.\<close>

lemma foldl_radix_mono: "(a :: nat) \<le> foldl (\<lambda>a c. 16 * a + f c) a s"
proof (induction s arbitrary: a)
  case (Cons c s)
  have "a \<le> 16 * a + f c" by simp
  also have "\<dots> \<le> foldl (\<lambda>a c. 16 * a + f c) (16 * a + f c) s" by (rule Cons.IH)
  finally show ?case by simp
qed simp

lemma hex_value_digits:
  "(\<And>c. c \<in> set s \<Longrightarrow> is_dig 16 c) \<Longrightarrow>
   foldl (\<lambda>a c. 16 * a + the (hex_digit c)) acc s < 2 ^ 64 \<Longrightarrow>
   hex_value acc s = Some (foldl (\<lambda>a c. 16 * a + the (hex_digit c)) acc s)"
proof (induction s arbitrary: acc)
  case (Cons c s)
  obtain d where d: "d < 16" "c = digit_char d" using Cons.prems(1) [of c] by (auto simp: is_dig_def)
  have "16 * acc + d < 2 ^ 64"
    using foldl_radix_mono [of "16 * acc + d" "\<lambda>c. the (hex_digit c)" s] Cons.prems(2) d by simp
  then show ?case using Cons.IH [of "16 * acc + d"] Cons.prems d by simp
qed simp

lemma hex8_not_Nil [simp]: "hex8 n \<noteq> []"
  by (simp add: hex8_def pad0_def)

lemma u64_from_hex_hex8 [simp]: "n < 2 ^ 64 \<Longrightarrow> u64_from_hex (hex8 n) = Some n"
proof -
  assume n: "n < 2 ^ 64"
  obtain c cs where c: "hex8 n = c # cs" by (cases "hex8 n") auto
  then have "c \<noteq> CHR ''+''" using hex8_dig [of c n] by auto
  moreover have "digits_value 16 (hex8 n) = n" by (simp add: hex8_def)
  ultimately show ?thesis
    using hex_value_digits [of "hex8 n" 0] hex8_dig [of _ n] n c
    by (simp add: u64_from_hex_def digits_value_def)
qed

lemma split_on_sep: "c \<notin> set xs \<Longrightarrow> split_on c (xs @ c # ys) = xs # split_on c ys"
  by (induction xs) auto

lemma split_on_last: "c \<notin> set xs \<Longrightarrow> split_on c xs = [xs]"
  by (induction xs) auto

lemma hex8_no_sep [simp]: "CHR ''_'' \<notin> set (hex8 n)"
  using hex8_dig [of "CHR ''_''" n] by auto

lemma split_slice_key:
  "split_on CHR ''_'' (slice_key_fmt k) =
     [hex8 (sk_slice_id k div 1000 div 1000), hex8 (sk_slice_id k div 1000), hex8 (sk_slice_id k),
      hex8 (sk_block_idx k), hex8 (sk_block_size k)]"
  by (simp add: slice_key_fmt_def split_on_sep split_on_last)

lemma slice_key_from_str_path:
  assumes "sk_slice_id k < 2 ^ 64" "sk_block_idx k < 2 ^ 64" "sk_block_size k < 2 ^ 64"
  shows "slice_key_from_str (gen_path_for_object_sto k) = Inr k"
  using assms
  by (cases k) (simp add: slice_key_from_str_def gen_path_for_object_sto_def strip_prefix_def
      split_slice_key slice_key_new_def Let_def)

lemma slice_key_from_str_canonical:
  "slice_key_from_str s = Inr k \<Longrightarrow> gen_path_for_object_sto k = s"
  by (auto simp: slice_key_from_str_def rbind_eq_Inr Let_def
      split: option.splits list.splits if_splits)

end
