(* ===== verification/Meta_Store.thy ===== *)
theory Meta_Store
  imports Meta_Keys Slices "HOL-Library.AList"
begin

text \<open>
  The key-value store under the metadata backend (\<^verbatim>\<open>meta/src/backend/rocksdb.rs\<close>) and the
  operations of the backend that read or write single records.

  RocksDB is the record \<open>kv\<close>: a read, a prefix scan, an atomic batch write and a transaction
  commit, each of which may fail. \<open>kv_store\<close> states what a call that succeeds does to the
  content of the database, \<open>reliable_kv\<close> adds that calls succeed. bincode is the record
  \<open>codec\<close> with the laws of the locale \<open>codec\<close>. Every operation takes both as arguments.
  The typed views (\<open>v_attr\<close>, \<open>v_dentry\<close>, ...) read the content through the keys and the
  codec; \<open>view_simps\<close> says what a write at one key does to each of them.
\<close>

section \<open>The database and the codec\<close>

datatype batch_op = BPut bytes bytes | BDelete bytes

type_synonym batch = "batch_op list"
type_synonym content = "bytes \<Rightarrow> bytes option"

primrec apply_op :: "batch_op \<Rightarrow> content \<Rightarrow> content" where
  "apply_op (BPut k v) m = m(k := Some v)"
| "apply_op (BDelete k) m = m(k := None)"

definition apply_batch :: "batch \<Rightarrow> content \<Rightarrow> content" where
  "apply_batch b m = fold apply_op b m"

lemma apply_batch_simps [simp]:
  "apply_batch [] m = m"
  "apply_batch (x # b) m = apply_batch b (apply_op x m)"
  "apply_batch (b @ c) m = apply_batch c (apply_batch b m)"
  by (simp_all add: apply_batch_def)

text \<open>\<open>None\<close> is an error of the database; a failed write or commit changes nothing.\<close>

record 'db kv =
  kv_get :: "'db \<Rightarrow> bytes \<Rightarrow> bytes option option"
  kv_scan :: "'db \<Rightarrow> bytes \<Rightarrow> (bytes \<times> bytes) list"
  kv_write :: "batch \<Rightarrow> 'db \<Rightarrow> 'db option"
  kv_commit :: "batch \<Rightarrow> 'db \<Rightarrow> 'db option"

locale kv_store =
  fixes kv :: "'db kv" and content :: "'db \<Rightarrow> content"
  assumes get_content: "kv_get kv db k = Some r \<Longrightarrow> r = content db k"
    and scan_content: "(k, v) \<in> set (kv_scan kv db p) \<Longrightarrow> content db k = Some v \<and> prefix p k"
    and write_content: "kv_write kv b db = Some db' \<Longrightarrow> content db' = apply_batch b (content db)"
    and commit_content: "kv_commit kv b db = Some db' \<Longrightarrow> content db' = apply_batch b (content db)"

locale scanning_kv = kv_store +
  assumes scan_all: "content db k = Some v \<Longrightarrow> prefix p k \<Longrightarrow> (k, v) \<in> set (kv_scan kv db p)"
begin

lemma scan_iff: "(k, v) \<in> set (kv_scan kv db p) \<longleftrightarrow> content db k = Some v \<and> prefix p k"
  using scan_content scan_all by blast

end

locale reliable_kv = scanning_kv +
  assumes get_ok: "kv_get kv db k \<noteq> None"
    and scan_distinct: "distinct (map fst (kv_scan kv db p))"
    and write_ok: "kv_write kv b db \<noteq> None"
    and commit_ok: "kv_commit kv b db \<noteq> None"
begin

lemma get_eq: "kv_get kv db k = Some (content db k)"
  using get_ok [of db k] get_content [of db k] by auto

end

record codec =
  enc_attr :: "inode_attr \<Rightarrow> bytes option"
  dec_attr :: "bytes \<Rightarrow> inode_attr option"
  enc_dentry :: "dentry \<Rightarrow> bytes option"
  dec_dentry :: "bytes \<Rightarrow> dentry option"
  enc_u64 :: "nat \<Rightarrow> bytes option"
  dec_u64 :: "bytes \<Rightarrow> nat option"
  enc_format :: "format \<Rightarrow> bytes option"
  dec_format :: "bytes \<Rightarrow> format option"
  enc_dir_stat :: "dir_stat \<Rightarrow> bytes option"
  dec_dir_stat :: "bytes \<Rightarrow> dir_stat option"
  enc_slice :: "slice \<Rightarrow> bytes option"
  dec_slice :: "bytes \<Rightarrow> slice option"
  enc_slices :: "slice list \<Rightarrow> bytes option"

text \<open>serde refuses to serialize a time before the epoch, and never yields one.\<close>

definition attr_times_ok :: "inode_attr \<Rightarrow> bool" where
  "attr_times_ok a = (0 \<le> a_atime a \<and> 0 \<le> a_mtime a \<and> 0 \<le> a_ctime a \<and> 0 \<le> a_crtime a)"

locale codec_laws =
  fixes cd :: codec
  assumes attr_enc: "enc_attr cd a \<noteq> None \<longleftrightarrow> attr_times_ok a"
    and attr_dec: "enc_attr cd a = Some b \<Longrightarrow> dec_attr cd b = Some a"
    and attr_times: "dec_attr cd b = Some a \<Longrightarrow> attr_times_ok a"
    and dentry_enc: "enc_dentry cd d \<noteq> None"
    and dentry_dec: "enc_dentry cd d = Some b \<Longrightarrow> dec_dentry cd b = Some d"
    and u64_enc: "enc_u64 cd n \<noteq> None"
    and u64_dec: "enc_u64 cd n = Some b \<Longrightarrow> n < 2 ^ 64 \<Longrightarrow> dec_u64 cd b = Some n"
    and format_enc: "enc_format cd f \<noteq> None"
    and format_dec: "enc_format cd f = Some b \<Longrightarrow> dec_format cd b = Some f"
    and dir_stat_enc: "enc_dir_stat cd ds \<noteq> None"
    and dir_stat_dec: "enc_dir_stat cd ds = Some b \<Longrightarrow> dec_dir_stat cd b = Some ds"
    and slice_enc: "enc_slice cd s \<noteq> None"
    and slice_len: "enc_slice cd s = Some b \<Longrightarrow> length b = SLICE_BYTES"
    and slice_dec: "enc_slice cd s = Some b \<Longrightarrow> slice_wf s \<Longrightarrow> dec_slice cd b = Some s"
    and slices_len: "enc_slices cd ss = Some b \<Longrightarrow> length b = 8 + length ss * SLICE_BYTES"
begin

lemmas decs = attr_dec dentry_dec u64_dec format_dec dir_stat_dec slice_dec

lemma slice_codec: "slice_codec (\<lambda>s. the (enc_slice cd s)) (dec_slice cd)"
  using slice_enc slice_len slice_dec by unfold_locales fastforce+

end

section \<open>Typed reads and writes (the macros of \<^verbatim>\<open>rocksdb.rs\<close>)\<close>

type_synonym reader = "bytes \<Rightarrow> bytes option option"

text \<open>\<^verbatim>\<open>deserialize_db!\<close>\<close>

definition deserialize_db :: "reader \<Rightarrow> (bytes \<Rightarrow> 'a option) \<Rightarrow> model_kind \<Rightarrow> bytes \<Rightarrow> 'a mresult" where
  "deserialize_db rd dec kind k =
     rbind (ok_or (rd k) RocksdbError) (\<lambda>v.
     rbind (ok_or v (ModelError (NotFound kind))) (\<lambda>buf.
       ok_or (dec buf) (ModelError (Corruption kind))))"

text \<open>\<^verbatim>\<open>serialize_batch!\<close>, \<^verbatim>\<open>batch_put!\<close> and \<^verbatim>\<open>set_value_in_write_batch\<close>\<close>

definition set_value_in_write_batch ::
  "('a \<Rightarrow> bytes option) \<Rightarrow> model_kind \<Rightarrow> bytes \<Rightarrow> 'a \<Rightarrow> batch \<Rightarrow> batch mresult" where
  "set_value_in_write_batch enc kind k v b =
     rbind (ok_or (enc v) (ModelError (Corruption kind))) (\<lambda>buf. Inr (b @ [BPut k buf]))"

definition do_get_attr :: "codec \<Rightarrow> reader \<Rightarrow> ino \<Rightarrow> inode_attr mresult" where
  "do_get_attr cd rd i = deserialize_db rd (dec_attr cd) KAttrModel (key_attr i)"

definition do_get_dentry :: "codec \<Rightarrow> reader \<Rightarrow> ino \<Rightarrow> string \<Rightarrow> dentry mresult" where
  "do_get_dentry cd rd parent nm =
     deserialize_db rd (dec_dentry cd) KDEntryModel (key_dentry parent nm)"

definition do_get_symlink :: "reader \<Rightarrow> ino \<Rightarrow> bytes mresult" where
  "do_get_symlink rd i =
     rbind (ok_or (rd (key_symlink i)) RocksdbError) (\<lambda>v.
       ok_or v (ModelError (NotFound KSymlinkModel)))"

definition do_get_hard_link_count :: "codec \<Rightarrow> reader \<Rightarrow> ino \<Rightarrow> ino \<Rightarrow> nat mresult" where
  "do_get_hard_link_count cd rd i parent =
     rbind (ok_or (rd (key_parent i parent)) RocksdbError) (\<lambda>v.
       case v of
         None \<Rightarrow> Inr 0
       | Some buf \<Rightarrow> ok_or (dec_u64 cd buf) (ModelError (Corruption KHardLinkCountModel)))"

text \<open>The iterator is valid when the scan yields a key.\<close>

definition do_check_exist_children :: "(bytes \<Rightarrow> (bytes \<times> bytes) list) \<Rightarrow> ino \<Rightarrow> bool" where
  "do_check_exist_children scan parent = (scan (key_dentry_prefix parent) \<noteq> [])"

definition set_dentry_in_write_batch ::
  "codec \<Rightarrow> ino \<Rightarrow> string \<Rightarrow> ino \<Rightarrow> file_type \<Rightarrow> batch \<Rightarrow> batch mresult" where
  "set_dentry_in_write_batch cd parent nm inode typ b =
     set_value_in_write_batch (enc_dentry cd) KDEntryModel (key_dentry parent nm)
       \<lparr> de_parent = parent, de_name = nm, de_inode = inode, de_typ = typ \<rparr> b"

definition set_attr_in_write_batch :: "codec \<Rightarrow> ino \<Rightarrow> inode_attr \<Rightarrow> batch \<Rightarrow> batch mresult" where
  "set_attr_in_write_batch cd i a b =
     set_value_in_write_batch (enc_attr cd) KAttrModel (key_attr i) a b"

definition set_hard_link_count_in_write_batch ::
  "codec \<Rightarrow> ino \<Rightarrow> ino \<Rightarrow> nat \<Rightarrow> batch \<Rightarrow> batch mresult" where
  "set_hard_link_count_in_write_batch cd i parent cnt b =
     set_value_in_write_batch (enc_u64 cd) KHardLinkCountModel (key_parent i parent) cnt b"

definition set_sustained_in_write_batch ::
  "codec \<Rightarrow> nat \<Rightarrow> ino \<Rightarrow> nat \<Rightarrow> batch \<Rightarrow> batch mresult" where
  "set_sustained_in_write_batch cd session_id i sustained b =
     set_value_in_write_batch (enc_u64 cd) KSustainedModel (key_sustained session_id i) sustained b"

text \<open>The deadline is the whole seconds since the epoch; a clock before it panics.\<close>

definition set_delete_chunk_after_in_write_batch ::
  "codec \<Rightarrow> systime \<Rightarrow> ino \<Rightarrow> batch \<Rightarrow> batch mresult" where
  "set_delete_chunk_after_in_write_batch cd now i b =
     rbind (ok_or (duration_since now UNIX_EPOCH) Panicked) (\<lambda>d.
       set_value_in_write_batch (enc_u64 cd) KDeleteInodeModel (key_delete_chunk_after i)
         (d div 1000000000) b)"

text \<open>The scan already yields only keys that start with the prefix.\<close>

definition delete_prefix_in_txn_write_batch ::
  "(bytes \<Rightarrow> (bytes \<times> bytes) list) \<Rightarrow> bytes \<Rightarrow> batch \<Rightarrow> batch" where
  "delete_prefix_in_txn_write_batch scan p b =
     b @ map (\<lambda>(k, v). BDelete k) (takeWhile (\<lambda>(k, v). prefix p k) (scan p))"

text \<open>
  The common end of the namespace operations: the batch is written to the database, then the
  transaction the reads went through, which holds no write, is committed.
\<close>

definition write_then_commit ::
  "'db kv \<Rightarrow> (batch \<times> 'a) mresult \<Rightarrow> 'db \<Rightarrow> 'a mresult \<times> 'db" where
  "write_then_commit kv plan db =
     (case plan of
        Inl e \<Rightarrow> (Inl e, db)
      | Inr (b, r) \<Rightarrow>
          (case kv_write kv b db of
             None \<Rightarrow> (Inl RocksdbError, db)
           | Some db1 \<Rightarrow>
               (case kv_commit kv [] db1 of
                  None \<Rightarrow> (Inl RocksdbError, db1)
                | Some db2 \<Rightarrow> (Inr r, db2))))"


section \<open>Single-record operations of the backend\<close>

definition db_put :: "'db kv \<Rightarrow> bytes \<Rightarrow> bytes \<Rightarrow> 'db \<Rightarrow> unit mresult \<times> 'db" where
  "db_put kv k v db =
     (case kv_write kv [BPut k v] db of None \<Rightarrow> (Inl RocksdbError, db) | Some db' \<Rightarrow> (Inr (), db'))"

text \<open>A value is serialized and put; a serialization error comes first.\<close>

definition put_value ::
  "'db kv \<Rightarrow> ('a \<Rightarrow> bytes option) \<Rightarrow> model_kind \<Rightarrow> bytes \<Rightarrow> 'a \<Rightarrow> 'db \<Rightarrow> unit mresult \<times> 'db" where
  "put_value kv enc kind k v db =
     (case enc v of None \<Rightarrow> (Inl (ModelError (Corruption kind)), db) | Some buf \<Rightarrow> db_put kv k buf db)"

text \<open>\<^verbatim>\<open>stage_initial_state\<close>: the three puts of a new volume, staged in a transaction.\<close>

definition stage_initial_state :: "codec \<Rightarrow> format \<Rightarrow> inode_attr \<Rightarrow> batch mresult" where
  "stage_initial_state cd fmt root =
     rbind (ok_or (enc_format cd fmt) (ModelError (Corruption KSettingModel))) (\<lambda>format_buf.
     rbind (ok_or (enc_attr cd root) (ModelError (Corruption KAttrModel))) (\<lambda>root_buf.
     rbind (ok_or (enc_u64 cd 2) (ModelError (Corruption KCounterModel))) (\<lambda>counter_buf.
       Inr [BPut CURRENT_FORMAT format_buf, BPut (key_attr ROOT_INO) root_buf,
            BPut (key_counter NextInode) counter_buf])))"

text \<open>A transaction whose staged writes reach the database only when it commits.\<close>

definition commit_txn :: "'db kv \<Rightarrow> (batch \<times> 'a) mresult \<Rightarrow> 'db \<Rightarrow> 'a mresult \<times> 'db" where
  "commit_txn kv staged db =
     (case staged of
        Inl e \<Rightarrow> (Inl e, db)
      | Inr (b, r) \<Rightarrow>
          (case kv_commit kv b db of None \<Rightarrow> (Inl RocksdbError, db) | Some db' \<Rightarrow> (Inr r, db')))"

definition initialize_volume ::
  "'db kv \<Rightarrow> codec \<Rightarrow> format \<Rightarrow> inode_attr \<Rightarrow> 'db \<Rightarrow> unit mresult \<times> 'db" where
  "initialize_volume kv cd fmt root db =
     commit_txn kv
       (rbind (ok_or (kv_get kv db CURRENT_FORMAT) RocksdbError) (\<lambda>current.
        rbind (ensure (current = None) AlreadyInitialized) (\<lambda>_.
        rbind (stage_initial_state cd fmt root) (\<lambda>b. Inr (b, ()))))) db"

definition set_format :: "'db kv \<Rightarrow> codec \<Rightarrow> format \<Rightarrow> 'db \<Rightarrow> unit mresult \<times> 'db" where
  "set_format kv cd fmt db = put_value kv (enc_format cd) KSettingModel CURRENT_FORMAT fmt db"

definition load_format :: "'db kv \<Rightarrow> codec \<Rightarrow> 'db \<Rightarrow> format mresult" where
  "load_format kv cd db =
     rbind (ok_or (kv_get kv db CURRENT_FORMAT) RocksdbError) (\<lambda>v.
     rbind (ok_or v UninitializedEngine) (\<lambda>buf.
       ok_or (dec_format cd buf) (ModelError (Corruption KSettingModel))))"

definition increase_count_by ::
  "'db kv \<Rightarrow> codec \<Rightarrow> counter \<Rightarrow> nat \<Rightarrow> 'db \<Rightarrow> nat mresult \<times> 'db" where
  "increase_count_by kv cd c step db =
     commit_txn kv
       (rbind (ok_or (kv_get kv db (key_counter c)) RocksdbError) (\<lambda>v.
        rbind (case v of
                 None \<Rightarrow> Inr 0
               | Some buf \<Rightarrow> ok_or (dec_u64 cd buf) (ModelError (Corruption KCounterModel))) (\<lambda>current.
        let new = wrap64 (current + step) in
        rbind (ok_or (enc_u64 cd new) (ModelError (Corruption KCounterModel))) (\<lambda>new_buf.
          Inr ([BPut (key_counter c) new_buf], new))))) db"

definition load_count :: "'db kv \<Rightarrow> codec \<Rightarrow> counter \<Rightarrow> 'db \<Rightarrow> nat mresult" where
  "load_count kv cd c db = deserialize_db (kv_get kv db) (dec_u64 cd) KCounterModel (key_counter c)"

definition get_attr :: "'db kv \<Rightarrow> codec \<Rightarrow> ino \<Rightarrow> 'db \<Rightarrow> inode_attr mresult" where
  "get_attr kv cd i db = do_get_attr cd (kv_get kv db) i"

definition set_attr :: "'db kv \<Rightarrow> codec \<Rightarrow> ino \<Rightarrow> inode_attr \<Rightarrow> 'db \<Rightarrow> unit mresult \<times> 'db" where
  "set_attr kv cd i a db = put_value kv (enc_attr cd) KAttrModel (key_attr i) a db"

definition get_dentry :: "'db kv \<Rightarrow> codec \<Rightarrow> ino \<Rightarrow> string \<Rightarrow> 'db \<Rightarrow> dentry mresult" where
  "get_dentry kv cd parent nm db = do_get_dentry cd (kv_get kv db) parent nm"

definition set_dentry ::
  "'db kv \<Rightarrow> codec \<Rightarrow> ino \<Rightarrow> string \<Rightarrow> ino \<Rightarrow> file_type \<Rightarrow> 'db \<Rightarrow> unit mresult \<times> 'db" where
  "set_dentry kv cd parent nm inode typ db =
     put_value kv (enc_dentry cd) KDEntryModel (key_dentry parent nm)
       \<lparr> de_parent = parent, de_name = nm, de_inode = inode, de_typ = typ \<rparr> db"

text \<open>The loop of \<^verbatim>\<open>list_dentry\<close>: \<open>limit = -1\<close> lists everything; \<open>as usize\<close> of another
  negative limit is a huge bound.\<close>

fun list_dentry_loop ::
  "codec \<Rightarrow> int \<Rightarrow> (bytes \<times> bytes) list \<Rightarrow> dentry list \<Rightarrow> dentry list mresult" where
  "list_dentry_loop cd limit [] res = Inr res"
| "list_dentry_loop cd limit ((k, v) # kvs) res =
     (if limit = -1 \<or> int (length res) < limit mod 2 ^ 64
      then rbind (ok_or (dec_dentry cd v) (ModelError (Corruption KDEntryModel)))
             (\<lambda>d. list_dentry_loop cd limit kvs (res @ [d]))
      else Inr res)"

definition list_dentry :: "'db kv \<Rightarrow> codec \<Rightarrow> ino \<Rightarrow> int \<Rightarrow> 'db \<Rightarrow> dentry list mresult" where
  "list_dentry kv cd parent limit db =
     list_dentry_loop cd limit (kv_scan kv db (key_dentry_prefix parent)) []"

definition set_symlink :: "'db kv \<Rightarrow> ino \<Rightarrow> string \<Rightarrow> 'db \<Rightarrow> unit mresult \<times> 'db" where
  "set_symlink kv i path db = db_put kv (key_symlink i) path db"

definition get_symlink :: "'db kv \<Rightarrow> ino \<Rightarrow> 'db \<Rightarrow> string mresult" where
  "get_symlink kv i db = do_get_symlink (kv_get kv db) i"

definition do_readlink :: "'db kv \<Rightarrow> ino \<Rightarrow> 'db \<Rightarrow> bytes mresult" where
  "do_readlink kv i db = do_get_symlink (kv_get kv db) i"

definition set_chunk_slices ::
  "'db kv \<Rightarrow> codec \<Rightarrow> ino \<Rightarrow> nat \<Rightarrow> slice list \<Rightarrow> 'db \<Rightarrow> unit mresult \<times> 'db" where
  "set_chunk_slices kv cd i chunk_index ss db =
     put_value kv (enc_slices cd) KChunkSlicesModel (key_chunk_slices i chunk_index) ss db"

text \<open>The assertion follows the put.\<close>

definition set_raw_chunk_slices ::
  "'db kv \<Rightarrow> ino \<Rightarrow> nat \<Rightarrow> bytes \<Rightarrow> 'db \<Rightarrow> unit mresult \<times> 'db" where
  "set_raw_chunk_slices kv i chunk_index buf db =
     (case db_put kv (key_chunk_slices i chunk_index) buf db of
        (Inl e, db') \<Rightarrow> (Inl e, db')
      | (Inr u, db') \<Rightarrow> (if buf = [] then Inl Panicked else Inr (), db'))"

definition get_raw_chunk_slices :: "'db kv \<Rightarrow> ino \<Rightarrow> nat \<Rightarrow> 'db \<Rightarrow> bytes option mresult" where
  "get_raw_chunk_slices kv i chunk_index db =
     ok_or (kv_get kv db (key_chunk_slices i chunk_index)) RocksdbError"

definition get_chunk_slices :: "'db kv \<Rightarrow> codec \<Rightarrow> ino \<Rightarrow> nat \<Rightarrow> 'db \<Rightarrow> slice list mresult" where
  "get_chunk_slices kv cd i chunk_index db =
     rbind (ok_or (kv_get kv db (key_chunk_slices i chunk_index)) RocksdbError) (\<lambda>v.
     rbind (ok_or v (ModelError (NotFound KChunkSlicesModel))) (\<lambda>buf.
       case slices_decode (dec_slice cd) buf of
         Inl e \<Rightarrow> Inl (ModelError (CorruptionString KChunkSlicesModel))
       | Inr ss \<Rightarrow>
           if ss = [] then Inl (ModelError (CorruptionString KChunkSlicesModel)) else Inr ss))"

definition set_dir_stat :: "'db kv \<Rightarrow> codec \<Rightarrow> ino \<Rightarrow> dir_stat \<Rightarrow> 'db \<Rightarrow> unit mresult \<times> 'db" where
  "set_dir_stat kv cd i ds db =
     put_value kv (enc_dir_stat cd) KDirStatModel (key_dir_stat i) ds db"

definition get_dir_stat :: "'db kv \<Rightarrow> codec \<Rightarrow> ino \<Rightarrow> 'db \<Rightarrow> dir_stat mresult" where
  "get_dir_stat kv cd i db =
     deserialize_db (kv_get kv db) (dec_dir_stat cd) KDirStatModel (key_dir_stat i)"

section \<open>Typed views of the content\<close>

definition v_attr :: "codec \<Rightarrow> content \<Rightarrow> ino \<Rightarrow> inode_attr option" where
  "v_attr cd m i = Option.bind (m (render (KAttr i))) (dec_attr cd)"

definition v_dentry :: "codec \<Rightarrow> content \<Rightarrow> ino \<times> string \<Rightarrow> dentry option" where
  "v_dentry cd m = (\<lambda>(p, nm). Option.bind (m (render (KDentry p nm))) (dec_dentry cd))"

definition v_links :: "codec \<Rightarrow> content \<Rightarrow> ino \<times> ino \<Rightarrow> nat option" where
  "v_links cd m = (\<lambda>(i, p). Option.bind (m (render (KParent i p))) (dec_u64 cd))"

definition v_symlink :: "content \<Rightarrow> ino \<Rightarrow> bytes option" where
  "v_symlink m i = m (render (KSymlink i))"

definition v_chunk :: "content \<Rightarrow> ino \<times> nat \<Rightarrow> bytes option" where
  "v_chunk m = (\<lambda>(i, c). m (render (KChunk i c)))"

definition v_counter :: "codec \<Rightarrow> content \<Rightarrow> counter \<Rightarrow> nat option" where
  "v_counter cd m c = Option.bind (m (render (KCounter c))) (dec_u64 cd)"

definition v_format :: "codec \<Rightarrow> content \<Rightarrow> format option" where
  "v_format cd m = Option.bind (m (render KFormat)) (dec_format cd)"

declare render.simps [simp del]

lemma v_attr_upd [view_simps]:
  "v_attr cd (m(render k := x)) =
     (case k of KAttr i \<Rightarrow> (v_attr cd m)(i := Option.bind x (dec_attr cd)) | _ \<Rightarrow> v_attr cd m)"
  by (auto simp: v_attr_def render_inject_sess fun_eq_iff split: db_key.splits)

lemma v_dentry_upd [view_simps]:
  "v_dentry cd (m(render k := x)) =
     (case k of KDentry p nm \<Rightarrow> (v_dentry cd m)((p, nm) := Option.bind x (dec_dentry cd))
      | _ \<Rightarrow> v_dentry cd m)"
  by (auto simp: v_dentry_def render_inject_sess fun_eq_iff split: db_key.splits)

lemma v_links_upd [view_simps]:
  "v_links cd (m(render k := x)) =
     (case k of KParent i p \<Rightarrow> (v_links cd m)((i, p) := Option.bind x (dec_u64 cd))
      | _ \<Rightarrow> v_links cd m)"
  by (auto simp: v_links_def render_inject_sess fun_eq_iff split: db_key.splits)

lemma v_symlink_upd [view_simps]:
  "v_symlink (m(render k := x)) = (case k of KSymlink i \<Rightarrow> (v_symlink m)(i := x) | _ \<Rightarrow> v_symlink m)"
  by (auto simp: v_symlink_def render_inject_sess fun_eq_iff split: db_key.splits)

lemma v_chunk_upd [view_simps]:
  "v_chunk (m(render k := x)) = (case k of KChunk i c \<Rightarrow> (v_chunk m)((i, c) := x) | _ \<Rightarrow> v_chunk m)"
  by (auto simp: v_chunk_def render_inject_sess fun_eq_iff split: db_key.splits)

lemma v_counter_upd [view_simps]:
  "v_counter cd (m(render k := x)) =
     (case k of KCounter c \<Rightarrow> (v_counter cd m)(c := Option.bind x (dec_u64 cd)) | _ \<Rightarrow> v_counter cd m)"
  by (auto simp: v_counter_def render_inject_sess fun_eq_iff split: db_key.splits)

lemma v_format_upd [view_simps]:
  "v_format cd (m(render k := x)) =
     (case k of KFormat \<Rightarrow> Option.bind x (dec_format cd) | _ \<Rightarrow> v_format cd m)"
  by (auto simp: v_format_def render_inject_sess split: db_key.splits)


section \<open>Results and content\<close>

lemma set_value_Inr:
  "set_value_in_write_batch enc kind k v b = Inr b' \<longleftrightarrow> (\<exists>buf. enc v = Some buf \<and> b' = b @ [BPut k buf])"
  by (auto simp: set_value_in_write_batch_def rbind_eq_Inr)

lemmas set_batch_defs =
  set_dentry_in_write_batch_def set_attr_in_write_batch_def set_hard_link_count_in_write_batch_def
  set_sustained_in_write_batch_def set_delete_chunk_after_in_write_batch_def

lemma deserialize_Inr:
  "deserialize_db rd dec kind k = Inr x \<longleftrightarrow> (\<exists>buf. rd k = Some (Some buf) \<and> dec buf = Some x)"
  by (auto simp: deserialize_db_def rbind_eq_Inr)

lemma apply_deletes:
  "apply_batch (map (\<lambda>(k, v). BDelete k) kvs) m k = (if k \<in> fst ` set kvs then None else m k)"
proof (induction kvs arbitrary: m)
  case (Cons x kvs)
  then show ?case by (cases x) auto
qed simp

context kv_store
begin

lemma do_get_attr_view: "do_get_attr cd (kv_get kv db) i = Inr a \<Longrightarrow> v_attr cd (content db) i = Some a"
  by (auto simp: do_get_attr_def deserialize_Inr v_attr_def key_render dest!: get_content [THEN sym])

lemma do_get_dentry_view:
  "do_get_dentry cd (kv_get kv db) p nm = Inr d \<Longrightarrow> v_dentry cd (content db) (p, nm) = Some d"
  by (auto simp: do_get_dentry_def deserialize_Inr v_dentry_def key_render dest!: get_content [THEN sym])

lemma do_get_attr_read:
  assumes "kv_get kv db (key_attr i) \<noteq> None" "v_attr cd (content db) i = Some a"
  shows "do_get_attr cd (kv_get kv db) i = Inr a"
proof -
  obtain r where r: "kv_get kv db (key_attr i) = Some r" using assms(1) by auto
  show ?thesis
    using r get_content [OF r] assms(2)
    by (auto simp: do_get_attr_def deserialize_Inr v_attr_def key_render bind_eq_Some_conv)
qed

text \<open>An operation leaves the content as it was or applies its whole batch.\<close>

lemma write_then_commit_content:
  assumes "write_then_commit kv plan db = (r, db')"
  shows "content db' = content db \<or>
    (\<exists>b x. plan = Inr (b, x) \<and> content db' = apply_batch b (content db))"
  using assms write_content commit_content
  by (fastforce simp: write_then_commit_def split: sum.splits option.splits)

lemma write_then_commit_Inr:
  assumes "write_then_commit kv plan db = (Inr x, db')"
  shows "\<exists>b. plan = Inr (b, x) \<and> content db' = apply_batch b (content db)"
  using assms write_content commit_content
  by (fastforce simp: write_then_commit_def split: sum.splits option.splits)

lemma commit_txn_content:
  assumes "commit_txn kv staged db = (r, db')"
  shows "content db' = content db \<or>
    (\<exists>b x. staged = Inr (b, x) \<and> content db' = apply_batch b (content db))"
  using assms commit_content by (fastforce simp: commit_txn_def split: sum.splits option.splits)

lemma commit_txn_Inr:
  assumes "commit_txn kv staged db = (Inr x, db')"
  shows "\<exists>b. staged = Inr (b, x) \<and> content db' = apply_batch b (content db)"
  using assms commit_content by (fastforce simp: commit_txn_def split: sum.splits option.splits)

end

context reliable_kv
begin

lemma do_get_attr_eq:
  "v_attr cd (content db) i = Some a \<Longrightarrow> do_get_attr cd (kv_get kv db) i = Inr a"
  using do_get_attr_read get_ok by blast

lemma do_get_dentry_eq:
  "v_dentry cd (content db) (p, nm) = Some d \<Longrightarrow> do_get_dentry cd (kv_get kv db) p nm = Inr d"
  by (auto simp: do_get_dentry_def deserialize_Inr v_dentry_def key_render get_eq bind_eq_Some_conv)

lemma do_get_dentry_none:
  "v_dentry cd (content db) (p, nm) = None \<Longrightarrow> \<not> is_ok (do_get_dentry cd (kv_get kv db) p nm)"
  using do_get_dentry_view [of cd db p nm] by (auto simp: is_ok_iff)

lemma write_then_commit_ok:
  "\<exists>db'. write_then_commit kv (Inr (b, x)) db = (Inr x, db') \<and> content db' = apply_batch b (content db)"
proof -
  obtain d1 d2 where d: "kv_write kv b db = Some d1" "kv_commit kv [] d1 = Some d2"
    using write_ok [of b db] commit_ok by blast
  then show ?thesis
    using write_content [OF d(1)] commit_content [OF d(2)] by (simp add: write_then_commit_def)
qed

lemma commit_txn_ok:
  "\<exists>db'. commit_txn kv (Inr (b, x)) db = (Inr x, db') \<and> content db' = apply_batch b (content db)"
proof -
  obtain d where d: "kv_commit kv b db = Some d" using commit_ok by blast
  then show ?thesis using commit_content [OF d] by (simp add: commit_txn_def)
qed

end

end
