(* ===== verification/Meta_Namespace.thy ===== *)
theory Meta_Namespace
  imports Meta_Store
begin

text \<open>
  The namespace operations of the backend (\<^verbatim>\<open>do_mknod\<close>, \<^verbatim>\<open>do_rmdir\<close>, \<^verbatim>\<open>do_link\<close>,
  \<^verbatim>\<open>do_unlink\<close>, \<^verbatim>\<open>do_rename\<close>, \<^verbatim>\<open>do_delete_chunks\<close> of \<^verbatim>\<open>meta/src/backend/rocksdb.rs\<close>). Each is
  a plan, the checks and the write batch computed from reads, run by \<open>write_then_commit\<close>.
  Clock readings and the question whether an inode is open are arguments.
\<close>

section \<open>Constants\<close>

definition S_ISGID :: u32 where "S_ISGID = 0x400"
definition S_ISVTX :: u32 where "S_ISVTX = 0x200"
definition MODE_MASK_SETGID_EXEC :: u32 where "MODE_MASK_SETGID_EXEC = 0x408"
definition DEFAULT_FILE_SIZE :: nat where "DEFAULT_FILE_SIZE = 4096"

type_synonym scanner = "bytes \<Rightarrow> (bytes \<times> bytes) list"

section \<open>\<^verbatim>\<open>do_mknod\<close>\<close>

text \<open>Group and set-group-id inheritance from a parent with the SGID bit.\<close>

definition mknod_sgid ::
  "fuse_context \<Rightarrow> file_type \<Rightarrow> inode_attr \<Rightarrow> inode_attr \<Rightarrow> inode_attr" where
  "mknod_sgid ctx typ parent_attr a =
     (if a_mode parent_attr AND S_ISGID \<noteq> 0 then
        (let a1 = a\<lparr>a_gid := a_gid parent_attr\<rparr> in
         if typ = Directory then a1\<lparr>a_mode := a_mode a1 OR S_ISGID\<rparr>
         else if a_mode a1 AND MODE_MASK_SETGID_EXEC = MODE_MASK_SETGID_EXEC
                 \<and> cx_uid ctx \<noteq> 0 \<and> a_gid parent_attr \<notin> set (cx_gid_list ctx)
         then a1\<lparr>a_mode := a_mode a1 AND NOT MODE_MASK_SETGID_EXEC\<rparr>
         else a1)
      else a)"

definition mknod_plan ::
  "codec \<Rightarrow> reader \<Rightarrow> fuse_context \<Rightarrow> ino \<Rightarrow> inode_attr \<Rightarrow> ino \<Rightarrow> string \<Rightarrow> file_type \<Rightarrow> string \<Rightarrow>
   systime \<Rightarrow> systime \<Rightarrow> (batch \<times> ino \<times> inode_attr) mresult" where
  "mknod_plan cd rd ctx new_inode new_inode_attr parent nm typ path now1 now2 =
     rbind (do_get_attr cd rd parent) (\<lambda>parent_attr.
     rbind (ensure (attr_is_dir parent_attr) (LibcError ENOTDIR)) (\<lambda>_.
     rbind (check_access ctx parent_attr MODE_MASK_W) (\<lambda>_.
     rbind (ensure (\<not> attr_is_immutable parent_attr) (LibcError EPERM)) (\<lambda>_.
     rbind (ensure (\<not> is_ok (do_get_dentry cd rd parent nm)) (LibcError EEXIST)) (\<lambda>_.
     let update_parent_attr = (typ = Directory);
         parent_attr' =
           (if typ = Directory
            then parent_attr\<lparr>a_nlink := a_nlink parent_attr + 1, a_mtime := now1, a_ctime := now1\<rparr>
            else parent_attr);
         a = mknod_sgid ctx typ parent_attr'
               (new_inode_attr\<lparr>a_atime := now2, a_mtime := now2, a_ctime := now2\<rparr>)
     in
     rbind (set_dentry_in_write_batch cd parent nm new_inode typ []) (\<lambda>b.
     rbind (set_attr_in_write_batch cd new_inode a b) (\<lambda>b.
     rbind (if update_parent_attr then set_attr_in_write_batch cd parent parent_attr' b
            else Inr b) (\<lambda>b.
     let b = (if typ = Symlink then b @ [BPut (key_symlink new_inode) path] else b)
     in Inr (b, new_inode, a)))))))))"

definition do_mknod ::
  "'db kv \<Rightarrow> codec \<Rightarrow> fuse_context \<Rightarrow> ino \<Rightarrow> inode_attr \<Rightarrow> ino \<Rightarrow> string \<Rightarrow> file_type \<Rightarrow> string \<Rightarrow>
   systime \<Rightarrow> systime \<Rightarrow> 'db \<Rightarrow> (ino \<times> inode_attr) mresult \<times> 'db" where
  "do_mknod kv cd ctx new_inode new_inode_attr parent nm typ path now1 now2 db =
     write_then_commit kv
       (mknod_plan cd (kv_get kv db) ctx new_inode new_inode_attr parent nm typ path now1 now2) db"

section \<open>\<^verbatim>\<open>do_rmdir\<close>\<close>

text \<open>The sticky-bit rule: in a sticky directory only its owner, the owner of the entry or root
  removes an entry.\<close>

definition sticky_denied :: "fuse_context \<Rightarrow> inode_attr \<Rightarrow> inode_attr \<Rightarrow> bool" where
  "sticky_denied ctx parent_attr a =
     (cx_uid ctx \<noteq> 0 \<and> a_mode parent_attr AND S_ISVTX \<noteq> 0
      \<and> cx_uid ctx \<noteq> a_uid parent_attr \<and> cx_uid ctx \<noteq> a_uid a)"

definition rmdir_plan ::
  "codec \<Rightarrow> reader \<Rightarrow> scanner \<Rightarrow> fuse_context \<Rightarrow> ino \<Rightarrow> string \<Rightarrow> duration \<Rightarrow> systime \<Rightarrow>
   (batch \<times> dentry \<times> inode_attr) mresult" where
  "rmdir_plan cd rd scan ctx parent nm skip_dir_mtime now =
     rbind (do_get_dentry cd rd parent nm) (\<lambda>entry_info.
     rbind (ensure (de_typ entry_info = Directory) (LibcError ENOTDIR)) (\<lambda>_.
     rbind (do_get_attr cd rd parent) (\<lambda>parent_attr.
     rbind (ensure (attr_is_dir parent_attr) (LibcError ENOTDIR)) (\<lambda>_.
     rbind (do_get_attr cd rd (de_inode entry_info)) (\<lambda>child_attr.
     rbind (ensure (attr_is_dir child_attr) (LibcError ENOTDIR)) (\<lambda>_.
     rbind (check_access ctx parent_attr (MODE_MASK_W OR MODE_MASK_X)) (\<lambda>_.
     rbind (ensure (\<not> attr_is_append_only parent_attr \<and> \<not> attr_is_immutable parent_attr)
              (LibcError EPERM)) (\<lambda>_.
     rbind (ensure (\<not> do_check_exist_children scan (de_inode entry_info)) (LibcError ENOTEMPTY)) (\<lambda>_.
     rbind (ensure (\<not> sticky_denied ctx parent_attr child_attr) (LibcError EACCES)) (\<lambda>_.
     rbind (ok_or (duration_since now (a_mtime parent_attr)) Panicked) (\<lambda>d.
     let parent_attr1 = parent_attr\<lparr>a_nlink := a_nlink parent_attr - 1\<rparr>;
         need_update_parent_attr = (d \<ge> skip_dir_mtime);
         parent_attr2 =
           (if need_update_parent_attr then parent_attr1\<lparr>a_mtime := now, a_ctime := now\<rparr>
            else parent_attr1);
         b = [BDelete (key_dentry parent nm), BDelete (key_attr (de_inode entry_info))]
     in
     rbind (if need_update_parent_attr then set_attr_in_write_batch cd parent parent_attr2 b
            else Inr b) (\<lambda>b.
     Inr (b, entry_info, child_attr)))))))))))))"

definition do_rmdir ::
  "'db kv \<Rightarrow> codec \<Rightarrow> fuse_context \<Rightarrow> ino \<Rightarrow> string \<Rightarrow> duration \<Rightarrow> systime \<Rightarrow> 'db \<Rightarrow>
   (dentry \<times> inode_attr) mresult \<times> 'db" where
  "do_rmdir kv cd ctx parent nm skip_dir_mtime now db =
     write_then_commit kv
       (rmdir_plan cd (kv_get kv db) (kv_scan kv db) ctx parent nm skip_dir_mtime now) db"

section \<open>\<^verbatim>\<open>do_link\<close>\<close>

definition link_plan ::
  "codec \<Rightarrow> reader \<Rightarrow> fuse_context \<Rightarrow> duration \<Rightarrow> ino \<Rightarrow> ino \<Rightarrow> string \<Rightarrow> systime \<Rightarrow>
   (batch \<times> inode_attr) mresult" where
  "link_plan cd rd ctx skip_dir_mtime inode new_parent new_name now =
     rbind (do_get_attr cd rd new_parent) (\<lambda>parent_attr.
     rbind (ensure (attr_is_dir parent_attr) (LibcError ENOTDIR)) (\<lambda>_.
     rbind (check_access ctx parent_attr MODE_MASK_W) (\<lambda>_.
     rbind (ensure (\<not> attr_is_immutable parent_attr) (LibcError EPERM)) (\<lambda>_.
     rbind (do_get_attr cd rd inode) (\<lambda>child_attr.
     rbind (ensure (\<not> attr_is_dir child_attr) (LibcError EPERM)) (\<lambda>_.
     rbind (ensure (attr_is_normal child_attr) (LibcError EPERM)) (\<lambda>_.
     rbind (ensure (\<not> is_ok (do_get_dentry cd rd new_parent new_name)) (LibcError EEXIST)) (\<lambda>_.
     case update_modification_time_if now skip_dir_mtime parent_attr of
       (need_update_parent_attr, parent_attr') \<Rightarrow>
     let old_parent = a_parent child_attr;
         child_attr' = child_attr\<lparr>a_ctime := now, a_nlink := a_nlink child_attr + 1,
                                  a_parent := ZERO_INO\<rparr>
     in
     rbind (set_dentry_in_write_batch cd new_parent new_name inode (a_kind child_attr') []) (\<lambda>b.
     rbind (if need_update_parent_attr then set_attr_in_write_batch cd new_parent parent_attr' b
            else Inr b) (\<lambda>b.
     rbind (set_attr_in_write_batch cd inode child_attr' b) (\<lambda>b.
     rbind (if \<not> ino_is_zero (a_parent child_attr')
            then rbind (do_get_hard_link_count cd rd inode old_parent) (\<lambda>cnt.
                   set_hard_link_count_in_write_batch cd inode old_parent (wrap64 (cnt + 1)) b)
            else Inr b) (\<lambda>b.
     rbind (do_get_hard_link_count cd rd inode new_parent) (\<lambda>cnt.
     rbind (set_hard_link_count_in_write_batch cd inode new_parent (wrap64 (cnt + 1)) b) (\<lambda>b.
     Inr (b, child_attr')))))))))))))))"

definition do_link ::
  "'db kv \<Rightarrow> codec \<Rightarrow> fuse_context \<Rightarrow> duration \<Rightarrow> ino \<Rightarrow> ino \<Rightarrow> string \<Rightarrow> systime \<Rightarrow> 'db \<Rightarrow>
   inode_attr mresult \<times> 'db" where
  "do_link kv cd ctx skip_dir_mtime inode new_parent new_name now db =
     write_then_commit kv
       (link_plan cd (kv_get kv db) ctx skip_dir_mtime inode new_parent new_name now) db"


section \<open>\<^verbatim>\<open>do_unlink\<close> and \<^verbatim>\<open>do_delete_chunks\<close>\<close>

record unlink_result =
  ur_inode :: ino
  ur_removed :: "inode_attr option"
  ur_freed_space :: nat
  ur_freed_inode :: nat
  ur_is_opened :: bool

text \<open>
  The target's attribute after the unlink, with its link count lowered, and whether it is a
  regular file without links that is still open. A target without attribute is replaced by the
  empty attribute.
\<close>

definition unlink_target ::
  "codec \<Rightarrow> reader \<Rightarrow> fuse_context \<Rightarrow> (ino \<Rightarrow> bool) \<Rightarrow> inode_attr \<Rightarrow> ino \<Rightarrow> systime \<Rightarrow>
   (inode_attr \<times> bool) mresult" where
  "unlink_target cd rd ctx is_opened parent_attr i now =
     (case do_get_attr cd rd i of
        Inl _ \<Rightarrow> Inr (attr_empty, False)
      | Inr a \<Rightarrow>
          rbind (ensure (\<not> sticky_denied ctx parent_attr a) (LibcError EACCES)) (\<lambda>_.
          rbind (ensure (attr_is_normal a) (LibcError EPERM)) (\<lambda>_.
          let a' = a\<lparr>a_ctime := now, a_nlink := a_nlink a - 1\<rparr>
          in Inr (a', attr_is_file a' \<and> a_nlink a' = 0 \<and> is_opened i))))"

text \<open>
  The records of an inode that has lost its last link: what the batch gets, the freed inodes
  and the freed space. Shared by unlink and by the replaced target of a rename, which account
  for the space of a file differently (\<open>space_of\<close>).
\<close>

definition drop_inode ::
  "codec \<Rightarrow> scanner \<Rightarrow> nat \<Rightarrow> (nat \<Rightarrow> nat) \<Rightarrow> ino \<Rightarrow> inode_attr \<Rightarrow> bool \<Rightarrow> systime \<Rightarrow> batch \<Rightarrow>
   (batch \<times> nat \<times> nat) mresult" where
  "drop_inode cd scan session_id space_of i a opened now b =
     rbind (if a_kind a = RegularFile then
              (if opened then
                 rbind (set_attr_in_write_batch cd i a b) (\<lambda>b.
                 rbind (set_sustained_in_write_batch cd session_id i 1 b) (\<lambda>b. Inr (b, 0, 0)))
               else
                 rbind (set_delete_chunk_after_in_write_batch cd now i b) (\<lambda>b.
                 Inr (b @ [BDelete (key_attr i)], 1, space_of (a_length a))))
            else
              (let b = (if a_kind a = Symlink then b @ [BDelete (key_symlink i)] else b)
               in Inr (b @ [BDelete (key_attr i)], 1, DEFAULT_FILE_SIZE))) (\<lambda>(b, freed_inode, freed_space).
     let b = delete_prefix_in_txn_write_batch scan (key_xattr_prefix i) b;
         b = (if ino_is_zero (a_parent a)
              then delete_prefix_in_txn_write_batch scan (key_parent_prefix i) b else b)
     in Inr (b, freed_inode, freed_space))"

text \<open>An inode that keeps links: its attribute, and the link count of \<open>parent\<close> when it has one.\<close>

definition keep_inode ::
  "codec \<Rightarrow> reader \<Rightarrow> ino \<Rightarrow> ino \<Rightarrow> inode_attr \<Rightarrow> batch \<Rightarrow> batch mresult" where
  "keep_inode cd rd i parent a b =
     rbind (set_attr_in_write_batch cd i a b) (\<lambda>b.
     if ino_is_zero (a_parent a) then
       rbind (do_get_hard_link_count cd rd i parent) (\<lambda>cnt.
       if cnt > 0 then set_hard_link_count_in_write_batch cd i parent (cnt - 1) b else Inr b)
     else Inr b)"

definition unlink_plan ::
  "codec \<Rightarrow> reader \<Rightarrow> scanner \<Rightarrow> fuse_context \<Rightarrow> duration \<Rightarrow> (ino \<Rightarrow> bool) \<Rightarrow> ino \<Rightarrow> string \<Rightarrow> nat \<Rightarrow>
   systime \<Rightarrow> systime \<Rightarrow> (batch \<times> unlink_result) mresult" where
  "unlink_plan cd rd scan ctx skip_dir_mtime is_opened parent nm session_id now now2 =
     rbind (do_get_dentry cd rd parent nm) (\<lambda>entry.
     rbind (ensure (de_typ entry \<noteq> Directory) (LibcError EPERM)) (\<lambda>_.
     rbind (do_get_attr cd rd parent) (\<lambda>parent_attr.
     rbind (ensure (attr_is_dir parent_attr) (LibcError ENOTDIR)) (\<lambda>_.
     rbind (check_access ctx parent_attr (MODE_MASK_W OR MODE_MASK_X)) (\<lambda>_.
     rbind (ensure (attr_is_normal parent_attr) (LibcError EPERM)) (\<lambda>_.
     rbind (unlink_target cd rd ctx is_opened parent_attr (de_inode entry) now) (\<lambda>(a, opened).
     case update_modification_time_if now skip_dir_mtime parent_attr of (upd, parent_attr') \<Rightarrow>
     rbind (if upd then set_attr_in_write_batch cd parent parent_attr' [] else Inr []) (\<lambda>b.
     let b = b @ [BDelete (key_dentry parent nm)] in
     rbind (if a_nlink a > 0 then
              rbind (keep_inode cd rd (de_inode entry) parent a b) (\<lambda>b. Inr (b, 0, 0))
            else drop_inode cd scan session_id (\<lambda>n. n) (de_inode entry) a opened now2 b)
       (\<lambda>(b, freed_inode, freed_space).
     Inr (b, \<lparr> ur_inode = de_inode entry,
               ur_removed = (if a_nlink a = 0 \<and> attr_is_file a then Some a else None),
               ur_freed_space = freed_space, ur_freed_inode = freed_inode,
               ur_is_opened = opened \<rparr>))))))))))"

definition do_unlink ::
  "'db kv \<Rightarrow> codec \<Rightarrow> fuse_context \<Rightarrow> duration \<Rightarrow> (ino \<Rightarrow> bool) \<Rightarrow> ino \<Rightarrow> string \<Rightarrow> nat \<Rightarrow>
   systime \<Rightarrow> systime \<Rightarrow> 'db \<Rightarrow> unlink_result mresult \<times> 'db" where
  "do_unlink kv cd ctx skip_dir_mtime is_opened parent nm session_id now now2 db =
     write_then_commit kv
       (unlink_plan cd (kv_get kv db) (kv_scan kv db) ctx skip_dir_mtime is_opened parent nm
          session_id now now2) db"

text \<open>Failures are only logged.\<close>

definition do_delete_chunks :: "'db kv \<Rightarrow> ino \<Rightarrow> 'db \<Rightarrow> 'db" where
  "do_delete_chunks kv i db =
     (let p = key_chunk_slices_prefix i;
          b = map (\<lambda>(k, v). BDelete k) (takeWhile (\<lambda>(k, v). prefix p k) (kv_scan kv db p))
              @ [BDelete (key_delete_chunk_after i)]
      in snd (write_then_commit kv (Inr (b, ())) db))"

section \<open>\<^verbatim>\<open>do_rename\<close>\<close>

definition RENAME_NOREPLACE :: u32 where "RENAME_NOREPLACE = 1"
definition RENAME_EXCHANGE :: u32 where "RENAME_EXCHANGE = 2"
definition RENAME_WHITEOUT :: u32 where "RENAME_WHITEOUT = 4"

record rename_result =
  rr_need_delete :: "(ino \<times> bool) option"
  rr_freed_space :: nat
  rr_freed_inode :: nat

text \<open>What the checks of \<^verbatim>\<open>do_rename\<close> hand to the batch.\<close>

record rename_state =
  rn_old_entry :: dentry
  rn_old_parent_attr :: inode_attr
  rn_new_parent_attr :: inode_attr
  rn_old_attr :: inode_attr
  rn_update_new_parent :: bool
  rn_opened :: bool
  rn_dst :: "(dentry \<times> inode_attr) option"

text \<open>The source's sticky-bit checks.\<close>

definition rename_src_denied ::
  "fuse_context \<Rightarrow> ino \<Rightarrow> ino \<Rightarrow> inode_attr \<Rightarrow> inode_attr \<Rightarrow> bool" where
  "rename_src_denied ctx old_parent new_parent old_parent_attr old_attr =
     ((old_parent \<noteq> new_parent \<and> a_mode old_parent_attr AND S_ISVTX \<noteq> 0 \<and> cx_uid ctx \<noteq> 0
       \<and> cx_uid ctx \<noteq> a_uid old_attr
       \<and> (cx_uid ctx \<noteq> a_uid old_parent_attr \<or> attr_is_dir old_attr))
      \<or> sticky_denied ctx old_parent_attr old_attr)"

text \<open>
  An existing destination: exchanged, or a directory that must be empty, or a file that loses a
  link. Yields its new attribute and the parents' link counts.
\<close>

definition rename_dst_adjust ::
  "scanner \<Rightarrow> (ino \<Rightarrow> bool) \<Rightarrow> ino \<Rightarrow> ino \<Rightarrow> u32 \<Rightarrow> dentry \<Rightarrow> inode_attr \<Rightarrow> rename_state \<Rightarrow>
   (inode_attr \<times> rename_state) mresult" where
  "rename_dst_adjust scan is_opened old_parent new_parent flags dst_entry dst_attr st =
     (if flags = RENAME_EXCHANGE then
        (if old_parent \<noteq> new_parent then
           (if de_typ dst_entry = Directory then
              Inr (dst_attr\<lparr>a_parent := old_parent\<rparr>,
                   st\<lparr>rn_new_parent_attr := (rn_new_parent_attr st)
                         \<lparr>a_nlink := a_nlink (rn_new_parent_attr st) - 1\<rparr>,
                      rn_old_parent_attr := (rn_old_parent_attr st)
                         \<lparr>a_nlink := a_nlink (rn_old_parent_attr st) + 1\<rparr>\<rparr>)
            else if \<not> ino_is_zero (a_parent dst_attr) then
              Inr (dst_attr\<lparr>a_parent := old_parent\<rparr>, st)
            else Inr (dst_attr, st))
         else Inr (dst_attr, st))
      else if de_typ dst_entry = Directory then
        rbind (ensure (\<not> do_check_exist_children scan (de_inode dst_entry)) (LibcError ENOTEMPTY)) (\<lambda>_.
        Inr (dst_attr,
             st\<lparr>rn_new_parent_attr := (rn_new_parent_attr st)
                   \<lparr>a_nlink := a_nlink (rn_new_parent_attr st) - 1\<rparr>,
                rn_update_new_parent := True\<rparr>))
      else
        (let dst_attr = dst_attr\<lparr>a_nlink := a_nlink dst_attr - 1\<rparr>
         in Inr (dst_attr,
                 st\<lparr>rn_opened := (de_typ dst_entry = RegularFile \<and> a_nlink dst_attr = 0
                                  \<and> is_opened (de_inode dst_entry))\<rparr>)))"

text \<open>The branch for an existing destination entry; \<open>now0\<close> is its clock reading.\<close>

definition rename_dst ::
  "codec \<Rightarrow> reader \<Rightarrow> scanner \<Rightarrow> fuse_context \<Rightarrow> (ino \<Rightarrow> bool) \<Rightarrow> ino \<Rightarrow> ino \<Rightarrow> u32 \<Rightarrow> systime \<Rightarrow>
   dentry \<Rightarrow> rename_state \<Rightarrow> rename_state mresult" where
  "rename_dst cd rd scan ctx is_opened old_parent new_parent flags now0 dst_entry st =
     rbind (ensure (\<not> flags_contains flags RENAME_NOREPLACE) (LibcError EEXIST)) (\<lambda>_.
     rbind (do_get_attr cd rd (de_inode dst_entry)) (\<lambda>dst_attr.
     rbind (ensure (attr_is_normal dst_attr) (LibcError EPERM)) (\<lambda>_.
     rbind (rename_dst_adjust scan is_opened old_parent new_parent flags dst_entry
              (dst_attr\<lparr>a_ctime := now0\<rparr>) st) (\<lambda>(dst_attr, st).
     rbind (ensure (\<not> sticky_denied ctx (rn_new_parent_attr st) dst_attr) (LibcError EACCES)) (\<lambda>_.
     Inr (st\<lparr>rn_dst := Some (dst_entry, dst_attr)\<rparr>))))))"

definition rename_check ::
  "codec \<Rightarrow> reader \<Rightarrow> scanner \<Rightarrow> fuse_context \<Rightarrow> (ino \<Rightarrow> bool) \<Rightarrow> ino \<Rightarrow> string \<Rightarrow> ino \<Rightarrow> string \<Rightarrow> u32 \<Rightarrow>
   systime \<Rightarrow> dentry \<Rightarrow> rename_state mresult" where
  "rename_check cd rd scan ctx is_opened old_parent old_name new_parent new_name flags now0 old_entry =
     rbind (do_get_attr cd rd old_parent) (\<lambda>old_parent_attr.
     rbind (ensure (attr_is_dir old_parent_attr) (LibcError ENOTDIR)) (\<lambda>_.
     rbind (check_access ctx old_parent_attr (MODE_MASK_W OR MODE_MASK_X)) (\<lambda>_.
     rbind (do_get_attr cd rd new_parent) (\<lambda>new_parent_attr.
     rbind (ensure (attr_is_dir new_parent_attr) (LibcError ENOTDIR)) (\<lambda>_.
     rbind (check_access ctx new_parent_attr (MODE_MASK_W OR MODE_MASK_X)) (\<lambda>_.
     rbind (ensure (de_inode old_entry \<noteq> new_parent
                    \<and> de_inode old_entry \<noteq> a_parent new_parent_attr) (LibcError EPERM)) (\<lambda>_.
     rbind (do_get_attr cd rd (de_inode old_entry)) (\<lambda>old_attr.
     rbind (ensure (attr_is_normal old_attr) (LibcError EPERM)) (\<lambda>_.
     rbind (ensure (\<not> rename_src_denied ctx old_parent new_parent old_parent_attr old_attr)
              (LibcError EACCES)) (\<lambda>_.
     let st = \<lparr> rn_old_entry = old_entry, rn_old_parent_attr = old_parent_attr,
                rn_new_parent_attr = new_parent_attr, rn_old_attr = old_attr,
                rn_update_new_parent = False, rn_opened = False, rn_dst = None \<rparr>
     in
     case do_get_dentry cd rd new_parent new_name of
       Inr dst_entry \<Rightarrow>
         rename_dst cd rd scan ctx is_opened old_parent new_parent flags now0 dst_entry st
     | Inl e \<Rightarrow>
         rbind (ensure (is_not_found e) e) (\<lambda>_.
         rbind (ensure (flags \<noteq> RENAME_EXCHANGE) (LibcError ENOENT)) (\<lambda>_. Inr st))))))))))))"

text \<open>\<^verbatim>\<open>align4k(length) as u64\<close>\<close>

definition align4k_u64 :: "nat \<Rightarrow> nat" where
  "align4k_u64 n = nat (align4k (of_nat n) mod 2 ^ 64)"

text \<open>The entries and attributes of the displaced destination.\<close>

definition rename_batch_dst ::
  "codec \<Rightarrow> reader \<Rightarrow> scanner \<Rightarrow> nat \<Rightarrow> ino \<Rightarrow> string \<Rightarrow> ino \<Rightarrow> u32 \<Rightarrow> systime \<Rightarrow> rename_state \<Rightarrow>
   (batch \<times> rename_result) mresult" where
  "rename_batch_dst cd rd scan session_id old_parent old_name new_parent flags now2 st =
     (let none = \<lparr> rr_need_delete = None, rr_freed_space = 0, rr_freed_inode = 0 \<rparr> in
      if flags = RENAME_EXCHANGE then
        rbind (ok_or (rn_dst st) (LibcError EIO)) (\<lambda>(dst, dst_attr).
        rbind (set_dentry_in_write_batch cd old_parent old_name (de_inode dst) (de_typ dst) []) (\<lambda>b.
        rbind (set_attr_in_write_batch cd (de_inode dst) dst_attr b) (\<lambda>b.
        if old_parent \<noteq> new_parent \<and> ino_is_zero (a_parent dst_attr) then
          rbind (do_get_hard_link_count cd rd (de_inode dst) old_parent) (\<lambda>cnt.
          rbind (set_hard_link_count_in_write_batch cd (de_inode dst) old_parent (wrap64 (cnt + 1)) b) (\<lambda>b.
          rbind (do_get_hard_link_count cd rd (de_inode dst) new_parent) (\<lambda>cnt.
          rbind (set_hard_link_count_in_write_batch cd (de_inode dst) new_parent (cnt - 1) b) (\<lambda>b.
          Inr (b, none)))))
        else Inr (b, none))))
      else
        (let b = [BDelete (key_dentry old_parent old_name)] in
         case rn_dst st of
           None \<Rightarrow> Inr (b, none)
         | Some (dst, dst_attr) \<Rightarrow>
             if a_kind dst_attr \<noteq> Directory \<and> a_nlink dst_attr > 0 then
               rbind (keep_inode cd rd (de_inode dst) old_parent dst_attr b) (\<lambda>b. Inr (b, none))
             else
               rbind (drop_inode cd scan session_id align4k_u64 (de_inode dst) dst_attr
                        (rn_opened st) now2 b) (\<lambda>(b, freed_inode, freed_space).
               Inr (b, \<lparr> rr_need_delete =
                           (if a_kind dst_attr = RegularFile
                            then Some (de_inode dst, rn_opened st) else None),
                         rr_freed_space = freed_space, rr_freed_inode = freed_inode \<rparr>))))"

text \<open>The attributes after the move, each parent with whether it has to be written.\<close>

definition rename_attrs ::
  "duration \<Rightarrow> ino \<Rightarrow> ino \<Rightarrow> systime \<Rightarrow> rename_state \<Rightarrow>
   (bool \<times> inode_attr) \<times> (bool \<times> inode_attr) \<times> inode_attr" where
  "rename_attrs skip_dir_mtime old_parent new_parent now st =
     (let moved = (old_parent \<noteq> new_parent);
          old_attr = (if moved then (rn_old_attr st)\<lparr>a_parent := new_parent\<rparr> else rn_old_attr st);
          old_parent_attr =
            (if moved then (rn_old_parent_attr st)\<lparr>a_nlink := a_nlink (rn_old_parent_attr st) - 1\<rparr>
             else rn_old_parent_attr st);
          new_parent_attr =
            (if moved then (rn_new_parent_attr st)\<lparr>a_nlink := a_nlink (rn_new_parent_attr st) + 1\<rparr>
             else rn_new_parent_attr st)
      in (update_modification_time_if now skip_dir_mtime old_parent_attr,
          (if rn_update_new_parent st
           then (True, update_modification_time_with now new_parent_attr)
           else update_modification_time_if now skip_dir_mtime new_parent_attr),
          old_attr\<lparr>a_ctime := now\<rparr>))"

text \<open>The link counts of a moved inode that is tracked by parent keys.\<close>

definition rename_src_links ::
  "codec \<Rightarrow> reader \<Rightarrow> ino \<Rightarrow> ino \<Rightarrow> ino \<Rightarrow> inode_attr \<Rightarrow> batch \<Rightarrow> batch mresult" where
  "rename_src_links cd rd old_parent new_parent src old_attr b =
     (if old_parent \<noteq> new_parent \<and> ino_is_zero (a_parent old_attr) then
        rbind (do_get_hard_link_count cd rd src new_parent) (\<lambda>cnt.
        rbind (set_hard_link_count_in_write_batch cd src new_parent (wrap64 (cnt + 1)) b) (\<lambda>b.
        rbind (do_get_hard_link_count cd rd src old_parent) (\<lambda>cnt.
        set_hard_link_count_in_write_batch cd src old_parent (cnt - 1) b)))
      else Inr b)"

definition rename_plan ::
  "codec \<Rightarrow> reader \<Rightarrow> scanner \<Rightarrow> duration \<Rightarrow> nat \<Rightarrow> ino \<Rightarrow> string \<Rightarrow> ino \<Rightarrow> string \<Rightarrow> u32 \<Rightarrow>
   systime \<Rightarrow> systime \<Rightarrow> rename_state \<Rightarrow> (batch \<times> rename_result) mresult" where
  "rename_plan cd rd scan skip_dir_mtime session_id old_parent old_name new_parent new_name flags
     now now2 st =
     (case rename_attrs skip_dir_mtime old_parent new_parent now st of
        ((update_old_parent, old_parent_attr), (update_new_parent, new_parent_attr), old_attr) \<Rightarrow>
      let src = de_inode (rn_old_entry st) in
      rbind (rename_batch_dst cd rd scan session_id old_parent old_name new_parent flags now2 st)
        (\<lambda>(b, result).
      rbind (if old_parent \<noteq> new_parent \<and> update_old_parent
             then set_attr_in_write_batch cd old_parent old_parent_attr b else Inr b) (\<lambda>b.
      rbind (rename_src_links cd rd old_parent new_parent src old_attr b) (\<lambda>b.
      rbind (set_attr_in_write_batch cd src old_attr b) (\<lambda>b.
      rbind (set_dentry_in_write_batch cd new_parent new_name src (a_kind old_attr) b) (\<lambda>b.
      rbind (if update_new_parent then set_attr_in_write_batch cd new_parent new_parent_attr b
             else Inr b) (\<lambda>b.
      Inr (b, result))))))))"

definition do_rename ::
  "'db kv \<Rightarrow> codec \<Rightarrow> fuse_context \<Rightarrow> duration \<Rightarrow> (ino \<Rightarrow> bool) \<Rightarrow> nat \<Rightarrow> ino \<Rightarrow> string \<Rightarrow> ino \<Rightarrow>
   string \<Rightarrow> u32 \<Rightarrow> systime \<Rightarrow> systime \<Rightarrow> systime \<Rightarrow> 'db \<Rightarrow> rename_result mresult \<times> 'db" where
  "do_rename kv cd ctx skip_dir_mtime is_opened session_id old_parent old_name new_parent new_name
     flags now0 now now2 db =
     (case do_get_dentry cd (kv_get kv db) old_parent old_name of
        Inl e \<Rightarrow> (Inl e, db)
      | Inr old_entry \<Rightarrow>
          if old_parent = new_parent \<and> old_name = new_name
          then (Inr \<lparr> rr_need_delete = None, rr_freed_space = 0, rr_freed_inode = 0 \<rparr>, db)
          else
            write_then_commit kv
              (rbind (rename_check cd (kv_get kv db) (kv_scan kv db) ctx is_opened old_parent
                        old_name new_parent new_name flags now0 old_entry) (\<lambda>st.
               rename_plan cd (kv_get kv db) (kv_scan kv db) skip_dir_mtime session_id old_parent
                 old_name new_parent new_name flags now now2 st)) db)"

end
