(* ===== verification/Meta_Invariant.thy ===== *)
theory Meta_Invariant
  imports Meta_Namespace
begin

text \<open>
  The namespace invariant: no directory entry dangles, entries agree with the attribute of the
  inode they name, their parents are directories, a directory has at most one entry and a
  file at most as many as its link count, and the root is a directory no entry names. Every
  namespace operation keeps it, also when the database fails at any of its calls. The proofs
  compose small updates of the two views (attributes, entries) each of which keeps it.
\<close>

section \<open>The invariant\<close>

type_synonym attr_view = "ino \<Rightarrow> inode_attr option"
type_synonym dentry_view = "ino \<times> string \<Rightarrow> dentry option"

definition refs :: "dentry_view \<Rightarrow> ino \<Rightarrow> (ino \<times> string) set" where
  "refs D i = {k. \<exists>d. D k = Some d \<and> de_inode d = i}"

definition entry_ok :: "attr_view \<Rightarrow> ino \<times> string \<Rightarrow> dentry \<Rightarrow> bool" where
  "entry_ok A k d \<longleftrightarrow>
     de_parent d = fst k \<and> de_name d = snd k
     \<and> (\<exists>pa. A (fst k) = Some pa \<and> a_kind pa = Directory)
     \<and> (\<exists>a. A (de_inode d) = Some a \<and> a_kind a = de_typ d)"

definition links_ok :: "dentry_view \<Rightarrow> ino \<Rightarrow> inode_attr \<Rightarrow> bool" where
  "links_ok D i a \<longleftrightarrow>
     finite (refs D i)
     \<and> (if a_kind a = Directory then card (refs D i) \<le> 1 else card (refs D i) \<le> unat (a_nlink a))"

definition ns_inv :: "attr_view \<Rightarrow> dentry_view \<Rightarrow> bool" where
  "ns_inv A D \<longleftrightarrow>
     (\<forall>k d. D k = Some d \<longrightarrow> entry_ok A k d)
     \<and> (\<forall>i a. A i = Some a \<longrightarrow> links_ok D i a)
     \<and> (\<exists>ra. A ROOT_INO = Some ra \<and> a_kind ra = Directory)
     \<and> refs D ROOT_INO = {}"

section \<open>Updates that keep it\<close>

declare split_paired_All [simp del] split_paired_Ex [simp del]

lemma refs_mem: "D k = Some d \<Longrightarrow> k \<in> refs D (de_inode d)"
  by (auto simp: refs_def)

lemma refs_remove: "refs (D(k := None)) i = refs D i - {k}"
  by (auto simp: refs_def)

lemma refs_add: "D k = None \<Longrightarrow> refs (D(k \<mapsto> d)) i = (if de_inode d = i then insert k (refs D i) else refs D i)"
  by (auto simp: refs_def)

lemma ns_entry: "ns_inv A D \<Longrightarrow> D k = Some d \<Longrightarrow> entry_ok A k d"
  by (simp add: ns_inv_def)

lemma ns_links: "ns_inv A D \<Longrightarrow> A i = Some a \<Longrightarrow> links_ok D i a"
  by (simp add: ns_inv_def)

lemma ns_root: "ns_inv A D \<Longrightarrow> refs D ROOT_INO = {}"
  by (simp add: ns_inv_def)

lemma ns_entry_attr:
  "ns_inv A D \<Longrightarrow> D k = Some d \<Longrightarrow> \<exists>a. A (de_inode d) = Some a \<and> a_kind a = de_typ d"
  by (auto simp: entry_ok_def dest!: ns_entry)

lemma ns_entry_parent:
  "ns_inv A D \<Longrightarrow> D (p, nm) = Some d \<Longrightarrow> \<exists>pa. A p = Some pa \<and> a_kind pa = Directory"
  by (auto simp: entry_ok_def dest!: ns_entry)

lemma ns_entry_not_root: "ns_inv A D \<Longrightarrow> D k = Some d \<Longrightarrow> de_inode d \<noteq> ROOT_INO"
  by (metis empty_iff ns_root refs_mem)

lemma ns_no_refs: "ns_inv A D \<Longrightarrow> A i = None \<Longrightarrow> refs D i = {}"
  by (auto simp: refs_def dest: ns_entry_attr)

text \<open>Replacing the attribute of an inode that keeps its kind and enough links.\<close>

lemma ns_set_attr:
  assumes inv: "ns_inv A D" and A: "A i = Some a" and kind: "a_kind a' = a_kind a"
    and links: "a_kind a = Directory \<or> card (refs D i) \<le> unat (a_nlink a')"
  shows "ns_inv (A(i \<mapsto> a')) D"
proof -
  have "links_ok D i a'"
    using ns_links [OF inv A] kind links by (auto simp: links_ok_def)
  moreover have "entry_ok (A(i \<mapsto> a')) k d" if "D k = Some d" for k d
    using ns_entry [OF inv that] A kind by (auto simp: entry_ok_def)
  ultimately show ?thesis using inv A kind by (auto simp: ns_inv_def)
qed

text \<open>A directory's attribute may be replaced by any directory attribute.\<close>

lemma ns_set_dir:
  "ns_inv A D \<Longrightarrow> A i = Some a \<Longrightarrow> a_kind a = Directory \<Longrightarrow> a_kind a' = Directory \<Longrightarrow>
   ns_inv (A(i \<mapsto> a')) D"
  by (rule ns_set_attr [where a = a]) simp_all

lemma ns_new_attr:
  assumes inv: "ns_inv A D" and new: "A i = None"
  shows "ns_inv (A(i \<mapsto> a)) D"
proof -
  have "links_ok D i a" using ns_no_refs [OF inv new] by (simp add: links_ok_def)
  moreover have "entry_ok (A(i \<mapsto> a)) k d" if "D k = Some d" for k d
    using ns_entry [OF inv that] new by (auto simp: entry_ok_def)
  ultimately show ?thesis using inv new by (auto simp: ns_inv_def)
qed

lemma ns_remove_entry:
  assumes inv: "ns_inv A D"
  shows "ns_inv A (D(k := None))"
proof -
  have "links_ok (D(k := None)) i a" if "A i = Some a" for i a
    using ns_links [OF inv that] card_Diff1_le [of "refs D i" k]
    by (auto simp: links_ok_def refs_remove split: if_splits intro: order_trans)
  then show ?thesis using inv by (auto simp: ns_inv_def refs_remove)
qed

lemma ns_add_entry:
  assumes inv: "ns_inv A D" and new: "D k = None"
    and A: "A (de_inode d) = Some a" and ok: "entry_ok A k d" and root: "de_inode d \<noteq> ROOT_INO"
    and room: "if a_kind a = Directory then refs D (de_inode d) = {}
               else card (refs D (de_inode d)) < unat (a_nlink a)"
  shows "ns_inv A (D(k \<mapsto> d))"
proof -
  have "links_ok (D(k \<mapsto> d)) i b" if "A i = Some b" for i b
    using ns_links [OF inv that] room A that
    by (auto simp: links_ok_def refs_add new card_insert_if split: if_splits)
  then show ?thesis using inv ok root by (auto simp: ns_inv_def refs_add new)
qed

lemma ns_drop_attr:
  assumes inv: "ns_inv A D" and none: "refs D i = {}" and kids: "\<And>nm. D (i, nm) = None"
    and root: "i \<noteq> ROOT_INO"
  shows "ns_inv (A(i := None)) D"
proof -
  have "entry_ok (A(i := None)) k d" if "D k = Some d" for k d
  proof -
    have "de_inode d \<noteq> i" by (metis empty_iff none refs_mem that)
    moreover have "fst k \<noteq> i" using kids [of "snd k"] that by (cases k) auto
    ultimately show ?thesis using ns_entry [OF inv that] by (auto simp: entry_ok_def)
  qed
  then show ?thesis using inv root by (auto simp: ns_inv_def)
qed

text \<open>A file has no children.\<close>

lemma ns_file_no_children:
  "ns_inv A D \<Longrightarrow> A i = Some a \<Longrightarrow> a_kind a \<noteq> Directory \<Longrightarrow> D (i, nm) = None"
  using ns_entry_parent [of A D i nm] by (cases "D (i, nm)") auto

text \<open>Counting links when an entry of a file goes away.\<close>

lemma card_refs_remove:
  "finite (refs D i) \<Longrightarrow> k \<in> refs D i \<Longrightarrow> card (refs (D(k := None)) i) = card (refs D i) - 1"
  by (simp add: refs_remove)

lemma ns_links_file:
  assumes "ns_inv A D" "D k = Some d" "A (de_inode d) = Some a" "a_kind a \<noteq> Directory"
  shows "0 < unat (a_nlink a)" and "card (refs (D(k := None)) (de_inode d)) \<le> unat (a_nlink a - 1)"
proof -
  have fin: "finite (refs D (de_inode d))" and le: "card (refs D (de_inode d)) \<le> unat (a_nlink a)"
    using ns_links [OF assms(1,3)] assms(4) by (simp_all add: links_ok_def)
  have k: "k \<in> refs D (de_inode d)" using assms(2) by (rule refs_mem)
  have "0 < card (refs D (de_inode d))"
    using k fin card_gt_0_iff by blast
  then show "0 < unat (a_nlink a)" using le by simp
  then have "unat (a_nlink a - 1) = unat (a_nlink a) - 1"
    by (intro unat_minus_one) (auto simp: unat_gt_0)
  then show "card (refs (D(k := None)) (de_inode d)) \<le> unat (a_nlink a - 1)"
    using card_refs_remove [OF fin k] le by simp
qed

lemma ns_dir_single:
  assumes "ns_inv A D" "D k = Some d" "A (de_inode d) = Some a" "a_kind a = Directory"
  shows "refs (D(k := None)) (de_inode d) = {}"
proof -
  have fin: "finite (refs D (de_inode d))" and le: "card (refs D (de_inode d)) \<le> 1"
    using ns_links [OF assms(1,3)] assms(4) by (simp_all add: links_ok_def)
  have "k \<in> refs D (de_inode d)" using assms(2) by (rule refs_mem)
  then have "refs D (de_inode d) = {k}"
    using fin le by (auto simp: card_le_Suc0_iff_eq)
  then show ?thesis by (simp add: refs_remove)
qed


section \<open>What a plan does to the two views\<close>

lemma mknod_sgid_simps [simp]:
  "a_kind (mknod_sgid ctx typ pa a) = a_kind a"
  "a_nlink (mknod_sgid ctx typ pa a) = a_nlink a"
  by (simp_all add: mknod_sgid_def Let_def)

lemma update_if_kind [simp]:
  "a_kind (snd (update_modification_time_if now skip a)) = a_kind a"
  by (simp add: update_modification_time_if_def)

lemmas plan_simps =
  rbind_eq_Inr Let_def set_value_Inr set_batch_defs key_render view_simps

lemma delete_prefix_views:
  assumes "p = key_xattr_prefix i \<or> p = key_parent_prefix i"
  shows "v_attr cd (apply_batch (delete_prefix_in_txn_write_batch scan p b) m) =
           v_attr cd (apply_batch b m)"
    and "v_dentry cd (apply_batch (delete_prefix_in_txn_write_batch scan p b) m) =
           v_dentry cd (apply_batch b m)"
proof -
  let ?kvs = "takeWhile (\<lambda>(k, v). prefix p k) (scan p)"
  have keep: "render k \<notin> fst ` set ?kvs" if "\<nexists>nm. k = KXattr i nm" "\<nexists>q. k = KParent i q" for k
    using assms that xattr_prefix_scan [of i k] parent_prefix_scan [of i k]
    by (auto dest!: set_takeWhileD)
  show "v_attr cd (apply_batch (delete_prefix_in_txn_write_batch scan p b) m) =
           v_attr cd (apply_batch b m)"
    using keep by (simp add: fun_eq_iff v_attr_def delete_prefix_in_txn_write_batch_def apply_deletes)
  show "v_dentry cd (apply_batch (delete_prefix_in_txn_write_batch scan p b) m) =
           v_dentry cd (apply_batch b m)"
    using keep by (simp add: fun_eq_iff v_dentry_def delete_prefix_in_txn_write_batch_def
        apply_deletes split: prod.split)
qed

lemmas delete_prefix_simps =
  delete_prefix_views [OF disjI1, OF refl] delete_prefix_views [OF disjI2, OF refl]

definition upd_attr :: "bool \<Rightarrow> ino \<Rightarrow> inode_attr \<Rightarrow> attr_view \<Rightarrow> attr_view" where
  "upd_attr u i a A = (if u then A(i \<mapsto> a) else A)"

definition dst_ok :: "scanner \<Rightarrow> u32 \<Rightarrow> dentry \<Rightarrow> inode_attr \<Rightarrow> inode_attr \<Rightarrow> bool" where
  "dst_ok scan flags dst da da' \<longleftrightarrow>
     a_kind da' = a_kind da
     \<and> a_nlink da' =
         (if flags = RENAME_EXCHANGE \<or> de_typ dst = Directory then a_nlink da else a_nlink da - 1)
     \<and> (flags \<noteq> RENAME_EXCHANGE \<and> de_typ dst = Directory \<longrightarrow>
          \<not> do_check_exist_children scan (de_inode dst))"

text \<open>The batches of an unlink and of a rename, step by step.\<close>

lemma unlink_plan_parts:
  assumes "unlink_plan cd rd scan ctx skip is_opened p nm sid now now2 = Inr (b, r)"
  shows "\<exists>e pa a opened b1 fi fs. do_get_dentry cd rd p nm = Inr e \<and> de_typ e \<noteq> Directory
    \<and> do_get_attr cd rd p = Inr pa \<and> a_kind pa = Directory
    \<and> unlink_target cd rd ctx is_opened pa (de_inode e) now = Inr (a, opened)
    \<and> (if fst (update_modification_time_if now skip pa)
       then set_attr_in_write_batch cd p (snd (update_modification_time_if now skip pa)) []
       else Inr []) = Inr b1
    \<and> (if a_nlink a > 0 then
         rbind (keep_inode cd rd (de_inode e) p a (b1 @ [BDelete (key_dentry p nm)])) (\<lambda>b. Inr (b, 0, 0))
       else drop_inode cd scan sid (\<lambda>n. n) (de_inode e) a opened now2
              (b1 @ [BDelete (key_dentry p nm)])) = Inr (b, fi, fs)"
  using assms
  by (clarsimp simp: unlink_plan_def rbind_eq_Inr Let_def attr_is_dir_def case_prod_beta
      split del: if_split cong: if_cong)

lemma rename_plan_parts:
  assumes "rename_plan cd rd scan skip sid op on np nn flags now now2 st = Inr (b, r)"
    and attrs: "rename_attrs skip op np now st = ((uo, opa), (un, npa), sa)"
  shows "\<exists>b0 b1 b2 b3 b4. rename_batch_dst cd rd scan sid op on np flags now2 st = Inr (b0, r)
    \<and> (if op \<noteq> np \<and> uo then set_attr_in_write_batch cd op opa b0 else Inr b0) = Inr b1
    \<and> rename_src_links cd rd op np (de_inode (rn_old_entry st)) sa b1 = Inr b2
    \<and> set_attr_in_write_batch cd (de_inode (rn_old_entry st)) sa b2 = Inr b3
    \<and> set_dentry_in_write_batch cd np nn (de_inode (rn_old_entry st)) (a_kind sa) b3 = Inr b4
    \<and> (if un then set_attr_in_write_batch cd np npa b4 else Inr b4) = Inr b"
  using assms(1) by (auto simp: rename_plan_def attrs rbind_eq_Inr Let_def split del: if_split)

context codec_laws
begin

lemma mknod_plan_views:
  assumes "mknod_plan cd rd ctx new attr parent nm typ path now1 now2 = Inr (b, i, a')"
  shows "\<exists>pa. do_get_attr cd rd parent = Inr pa \<and> a_kind pa = Directory
    \<and> \<not> is_ok (do_get_dentry cd rd parent nm) \<and> i = new
    \<and> a_kind a' = a_kind attr \<and> a_nlink a' = a_nlink attr
    \<and> v_dentry cd (apply_batch b m) =
        (v_dentry cd m)((parent, nm) \<mapsto>
          \<lparr> de_parent = parent, de_name = nm, de_inode = new, de_typ = typ \<rparr>)
    \<and> v_attr cd (apply_batch b m) =
        (if typ = Directory
         then (v_attr cd m)(new \<mapsto> a', parent \<mapsto>
                pa\<lparr>a_nlink := a_nlink pa + 1, a_mtime := now1, a_ctime := now1\<rparr>)
         else (v_attr cd m)(new \<mapsto> a'))"
  using assms
  by (cases "typ = Directory"; cases "typ = Symlink")
    (auto simp: mknod_plan_def plan_simps attr_dec dentry_dec attr_is_dir_def)

lemma rmdir_plan_views:
  assumes "rmdir_plan cd rd scan ctx parent nm skip now = Inr (b, e, ca)"
  shows "\<exists>pa. do_get_dentry cd rd parent nm = Inr e \<and> de_typ e = Directory
    \<and> do_get_attr cd rd parent = Inr pa \<and> a_kind pa = Directory
    \<and> do_get_attr cd rd (de_inode e) = Inr ca \<and> a_kind ca = Directory
    \<and> \<not> do_check_exist_children scan (de_inode e)
    \<and> duration_since now (a_mtime pa) \<noteq> None
    \<and> v_dentry cd (apply_batch b m) = (v_dentry cd m)((parent, nm) := None)
    \<and> v_attr cd (apply_batch b m) =
        (if skip \<le> the (duration_since now (a_mtime pa)) then (v_attr cd m)(de_inode e := None, parent \<mapsto>
             pa\<lparr>a_nlink := a_nlink pa - 1, a_mtime := now, a_ctime := now\<rparr>)
         else (v_attr cd m)(de_inode e := None))"
  using assms
  by (auto simp: rmdir_plan_def plan_simps attr_dec attr_is_dir_def
      split: if_split_asm split del: if_split)

lemma link_plan_views:
  assumes "link_plan cd rd ctx skip inode p nm now = Inr (b, a')"
  shows "\<exists>pa a. do_get_attr cd rd p = Inr pa \<and> a_kind pa = Directory
    \<and> do_get_attr cd rd inode = Inr a \<and> a_kind a \<noteq> Directory
    \<and> \<not> is_ok (do_get_dentry cd rd p nm)
    \<and> a' = a\<lparr>a_ctime := now, a_nlink := a_nlink a + 1, a_parent := ZERO_INO\<rparr>
    \<and> v_dentry cd (apply_batch b m) =
        (v_dentry cd m)((p, nm) \<mapsto>
          \<lparr> de_parent = p, de_name = nm, de_inode = inode, de_typ = a_kind a \<rparr>)
    \<and> v_attr cd (apply_batch b m) =
        (if fst (update_modification_time_if now skip pa)
         then (v_attr cd m)(p \<mapsto> snd (update_modification_time_if now skip pa), inode \<mapsto> a')
         else (v_attr cd m)(inode \<mapsto> a'))"
  using assms
  by (auto simp: link_plan_def plan_simps attr_dec dentry_dec attr_is_dir_def ino_is_zero_def
      ZERO_INO_def case_prod_beta split: if_split_asm split del: if_split)

lemma drop_inode_views:
  assumes "drop_inode cd scan sid f i a opened now b = Inr (b', fi, fs)"
  shows "v_dentry cd (apply_batch b' m) = v_dentry cd (apply_batch b m)"
    and "v_attr cd (apply_batch b' m) =
      (v_attr cd (apply_batch b m))(i := if a_kind a = RegularFile \<and> opened then Some a else None)"
  using assms
  by (auto simp: drop_inode_def plan_simps attr_dec delete_prefix_simps ino_is_zero_def
      split: if_split_asm split del: if_split)

lemma keep_inode_views:
  assumes "keep_inode cd rd i p a b = Inr b'"
  shows "v_dentry cd (apply_batch b' m) = v_dentry cd (apply_batch b m)"
    and "v_attr cd (apply_batch b' m) = (v_attr cd (apply_batch b m))(i \<mapsto> a)"
  using assms by (auto simp: keep_inode_def plan_simps attr_dec split: if_split_asm)

lemma unlink_plan_views:
  assumes "unlink_plan cd rd scan ctx skip is_opened p nm sid now now2 = Inr (b, r)"
  shows "\<exists>e pa a opened. do_get_dentry cd rd p nm = Inr e \<and> de_typ e \<noteq> Directory
    \<and> do_get_attr cd rd p = Inr pa \<and> a_kind pa = Directory
    \<and> unlink_target cd rd ctx is_opened pa (de_inode e) now = Inr (a, opened)
    \<and> v_dentry cd (apply_batch b m) = (v_dentry cd m)((p, nm) := None)
    \<and> v_attr cd (apply_batch b m) =
        (if fst (update_modification_time_if now skip pa)
         then (v_attr cd m)(p \<mapsto> snd (update_modification_time_if now skip pa)) else v_attr cd m)
          (de_inode e := if 0 < a_nlink a \<or> a_kind a = RegularFile \<and> opened then Some a else None)"
proof -
  from unlink_plan_parts [OF assms] obtain e pa a opened b1 fi fs where
    checks: "do_get_dentry cd rd p nm = Inr e" "de_typ e \<noteq> Directory"
      "do_get_attr cd rd p = Inr pa" "a_kind pa = Directory"
      "unlink_target cd rd ctx is_opened pa (de_inode e) now = Inr (a, opened)"
    and b1: "(if fst (update_modification_time_if now skip pa)
              then set_attr_in_write_batch cd p (snd (update_modification_time_if now skip pa)) []
              else Inr []) = Inr b1"
    and b: "(if a_nlink a > 0 then
              rbind (keep_inode cd rd (de_inode e) p a (b1 @ [BDelete (key_dentry p nm)])) (\<lambda>b. Inr (b, 0, 0))
            else drop_inode cd scan sid (\<lambda>n. n) (de_inode e) a opened now2
                   (b1 @ [BDelete (key_dentry p nm)])) = Inr (b, fi, fs)"
    by blast
  let ?b = "b1 @ [BDelete (key_dentry p nm)]"
  have "v_dentry cd (apply_batch ?b m) = (v_dentry cd m)((p, nm) := None)"
    and "v_attr cd (apply_batch ?b m) = (if fst (update_modification_time_if now skip pa)
         then (v_attr cd m)(p \<mapsto> snd (update_modification_time_if now skip pa)) else v_attr cd m)"
    using b1 by (auto simp: plan_simps attr_dec split: if_split_asm)
  moreover have "v_dentry cd (apply_batch b m) = v_dentry cd (apply_batch ?b m)"
    and "v_attr cd (apply_batch b m) = (v_attr cd (apply_batch ?b m))
          (de_inode e := if 0 < a_nlink a \<or> a_kind a = RegularFile \<and> opened then Some a else None)"
    using b keep_inode_views [of rd "de_inode e" p a ?b b m]
      drop_inode_views [of scan sid "\<lambda>n. n" "de_inode e" a opened now2 ?b b fi fs m]
    by (auto simp: rbind_eq_Inr split: if_split_asm)
  ultimately show ?thesis using checks by auto
qed

text \<open>What the checks of a rename establish about its state.\<close>

lemma rename_dst_adjust_state:
  assumes "rename_dst_adjust scan is_opened op np flags dst da st0 = Inr (da', st)"
    and "a_kind (rn_old_parent_attr st0) = Directory" "a_kind (rn_new_parent_attr st0) = Directory"
  shows "a_kind (rn_old_parent_attr st) = Directory \<and> a_kind (rn_new_parent_attr st) = Directory
    \<and> rn_old_entry st = rn_old_entry st0 \<and> rn_old_attr st = rn_old_attr st0
    \<and> dst_ok scan flags dst da da'"
  using assms by (auto simp: rename_dst_adjust_def dst_ok_def rbind_ensure Let_def split: if_split_asm)

lemma rename_dst_state:
  assumes st: "rename_dst cd rd scan ctx is_opened op np flags now0 dst st0 = Inr st"
    and k: "a_kind (rn_old_parent_attr st0) = Directory" "a_kind (rn_new_parent_attr st0) = Directory"
  shows "\<exists>da. do_get_attr cd rd (de_inode dst) = Inr da \<and>
     rn_old_entry st = rn_old_entry st0 \<and> rn_old_attr st = rn_old_attr st0
     \<and> a_kind (rn_old_parent_attr st) = Directory \<and> a_kind (rn_new_parent_attr st) = Directory
     \<and> rn_dst st \<noteq> None \<and> fst (the (rn_dst st)) = dst
     \<and> dst_ok scan flags dst da (snd (the (rn_dst st)))"
proof -
  obtain da da' st1 where da: "do_get_attr cd rd (de_inode dst) = Inr da"
    and x: "rename_dst_adjust scan is_opened op np flags dst (da\<lparr>a_ctime := now0\<rparr>) st0 = Inr (da', st1)"
    and st_eq: "st = st1\<lparr>rn_dst := Some (dst, da')\<rparr>"
    using st by (clarsimp simp: rename_dst_def rbind_eq_Inr)
  show ?thesis
    using rename_dst_adjust_state [OF x k] da st_eq by (simp add: dst_ok_def)
qed

lemma rename_check_state:
  assumes "rename_check cd rd scan ctx is_opened op on np nn flags now0 e = Inr st"
  shows "\<exists>opa npa. do_get_attr cd rd op = Inr opa \<and> a_kind opa = Directory
    \<and> do_get_attr cd rd np = Inr npa \<and> a_kind npa = Directory
    \<and> do_get_attr cd rd (de_inode e) = Inr (rn_old_attr st) \<and> de_inode e \<noteq> np
    \<and> rn_old_entry st = e
    \<and> a_kind (rn_old_parent_attr st) = Directory \<and> a_kind (rn_new_parent_attr st) = Directory
    \<and> (case do_get_dentry cd rd np nn of
         Inl err \<Rightarrow> is_not_found err \<and> rn_dst st = None \<and> flags \<noteq> RENAME_EXCHANGE
       | Inr dst \<Rightarrow> (\<exists>da. do_get_attr cd rd (de_inode dst) = Inr da \<and> rn_dst st \<noteq> None
           \<and> fst (the (rn_dst st)) = dst \<and> dst_ok scan flags dst da (snd (the (rn_dst st)))))"
proof -
  obtain opa npa a where r: "do_get_attr cd rd op = Inr opa" "a_kind opa = Directory"
      "do_get_attr cd rd np = Inr npa" "a_kind npa = Directory"
      "do_get_attr cd rd (de_inode e) = Inr a" "de_inode e \<noteq> np"
    and st: "(case do_get_dentry cd rd np nn of
       Inr dst_entry \<Rightarrow> rename_dst cd rd scan ctx is_opened op np flags now0 dst_entry
         \<lparr> rn_old_entry = e, rn_old_parent_attr = opa, rn_new_parent_attr = npa, rn_old_attr = a,
           rn_update_new_parent = False, rn_opened = False, rn_dst = None \<rparr>
     | Inl err \<Rightarrow>
         rbind (ensure (is_not_found err) err) (\<lambda>_.
         rbind (ensure (flags \<noteq> RENAME_EXCHANGE) (LibcError ENOENT)) (\<lambda>_.
         Inr \<lparr> rn_old_entry = e, rn_old_parent_attr = opa, rn_new_parent_attr = npa, rn_old_attr = a,
           rn_update_new_parent = False, rn_opened = False, rn_dst = None \<rparr>))) = Inr st"
    using assms by (clarsimp simp: rename_check_def rbind_eq_Inr Let_def attr_is_dir_def)
  show ?thesis
  proof (cases "do_get_dentry cd rd np nn")
    case (Inl err)
    then show ?thesis using r st by (auto simp: rbind_eq_Inr)
  next
    case (Inr dst)
    then show ?thesis using r st by (auto dest!: rename_dst_state)
  qed
qed

lemma rename_batch_dst_views:
  assumes "rename_batch_dst cd rd scan sid op on np flags now2 st = Inr (b, r)"
  shows "v_dentry cd (apply_batch b m) = (v_dentry cd m)((op, on) :=
      (if flags = RENAME_EXCHANGE
       then (let dst = fst (the (rn_dst st)) in
             Some \<lparr> de_parent = op, de_name = on, de_inode = de_inode dst, de_typ = de_typ dst \<rparr>)
       else None))" (is ?D)
    and "v_attr cd (apply_batch b m) =
      (case rn_dst st of None \<Rightarrow> v_attr cd m
       | Some (dst, da) \<Rightarrow> (v_attr cd m)(de_inode dst :=
           if flags = RENAME_EXCHANGE \<or> a_kind da \<noteq> Directory \<and> 0 < a_nlink da
              \<or> a_kind da = RegularFile \<and> rn_opened st
           then Some da else None))" (is ?A)
    and "flags = RENAME_EXCHANGE \<Longrightarrow> rn_dst st \<noteq> None"
proof -
  have "?D \<and> ?A \<and> (flags = RENAME_EXCHANGE \<longrightarrow> rn_dst st \<noteq> None)"
  proof (cases "flags = RENAME_EXCHANGE")
    case True
    then show ?thesis using assms
      by (auto simp: rename_batch_dst_def plan_simps attr_dec dentry_dec split: if_split_asm)
  next
    case False
    note b0 = this
    show ?thesis
    proof (cases "rn_dst st")
      case None
      then show ?thesis using assms b0 by (auto simp: rename_batch_dst_def plan_simps)
    next
      case (Some x)
      obtain dst da where x: "x = (dst, da)" by fastforce
      let ?b = "[BDelete (key_dentry op on)]"
      have b: "v_dentry cd (apply_batch ?b m) = (v_dentry cd m)((op, on) := None)"
        "v_attr cd (apply_batch ?b m) = v_attr cd m"
        by (simp_all add: plan_simps)
      show ?thesis
      proof (cases "a_kind da \<noteq> Directory \<and> 0 < a_nlink da")
        case True
        then have "keep_inode cd rd (de_inode dst) op da ?b = Inr b"
          using assms b0 Some x by (simp add: rename_batch_dst_def rbind_eq_Inr Let_def)
        then show ?thesis using b0 Some x b True by (auto simp: keep_inode_views)
      next
        case False
        then obtain fi fs where "drop_inode cd scan sid align4k_u64 (de_inode dst) da (rn_opened st) now2 ?b
            = Inr (b, fi, fs)"
          using assms b0 Some x by (auto simp: rename_batch_dst_def rbind_eq_Inr Let_def)
        from drop_inode_views [OF this, of m] show ?thesis using b0 Some x b False by auto
      qed
    qed
  qed
  then show ?D and ?A and "flags = RENAME_EXCHANGE \<Longrightarrow> rn_dst st \<noteq> None" by blast+
qed

lemma set_attr_if_view:
  "(if u then set_attr_in_write_batch cd i a b else Inr b) = Inr b' \<Longrightarrow>
   v_dentry cd (apply_batch b' m) = v_dentry cd (apply_batch b m)
   \<and> v_attr cd (apply_batch b' m) = upd_attr u i a (v_attr cd (apply_batch b m))"
  by (auto simp: plan_simps attr_dec upd_attr_def split: if_split_asm)

lemma set_attr_view:
  "set_attr_in_write_batch cd i a b = Inr b' \<Longrightarrow>
   v_dentry cd (apply_batch b' m) = v_dentry cd (apply_batch b m)
   \<and> v_attr cd (apply_batch b' m) = (v_attr cd (apply_batch b m))(i \<mapsto> a)"
  by (auto simp: plan_simps attr_dec)

lemma set_dentry_view:
  "set_dentry_in_write_batch cd p nm i t b = Inr b' \<Longrightarrow>
   v_dentry cd (apply_batch b' m) =
     (v_dentry cd (apply_batch b m))((p, nm) \<mapsto>
        \<lparr> de_parent = p, de_name = nm, de_inode = i, de_typ = t \<rparr>)
   \<and> v_attr cd (apply_batch b' m) = v_attr cd (apply_batch b m)"
  by (auto simp: plan_simps dentry_dec)

lemma src_links_view:
  "rename_src_links cd rd op np i a b = Inr b' \<Longrightarrow>
   v_dentry cd (apply_batch b' m) = v_dentry cd (apply_batch b m)
   \<and> v_attr cd (apply_batch b' m) = v_attr cd (apply_batch b m)"
  by (auto simp: rename_src_links_def plan_simps split: if_split_asm)

lemma rename_attrs_kinds:
  assumes "rename_attrs skip op np now st = ((uo, opa), (un, npa), sa)"
    and "a_kind (rn_old_parent_attr st) = Directory" "a_kind (rn_new_parent_attr st) = Directory"
  shows "a_kind opa = Directory" "a_kind npa = Directory"
    "a_kind sa = a_kind (rn_old_attr st)" "a_nlink sa = a_nlink (rn_old_attr st)"
  using assms
  by (auto simp: rename_attrs_def Let_def update_modification_time_if_def
      update_modification_time_with_def split: if_split_asm)

lemma rename_plan_views:
  assumes plan: "rename_plan cd rd scan skip sid op on np nn flags now now2 st = Inr (b, r)"
    and attrs: "rename_attrs skip op np now st = ((uo, opa), (un, npa), sa)"
  shows "\<exists>b0. rename_batch_dst cd rd scan sid op on np flags now2 st = Inr (b0, r)
    \<and> v_dentry cd (apply_batch b m) = (v_dentry cd (apply_batch b0 m))((np, nn) \<mapsto>
        \<lparr> de_parent = np, de_name = nn, de_inode = de_inode (rn_old_entry st), de_typ = a_kind sa \<rparr>)
    \<and> v_attr cd (apply_batch b m) = upd_attr un np npa
        ((upd_attr (op \<noteq> np \<and> uo) op opa (v_attr cd (apply_batch b0 m)))
          (de_inode (rn_old_entry st) \<mapsto> sa))"
proof -
  from rename_plan_parts [OF plan attrs] obtain b0 b1 b2 b3 b4 where
    b0: "rename_batch_dst cd rd scan sid op on np flags now2 st = Inr (b0, r)"
    and b1: "(if op \<noteq> np \<and> uo then set_attr_in_write_batch cd op opa b0 else Inr b0) = Inr b1"
    and b2: "rename_src_links cd rd op np (de_inode (rn_old_entry st)) sa b1 = Inr b2"
    and b3: "set_attr_in_write_batch cd (de_inode (rn_old_entry st)) sa b2 = Inr b3"
    and b4: "set_dentry_in_write_batch cd np nn (de_inode (rn_old_entry st)) (a_kind sa) b3 = Inr b4"
    and b: "(if un then set_attr_in_write_batch cd np npa b4 else Inr b4) = Inr b"
    by blast
  show ?thesis
    using b0 set_attr_if_view [OF b1, of m] src_links_view [OF b2, of m] set_attr_view [OF b3, of m]
      set_dentry_view [OF b4, of m] set_attr_if_view [OF b, of m]
    by simp
qed

end


section \<open>Every operation keeps the invariant\<close>

definition ns_ok :: "codec \<Rightarrow> content \<Rightarrow> bool" where
  "ns_ok cd m = ns_inv (v_attr cd m) (v_dentry cd m)"

text \<open>A new entry in place of whatever the name held.\<close>

lemma ns_put_entry:
  assumes inv: "ns_inv A D" and A: "A i = Some a" and kind: "a_kind a = t" and root: "i \<noteq> ROOT_INO"
    and parent: "A p = Some pa" "a_kind pa = Directory"
    and room: "if t = Directory then refs (D((p, nm) := None)) i = {}
               else card (refs (D((p, nm) := None)) i) < unat (a_nlink a)"
  shows "ns_inv A (D((p, nm) \<mapsto> \<lparr> de_parent = p, de_name = nm, de_inode = i, de_typ = t \<rparr>))"
proof -
  let ?d = "\<lparr> de_parent = p, de_name = nm, de_inode = i, de_typ = t \<rparr>"
  have "ns_inv A ((D((p, nm) := None))((p, nm) \<mapsto> ?d))"
    using A kind root parent room
    by (intro ns_add_entry [OF ns_remove_entry [OF inv]]) (auto simp: entry_ok_def)
  then show ?thesis by simp
qed

lemma refs_remove_subset: "refs (D(k := None)) i \<subseteq> refs D i"
  by (auto simp: refs_remove)

text \<open>
  The displaced destination of a rename: after its entry is gone, its attribute is kept with
  enough links or dropped.
\<close>

lemma ns_displace:
  assumes inv: "ns_inv A D" and dst: "D k = Some dst" "A (de_inode dst) = Some da"
    and ok: "dst_ok scan flags dst da da'" and ex: "flags \<noteq> RENAME_EXCHANGE"
    and kids: "de_typ dst = Directory \<Longrightarrow> (\<And>n. D (de_inode dst, n) = None)"
  shows "ns_inv (A(de_inode dst :=
      if a_kind da' \<noteq> Directory \<and> 0 < a_nlink da' \<or> a_kind da' = RegularFile \<and> opened
      then Some da' else None)) (D(k := None))"
proof -
  have kind: "a_kind da = de_typ dst" using ns_entry_attr [OF inv dst(1)] dst(2) by auto
  have inv1: "ns_inv A (D(k := None))" by (rule ns_remove_entry [OF inv])
  note root = ns_entry_not_root [OF inv dst(1)]
  show ?thesis
  proof (cases "de_typ dst = Directory")
    case True
    then have "a_kind da' = Directory" using ok kind by (simp add: dst_ok_def)
    moreover have "ns_inv (A(de_inode dst := None)) (D(k := None))"
      using inv1 ns_dir_single [OF inv dst] kind True root kids [OF True]
      by (intro ns_drop_attr) auto
    ultimately show ?thesis by simp
  next
    case False
    then have da': "a_kind da' = a_kind da" "a_nlink da' = a_nlink da - 1" and nd: "a_kind da \<noteq> Directory"
      using ok ex kind by (auto simp: dst_ok_def)
    have card: "card (refs (D(k := None)) (de_inode dst)) \<le> unat (a_nlink da')"
      using ns_links_file(2) [OF inv dst nd] da' by simp
    have fin: "finite (refs (D(k := None)) (de_inode dst))"
      using ns_links [OF inv1 dst(2)] by (simp add: links_ok_def)
    have "ns_inv (A(de_inode dst \<mapsto> da')) (D(k := None))"
      using ns_set_attr [OF inv1 dst(2) da'(1)] card by simp
    moreover have "ns_inv (A(de_inode dst := None)) (D(k := None))" if "\<not> 0 < a_nlink da'"
      using inv1 card fin that root ns_file_no_children [OF inv1 dst(2) nd]
      by (intro ns_drop_attr) (auto simp: word_gt_0)
    ultimately show ?thesis using nd da' by (simp split: if_split)
  qed
qed

lemma ns_upd_dir:
  "ns_inv A D \<Longrightarrow> A i = Some a \<Longrightarrow> a_kind a = Directory \<Longrightarrow> a_kind a' = Directory \<Longrightarrow>
   ns_inv (upd_attr u i a' A) D"
  by (simp add: upd_attr_def ns_set_dir)

text \<open>The new attribute of the moved inode and of the two parents.\<close>

lemma ns_move_attrs:
  assumes inv: "ns_inv A D" and src: "A src = Some sa0" "a_kind sa = a_kind sa0"
      "a_kind sa \<noteq> Directory \<Longrightarrow> unat (a_nlink sa0) \<le> unat (a_nlink sa)"
    and op: "A op = Some x" "a_kind x = Directory" "a_kind opa = Directory"
    and np: "A np = Some y" "a_kind y = Directory" "a_kind npa = Directory" "src \<noteq> np"
  shows "ns_inv (upd_attr un np npa ((upd_attr uo op opa A)(src \<mapsto> sa))) D"
proof -
  have inv1: "ns_inv (upd_attr uo op opa A) D" by (rule ns_upd_dir [OF inv op])
  obtain sa1 where sa1: "upd_attr uo op opa A src = Some sa1" "a_kind sa1 = a_kind sa0"
      "a_kind sa \<noteq> Directory \<Longrightarrow> a_nlink sa1 = a_nlink sa0"
    using src op by (cases "op = src"; cases uo) (auto simp: upd_attr_def)
  have "a_kind sa1 = Directory \<or> card (refs D src) \<le> unat (a_nlink sa)"
    using ns_links [OF inv1 sa1(1)] sa1 src by (cases "a_kind sa = Directory") (auto simp: links_ok_def)
  then have inv2: "ns_inv ((upd_attr uo op opa A)(src \<mapsto> sa)) D"
    using ns_set_attr [OF inv1 sa1(1)] sa1(2) src(2) by simp
  obtain y' where "((upd_attr uo op opa A)(src \<mapsto> sa)) np = Some y'" "a_kind y' = Directory"
    using np op by (cases "op = np"; cases uo) (auto simp: upd_attr_def)
  then show ?thesis using ns_upd_dir [OF inv2] np(3) by blast
qed

text \<open>Moving an entry to a free name.\<close>

lemma ns_move_entry:
  assumes inv: "ns_inv A D" and S: "D S = Some e" and T: "T = (np, nn)" "S \<noteq> T"
    and src: "A (de_inode e) = Some a" and np: "A np = Some y" "a_kind y = Directory"
  shows "ns_inv A ((D(S := None))(T \<mapsto>
    \<lparr> de_parent = np, de_name = nn, de_inode = de_inode e, de_typ = a_kind a \<rparr>))"
proof -
  let ?D = "D(S := None)" and ?i = "de_inode e"
  have inv1: "ns_inv A ?D" by (rule ns_remove_entry [OF inv])
  have fin: "finite (refs ?D ?i)" using ns_links [OF inv1 src] by (simp add: links_ok_def)
  have "if a_kind a = Directory then refs (?D(T := None)) ?i = {}
        else card (refs (?D(T := None)) ?i) < unat (a_nlink a)"
  proof (cases "a_kind a = Directory")
    case True
    then show ?thesis using ns_dir_single [OF inv S src] by (auto simp: refs_remove)
  next
    case False
    have "card (refs (?D(T := None)) ?i) \<le> card (refs ?D ?i)"
      by (rule card_mono [OF fin refs_remove_subset])
    also have "\<dots> \<le> unat (a_nlink a - 1)" by (rule ns_links_file(2) [OF inv S src False])
    also have "\<dots> < unat (a_nlink a)"
      using ns_links_file(1) [OF inv S src False] unat_minus_one [of "a_nlink a"]
      by (auto simp: unat_gt_0)
    finally show ?thesis using False by simp
  qed
  then show ?thesis
    unfolding T(1) by (rule ns_put_entry [OF inv1 src refl ns_entry_not_root [OF inv S] np])
qed

lemma ns_rename_replace:
  assumes inv: "ns_inv A D" and S: "D S = Some e" and T: "T = (np, nn)" "S \<noteq> T"
    and src: "A (de_inode e) = Some sa0" "a_kind sa = a_kind sa0"
      "a_kind sa \<noteq> Directory \<Longrightarrow> unat (a_nlink sa0) \<le> unat (a_nlink sa)"
    and kinds: "a_kind opa = Directory" "a_kind npa = Directory"
    and np: "A np = Some y" "a_kind y = Directory" "de_inode e \<noteq> np"
  shows "ns_inv (upd_attr un np npa ((upd_attr uo (fst S) opa A)(de_inode e \<mapsto> sa)))
    ((D(S := None))(T \<mapsto>
      \<lparr> de_parent = np, de_name = nn, de_inode = de_inode e, de_typ = a_kind sa \<rparr>))"
proof -
  let ?A = "upd_attr un np npa ((upd_attr uo (fst S) opa A)(de_inode e \<mapsto> sa))"
  obtain x where x: "A (fst S) = Some x" "a_kind x = Directory"
    using ns_entry [OF inv S] by (auto simp: entry_ok_def)
  have inv1: "ns_inv ?A D"
    by (rule ns_move_attrs [OF inv src x kinds(1) np(1,2) kinds(2) np(3)])
  have "?A (de_inode e) = Some sa" using np by (auto simp: upd_attr_def)
  moreover obtain y' where "?A np = Some y'" "a_kind y' = Directory"
    using ns_entry_parent np kinds by (cases un; cases uo; cases "fst S = np") (auto simp: upd_attr_def)
  ultimately show ?thesis using ns_move_entry [OF inv1 S T] by blast
qed

lemma refs_exchange:
  assumes "D S = Some e" "D T = Some d" "S \<noteq> T" "de_inode d' = de_inode d"
  shows "\<exists>x \<in> refs D (de_inode e). refs (((D(T := None))(S \<mapsto> d'))(T := None)) (de_inode e) \<subseteq> refs D (de_inode e) - {x}"
proof (cases "de_inode e = de_inode d")
  case True
  then show ?thesis using assms by (intro bexI [of _ T]) (auto simp: refs_def)
next
  case False
  then show ?thesis using assms by (intro bexI [of _ S]) (auto simp: refs_def)
qed

lemma ns_rename_exchange:
  assumes inv: "ns_inv A D" and S: "D S = Some e" "S = (op, on)" and T: "D T = Some d" "T = (np, nn)" "S \<noteq> T"
    and src: "A (de_inode e) = Some sa" and dst: "A (de_inode d) = Some da"
  shows "ns_inv A ((D(S \<mapsto> \<lparr> de_parent = op, de_name = on, de_inode = de_inode d, de_typ = de_typ d \<rparr>))
    (T \<mapsto> \<lparr> de_parent = np, de_name = nn, de_inode = de_inode e, de_typ = a_kind sa \<rparr>))"
proof -
  let ?d = "\<lparr> de_parent = op, de_name = on, de_inode = de_inode d, de_typ = de_typ d \<rparr>"
  let ?D1 = "(D(T := None))(S \<mapsto> ?d)" and ?i = "de_inode e"
  have kd: "a_kind da = de_typ d" using ns_entry_attr [OF inv T(1)] dst by auto
  obtain x y where x: "A op = Some x" "a_kind x = Directory" and y: "A np = Some y" "a_kind y = Directory"
    using ns_entry_parent [OF inv] S T by blast
  have "ns_inv A ((D(T := None))(S := None, S \<mapsto> ?d))"
    using ns_move_entry [OF inv T(1) S(2) T(3) [symmetric] dst x] kd by simp
  then have inv1: "ns_inv A ?D1" by simp
  obtain z where z: "z \<in> refs D ?i" "refs (?D1(T := None)) ?i \<subseteq> refs D ?i - {z}"
    using refs_exchange [OF S(1) T(1,3), of ?d] by auto
  have links: "links_ok D ?i sa" by (rule ns_links [OF inv src])
  then have fin: "finite (refs D ?i)" by (simp add: links_ok_def)
  have le: "card (refs (?D1(T := None)) ?i) \<le> card (refs D ?i) - 1"
    using card_mono [OF _ z(2)] fin z(1) by simp
  have "0 < card (refs D ?i)" using z(1) fin card_gt_0_iff by blast
  then have "if a_kind sa = Directory then refs (?D1(T := None)) ?i = {}
        else card (refs (?D1(T := None)) ?i) < unat (a_nlink sa)"
    using le links finite_subset [OF z(2)] fin by (auto simp: links_ok_def)
  then have "ns_inv A (?D1(T \<mapsto>
      \<lparr> de_parent = np, de_name = nn, de_inode = de_inode e, de_typ = a_kind sa \<rparr>))"
    unfolding T(2) by (rule ns_put_entry [OF inv1 [unfolded T(2)] src refl ns_entry_not_root [OF inv S(1)] y])
  then show ?thesis using T(3) by (simp add: fun_upd_twist)
qed

text \<open>A rename onto an existing name, and an exchange, as updates of the two views.\<close>

lemma ns_rename_over:
  assumes inv: "ns_inv A D" and S: "D S = Some e" and T: "T = (np, nn)" "S \<noteq> T"
    and dst: "D T = Some dst" "A (de_inode dst) = Some da"
    and ok: "dst_ok scan flags dst da da'" and ex: "flags \<noteq> RENAME_EXCHANGE"
    and kids: "\<And>n. de_typ dst = Directory \<Longrightarrow> D (de_inode dst, n) = None"
    and src: "A (de_inode e) = Some a" "a_kind sa = a_kind a" "a_nlink sa = a_nlink a"
    and kinds: "a_kind opa = Directory" "a_kind npa = Directory"
    and np: "A np = Some y" "a_kind y = Directory" "de_inode e \<noteq> np"
    and A0: "A0 = A(de_inode dst :=
      if a_kind da' \<noteq> Directory \<and> 0 < a_nlink da' \<or> a_kind da' = RegularFile \<and> opened
      then Some da' else None)"
  shows "ns_inv (upd_attr un np npa ((upd_attr uo (fst S) opa A0)(de_inode e \<mapsto> sa)))
    ((D(S := None))(T \<mapsto>
      \<lparr> de_parent = np, de_name = nn, de_inode = de_inode e, de_typ = a_kind sa \<rparr>))"
proof -
  have inv1: "ns_inv A0 (D(T := None))"
    unfolding A0 by (rule ns_displace [OF inv dst ok ex kids])
  have S1: "(D(T := None)) S = Some e" using S T by auto
  have dst_kind: "a_kind da = de_typ dst" using ns_entry_attr [OF inv dst(1)] dst(2) by auto
  have "de_inode dst \<noteq> np"
    using kids [of nn] dst_kind dst np T by auto
  then have np0: "A0 np = Some y" using np by (simp add: A0)
  obtain sa0 where sa0: "A0 (de_inode e) = Some sa0" "a_kind sa0 = de_typ e"
    using ns_entry_attr [OF inv1 S1] by auto
  have kind: "a_kind sa = a_kind sa0" using src ns_entry_attr [OF inv S] sa0(2) by auto
  have "unat (a_nlink sa0) \<le> unat (a_nlink sa)" if nd: "a_kind sa \<noteq> Directory"
  proof (cases "de_inode e = de_inode dst")
    case True
    then have "sa0 = da'" "da = a" using sa0(1) src(1) dst(2) by (auto simp: A0 split: if_split_asm)
    then have "a_nlink sa0 = a_nlink sa - 1" "0 < unat (a_nlink sa)"
      using ok ex dst_kind nd src ns_links_file(1) [OF inv S src(1)] by (auto simp: dst_ok_def)
    then show ?thesis using unat_minus_one [of "a_nlink sa"] by (auto simp: unat_gt_0)
  qed (use sa0(1) src in \<open>auto simp: A0\<close>)
  then have "ns_inv (upd_attr un np npa ((upd_attr uo (fst S) opa A0)(de_inode e \<mapsto> sa)))
      (((D(T := None))(S := None))(T \<mapsto>
        \<lparr> de_parent = np, de_name = nn, de_inode = de_inode e, de_typ = a_kind sa \<rparr>))"
    by (rule ns_rename_replace [OF inv1 S1 T sa0(1) kind _ kinds np0 np(2,3)])
  then show ?thesis using T(2) by (simp add: fun_upd_twist)
qed

lemma ns_rename_swap:
  assumes inv: "ns_inv A D" and S: "D S = Some e" "S = (op, on)" and T: "D T = Some dst" "T = (np, nn)" "S \<noteq> T"
    and dst: "A (de_inode dst) = Some da" "a_kind da' = a_kind da" "a_nlink da' = a_nlink da"
    and src: "A (de_inode e) = Some a" "a_kind sa = a_kind a" "a_nlink sa = a_nlink a"
    and kinds: "a_kind opa = Directory" "a_kind npa = Directory"
    and np: "A np = Some y" "a_kind y = Directory" "de_inode e \<noteq> np"
  shows "ns_inv (upd_attr un np npa ((upd_attr uo op opa (A(de_inode dst \<mapsto> da')))(de_inode e \<mapsto> sa)))
    ((D(S \<mapsto> \<lparr> de_parent = op, de_name = on, de_inode = de_inode dst, de_typ = de_typ dst \<rparr>))
      (T \<mapsto> \<lparr> de_parent = np, de_name = nn, de_inode = de_inode e, de_typ = a_kind sa \<rparr>))"
proof -
  let ?A0 = "A(de_inode dst \<mapsto> da')"
  let ?A1 = "upd_attr un np npa ((upd_attr uo op opa ?A0)(de_inode e \<mapsto> sa))"
  have inv1: "ns_inv ?A0 D"
    using ns_set_attr [OF inv dst(1,2)] ns_links [OF inv dst(1)] dst(3)
    by (auto simp: links_ok_def split: if_split_asm)
  obtain sa0 where sa0: "?A0 (de_inode e) = Some sa0" "a_kind sa = a_kind sa0" "a_nlink sa = a_nlink sa0"
    using src dst by (cases "de_inode e = de_inode dst") auto
  obtain y' where y': "?A0 np = Some y'" "a_kind y' = Directory"
    using np dst by (cases "np = de_inode dst") auto
  obtain z where z: "?A0 op = Some z" "a_kind z = Directory"
    using ns_entry_parent [OF inv1 S(1) [unfolded S(2)]] by auto
  have inv2: "ns_inv ?A1 D"
    by (rule ns_move_attrs [OF inv1 sa0(1,2) _ z kinds(1) y' kinds(2) np(3)]) (simp add: sa0(3))
  have "?A1 (de_inode e) = Some sa" using np(3) by (auto simp: upd_attr_def)
  moreover obtain da2 where "?A1 (de_inode dst) = Some da2" using ns_entry_attr [OF inv2 T(1)] by auto
  ultimately show ?thesis by (rule ns_rename_exchange [OF inv2 S T])
qed

locale meta_db = scanning_kv kv content + codec_laws cd
  for kv :: "'db kv" and content :: "'db \<Rightarrow> content" and cd :: codec
begin

lemma no_children:
  assumes "\<not> do_check_exist_children (kv_scan kv db) i"
  shows "v_dentry cd (content db) (i, nm) = None"
proof -
  have "prefix (key_dentry_prefix i) (key_dentry i nm)"
    using dentry_prefix_key by blast
  then have "content db (key_dentry i nm) = None"
    using assms scan_all [of db "key_dentry i nm" _ "key_dentry_prefix i"]
    by (cases "content db (key_dentry i nm)") (auto simp: do_check_exist_children_def)
  then show ?thesis by (simp add: v_dentry_def key_render)
qed

text \<open>It is enough that the plan's batch keeps the invariant.\<close>

lemma ns_ok_write:
  assumes "write_then_commit kv plan db = (r, db')" "ns_ok cd (content db)"
    and "\<And>b x. plan = Inr (b, x) \<Longrightarrow> ns_ok cd (apply_batch b (content db))"
  shows "ns_ok cd (content db')"
  using write_then_commit_content [OF assms(1)] assms(2,3) by auto

lemma do_mknod_ns_ok:
  assumes inv: "ns_ok cd (content db)" and fresh: "v_attr cd (content db) new = None"
    and kind: "a_kind attr = typ" and links: "typ = Directory \<or> 0 < a_nlink attr"
    and run: "do_mknod kv cd ctx new attr parent nm typ path now1 now2 db = (r, db')"
  shows "ns_ok cd (content db')"
proof (rule ns_ok_write [OF run [unfolded do_mknod_def] inv])
  fix b and x :: "ino \<times> inode_attr"
  assume "mknod_plan cd (kv_get kv db) ctx new attr parent nm typ path now1 now2 = Inr (b, x)"
  then obtain a' where plan:
    "mknod_plan cd (kv_get kv db) ctx new attr parent nm typ path now1 now2 = Inr (b, new, a')"
    using mknod_plan_views by (metis prod.exhaust)
  let ?A = "v_attr cd (content db)" and ?D = "v_dentry cd (content db)"
  from mknod_plan_views [OF plan, of "content db"] obtain pa where
    pa: "?A parent = Some pa" "a_kind pa = Directory"
    and a': "a_kind a' = typ" "a_nlink a' = a_nlink attr"
    and D: "v_dentry cd (apply_batch b (content db)) = ?D((parent, nm) \<mapsto>
          \<lparr> de_parent = parent, de_name = nm, de_inode = new, de_typ = typ \<rparr>)"
    and A: "v_attr cd (apply_batch b (content db)) =
        (if typ = Directory
         then ?A(new \<mapsto> a', parent \<mapsto>
                pa\<lparr>a_nlink := a_nlink pa + 1, a_mtime := now1, a_ctime := now1\<rparr>)
         else ?A(new \<mapsto> a'))"
    using kind do_get_attr_view by auto
  have inv0: "ns_inv ?A ?D" using inv by (simp add: ns_ok_def)
  have np: "new \<noteq> parent" "new \<noteq> ROOT_INO"
    using fresh pa inv0 by (auto simp: ns_inv_def)
  have none: "refs ?D new = {}" by (rule ns_no_refs [OF inv0 fresh])
  have "ns_inv (?A(new \<mapsto> a')) (?D((parent, nm) \<mapsto>
          \<lparr> de_parent = parent, de_name = nm, de_inode = new, de_typ = typ \<rparr>))"
    using ns_new_attr [OF inv0 fresh] a' pa np links none
    by (intro ns_put_entry) (auto simp: refs_remove unat_gt_0)
  then have "ns_inv (v_attr cd (apply_batch b (content db))) (v_dentry cd (apply_batch b (content db)))"
    using pa np by (auto simp: A D intro: ns_set_dir)
  then show "ns_ok cd (apply_batch b (content db))" by (simp add: ns_ok_def)
qed

lemma do_rmdir_ns_ok:
  assumes inv: "ns_ok cd (content db)"
    and run: "do_rmdir kv cd ctx parent nm skip now db = (r, db')"
  shows "ns_ok cd (content db')"
proof (rule ns_ok_write [OF run [unfolded do_rmdir_def] inv])
  fix b and x :: "dentry \<times> inode_attr"
  assume plan: "rmdir_plan cd (kv_get kv db) (kv_scan kv db) ctx parent nm skip now = Inr (b, x)"
  let ?A = "v_attr cd (content db)" and ?D = "v_dentry cd (content db)"
  obtain e ca where x: "x = (e, ca)" by fastforce
  from rmdir_plan_views [OF plan [unfolded x], of "content db"] obtain pa where
    e: "?D (parent, nm) = Some e" and pa: "?A parent = Some pa" "a_kind pa = Directory"
    and ca: "?A (de_inode e) = Some ca" "a_kind ca = Directory"
    and kids: "\<And>n. ?D (de_inode e, n) = None"
    and D: "v_dentry cd (apply_batch b (content db)) = ?D((parent, nm) := None)"
    and A: "v_attr cd (apply_batch b (content db)) =
        (if skip \<le> the (duration_since now (a_mtime pa)) then ?A(de_inode e := None, parent \<mapsto>
             pa\<lparr>a_nlink := a_nlink pa - 1, a_mtime := now, a_ctime := now\<rparr>)
         else ?A(de_inode e := None))"
    using do_get_attr_view do_get_dentry_view no_children by auto
  have inv0: "ns_inv ?A ?D" using inv by (simp add: ns_ok_def)
  have ne: "de_inode e \<noteq> parent" using kids [of nm] e by auto
  have "ns_inv (?A(de_inode e := None)) (?D((parent, nm) := None))"
    using ns_remove_entry [OF inv0] ns_dir_single [OF inv0 e ca] kids ns_entry_not_root [OF inv0 e]
    by (intro ns_drop_attr) auto
  then have "ns_inv (v_attr cd (apply_batch b (content db))) (v_dentry cd (apply_batch b (content db)))"
    using pa ne by (auto simp: A D intro: ns_set_dir)
  then show "ns_ok cd (apply_batch b (content db))" by (simp add: ns_ok_def)
qed

lemma do_link_ns_ok:
  assumes inv: "ns_ok cd (content db)"
    and room: "\<And>a. v_attr cd (content db) inode = Some a \<Longrightarrow> a_nlink a + 1 \<noteq> 0"
    and run: "do_link kv cd ctx skip inode p nm now db = (r, db')"
  shows "ns_ok cd (content db')"
proof (rule ns_ok_write [OF run [unfolded do_link_def] inv])
  fix b a'
  assume plan: "link_plan cd (kv_get kv db) ctx skip inode p nm now = Inr (b, a')"
  let ?A = "v_attr cd (content db)" and ?D = "v_dentry cd (content db)"
  from link_plan_views [OF plan, of "content db"] obtain pa a where
    pa: "?A p = Some pa" "a_kind pa = Directory"
    and a: "?A inode = Some a" "a_kind a \<noteq> Directory"
    and a': "a' = a\<lparr>a_ctime := now, a_nlink := a_nlink a + 1, a_parent := ZERO_INO\<rparr>"
    and D: "v_dentry cd (apply_batch b (content db)) = ?D((p, nm) \<mapsto>
          \<lparr> de_parent = p, de_name = nm, de_inode = inode, de_typ = a_kind a \<rparr>)"
    and A: "v_attr cd (apply_batch b (content db)) =
        (if fst (update_modification_time_if now skip pa)
         then ?A(p \<mapsto> snd (update_modification_time_if now skip pa), inode \<mapsto> a')
         else ?A(inode \<mapsto> a'))"
    using do_get_attr_view by blast
  have inv0: "ns_inv ?A ?D" using inv by (simp add: ns_ok_def)
  have fin: "finite (refs ?D inode)" and le: "card (refs ?D inode) \<le> unat (a_nlink a)"
    using ns_links [OF inv0 a(1)] a(2) by (simp_all add: links_ok_def)
  have n: "unat (a_nlink a') = unat (a_nlink a) + 1"
    using unatSuc [of "a_nlink a"] room [OF a(1)] a' by (simp add: add.commute)
  have ne: "inode \<noteq> p" "inode \<noteq> ROOT_INO" using a pa inv0 by (auto simp: ns_inv_def)
  have "card (refs (?D((p, nm) := None)) inode) \<le> unat (a_nlink a)"
    using card_mono [OF fin refs_remove_subset] le by (rule order_trans)
  moreover have "ns_inv (?A(inode \<mapsto> a')) ?D"
    using ns_set_attr [OF inv0 a(1), of a'] a' n le by simp
  ultimately have "ns_inv (?A(inode \<mapsto> a')) (?D((p, nm) \<mapsto>
          \<lparr> de_parent = p, de_name = nm, de_inode = inode, de_typ = a_kind a \<rparr>))"
    using ne pa a(2) a' n by (intro ns_put_entry [where a = a' and pa = pa]) auto
  then have "ns_inv (v_attr cd (apply_batch b (content db))) (v_dentry cd (apply_batch b (content db)))"
    using pa ne by (auto simp: A D fun_upd_twist [of p inode] intro: ns_set_dir)
  then show "ns_ok cd (apply_batch b (content db))" by (simp add: ns_ok_def)
qed

text \<open>The read of the target's attribute must not fail: an error counts as a missing inode.\<close>

lemma do_unlink_ns_ok:
  assumes inv: "ns_ok cd (content db)" and reads: "\<And>k. kv_get kv db k \<noteq> None"
    and run: "do_unlink kv cd ctx skip is_opened p nm sid now now2 db = (r, db')"
  shows "ns_ok cd (content db')"
proof (rule ns_ok_write [OF run [unfolded do_unlink_def] inv])
  fix b x
  assume plan: "unlink_plan cd (kv_get kv db) (kv_scan kv db) ctx skip is_opened p nm sid now now2
    = Inr (b, x)"
  let ?A = "v_attr cd (content db)" and ?D = "v_dentry cd (content db)"
  from unlink_plan_views [OF plan, of "content db"] obtain e pa a opened where
    e: "?D (p, nm) = Some e" "de_typ e \<noteq> Directory"
    and pa: "?A p = Some pa" "a_kind pa = Directory"
    and tgt: "unlink_target cd (kv_get kv db) ctx is_opened pa (de_inode e) now = Inr (a, opened)"
    and D: "v_dentry cd (apply_batch b (content db)) = ?D((p, nm) := None)"
    and A: "v_attr cd (apply_batch b (content db)) =
        (if fst (update_modification_time_if now skip pa)
         then ?A(p \<mapsto> snd (update_modification_time_if now skip pa)) else ?A)
          (de_inode e := if 0 < a_nlink a \<or> a_kind a = RegularFile \<and> opened then Some a else None)"
    using do_get_attr_view do_get_dentry_view by blast
  have inv0: "ns_inv ?A ?D" using inv by (simp add: ns_ok_def)
  obtain ea where ea: "?A (de_inode e) = Some ea" "a_kind ea = de_typ e"
    using ns_entry_attr [OF inv0 e(1)] by blast
  have "do_get_attr cd (kv_get kv db) (de_inode e) = Inr ea"
    using do_get_attr_read [OF reads ea(1)] .
  then have a: "a = ea\<lparr>a_ctime := now, a_nlink := a_nlink ea - 1\<rparr>"
    using tgt by (auto simp: unlink_target_def rbind_eq_Inr Let_def)
  have nd: "a_kind ea \<noteq> Directory" using ea e by simp
  have card: "card (refs (?D((p, nm) := None)) (de_inode e)) \<le> unat (a_nlink a)"
    using ns_links_file(2) [OF inv0 e(1) ea(1) nd] a by simp
  have fin: "finite (refs (?D((p, nm) := None)) (de_inode e))"
    using ns_links [OF inv0 ea(1)] finite_subset [OF refs_remove_subset] by (auto simp: links_ok_def)
  have ne: "de_inode e \<noteq> p" using pa ea nd by auto
  have inv1: "ns_inv ?A (?D((p, nm) := None))" by (rule ns_remove_entry [OF inv0])
  have "ns_inv (?A(de_inode e := if 0 < a_nlink a \<or> a_kind a = RegularFile \<and> opened then Some a else None))
          (?D((p, nm) := None))"
  proof (cases "0 < a_nlink a \<or> a_kind a = RegularFile \<and> opened")
    case True
    have "ns_inv (?A(de_inode e \<mapsto> a)) (?D((p, nm) := None))"
      using ns_set_attr [OF inv1 ea(1), of a] a card by simp
    then show ?thesis using True by simp
  next
    case False
    then have "refs (?D((p, nm) := None)) (de_inode e) = {}"
      using card fin by (auto simp: word_gt_0)
    then have "ns_inv (?A(de_inode e := None)) (?D((p, nm) := None))"
      using inv1 ns_file_no_children [OF inv1 ea(1) nd] ns_entry_not_root [OF inv0 e(1)]
      by (intro ns_drop_attr) auto
    then show ?thesis using False by (simp only: if_False)
  qed
  then have "ns_inv (v_attr cd (apply_batch b (content db))) (v_dentry cd (apply_batch b (content db)))"
    using pa ne unfolding A D by (auto simp: fun_upd_twist [of p "de_inode e"] intro: ns_set_dir)
  then show "ns_ok cd (apply_batch b (content db))" by (simp add: ns_ok_def)
qed

lemma rename_plan_ns_ok:
  assumes inv: "ns_ok cd (content db)" and ne: "(op, on) \<noteq> (np, nn)"
    and e: "do_get_dentry cd (kv_get kv db) op on = Inr e"
    and chk: "rename_check cd (kv_get kv db) (kv_scan kv db) ctx is_opened op on np nn flags now0 e = Inr st"
    and plan: "rename_plan cd (kv_get kv db) (kv_scan kv db) skip sid op on np nn flags now now2 st = Inr (b, r)"
  shows "ns_ok cd (apply_batch b (content db))"
proof -
  let ?A = "v_attr cd (content db)" and ?D = "v_dentry cd (content db)"
  let ?S = "(op, on)" and ?T = "(np, nn)"
  have inv0: "ns_inv ?A ?D" using inv by (simp add: ns_ok_def)
  have S: "?D ?S = Some e" by (rule do_get_dentry_view [OF e])
  from rename_check_state [OF chk] obtain npa0 where
    npa0: "?A np = Some npa0" "a_kind npa0 = Directory"
    and src: "?A (de_inode e) = Some (rn_old_attr st)" "de_inode e \<noteq> np" "rn_old_entry st = e"
    and kinds: "a_kind (rn_old_parent_attr st) = Directory" "a_kind (rn_new_parent_attr st) = Directory"
    using do_get_attr_view by blast
  obtain uo opa un npa sa where attrs: "rename_attrs skip op np now st = ((uo, opa), (un, npa), sa)"
    by (metis prod.exhaust)
  note k = rename_attrs_kinds [OF attrs kinds]
  let ?A1 = "v_attr cd (apply_batch b (content db))"
  from rename_plan_views [OF plan attrs, of "content db"] obtain b0 where
    b0: "rename_batch_dst cd (kv_get kv db) (kv_scan kv db) sid op on np flags now2 st = Inr (b0, r)"
    and D: "v_dentry cd (apply_batch b (content db)) = (v_dentry cd (apply_batch b0 (content db)))(?T \<mapsto>
        \<lparr> de_parent = np, de_name = nn, de_inode = de_inode e, de_typ = a_kind sa \<rparr>)"
    and A: "?A1 = upd_attr un np npa
        ((upd_attr (op \<noteq> np \<and> uo) op opa (v_attr cd (apply_batch b0 (content db))))(de_inode e \<mapsto> sa))"
    using src(3) by auto
  note b0v = rename_batch_dst_views(1,2) [OF b0, of "content db"]
  have "ns_inv ?A1 (v_dentry cd (apply_batch b (content db)))"
  proof (cases "rn_dst st")
    case None
    then have "flags \<noteq> RENAME_EXCHANGE" using rename_batch_dst_views(3) [OF b0] by auto
    then show ?thesis
      using ns_rename_replace [OF inv0 S refl ne src(1) k(3) _ k(1,2) npa0 src(2), of un "op \<noteq> np \<and> uo"]
        k(4) b0v None unfolding A D by simp
  next
    case (Some x)
    obtain dst da' where x: "x = (dst, da')" by fastforce
    from rename_check_state [OF chk] Some x obtain da where
      dst: "?D ?T = Some dst" "?A (de_inode dst) = Some da"
      and ok: "dst_ok (kv_scan kv db) flags dst da da'"
      using do_get_attr_view do_get_dentry_view by (auto split: sum.splits)
    show ?thesis
    proof (cases "flags = RENAME_EXCHANGE")
      case True
      have da': "a_kind da' = a_kind da" "a_nlink da' = a_nlink da" using ok True by (auto simp: dst_ok_def)
      show ?thesis
        using ns_rename_swap [OF inv0 S refl dst(1) refl ne dst(2) da' src(1) k(3,4) k(1,2) npa0 src(2)]
          b0v Some x True unfolding A D by simp
    next
      case False
      have kids: "?D (de_inode dst, n) = None" if "de_typ dst = Directory" for n
        using ok False that no_children by (auto simp: dst_ok_def)
      show ?thesis
        using ns_rename_over [OF inv0 S refl ne dst ok False kids src(1) k(3,4) k(1,2) npa0 src(2),
            of "v_attr cd (apply_batch b0 (content db))" "rn_opened st" un "op \<noteq> np \<and> uo"]
          b0v Some x False unfolding A D by simp
    qed
  qed
  then show ?thesis by (simp add: ns_ok_def)
qed

lemma do_rename_ns_ok:
  assumes inv: "ns_ok cd (content db)"
    and run: "do_rename kv cd ctx skip is_opened sid op on np nn flags now0 now now2 db = (r, db')"
  shows "ns_ok cd (content db')"
proof (cases "do_get_dentry cd (kv_get kv db) op on")
  case (Inr e)
  show ?thesis
  proof (cases "(op, on) = (np, nn)")
    case False
    have "write_then_commit kv
        (rbind (rename_check cd (kv_get kv db) (kv_scan kv db) ctx is_opened op on np nn flags now0 e) (\<lambda>st.
         rename_plan cd (kv_get kv db) (kv_scan kv db) skip sid op on np nn flags now now2 st)) db = (r, db')"
      using run False Inr by (auto simp: do_rename_def)
    then show ?thesis
      by (rule ns_ok_write [OF _ inv]) (auto simp: rbind_eq_Inr intro: rename_plan_ns_ok [OF inv False Inr])
  qed (use run inv Inr in \<open>auto simp: do_rename_def\<close>)
qed (use run inv in \<open>auto simp: do_rename_def\<close>)

end

end
