(* ===== verification/Meta_Instance.thy ===== *)
theory Meta_Instance
  imports Meta_Invariant
begin

text \<open>
  Instances of the contracts of the metadata store: an association list as the database and
  a textual codec. They discharge the laws of \<open>reliable_kv\<close>, \<open>codec_laws\<close> and \<open>meta_db\<close>,
  and concrete runs of the operations evaluate on them.
\<close>

section \<open>The database\<close>

type_synonym alist_db = "(bytes \<times> bytes) list"

primrec alist_op :: "batch_op \<Rightarrow> alist_db \<Rightarrow> alist_db" where
  "alist_op (BPut k v) db = AList.update k v db"
| "alist_op (BDelete k) db = AList.delete k db"

definition alist_kv :: "alist_db kv" where
  "alist_kv = \<lparr>
     kv_get = (\<lambda>db k. Some (map_of db k)),
     kv_scan = (\<lambda>db p. filter (\<lambda>(k, v). prefix p k) (AList.clearjunk db)),
     kv_write = (\<lambda>b db. Some (fold alist_op b db)),
     kv_commit = (\<lambda>b db. Some (fold alist_op b db)) \<rparr>"

lemma map_of_alist_op: "map_of (alist_op x db) = apply_op x (map_of db)"
  by (cases x) (simp_all add: update_conv' delete_conv')

lemma map_of_fold_alist: "map_of (fold alist_op b db) = apply_batch b (map_of db)"
  by (induction b arbitrary: db) (simp_all add: map_of_alist_op)

interpretation alist: reliable_kv alist_kv map_of
proof
  fix k v and db :: alist_db and p
  show "(k, v) \<in> set (kv_scan alist_kv db p) \<Longrightarrow> map_of db k = Some v \<and> prefix p k"
    using map_of_is_SomeI [OF distinct_clearjunk, of k v db]
    by (simp add: alist_kv_def map_of_clearjunk)
  show "map_of db k = Some v \<Longrightarrow> prefix p k \<Longrightarrow> (k, v) \<in> set (kv_scan alist_kv db p)"
    using map_of_SomeD [of "AList.clearjunk db" k v] by (simp add: alist_kv_def map_of_clearjunk)
  show "distinct (map fst (kv_scan alist_kv db p))"
    using distinct_clearjunk [of db] by (simp add: alist_kv_def distinct_map_filter)
qed (auto simp: alist_kv_def map_of_fold_alist)

section \<open>The codec\<close>

definition enc_nats :: "nat list \<Rightarrow> bytes" where
  "enc_nats ns = concat (map (\<lambda>n. fmt_radix 10 n @ '','') ns)"

fun dec_nats :: "nat \<Rightarrow> bytes \<Rightarrow> nat list \<times> bytes" where
  "dec_nats 0 s = ([], s)"
| "dec_nats (Suc k) s =
     (let f = takeWhile (\<lambda>c. c \<noteq> CHR '','') s;
          (ns, r) = dec_nats k (drop 1 (dropWhile (\<lambda>c. c \<noteq> CHR '','') s))
      in (digits_value 10 f # ns, r))"

lemma dec_enc_nats: "dec_nats (length ns) (enc_nats ns @ rest) = (ns, rest)"
proof (induction ns)
  case (Cons n ns)
  have "\<not> is_dig 10 CHR '',''" by (simp add: is_dig_code)
  then have "c \<noteq> CHR '',''" if "c \<in> set (fmt_radix 10 n)" for c
    using fmt_radix_dig [of 10 c n] that by auto
  then show ?case
    using Cons by (simp add: enc_nats_def takeWhile_tail dropWhile_append3 Let_def)
qed (simp add: enc_nats_def)

definition kinds :: "file_type list" where
  "kinds = [NamedPipe, CharDevice, BlockDevice, Directory, RegularFile, Symlink, Socket]"

primrec kind_idx :: "file_type \<Rightarrow> nat" where
  "kind_idx NamedPipe = 0"
| "kind_idx CharDevice = 1"
| "kind_idx BlockDevice = 2"
| "kind_idx Directory = 3"
| "kind_idx RegularFile = 4"
| "kind_idx Symlink = 5"
| "kind_idx Socket = 6"

lemma kinds_idx [simp]: "kinds ! (kind_idx t) = t"
  by (cases t) (simp_all add: kinds_def)

definition opt_nat :: "nat option \<Rightarrow> nat" where
  "opt_nat x = (case x of None \<Rightarrow> 0 | Some n \<Rightarrow> Suc n)"

definition nat_opt :: "nat \<Rightarrow> nat option" where
  "nat_opt n = (if n = 0 then None else Some (n - 1))"

lemma nat_opt_nat [simp]: "nat_opt (opt_nat x) = x"
  by (cases x) (simp_all add: nat_opt_def opt_nat_def)

definition int_of2 :: "nat \<Rightarrow> nat \<Rightarrow> int" where
  "int_of2 s n = (if s = 0 then int n else - int n)"

lemma int_of2_abs [simp]: "int_of2 (if i < 0 then 1 else 0) (nat \<bar>i\<bar>) = i"
  by (simp add: int_of2_def)

definition text_codec :: codec where
  "text_codec = \<lparr>
     enc_attr = (\<lambda>a. if attr_times_ok a then Some (enc_nats
        [unat (a_flags a), kind_idx (a_kind a), unat (a_mode a), unat (a_uid a), unat (a_gid a),
         unat (a_rdev a), nat (a_atime a), nat (a_mtime a), nat (a_ctime a), nat (a_crtime a),
         unat (a_nlink a), a_length a, a_parent a, (if a_keep_cache a then 1 else 0)]) else None),
     dec_attr = (\<lambda>b. case fst (dec_nats 14 b) of
        [fl, kd, md, u, g, rd, at, mt, ct, crt, nl, len, par, kc] \<Rightarrow>
          Some \<lparr> a_flags = of_nat fl, a_kind = kinds ! kd, a_mode = of_nat md, a_uid = of_nat u,
                 a_gid = of_nat g, a_rdev = of_nat rd, a_atime = int at, a_mtime = int mt,
                 a_ctime = int ct, a_crtime = int crt, a_nlink = of_nat nl, a_length = len,
                 a_parent = par, a_keep_cache = (kc = 1) \<rparr>
      | _ \<Rightarrow> None),
     enc_dentry = (\<lambda>d. Some (enc_nats [de_parent d, de_inode d, kind_idx (de_typ d)] @ de_name d)),
     dec_dentry = (\<lambda>b. case dec_nats 3 b of
        ([p, i, t], nm) \<Rightarrow> Some \<lparr> de_parent = p, de_name = nm, de_inode = i, de_typ = kinds ! t \<rparr>
      | _ \<Rightarrow> None),
     enc_u64 = (\<lambda>n. Some (enc_nats [n])),
     dec_u64 = (\<lambda>b. case fst (dec_nats 1 b) of [n] \<Rightarrow> Some n | _ \<Rightarrow> None),
     enc_format = (\<lambda>f. Some (enc_nats [f_chunk_size f, f_block_size f, f_page_size f,
        opt_nat (f_max_capacity f), opt_nat (f_max_inodes f)] @ f_name f)),
     dec_format = (\<lambda>b. case dec_nats 5 b of
        ([c, bl, pg, cap, mi], nm) \<Rightarrow>
          Some \<lparr> f_name = nm, f_chunk_size = c, f_block_size = bl, f_page_size = pg,
                 f_max_capacity = nat_opt cap, f_max_inodes = nat_opt mi \<rparr>
      | _ \<Rightarrow> None),
     enc_dir_stat = (\<lambda>d. Some (enc_nats
        [(if ds_length d < 0 then 1 else 0), nat \<bar>ds_length d\<bar>,
         (if ds_space d < 0 then 1 else 0), nat \<bar>ds_space d\<bar>,
         (if ds_inodes d < 0 then 1 else 0), nat \<bar>ds_inodes d\<bar>])),
     dec_dir_stat = (\<lambda>b. case fst (dec_nats 6 b) of
        [s1, n1, s2, n2, s3, n3] \<Rightarrow>
          Some \<lparr> ds_length = int_of2 s1 n1, ds_space = int_of2 s2 n2, ds_inodes = int_of2 s3 n3 \<rparr>
      | _ \<Rightarrow> None),
     enc_slice = (\<lambda>s. Some (enc_slice_le s)),
     dec_slice = dec_slice_le,
     enc_slices = (\<lambda>ss. Some (le_bytes 8 (length ss) @ concat (map enc_slice_le ss))) \<rparr>"


lemma dec_nats_len: "b = enc_nats ns @ r \<Longrightarrow> length ns = k \<Longrightarrow> dec_nats k b = (ns, r)"
  using dec_enc_nats by blast

declare dec_nats.simps [simp del]

lemma enc_slice_le_length [simp]: "length (enc_slice_le s) = SLICE_BYTES"
  by (rule le.enc_length)

lemma text_attr_dec:
  assumes "enc_attr text_codec a = Some b"
  shows "dec_attr text_codec b = Some a"
proof -
  let ?ns = "[unat (a_flags a), kind_idx (a_kind a), unat (a_mode a), unat (a_uid a), unat (a_gid a),
         unat (a_rdev a), nat (a_atime a), nat (a_mtime a), nat (a_ctime a), nat (a_crtime a),
         unat (a_nlink a), a_length a, a_parent a, (if a_keep_cache a then 1 else 0)]"
  have "b = enc_nats ?ns" and ok: "attr_times_ok a"
    using assms by (auto simp: text_codec_def split: if_splits)
  then have "dec_nats 14 b = (?ns, [])" by (intro dec_nats_len) simp_all
  then show ?thesis using ok by (simp add: text_codec_def attr_times_ok_def)
qed

lemma text_dir_stat_dec:
  assumes "enc_dir_stat text_codec d = Some b"
  shows "dec_dir_stat text_codec b = Some d"
proof -
  let ?ns = "[(if ds_length d < 0 then 1 else 0), nat \<bar>ds_length d\<bar>,
         (if ds_space d < 0 then 1 else 0), nat \<bar>ds_space d\<bar>,
         (if ds_inodes d < 0 then 1 else 0), nat \<bar>ds_inodes d\<bar>]"
  have "b = enc_nats ?ns" using assms by (simp add: text_codec_def)
  then have "dec_nats 6 b = (?ns, [])" by (intro dec_nats_len) simp_all
  then show ?thesis by (simp add: text_codec_def)
qed

lemma text_format_dec:
  assumes "enc_format text_codec f = Some b"
  shows "dec_format text_codec b = Some f"
proof -
  let ?ns = "[f_chunk_size f, f_block_size f, f_page_size f, opt_nat (f_max_capacity f), opt_nat (f_max_inodes f)]"
  have "b = enc_nats ?ns @ f_name f" using assms by (simp add: text_codec_def)
  then have "dec_nats 5 b = (?ns, f_name f)" by (intro dec_nats_len) simp_all
  then show ?thesis by (simp add: text_codec_def)
qed

lemma text_dentry_dec:
  assumes "enc_dentry text_codec d = Some b"
  shows "dec_dentry text_codec b = Some d"
proof -
  let ?ns = "[de_parent d, de_inode d, kind_idx (de_typ d)]"
  have "b = enc_nats ?ns @ de_name d" using assms by (simp add: text_codec_def)
  then have "dec_nats 3 b = (?ns, de_name d)" by (intro dec_nats_len) simp_all
  then show ?thesis by (simp add: text_codec_def)
qed

interpretation tc: codec_laws text_codec
proof
  fix a b show "dec_attr text_codec b = Some a \<Longrightarrow> attr_times_ok a"
    by (auto simp: text_codec_def attr_times_ok_def split: list.splits)
next
  fix n b show "enc_u64 text_codec n = Some b \<Longrightarrow> dec_u64 text_codec b = Some n"
    using dec_nats_len [of b "[n]" "[]" 1] by (auto simp: text_codec_def)
next
  fix s b show "enc_slice text_codec s = Some b \<Longrightarrow> slice_wf s \<Longrightarrow> dec_slice text_codec b = Some s"
    using le.dec_enc by (auto simp: text_codec_def)
next
  fix ss b show "enc_slices text_codec ss = Some b \<Longrightarrow> length b = 8 + length ss * SLICE_BYTES"
    by (auto simp: text_codec_def length_concat comp_def sum_list_triv)
next
  show "enc_attr text_codec a \<noteq> None \<longleftrightarrow> attr_times_ok a" for a by (simp add: text_codec_def)
  show "enc_slice text_codec s = Some b \<Longrightarrow> length b = SLICE_BYTES" for s b
    by (auto simp: text_codec_def)
  show "enc_dentry text_codec d \<noteq> None" "enc_u64 text_codec n \<noteq> None" "enc_format text_codec f \<noteq> None"
    "enc_dir_stat text_codec ds \<noteq> None" "enc_slice text_codec s \<noteq> None" for d n f ds s
    by (simp_all add: text_codec_def)
qed (fact text_attr_dec text_dir_stat_dec text_format_dec text_dentry_dec)+

interpretation mdb: meta_db alist_kv map_of text_codec
  by unfold_locales

end
