(* ===== verification/Meta_Data.thy ===== *)
theory Meta_Data
  imports Meta_Instance
begin

text \<open>
  The operations of the backend on file contents (\<^verbatim>\<open>stage_chunk_slice\<close>,
  \<^verbatim>\<open>stage_slice_commit\<close>, \<^verbatim>\<open>commit_slice\<close>, \<^verbatim>\<open>do_truncate\<close> of \<^verbatim>\<open>meta/src/backend/rocksdb.rs\<close>):
  a slice is appended to its chunk's list unless it is already there, and the file's length
  grows to cover it; a truncation that extends the file appends holes.
\<close>

section \<open>Transactions\<close>

text \<open>The puts of a transaction, newest first; its reads see them.\<close>

type_synonym staged = "(bytes \<times> bytes) list"

definition txn_get :: "reader \<Rightarrow> staged \<Rightarrow> reader" where
  "txn_get rd st k = (case map_of st k of Some v \<Rightarrow> Some (Some v) | None \<Rightarrow> rd k)"

definition staged_batch :: "staged \<Rightarrow> batch" where
  "staged_batch st = map (\<lambda>(k, v). BPut k v) (rev st)"

lemma apply_staged: "apply_batch (staged_batch st) m = m ++ map_of st"
proof (induction st arbitrary: m)
  case (Cons x st)
  then show ?case by (cases x) (simp add: staged_batch_def fun_eq_iff map_add_def)
qed (simp add: staged_batch_def)

section \<open>Committing a slice\<close>

function chunks_exact :: "nat \<Rightarrow> bytes \<Rightarrow> bytes list" where
  "chunks_exact n buf =
     (if 0 < n \<and> n \<le> length buf then take n buf # chunks_exact n (drop n buf) else [])"
  by pat_completeness auto
termination by (relation "measure (\<lambda>(n, buf). length buf)") auto

declare chunks_exact.simps [simp del]

definition stage_chunk_slice ::
  "codec \<Rightarrow> reader \<Rightarrow> ino \<Rightarrow> nat \<Rightarrow> slice \<Rightarrow> staged \<Rightarrow> ((bool \<times> nat) \<times> staged) mresult" where
  "stage_chunk_slice cd rd i chunk_index s st =
     (let slices_key = key_chunk_slices i chunk_index in
      rbind (ok_or (txn_get rd st slices_key) RocksdbError) (\<lambda>v.
      let slices_buf = (case v of None \<Rightarrow> [] | Some b \<Rightarrow> b) in
      if length slices_buf mod SLICE_BYTES \<noteq> 0
      then Inl (ModelError (CorruptionString KChunkSlicesModel))
      else
        rbind (ok_or (enc_slice cd s) (ModelError (Corruption KChunkSlicesModel))) (\<lambda>encoded_slice.
        let inserted = (encoded_slice \<notin> set (chunks_exact SLICE_BYTES slices_buf));
            slices_buf' = (if inserted then slices_buf @ encoded_slice else slices_buf);
            st' = (if inserted then (slices_key, slices_buf') # st else st)
        in Inr ((inserted, length slices_buf' div SLICE_BYTES), st'))))"

record slice_commit_result =
  sc_grew_by :: nat
  sc_slice_count :: nat
  sc_inserted :: bool

definition txn_put_attr :: "codec \<Rightarrow> ino \<Rightarrow> inode_attr \<Rightarrow> staged \<Rightarrow> staged mresult" where
  "txn_put_attr cd i a st =
     rbind (ok_or (enc_attr cd a) (ModelError (Corruption KAttrModel))) (\<lambda>buf.
       Inr ((key_attr i, buf) # st))"

definition stage_slice_commit ::
  "codec \<Rightarrow> reader \<Rightarrow> ino \<Rightarrow> nat \<Rightarrow> slice \<Rightarrow> systime \<Rightarrow> systime \<Rightarrow>
   (staged \<times> slice_commit_result) mresult" where
  "stage_slice_commit cd rd i chunk_index s now1 now2 =
     rbind (do_get_attr cd (txn_get rd []) i) (\<lambda>a.
     rbind (ensure (attr_is_file a) (LibcError EPERM)) (\<lambda>_.
     rbind (stage_chunk_slice cd rd i chunk_index s []) (\<lambda>((inserted, slice_count), st).
     let new_len = wrap64 (chunk_index * CHUNK_SIZE + get_chunk_pos s + get_size s);
         grew_by = new_len - a_length a;
         a1 = (if grew_by \<noteq> 0 then a\<lparr>a_length := new_len\<rparr> else a)
     in
     rbind (if inserted \<or> grew_by \<noteq> 0
            then txn_put_attr cd i (update_modification_time now1 now2 a1) st else Inr st) (\<lambda>st.
     Inr (st, \<lparr> sc_grew_by = grew_by, sc_slice_count = slice_count, sc_inserted = inserted \<rparr>)))))"

definition commit_slice ::
  "'db kv \<Rightarrow> codec \<Rightarrow> ino \<Rightarrow> nat \<Rightarrow> slice \<Rightarrow> systime \<Rightarrow> systime \<Rightarrow> 'db \<Rightarrow>
   slice_commit_result mresult \<times> 'db" where
  "commit_slice kv cd i chunk_index s now1 now2 db =
     commit_txn kv
       (rbind (stage_slice_commit cd (kv_get kv db) i chunk_index s now1 now2) (\<lambda>(st, r).
        Inr (staged_batch st, r))) db"

section \<open>Truncation\<close>

text \<open>The loop that covers \<open>[position, new_length)\<close> with one hole per chunk.\<close>

definition hole_len :: "nat \<Rightarrow> nat \<Rightarrow> nat" where
  "hole_len position new_length = min (CHUNK_SIZE - position mod CHUNK_SIZE) (new_length - position)"

definition hole_at :: "nat \<Rightarrow> nat \<Rightarrow> slice" where
  "hole_at position new_length =
     new_owned (position mod CHUNK_SIZE) EMPTY_SLICE_ID (hole_len position new_length)"

lemma hole_len_pos: "position < new_length \<Longrightarrow> 0 < hole_len position new_length"
  by (simp add: hole_len_def CHUNK_SIZE_def)

function truncate_loop ::
  "codec \<Rightarrow> reader \<Rightarrow> ino \<Rightarrow> nat \<Rightarrow> nat \<Rightarrow> staged \<Rightarrow> staged mresult" where
  "truncate_loop cd rd i position new_length st =
     (if position < new_length then
        rbind (stage_chunk_slice cd rd i (position div CHUNK_SIZE) (hole_at position new_length) st)
          (\<lambda>(_, st). truncate_loop cd rd i (position + hole_len position new_length) new_length st)
      else Inr st)"
  by pat_completeness auto
termination
  by (relation "measure (\<lambda>(cd, rd, i, position, new_length, st). new_length - position)")
    (use hole_len_pos in \<open>auto intro!: diff_less_mono2\<close>)

declare truncate_loop.simps [simp del]

definition truncate_plan ::
  "codec \<Rightarrow> reader \<Rightarrow> fuse_context \<Rightarrow> ino \<Rightarrow> nat \<Rightarrow> bool \<Rightarrow> systime \<Rightarrow> systime \<Rightarrow>
   (staged \<times> inode_attr) mresult" where
  "truncate_plan cd rd ctx i len skip_perm_check now1 now2 =
     rbind (do_get_attr cd rd i) (\<lambda>old_attr.
     rbind (ensure (a_kind old_attr = RegularFile) (LibcError EPERM)) (\<lambda>_.
     rbind (ensure (attr_is_normal old_attr) (LibcError EPERM)) (\<lambda>_.
     rbind (if skip_perm_check then Inr () else check_access ctx old_attr MODE_MASK_W) (\<lambda>_.
     rbind (ensure (len \<noteq> a_length old_attr) Panicked) (\<lambda>_.
     rbind (ensure (len < 2 ^ 64 \<and> a_length old_attr < 2 ^ 64) (LibcError EFBIG)) (\<lambda>_.
     rbind (if len > a_length old_attr then truncate_loop cd rd i (a_length old_attr) len []
            else Inr []) (\<lambda>st.
     let a = update_length len now1 now2 old_attr in
     rbind (txn_put_attr cd i a st) (\<lambda>st. Inr (st, a)))))))))"

definition do_truncate ::
  "'db kv \<Rightarrow> codec \<Rightarrow> fuse_context \<Rightarrow> ino \<Rightarrow> nat \<Rightarrow> bool \<Rightarrow> systime \<Rightarrow> systime \<Rightarrow> 'db \<Rightarrow>
   inode_attr mresult \<times> 'db" where
  "do_truncate kv cd ctx i len skip_perm_check now1 now2 db =
     commit_txn kv
       (rbind (truncate_plan cd (kv_get kv db) ctx i len skip_perm_check now1 now2) (\<lambda>(st, a).
        Inr (staged_batch st, a))) db"


section \<open>The slices of a chunk\<close>

definition chunk_enc :: "codec \<Rightarrow> slice list \<Rightarrow> bytes" where
  "chunk_enc cd ss = concat (map (\<lambda>s. the (enc_slice cd s)) ss)"

text \<open>A chunk without slices has no record.\<close>

definition chunk_holds :: "codec \<Rightarrow> content \<Rightarrow> ino \<Rightarrow> nat \<Rightarrow> slice list \<Rightarrow> bool" where
  "chunk_holds cd m i c ss \<longleftrightarrow>
     list_all slice_wf ss \<and> v_chunk m (i, c) = (if ss = [] then None else Some (chunk_enc cd ss))"

definition add_slice :: "slice \<Rightarrow> slice list \<Rightarrow> slice list" where
  "add_slice s ss = (if s \<in> set ss then ss else ss @ [s])"

lemma add_slice_not_Nil [simp]: "add_slice s ss \<noteq> []"
  by (auto simp: add_slice_def)

lemma add_slice_wf: "slice_wf s \<Longrightarrow> list_all slice_wf ss \<Longrightarrow> list_all slice_wf (add_slice s ss)"
  by (simp add: add_slice_def)

lemma chunks_exact_concat:
  assumes "\<And>x. x \<in> set xs \<Longrightarrow> length x = n" "0 < n"
  shows "chunks_exact n (concat xs) = xs"
  using assms(1)
proof (induction xs)
  case (Cons x xs)
  then show ?case using assms(2) by (subst chunks_exact.simps) simp
qed (subst chunks_exact.simps, use assms(2) in simp)

lemma txn_get_content: "txn_get (\<lambda>k. Some (m k)) st k = Some ((m ++ map_of st) k)"
  by (simp add: txn_get_def map_add_def split: option.split)

sublocale codec_laws \<subseteq> sl: slice_codec "\<lambda>s. the (enc_slice cd s)" "dec_slice cd"
  by (rule slice_codec)

context codec_laws
begin

lemma chunk_enc_all: "chunk_enc cd ss = sl.encode_all ss"
  by (simp add: chunk_enc_def sl.encode_all_def)

lemma chunk_enc_pieces: "chunks_exact SLICE_BYTES (chunk_enc cd ss) = map (\<lambda>s. the (enc_slice cd s)) ss"
  unfolding chunk_enc_def
  by (rule chunks_exact_concat) (auto simp: sl.enc_length SLICE_BYTES_def)

lemma enc_slice_inject:
  "slice_wf s \<Longrightarrow> slice_wf t \<Longrightarrow> the (enc_slice cd s) = the (enc_slice cd t) \<longleftrightarrow> s = t"
  by (metis option.inject sl.dec_enc)

lemma chunk_enc_mem:
  "slice_wf s \<Longrightarrow> list_all slice_wf ss \<Longrightarrow>
   the (enc_slice cd s) \<in> set (chunks_exact SLICE_BYTES (chunk_enc cd ss)) \<longleftrightarrow> s \<in> set ss"
  by (auto simp: chunk_enc_pieces list_all_iff enc_slice_inject)

lemma chunk_enc_Nil [simp]: "chunk_enc cd [] = []"
  by (simp add: chunk_enc_def)

lemma stage_chunk_slice_eq:
  assumes hold: "chunk_holds cd (m ++ map_of st) i c ss" and s: "slice_wf s"
  shows "stage_chunk_slice cd (\<lambda>k. Some (m k)) i c s st =
    Inr ((s \<notin> set ss, length (add_slice s ss)),
         if s \<in> set ss then st else (key_chunk_slices i c, chunk_enc cd (add_slice s ss)) # st)"
proof -
  have wf: "list_all slice_wf ss" using hold by (simp add: chunk_holds_def)
  have get: "(m ++ map_of st) (key_chunk_slices i c) = (if ss = [] then None else Some (chunk_enc cd ss))"
    using hold by (simp add: chunk_holds_def v_chunk_def key_render)
  then have buf: "(case (m ++ map_of st) (key_chunk_slices i c) of None \<Rightarrow> [] | Some b \<Rightarrow> b) = chunk_enc cd ss"
    by simp
  obtain es where es: "enc_slice cd s = Some es" using slice_enc by blast
  have ins: "es \<in> set (chunks_exact SLICE_BYTES (chunk_enc cd ss)) \<longleftrightarrow> s \<in> set ss"
    using chunk_enc_mem [OF s wf] es by simp
  have len: "length (chunk_enc cd xs) = length xs * SLICE_BYTES" for xs
    by (simp add: chunk_enc_all sl.length_encode_all)
  have "chunk_enc cd (add_slice s ss) = (if s \<in> set ss then chunk_enc cd ss else chunk_enc cd ss @ es)"
    using es by (simp add: add_slice_def chunk_enc_def)
  then show ?thesis
    using len [of ss] len [of "add_slice s ss"] ins es
    by (auto simp: stage_chunk_slice_def txn_get_content buf Let_def SLICE_BYTES_def)
qed

end


lemma map_add_staged [simp]: "m ++ map_of ((k, v) # st) = (m ++ map_of st)(k := Some v)"
  by (simp add: fun_eq_iff map_add_def)

text \<open>The file length after a slice, and the attribute \<^verbatim>\<open>stage_slice_commit\<close> writes.\<close>

definition slice_end :: "nat \<Rightarrow> slice \<Rightarrow> nat" where
  "slice_end c s = wrap64 (c * CHUNK_SIZE + get_chunk_pos s + get_size s)"

definition commit_attr :: "nat \<Rightarrow> slice \<Rightarrow> bool \<Rightarrow> systime \<Rightarrow> systime \<Rightarrow> inode_attr \<Rightarrow> inode_attr" where
  "commit_attr c s inserted now1 now2 a =
     (if inserted \<or> a_length a < slice_end c s
      then a\<lparr>a_length := max (a_length a) (slice_end c s), a_mtime := now1, a_ctime := now2\<rparr> else a)"

locale reliable_meta = reliable_kv kv content + codec_laws cd
  for kv :: "'db kv" and content :: "'db \<Rightarrow> content" and cd :: codec
begin

lemma kv_get_content: "kv_get kv db = (\<lambda>k. Some (content db k))"
  using get_eq by blast

lemma enc_attr_some: "attr_times_ok a \<Longrightarrow> \<exists>buf. enc_attr cd a = Some buf"
  using attr_enc by blast

lemma v_attr_times: "v_attr cd m i = Some a \<Longrightarrow> attr_times_ok a"
  by (auto simp: v_attr_def bind_eq_Some_conv dest: attr_times)

lemma commit_slice_effect:
  assumes a: "v_attr cd (content db) i = Some a" "attr_is_file a"
    and hold: "chunk_holds cd (content db) i c ss" and s: "slice_wf s" and now: "0 \<le> now1" "0 \<le> now2"
  shows "\<exists>db'. commit_slice kv cd i c s now1 now2 db =
      (Inr \<lparr> sc_grew_by = slice_end c s - a_length a, sc_slice_count = length (add_slice s ss),
             sc_inserted = (s \<notin> set ss) \<rparr>, db')
    \<and> v_chunk (content db') = (v_chunk (content db))((i, c) := Some (chunk_enc cd (add_slice s ss)))
    \<and> v_attr cd (content db') = (v_attr cd (content db))(i \<mapsto> commit_attr c s (s \<notin> set ss) now1 now2 a)
    \<and> v_dentry cd (content db') = v_dentry cd (content db)"
proof -
  let ?m = "content db" and ?r = "\<lparr> sc_grew_by = slice_end c s - a_length a,
      sc_slice_count = length (add_slice s ss), sc_inserted = (s \<notin> set ss) \<rparr>"
  define a' where "a' = commit_attr c s (s \<notin> set ss) now1 now2 a"
  define st where "st = (if s \<in> set ss then [] else [(key_chunk_slices i c, chunk_enc cd (add_slice s ss))])"
  have "attr_times_ok a'"
    using v_attr_times [OF a(1)] now by (auto simp: a'_def commit_attr_def attr_times_ok_def)
  then obtain buf where buf: "enc_attr cd a' = Some buf" using enc_attr_some by blast
  define st' where "st' = (if s \<notin> set ss \<or> a_length a < slice_end c s then (key_attr i, buf) # st else st)"
  have staged: "stage_chunk_slice cd (\<lambda>k. Some (?m k)) i c s [] =
      Inr ((s \<notin> set ss, length (add_slice s ss)), st)"
    using stage_chunk_slice_eq [of ?m "[]" i c ss s] hold s by (simp add: st_def)
  have rd: "txn_get (\<lambda>k. Some (?m k)) [] = (\<lambda>k. Some (?m k))"
    by (simp add: txn_get_def fun_eq_iff)
  have get: "do_get_attr cd (\<lambda>k. Some (?m k)) i = Inr a"
    using do_get_attr_eq [OF a(1)] by (simp add: kv_get_content)
  have upd: "a_length a < slice_end c s \<Longrightarrow>
      update_modification_time now1 now2 (a\<lparr>a_length := slice_end c s\<rparr>) = a'"
    "\<not> a_length a < slice_end c s \<Longrightarrow> s \<notin> set ss \<Longrightarrow> update_modification_time now1 now2 a = a'"
    by (auto simp: a'_def commit_attr_def update_modification_time_def max_def)
  have plan: "stage_slice_commit cd (kv_get kv db) i c s now1 now2 = Inr (st', ?r)"
    using upd buf a(2)
    by (auto simp: stage_slice_commit_def kv_get_content rd get staged txn_put_attr_def st'_def
        slice_end_def [symmetric] Let_def)
  obtain db' where run: "commit_slice kv cd i c s now1 now2 db = (Inr ?r, db')"
    and m': "content db' = apply_batch (staged_batch st') ?m"
    using commit_txn_ok [of "staged_batch st'" ?r db] by (auto simp: commit_slice_def plan)
  have same: "\<not> (s \<notin> set ss \<or> a_length a < slice_end c s) \<Longrightarrow> a' = a"
    by (auto simp: a'_def commit_attr_def)
  have old: "s \<in> set ss \<Longrightarrow> v_chunk ?m (i, c) = Some (chunk_enc cd (add_slice s ss))"
    using hold by (auto simp: chunk_holds_def add_slice_def)
  have "v_chunk (content db') = (v_chunk ?m)((i, c) := Some (chunk_enc cd (add_slice s ss)))"
    "v_attr cd (content db') = (v_attr cd ?m)(i \<mapsto> a')"
    "v_dentry cd (content db') = v_dentry cd ?m"
    using same old a(1) buf unfolding m' apply_staged st'_def st_def
    by (auto simp: key_render view_simps attr_dec fun_upd_idem)
  then show ?thesis using run by (auto simp: a'_def)
qed

lemma get_chunk_slices_holds:
  assumes "chunk_holds cd (content db) i c ss"
  shows "get_chunk_slices kv cd i c db =
    (if ss = [] then Inl (ModelError (NotFound KChunkSlicesModel)) else Inr ss)"
  using assms sl.slices_decode_encode [of ss]
  by (auto simp: get_chunk_slices_def chunk_holds_def v_chunk_def key_render get_eq chunk_enc_all)

end

sublocale reliable_meta \<subseteq> meta_db
  by unfold_locales

section \<open>The holes of a truncation\<close>

text \<open>The hole an extension to \<open>new\<close> from \<open>pos\<close> puts into chunk \<open>c\<close>, and the chunks it meets.\<close>

definition chunk_hole :: "nat \<Rightarrow> nat \<Rightarrow> nat \<Rightarrow> slice" where
  "chunk_hole pos new c = hole_at (max pos (c * CHUNK_SIZE)) new"

definition hole_chunk :: "nat \<Rightarrow> nat \<Rightarrow> nat \<Rightarrow> bool" where
  "hole_chunk pos new c \<longleftrightarrow> pos < new \<and> pos div CHUNK_SIZE \<le> c \<and> c * CHUNK_SIZE < new"

lemma CHUNK_SIZE_pos [simp]: "0 < CHUNK_SIZE"
  by (simp add: CHUNK_SIZE_def)

lemma hole_wf [simp]: "slice_wf (hole_at pos new)"
  by (simp add: hole_at_def new_owned_wf EMPTY_SLICE_ID_def)

text \<open>One step of the loop: the chunk of \<open>pos\<close>, then the rest.\<close>

lemma hole_next:
  assumes "pos < new"
  shows "pos + hole_len pos new = min ((pos div CHUNK_SIZE + 1) * CHUNK_SIZE) new"
proof -
  define q r where "q = pos div CHUNK_SIZE * CHUNK_SIZE" and "r = pos mod CHUNK_SIZE"
  have "pos = q + r" "r < CHUNK_SIZE" "(pos div CHUNK_SIZE + 1) * CHUNK_SIZE = q + CHUNK_SIZE"
    by (simp_all add: q_def r_def)
  then show ?thesis using assms unfolding hole_len_def r_def [symmetric] by linarith
qed

lemma hole_chunk_step:
  assumes "pos < new" "pos' = pos + hole_len pos new"
  shows "hole_chunk pos new c \<longleftrightarrow> c = pos div CHUNK_SIZE \<or> hole_chunk pos' new c"
    and "\<not> hole_chunk pos' new (pos div CHUNK_SIZE)"
    and "hole_chunk pos' new c \<Longrightarrow> chunk_hole pos' new c = chunk_hole pos new c"
    and "chunk_hole pos new (pos div CHUNK_SIZE) = hole_at pos new"
proof -
  let ?c0 = "pos div CHUNK_SIZE"
  have lo: "?c0 * CHUNK_SIZE \<le> pos" by simp
  have pos': "pos' = min ((?c0 + 1) * CHUNK_SIZE) new" using hole_next [OF assms(1)] assms(2) by simp
  have div': "pos' < new \<Longrightarrow> pos' div CHUNK_SIZE = ?c0 + 1"
    unfolding pos' by (simp add: min_def split: if_splits)
  have le: "c \<le> ?c0" if "c * CHUNK_SIZE < new" "\<not> pos' < new"
  proof (rule ccontr)
    assume "\<not> c \<le> ?c0"
    then have "(?c0 + 1) * CHUNK_SIZE \<le> c * CHUNK_SIZE" by (intro mult_le_mono1) simp
    then show False using that pos' by simp
  qed
  show "hole_chunk pos new c \<longleftrightarrow> c = ?c0 \<or> hole_chunk pos' new c"
    using assms(1) le_less_trans [OF lo assms(1)] div' le
    by (cases "pos' < new") (auto simp: hole_chunk_def)
  show "\<not> hole_chunk pos' new ?c0" using div' by (auto simp: hole_chunk_def)
  show "chunk_hole pos new ?c0 = hole_at pos new" by (simp only: chunk_hole_def max_absorb1 [OF lo])
  assume h: "hole_chunk pos' new c"
  then have "(?c0 + 1) * CHUNK_SIZE \<le> c * CHUNK_SIZE"
    using div' by (intro mult_le_mono1) (auto simp: hole_chunk_def)
  moreover have "pos < (?c0 + 1) * CHUNK_SIZE" using dividend_less_div_times [of CHUNK_SIZE pos] by simp
  ultimately have "max pos' (c * CHUNK_SIZE) = c * CHUNK_SIZE" "max pos (c * CHUNK_SIZE) = c * CHUNK_SIZE"
    using pos' by linarith+
  then show "chunk_hole pos' new c = chunk_hole pos new c" by (simp only: chunk_hole_def)
qed

context codec_laws
begin

lemma chunk_holds_stage:
  assumes "chunk_holds cd m i c ss" "slice_wf s"
  shows "chunk_holds cd (m(key_chunk_slices i c := Some (chunk_enc cd (add_slice s ss)))) i d
    (if d = c then add_slice s ss else L) \<longleftrightarrow> d = c \<or> chunk_holds cd m i d L"
  using assms add_slice_wf by (auto simp: chunk_holds_def key_render view_simps)

lemma truncate_loop_holds:
  assumes "\<And>c. chunk_holds cd (m ++ map_of st) i c (L c)"
  shows "\<exists>st'. truncate_loop cd (\<lambda>k. Some (m k)) i pos new st = Inr st'
    \<and> (\<forall>c. chunk_holds cd (m ++ map_of st') i c
             (if hole_chunk pos new c then add_slice (chunk_hole pos new c) (L c) else L c))
    \<and> v_attr cd (m ++ map_of st') = v_attr cd (m ++ map_of st)
    \<and> v_dentry cd (m ++ map_of st') = v_dentry cd (m ++ map_of st)
    \<and> (\<forall>j c. j \<noteq> i \<longrightarrow> v_chunk (m ++ map_of st') (j, c) = v_chunk (m ++ map_of st) (j, c))"
  using assms
proof (induction "new - pos" arbitrary: pos st L rule: less_induct)
  case less
  show ?case
  proof (cases "pos < new")
    case False
    then show ?thesis using less.prems by (subst truncate_loop.simps) (simp add: hole_chunk_def)
  next
    case True
    define c0 where "c0 = pos div CHUNK_SIZE"
    define s0 where "s0 = hole_at pos new"
    define pos' where "pos' = pos + hole_len pos new"
    define L1 where "L1 = L(c0 := add_slice s0 (L c0))"
    define st1 where "st1 = (if s0 \<in> set (L c0) then st
      else (key_chunk_slices i c0, chunk_enc cd (add_slice s0 (L c0))) # st)"
    have stage: "stage_chunk_slice cd (\<lambda>k. Some (m k)) i c0 s0 st =
        Inr ((s0 \<notin> set (L c0), length (add_slice s0 (L c0))), st1)"
      using stage_chunk_slice_eq [OF less.prems, of s0] by (simp add: st1_def s0_def)
    have view: "m ++ map_of st1 = (m ++ map_of st)
        (key_chunk_slices i c0 := Some (chunk_enc cd (add_slice s0 (L c0))))"
    proof (cases "s0 \<in> set (L c0)")
      case True
      then have "(m ++ map_of st) (key_chunk_slices i c0) = Some (chunk_enc cd (add_slice s0 (L c0)))"
        using less.prems [of c0] by (auto simp: chunk_holds_def v_chunk_def key_render add_slice_def)
      then show ?thesis using True by (simp add: st1_def fun_upd_idem)
    qed (simp add: st1_def)
    have hold1: "chunk_holds cd (m ++ map_of st1) i c (L1 c)" for c
      using chunk_holds_stage [OF less.prems, of s0 c0 c "L c"] less.prems
      unfolding view L1_def s0_def by (cases "c = c0") auto
    have "new - pos' < new - pos" using True hole_len_pos [OF True] by (simp add: pos'_def)
    from less.hyps [OF this hold1] obtain st' where
      st': "truncate_loop cd (\<lambda>k. Some (m k)) i pos' new st1 = Inr st'"
      and hold': "\<And>c. chunk_holds cd (m ++ map_of st') i c
             (if hole_chunk pos' new c then add_slice (chunk_hole pos' new c) (L1 c) else L1 c)"
      and rest: "v_attr cd (m ++ map_of st') = v_attr cd (m ++ map_of st1)"
        "v_dentry cd (m ++ map_of st') = v_dentry cd (m ++ map_of st1)"
        "\<And>j c. j \<noteq> i \<Longrightarrow> v_chunk (m ++ map_of st') (j, c) = v_chunk (m ++ map_of st1) (j, c)"
      by blast
    note step = hole_chunk_step [OF True pos'_def, folded c0_def s0_def]
    have "truncate_loop cd (\<lambda>k. Some (m k)) i pos new st = Inr st'"
      using True stage st' by (subst truncate_loop.simps) (simp add: c0_def s0_def pos'_def)
    moreover have "chunk_holds cd (m ++ map_of st') i c
        (if hole_chunk pos new c then add_slice (chunk_hole pos new c) (L c) else L c)" for c
      using hold' [of c] step(1) [of c] step(2,4) step(3) [of c] by (auto simp: L1_def split: if_splits)
    ultimately show ?thesis using rest by (auto simp: view key_render view_simps)
  qed
qed

end

definition truncated :: "codec \<Rightarrow> content \<Rightarrow> ino \<Rightarrow> nat \<Rightarrow> nat \<Rightarrow> (nat \<Rightarrow> slice list) \<Rightarrow> content \<Rightarrow> bool" where
  "truncated cd m i old new L m' \<longleftrightarrow>
     (\<forall>c. chunk_holds cd m' i c (if hole_chunk old new c then add_slice (chunk_hole old new c) (L c) else L c))
     \<and> v_dentry cd m' = v_dentry cd m
     \<and> (\<forall>j c. j \<noteq> i \<longrightarrow> v_chunk m' (j, c) = v_chunk m (j, c))"

context codec_laws
begin

lemma truncate_staged:
  assumes hold: "\<And>c. chunk_holds cd m i c (L c)"
  obtains st where "(if new > old then truncate_loop cd (\<lambda>k. Some (m k)) i old new [] else Inr []) = Inr st"
    "truncated cd m i old new L (m ++ map_of st)" "v_attr cd (m ++ map_of st) = v_attr cd m"
proof (cases "new > old")
  case True
  then show ?thesis
    using truncate_loop_holds [of m "[]" i L old new] hold that by (auto simp: truncated_def)
next
  case False
  then have "\<not> hole_chunk old new c" for c by (simp add: hole_chunk_def)
  then show ?thesis using False hold that [of "[]"] by (simp add: truncated_def)
qed

end

context reliable_meta
begin

lemma do_truncate_effect:
  assumes a: "v_attr cd (content db) i = Some a" "a_kind a = RegularFile" "attr_is_normal a"
    and perm: "skip \<or> check_access ctx a MODE_MASK_W = Inr ()"
    and len: "len \<noteq> a_length a" "len < 2 ^ 64" "a_length a < 2 ^ 64"
    and hold: "\<And>c. chunk_holds cd (content db) i c (L c)" and now: "0 \<le> now1" "0 \<le> now2"
  shows "\<exists>db'. do_truncate kv cd ctx i len skip now1 now2 db = (Inr (update_length len now1 now2 a), db')
    \<and> truncated cd (content db) i (a_length a) len L (content db')
    \<and> v_attr cd (content db') = (v_attr cd (content db))(i \<mapsto> update_length len now1 now2 a)"
proof -
  let ?m = "content db" and ?a = "update_length len now1 now2 a"
  obtain st where st: "(if len > a_length a
      then truncate_loop cd (\<lambda>k. Some (?m k)) i (a_length a) len [] else Inr []) = Inr st"
    and views: "truncated cd ?m i (a_length a) len L (?m ++ map_of st)"
      "v_attr cd (?m ++ map_of st) = v_attr cd ?m"
    using truncate_staged [OF hold] by blast
  have "attr_times_ok ?a"
    using v_attr_times [OF a(1)] now by (simp add: update_length_def update_modification_time_def attr_times_ok_def)
  then obtain buf where buf: "enc_attr cd ?a = Some buf" using enc_attr_some by blast
  have get: "do_get_attr cd (\<lambda>k. Some (?m k)) i = Inr a"
    using do_get_attr_eq [OF a(1)] by (simp add: kv_get_content)
  have "truncate_plan cd (kv_get kv db) ctx i len skip now1 now2 = Inr ((key_attr i, buf) # st, ?a)"
    using perm a(2,3) len st buf
    by (auto simp: truncate_plan_def kv_get_content get txn_put_attr_def Let_def simp del: not_less)
  then obtain db' where run: "do_truncate kv cd ctx i len skip now1 now2 db = (Inr ?a, db')"
    and m': "content db' = (?m ++ map_of st)(key_attr i \<mapsto> buf)"
    using commit_txn_ok [of "staged_batch ((key_attr i, buf) # st)" ?a db]
    by (auto simp: do_truncate_def apply_staged)
  have "truncated cd ?m i (a_length a) len L (content db')" "v_attr cd (content db') = (v_attr cd ?m)(i \<mapsto> ?a)"
    using views attr_dec [OF buf] unfolding m'
    by (auto simp: key_render view_simps chunk_holds_def truncated_def)
  then show ?thesis using run by blast
qed

end

section \<open>Contents and the namespace\<close>

text \<open>The transactions stage chunk records and one attribute that keeps its kind and links.\<close>

definition chunk_puts :: "staged \<Rightarrow> bool" where
  "chunk_puts st \<longleftrightarrow> fst ` set st \<subseteq> {k. \<exists>i c. k = key_chunk_slices i c}"

lemma chunk_puts_views:
  "chunk_puts st \<Longrightarrow> v_attr cd (m ++ map_of st) = v_attr cd m \<and> v_dentry cd (m ++ map_of st) = v_dentry cd m"
proof (induction st)
  case (Cons x st)
  then obtain i c v where x: "x = (key_chunk_slices i c, v)" and st: "chunk_puts st"
    by (cases x) (auto simp: chunk_puts_def)
  show ?case
    unfolding x map_add_staged using Cons.IH [OF st] by (simp only: key_render view_simps) simp
qed simp

lemma stage_chunk_slice_puts:
  assumes "stage_chunk_slice cd rd i c s st = Inr (x, st')" "chunk_puts st"
  shows "chunk_puts st'"
proof -
  have "st' = st \<or> (\<exists>v. st' = (key_chunk_slices i c, v) # st)"
    using assms(1) by (auto simp: stage_chunk_slice_def rbind_eq_Inr Let_def split: if_splits)
  moreover have "chunk_puts ((key_chunk_slices i c, v) # st)" for v
    unfolding chunk_puts_def list.set image_insert insert_subset mem_Collect_eq fst_conv
    by (rule conjI, rule exI, rule exI, rule refl, rule assms(2) [unfolded chunk_puts_def])
  ultimately show ?thesis using assms(2) by (elim disjE exE) simp_all
qed

lemma truncate_loop_puts:
  "truncate_loop cd rd i pos new st = Inr st' \<Longrightarrow> chunk_puts st \<Longrightarrow> chunk_puts st'"
proof (induction cd rd i pos new st rule: truncate_loop.induct)
  case (1 cd rd i pos new st)
  show ?case
  proof (cases "pos < new")
    case True
    then obtain x st1 where "stage_chunk_slice cd rd i (pos div CHUNK_SIZE) (hole_at pos new) st = Inr (x, st1)"
      "truncate_loop cd rd i (pos + hole_len pos new) new st1 = Inr st'"
      using "1.prems"(1) by (subst (asm) truncate_loop.simps) (auto simp: rbind_eq_Inr)
    then show ?thesis using "1.IH" [OF True] stage_chunk_slice_puts "1.prems"(2) by (metis case_prod_conv)
  next
    case False
    then show ?thesis using "1.prems" by (subst (asm) truncate_loop.simps) auto
  qed
qed

text \<open>The attribute after a slice that reaches past the end.\<close>

definition grown :: "inode_attr \<Rightarrow> nat \<Rightarrow> slice \<Rightarrow> inode_attr" where
  "grown a c s = a\<lparr>a_length := max (a_length a) (slice_end c s)\<rparr>"

lemma stage_slice_commit_Inr:
  assumes "stage_slice_commit cd rd i c s now1 now2 = Inr (st', r)"
  shows "\<exists>a y st. do_get_attr cd (txn_get rd []) i = Inr a \<and> stage_chunk_slice cd rd i c s [] = Inr (y, st)
    \<and> (st' = st \<or> txn_put_attr cd i (update_modification_time now1 now2 (grown a c s)) st = Inr st')"
proof -
  obtain a where a: "do_get_attr cd (txn_get rd []) i = Inr a"
    using assms by (cases "do_get_attr cd (txn_get rd []) i") (auto simp: stage_slice_commit_def)
  obtain inserted n st where st: "stage_chunk_slice cd rd i c s [] = Inr ((inserted, n), st)"
    using assms by (cases "stage_chunk_slice cd rd i c s []") (auto simp: stage_slice_commit_def a rbind_eq_Inr)
  have st': "(if inserted \<or> a_length a < slice_end c s
      then txn_put_attr cd i (update_modification_time now1 now2
             (if a_length a < slice_end c s then a\<lparr>a_length := slice_end c s\<rparr> else a)) st
      else Inr st) = Inr st'"
    using assms
    by (auto simp: stage_slice_commit_def a st rbind_eq_Inr Let_def slice_end_def [symmetric] split del: if_split
        cong: if_cong)
  have "(if a_length a < slice_end c s then a\<lparr>a_length := slice_end c s\<rparr> else a) = grown a c s"
    by (simp add: grown_def max_def)
  then show ?thesis using a st st' by (auto split: if_splits)
qed

context meta_db
begin

text \<open>It is enough that the staged puts are chunk records and such an attribute.\<close>

lemma ns_ok_commit:
  assumes "commit_txn kv staged db = (r, db')" "ns_ok cd (content db)"
    and "\<And>b x. staged = Inr (b, x) \<Longrightarrow> ns_ok cd (apply_batch b (content db))"
  shows "ns_ok cd (content db')"
  using commit_txn_content [OF assms(1)] assms(2,3) by auto

lemma ns_ok_staged:
  assumes inv: "ns_ok cd m" and st: "chunk_puts st" and A: "v_attr cd m i = Some a"
    and put: "txn_put_attr cd i a' st = Inr st'" and a': "a_kind a' = a_kind a" "a_nlink a' = a_nlink a"
  shows "ns_ok cd (apply_batch (staged_batch st') m)"
proof -
  obtain buf where buf: "enc_attr cd a' = Some buf" "st' = (key_attr i, buf) # st"
    using put by (auto simp: txn_put_attr_def rbind_eq_Inr)
  have inv0: "ns_inv (v_attr cd m) (v_dentry cd m)" using inv by (simp add: ns_ok_def)
  then have "ns_inv ((v_attr cd m)(i \<mapsto> a')) (v_dentry cd m)"
    using ns_set_attr [OF inv0 A a'(1)] ns_links [OF inv0 A] a'
    by (cases "a_kind a = Directory") (auto simp: links_ok_def)
  then show ?thesis
    using chunk_puts_views [OF st, of cd m] attr_dec [OF buf(1)]
    by (simp add: ns_ok_def apply_staged buf key_render view_simps)
qed

lemma commit_slice_ns_ok:
  assumes inv: "ns_ok cd (content db)" and run: "commit_slice kv cd i c s now1 now2 db = (r, db')"
  shows "ns_ok cd (content db')"
proof (rule ns_ok_commit [OF run [unfolded commit_slice_def] inv])
  fix b x
  assume "rbind (stage_slice_commit cd (kv_get kv db) i c s now1 now2) (\<lambda>(st, r). Inr (staged_batch st, r))
    = Inr (b, x)"
  then obtain st' where plan: "stage_slice_commit cd (kv_get kv db) i c s now1 now2 = Inr (st', x)"
    and b: "b = staged_batch st'"
    by (auto simp: rbind_eq_Inr)
  obtain a y st where a: "do_get_attr cd (txn_get (kv_get kv db) []) i = Inr a"
    and st: "stage_chunk_slice cd (kv_get kv db) i c s [] = Inr (y, st)"
    and alt: "st' = st \<or> txn_put_attr cd i (update_modification_time now1 now2 (grown a c s)) st = Inr st'"
    using stage_slice_commit_Inr [OF plan] by blast
  have A: "v_attr cd (content db) i = Some a"
    using a do_get_attr_view by (simp add: txn_get_def [abs_def])
  have p: "chunk_puts st" using stage_chunk_slice_puts [OF st] by (simp add: chunk_puts_def)
  show "ns_ok cd (apply_batch b (content db))"
    using alt ns_ok_staged [OF inv p A] inv chunk_puts_views [OF p, of cd "content db"]
    by (auto simp: b ns_ok_def apply_staged update_modification_time_def grown_def)
qed

lemma do_truncate_ns_ok:
  assumes inv: "ns_ok cd (content db)" and run: "do_truncate kv cd ctx i len skip now1 now2 db = (r, db')"
  shows "ns_ok cd (content db')"
proof (rule ns_ok_commit [OF run [unfolded do_truncate_def] inv])
  fix b x
  assume "rbind (truncate_plan cd (kv_get kv db) ctx i len skip now1 now2) (\<lambda>(st, a). Inr (staged_batch st, a))
    = Inr (b, x)"
  then obtain a st st' where a: "do_get_attr cd (kv_get kv db) i = Inr a" and b: "b = staged_batch st'"
    and st: "(if len > a_length a then truncate_loop cd (kv_get kv db) i (a_length a) len [] else Inr []) = Inr st"
    and put: "txn_put_attr cd i (update_length len now1 now2 a) st = Inr st'"
    by (auto simp: truncate_plan_def rbind_eq_Inr Let_def)
  have p: "chunk_puts st"
    using st truncate_loop_puts by (fastforce simp: chunk_puts_def split: if_splits)
  show "ns_ok cd (apply_batch b (content db))"
    using ns_ok_staged [OF inv p do_get_attr_view [OF a] put]
    by (simp add: b update_length_def update_modification_time_def)
qed

end

section \<open>The concrete store\<close>

interpretation rmeta: reliable_meta alist_kv map_of text_codec
  by unfold_locales

end
