(* ===== verification/Id_Table.thy ===== *)
theory Id_Table
  imports Meta_Data
begin

text \<open>
  Identifier allocation (\<^verbatim>\<open>meta/src/id_table.rs\<close>): a table holds a batch of identifiers and
  takes the next one from the persistent counter when it is used up. Any number of tables, in
  one or several mounts, may draw from one counter; no identifier is handed out twice.
\<close>

section \<open>The table\<close>

type_synonym id_table = "nat \<times> nat" \<comment> \<open>\<^verbatim>\<open>next_max_pair\<close>\<close>

definition id_table_new :: id_table where
  "id_table_new = (0, 0)"

text \<open>The loop that passes over the identifiers 0 and 1.\<close>

function skip_reserved :: "nat \<Rightarrow> nat \<Rightarrow> nat \<times> nat" where
  "skip_reserved nxt p =
     (if nxt \<le> 1 then skip_reserved p (wrap64 (p + 1)) else (nxt, p))"
  by pat_completeness auto
termination
  by (relation "measure (\<lambda>(nxt, p). if 2 \<le> nxt then 0 else if 2 \<le> p then 1 else 3 - p)")
    (auto simp: wrap64_def)

declare skip_reserved.simps [simp del]

definition id_refill :: "'db kv \<Rightarrow> codec \<Rightarrow> counter \<Rightarrow> 'db \<Rightarrow> id_table mresult \<times> 'db" where
  "id_refill kv cd c db =
     (case get_step c of
        None \<Rightarrow> (Inl Panicked, db)
      | Some step \<Rightarrow>
          (case increase_count_by kv cd c step db of
             (Inl e, db') \<Rightarrow> (Inl e, db')
           | (Inr new_max, db') \<Rightarrow> (Inr (wrap64 (new_max + 2 ^ 64 - step), new_max), db')))"

definition id_next ::
  "'db kv \<Rightarrow> codec \<Rightarrow> counter \<Rightarrow> id_table \<Rightarrow> 'db \<Rightarrow> nat mresult \<times> id_table \<times> 'db" where
  "id_next kv cd c t db =
     (case (if fst t \<ge> snd t then id_refill kv cd c db else (Inr t, db)) of
        (Inl e, db') \<Rightarrow> (Inl e, t, db')
      | (Inr (n, m), db') \<Rightarrow>
          (case skip_reserved n (wrap64 (n + 1)) of (nxt, n') \<Rightarrow> (Inr nxt, (n', m), db')))"

text \<open>A schedule of allocations by several clients, each with a table of its own.\<close>

primrec id_run ::
  "'db kv \<Rightarrow> codec \<Rightarrow> counter \<Rightarrow> nat list \<Rightarrow> (nat \<Rightarrow> id_table) \<Rightarrow> 'db \<Rightarrow> nat mresult list" where
  "id_run kv cd c [] ts db = []"
| "id_run kv cd c (k # ks) ts db =
     (case id_next kv cd c (ts k) db of
        (r, t', db') \<Rightarrow> r # id_run kv cd c ks (ts(k := t')) db')"

section \<open>The counter\<close>

definition counter_val :: "codec \<Rightarrow> content \<Rightarrow> counter \<Rightarrow> nat option" where
  "counter_val cd m c = (case m (key_counter c) of None \<Rightarrow> Some 0 | Some b \<Rightarrow> dec_u64 cd b)"

lemma skip_reserved_eq:
  assumes "n + 3 < 2 ^ 64"
  shows "skip_reserved n (wrap64 (n + 1)) = (max 2 n, max 2 n + 1)"
proof -
  consider "n = 0" | "n = 1" | "2 \<le> n" by linarith
  then show ?thesis
    by cases (use assms in \<open>simp_all add: skip_reserved.simps wrap64_def max_def\<close>)
qed

context reliable_meta
begin

lemma increase_count_by_ok:
  assumes cur: "counter_val cd (content db) c = Some cur" and room: "cur + step < 2 ^ 64"
  shows "\<exists>db' buf. increase_count_by kv cd c step db = (Inr (cur + step), db')
    \<and> counter_val cd (content db') c = Some (cur + step)
    \<and> content db' = (content db)(key_counter c := Some buf)"
proof -
  obtain buf where buf: "enc_u64 cd (cur + step) = Some buf" using u64_enc by blast
  have "(rbind (ok_or (kv_get kv db (key_counter c)) RocksdbError) (\<lambda>v.
        rbind (case v of
                 None \<Rightarrow> Inr 0
               | Some buf \<Rightarrow> ok_or (dec_u64 cd buf) (ModelError (Corruption KCounterModel))) (\<lambda>current.
        let new = wrap64 (current + step) in
        rbind (ok_or (enc_u64 cd new) (ModelError (Corruption KCounterModel))) (\<lambda>new_buf.
          Inr ([BPut (key_counter c) new_buf], new))))) = Inr ([BPut (key_counter c) buf], cur + step)"
    using cur room buf by (auto simp: counter_val_def get_eq wrap64_def Let_def split: option.splits)
  then show ?thesis
    using commit_txn_ok [of "[BPut (key_counter c) buf]" "cur + step" db] u64_dec [OF buf room]
    by (auto simp: increase_count_by_def counter_val_def)
qed

lemma id_refill_ok:
  assumes cur: "counter_val cd (content db) c = Some cur" and step: "get_step c = Some step"
    and room: "cur + step < 2 ^ 64"
  shows "\<exists>db' buf. id_refill kv cd c db = (Inr (cur, cur + step), db')
    \<and> counter_val cd (content db') c = Some (cur + step)
    \<and> content db' = (content db)(key_counter c := Some buf)"
  using increase_count_by_ok [OF cur room] step room by (auto simp: id_refill_def wrap64_def)

end

section \<open>No identifier twice\<close>

text \<open>
  The unissued part of each table's batch, as an interval: the intervals lie below the counter,
  do not overlap and hold no issued identifier.
\<close>

definition batch_of :: "id_table \<Rightarrow> nat set" where
  "batch_of t = {fst t..<snd t}"

definition ids_inv :: "(nat \<Rightarrow> id_table) \<Rightarrow> nat \<Rightarrow> nat set \<Rightarrow> bool" where
  "ids_inv ts cur issued \<longleftrightarrow>
     (\<forall>k. batch_of (ts k) \<subseteq> {2..<cur} - issued)
     \<and> (\<forall>k l. k \<noteq> l \<longrightarrow> batch_of (ts k) \<inter> batch_of (ts l) = {})
     \<and> issued \<subseteq> {2..<cur}"

lemma ids_inv_new: "ids_inv (\<lambda>_. id_table_new) cur {}"
  by (simp add: ids_inv_def batch_of_def id_table_new_def)

text \<open>Taking the first identifier \<open>i\<close> of a batch, or of one fetched at the counter.\<close>

lemma ids_inv_take:
  assumes inv: "ids_inv ts cur issued" and b: "batch_of (ts k) = insert i (batch_of t)" "i \<notin> batch_of t"
  shows "ids_inv (ts(k := t)) cur (insert i issued)" "i \<notin> issued" "2 \<le> i"
proof -
  have i: "i \<in> batch_of (ts k)" using b by simp
  have sub: "batch_of (ts l) \<subseteq> {2..<cur} - issued" for l using inv unfolding ids_inv_def by blast
  have disj: "l \<noteq> l' \<Longrightarrow> batch_of (ts l) \<inter> batch_of (ts l') = {}" for l l'
    using inv unfolding ids_inv_def by blast
  show "i \<notin> issued" "2 \<le> i" using i sub [of k] by auto
  have "batch_of ((ts(k := t)) l) \<subseteq> {2..<cur} - insert i issued" for l
    using sub [of l] disj [of l k] b i by (cases "l = k") auto
  moreover have "l \<noteq> l' \<Longrightarrow> batch_of ((ts(k := t)) l) \<inter> batch_of ((ts(k := t)) l') = {}" for l l'
    using disj [of l l'] b by (cases "l = k"; cases "l' = k") auto
  moreover have "insert i issued \<subseteq> {2..<cur}"
    using subsetD [OF sub i] inv unfolding ids_inv_def by blast
  ultimately show "ids_inv (ts(k := t)) cur (insert i issued)" unfolding ids_inv_def by blast
qed

lemma ids_inv_fetch:
  assumes inv: "ids_inv ts cur issued" and le: "cur \<le> cur'"
    and t: "batch_of t \<subseteq> {cur..<cur'} \<inter> {2..}"
  shows "ids_inv (ts(k := t)) cur' issued"
proof -
  have sub: "batch_of (ts l) \<subseteq> {2..<cur} - issued" for l using inv unfolding ids_inv_def by blast
  have disj: "l \<noteq> l' \<Longrightarrow> batch_of (ts l) \<inter> batch_of (ts l') = {}" for l l'
    using inv unfolding ids_inv_def by blast
  have iss: "issued \<subseteq> {2..<cur}" using inv unfolding ids_inv_def by blast
  have "batch_of ((ts(k := t)) l) \<subseteq> {2..<cur'} - issued" for l
    using sub [of l] t iss le by (cases "l = k") fastforce+
  moreover have "l \<noteq> l' \<Longrightarrow> batch_of ((ts(k := t)) l) \<inter> batch_of ((ts(k := t)) l') = {}" for l l'
    using disj [of l l'] t sub [of l] sub [of l'] by (cases "l = k"; cases "l' = k") fastforce+
  moreover have "issued \<subseteq> {2..<cur'}" using iss le by auto
  ultimately show ?thesis unfolding ids_inv_def by blast
qed

lemma take_batch:
  "n < m \<Longrightarrow> batch_of (n, m) = insert n (batch_of (Suc n, m))" "n \<notin> batch_of (Suc n, m)"
  by (auto simp: batch_of_def)

context reliable_meta
begin

lemma id_next_ok:
  assumes inv: "ids_inv ts cur issued" and cur: "counter_val cd (content db) c = Some cur"
    and step: "get_step c = Some step" "3 \<le> step" and room: "cur + step + 3 < 2 ^ 64"
  shows "\<exists>i t' db' cur'. id_next kv cd c (ts k) db = (Inr i, t', db') \<and> i \<notin> issued \<and> 2 \<le> i
    \<and> ids_inv (ts(k := t')) cur' (insert i issued) \<and> counter_val cd (content db') c = Some cur'
    \<and> cur' \<le> cur + step"
proof (cases "fst (ts k) \<ge> snd (ts k)")
  case True
  obtain db' where fill: "id_refill kv cd c db = (Inr (cur, cur + step), db')"
    and db': "counter_val cd (content db') c = Some (cur + step)"
    using id_refill_ok [OF cur step(1)] room by auto
  let ?i = "max 2 cur" and ?ts = "ts(k := (max 2 cur, cur + step))"
  have f: "ids_inv ?ts (cur + step) issued"
    by (rule ids_inv_fetch [OF inv]) (auto simp: batch_of_def)
  have b: "batch_of (?ts k) = insert ?i (batch_of (Suc ?i, cur + step))"
    using take_batch(1) [of ?i "cur + step"] step(2) by (simp add: max_def)
  note got = ids_inv_take [OF f b take_batch(2), unfolded fun_upd_upd]
  have "skip_reserved cur (wrap64 (cur + 1)) = (?i, Suc ?i)"
    using skip_reserved_eq [of cur] room by simp
  then have "id_next kv cd c (ts k) db = (Inr ?i, (Suc ?i, cur + step), db')"
    using True fill by (simp add: id_next_def)
  then show ?thesis using db' got by blast
next
  case False
  obtain n m where t: "ts k = (n, m)" and nm: "n < m" using False by (cases "ts k") auto
  have b: "batch_of (ts k) = insert n (batch_of (Suc n, m))" using take_batch(1) [OF nm] t by simp
  note got = ids_inv_take [OF inv b take_batch(2)]
  have "batch_of (ts k) \<subseteq> {2..<cur}" using inv unfolding ids_inv_def by blast
  then have "n < cur" using b by simp
  then have "skip_reserved n (wrap64 (n + 1)) = (n, Suc n)"
    using skip_reserved_eq [of n] room nm got(3) by simp
  then have "id_next kv cd c (ts k) db = (Inr n, (Suc n, m), db)"
    using nm by (simp add: id_next_def t)
  then show ?thesis using got cur by auto
qed

lemma id_run_ok:
  assumes "ids_inv ts cur issued" "counter_val cd (content db) c = Some cur"
    and step: "get_step c = Some step" "3 \<le> step" and "cur + length ks * step + 3 < 2 ^ 64"
  shows "\<exists>ids. id_run kv cd c ks ts db = map Inr ids \<and> distinct ids \<and> set ids \<inter> issued = {}
    \<and> (\<forall>i \<in> set ids. 2 \<le> i)"
  using assms(1,2,5)
proof (induction ks arbitrary: ts cur issued db)
  case (Cons k ks)
  from id_next_ok [OF Cons.prems(1,2) step, of k] Cons.prems(3)
  obtain i t' db' cur' where nxt: "id_next kv cd c (ts k) db = (Inr i, t', db')" "i \<notin> issued" "2 \<le> i"
    and inv: "ids_inv (ts(k := t')) cur' (insert i issued)" "counter_val cd (content db') c = Some cur'"
    and le: "cur' \<le> cur + step"
    by auto
  have "cur' + length ks * step + 3 < 2 ^ 64" using Cons.prems(3) le by simp
  from Cons.IH [OF inv this] obtain ids where
    "id_run kv cd c ks (ts(k := t')) db' = map Inr ids" "distinct ids"
    "set ids \<inter> insert i issued = {}" "\<forall>i \<in> set ids. 2 \<le> i"
    by blast
  then show ?case using nxt by (intro exI [of _ "i # ids"]) auto
qed simp

end

end
