(* ===== verification/Effects.thy ===== *)
theory Effects
  imports Kiseki_Prelude
begin

text \<open>
  Stateful code that may fail: a computation takes a state to a result and a new state, and an
  error keeps the state reached so far. \<open>sbind\<close> is \<^verbatim>\<open>?\<close> on such calls. \<open>triple\<close> is the
  partial-correctness statement about them, with one rule per combinator, collected in
  \<open>triple_rules\<close>.
\<close>

named_theorems triple_rules \<open>rules for pre- and postconditions of stateful computations\<close>

type_synonym ('s, 'e, 'a) comp = "'s \<Rightarrow> ('e + 'a) \<times> 's"

definition sret :: "'a \<Rightarrow> ('s, 'e, 'a) comp" where
  "sret x s = (Inr x, s)"

definition sfail :: "'e \<Rightarrow> ('s, 'e, 'a) comp" where
  "sfail e s = (Inl e, s)"

text \<open>A result computed without or from the state.\<close>

definition slift :: "'e + 'a \<Rightarrow> ('s, 'e, 'a) comp" where
  "slift r s = (r, s)"

definition sask :: "('s \<Rightarrow> 'e + 'a) \<Rightarrow> ('s, 'e, 'a) comp" where
  "sask f s = (f s, s)"

definition sget :: "('s \<Rightarrow> 'a) \<Rightarrow> ('s, 'e, 'a) comp" where
  "sget f s = (Inr (f s), s)"

definition smod :: "('s \<Rightarrow> 's) \<Rightarrow> ('s, 'e, unit) comp" where
  "smod f s = (Inr (), f s)"

definition sbind :: "('s, 'e, 'a) comp \<Rightarrow> ('a \<Rightarrow> ('s, 'e, 'b) comp) \<Rightarrow> ('s, 'e, 'b) comp" where
  "sbind m f s = (case m s of (Inl e, s') \<Rightarrow> (Inl e, s') | (Inr x, s') \<Rightarrow> f x s')"

text \<open>A computation on a component of the state.\<close>

definition szoom :: "('s \<Rightarrow> 't) \<Rightarrow> ('t \<Rightarrow> 's \<Rightarrow> 's) \<Rightarrow> ('t, 'e, 'a) comp \<Rightarrow> ('s, 'e, 'a) comp" where
  "szoom sel put m s = (case m (sel s) of (r, t) \<Rightarrow> (r, put t s))"

lemma comp_simps [simp]:
  "sret x s = (Inr x, s)" "sfail e s = (Inl e, s)" "slift r s = (r, s)"
  "sask f s = (f s, s)" "sget h s = (Inr (h s), s)" "smod g s = (Inr (), g s)"
  by (simp_all add: sret_def sfail_def slift_def sask_def sget_def smod_def)

lemma sbind_apply:
  "m s = (Inl e, s') \<Longrightarrow> sbind m f s = (Inl e, s')"
  "m s = (Inr x, s') \<Longrightarrow> sbind m f s = f x s'"
  by (simp_all add: sbind_def)

lemma sbind_simps [simp]:
  "sbind (sret x) f s = f x s" "sbind (sfail e) f s = (Inl e, s)"
  "sbind (slift (Inr x)) f s = f x s" "sbind (slift (Inl e)) f s = (Inl e, s)"
  "sbind (sget h) f s = f (h s) s" "sbind (smod g) f' s = f' () (g s)"
  by (simp_all add: sbind_def)

lemma sbind_eq_Inr: "sbind m f s = (Inr y, s'') \<longleftrightarrow> (\<exists>x s'. m s = (Inr x, s') \<and> f x s' = (Inr y, s''))"
  by (auto simp: sbind_def split: prod.splits sum.splits)

lemma sbind_eq:
  "sbind m f s = (r, s'') \<longleftrightarrow>
     (\<exists>e. m s = (Inl e, s'') \<and> r = Inl e) \<or> (\<exists>x s'. m s = (Inr x, s') \<and> f x s' = (r, s''))"
  by (auto simp: sbind_def split: prod.splits sum.splits)

lemma szoom_eq: "szoom sel put m s = (r, s') \<longleftrightarrow> (\<exists>t. m (sel s) = (r, t) \<and> s' = put t s)"
  by (auto simp: szoom_def split: prod.splits)

section \<open>Pre- and postconditions\<close>

definition triple :: "('s \<Rightarrow> bool) \<Rightarrow> ('s, 'e, 'a) comp \<Rightarrow> ('e + 'a \<Rightarrow> 's \<Rightarrow> bool) \<Rightarrow> bool" where
  "triple P m Q \<longleftrightarrow> (\<forall>s r s'. P s \<longrightarrow> m s = (r, s') \<longrightarrow> Q r s')"

text \<open>A condition every run keeps, whatever its result.\<close>

abbreviation keeps :: "('s \<Rightarrow> bool) \<Rightarrow> ('s, 'e, 'a) comp \<Rightarrow> bool" where
  "keeps P m \<equiv> triple P m (\<lambda>_. P)"

lemma tripleI: "(\<And>s r s'. P s \<Longrightarrow> m s = (r, s') \<Longrightarrow> Q r s') \<Longrightarrow> triple P m Q"
  by (simp add: triple_def)

lemma tripleD: "triple P m Q \<Longrightarrow> P s \<Longrightarrow> m s = (r, s') \<Longrightarrow> Q r s'"
  by (simp add: triple_def)

lemma keeps_snd: "keeps P m \<Longrightarrow> P s \<Longrightarrow> P (snd (m s))"
  using tripleD [of P m "\<lambda>_. P" s "fst (m s)" "snd (m s)"] by simp

lemma triple_bind:
  assumes "triple P m (\<lambda>r s. case r of Inl e \<Rightarrow> Q (Inl e) s | Inr x \<Rightarrow> R x s)"
    and "\<And>x. triple (R x) (f x) Q"
  shows "triple P (sbind m f) Q"
  using assms by (fastforce simp: triple_def sbind_eq)

lemma keeps_bind [triple_rules]:
  assumes "keeps P m" "\<And>x. keeps P (f x)"
  shows "keeps P (sbind m f)"
proof (rule tripleI)
  fix s r s''
  assume s: "P s" and run: "sbind m f s = (r, s'')"
  show "P s''"
  proof (cases "m s")
    case (Pair r' s')
    then have "P s'" using tripleD [OF assms(1) s] by blast
    then show ?thesis using run Pair tripleD [OF assms(2)] by (cases r') (auto simp: sbind_def)
  qed
qed

lemma keeps_simple [triple_rules]:
  "keeps P (sret x)" "keeps P (sfail e)" "keeps P (slift r)" "keeps P (sask g)" "keeps P (sget h)"
  by (simp_all add: triple_def)

lemma keeps_smod [triple_rules]: "(\<And>s. P s \<Longrightarrow> P (g s)) \<Longrightarrow> keeps P (smod g)"
  by (simp add: triple_def)

lemma keeps_if [triple_rules]: "(b \<Longrightarrow> keeps P m) \<Longrightarrow> (\<not> b \<Longrightarrow> keeps P n) \<Longrightarrow> keeps P (if b then m else n)"
  by simp

lemma keeps_option [triple_rules]:
  "keeps P m \<Longrightarrow> (\<And>x. keeps P (f x)) \<Longrightarrow> keeps P (case v of None \<Rightarrow> m | Some x \<Rightarrow> f x)"
  by (cases v) simp_all

lemma keeps_sum [triple_rules]:
  "(\<And>x. keeps P (f x)) \<Longrightarrow> (\<And>x. keeps P (g x)) \<Longrightarrow> keeps P (case v of Inl x \<Rightarrow> f x | Inr x \<Rightarrow> g x)"
  by (cases v) simp_all

lemma keeps_prod [triple_rules]: "(\<And>x y. keeps P (f x y)) \<Longrightarrow> keeps P (case v of (x, y) \<Rightarrow> f x y)"
  by (cases v) simp

lemma keeps_zoom [triple_rules]:
  "(\<And>s t. P s \<Longrightarrow> P (put t s)) \<Longrightarrow> keeps P (szoom sel put m)"
  by (auto simp: triple_def szoom_eq)

end
