(* ===== verification/Open_Files.thy ===== *)
theory Open_Files
  imports Effects Meta_Base Slices
begin

text \<open>
  The cache of open files (\<^verbatim>\<open>meta/src/open_files.rs\<close>): attribute, reference count, time of
  the last check and slices per chunk of every inode that was opened. An entry stays when its
  count falls to zero. Clock readings are arguments; a clock behind the last check panics
  (\<^verbatim>\<open>elapsed().unwrap()\<close>). The reference count, one per live handle, stays far below its
  64 bits.
\<close>

section \<open>State\<close>

record open_file =
  of_attr :: inode_attr
  of_reference_count :: nat
  of_last_check :: systime
  of_chunks :: "nat \<Rightarrow> slice list option"

record open_files =
  ofs_ttl :: duration
  ofs_files :: "ino \<Rightarrow> open_file option"

definition open_files_new :: "duration \<Rightarrow> open_files" where
  "open_files_new ttl = \<lparr> ofs_ttl = ttl, ofs_files = (\<lambda>_. None) \<rparr>"

section \<open>One open file\<close>

definition refresh_access :: "systime \<Rightarrow> inode_attr \<Rightarrow> open_file \<Rightarrow> inode_attr \<times> open_file" where
  "refresh_access now a f =
     (let (a', f') =
        (if a_mtime a \<noteq> a_mtime (of_attr f) then (a, f\<lparr>of_chunks := (\<lambda>_. None)\<rparr>)
         else (a\<lparr>a_keep_cache := a_keep_cache (of_attr f)\<rparr>, f))
      in (a', f'\<lparr>of_attr := a', of_last_check := now\<rparr>))"

definition of_refresh_slices :: "nat \<Rightarrow> slice list \<Rightarrow> open_file \<Rightarrow> open_file" where
  "of_refresh_slices c ss f = f\<lparr>of_chunks := (of_chunks f)(c \<mapsto> ss), of_last_check := UNIX_EPOCH\<rparr>"

definition of_invalid_slices :: "nat \<Rightarrow> open_file \<Rightarrow> open_file" where
  "of_invalid_slices c f = f\<lparr>of_chunks := (of_chunks f)(c := None)\<rparr>"

definition of_invalid_all_chunk :: "open_file \<Rightarrow> open_file" where
  "of_invalid_all_chunk f = f\<lparr>of_chunks := (\<lambda>_. None)\<rparr>"

definition of_invalid_attr :: "open_file \<Rightarrow> open_file" where
  "of_invalid_attr f =
     f\<lparr>of_attr := (of_attr f)\<lparr>a_keep_cache := False\<rparr>, of_last_check := UNIX_EPOCH\<rparr>"

definition of_decrease_ref :: "open_file \<Rightarrow> open_file" where
  "of_decrease_ref f = f\<lparr>of_reference_count := of_reference_count f - 1\<rparr>"

definition of_is_opened :: "open_file \<Rightarrow> bool" where
  "of_is_opened f = (of_reference_count f > 0)"

section \<open>The table\<close>

definition ofs_update :: "ino \<Rightarrow> (open_file \<Rightarrow> open_file) \<Rightarrow> open_files \<Rightarrow> open_files" where
  "ofs_update i g fs = fs\<lparr>ofs_files := (ofs_files fs)(i := map_option g (ofs_files fs i))\<rparr>"

definition ofs_load :: "ino \<Rightarrow> open_files \<Rightarrow> open_file option" where
  "ofs_load i fs = ofs_files fs i"

text \<open>\<^verbatim>\<open>OpenFiles::open\<close>: the attribute it hands back and the new table.\<close>

definition ofs_open :: "systime \<Rightarrow> ino \<Rightarrow> inode_attr \<Rightarrow> open_files \<Rightarrow> inode_attr \<times> open_files" where
  "ofs_open now i a fs =
     (case ofs_files fs i of
        None \<Rightarrow>
          (let a' = a\<lparr>a_keep_cache := True\<rparr>
           in (a', fs\<lparr>ofs_files := (ofs_files fs)(i \<mapsto>
                 \<lparr> of_attr = a', of_reference_count = 1, of_last_check = now,
                   of_chunks = (\<lambda>_. None) \<rparr>)\<rparr>))
      | Some f \<Rightarrow>
          (if a_mtime (of_attr f) = a_mtime a
           then a\<lparr>a_keep_cache := a_keep_cache (of_attr f)\<rparr> else a,
           ofs_update i (\<lambda>f. f\<lparr>of_attr := (of_attr f)\<lparr>a_keep_cache := True\<rparr>,
             of_reference_count := of_reference_count f + 1, of_last_check := now\<rparr>) fs))"

definition of_fresh :: "systime \<Rightarrow> duration \<Rightarrow> open_file \<Rightarrow> bool mresult" where
  "of_fresh now ttl f =
     rbind (ok_or (duration_since now (of_last_check f)) Panicked) (\<lambda>d. Inr (d < ttl))"

definition ofs_load_attr :: "systime \<Rightarrow> ino \<Rightarrow> bool \<Rightarrow> (open_files, meta_error, inode_attr option) comp" where
  "ofs_load_attr now i add_ref fs =
     (case ofs_files fs i of
        None \<Rightarrow> (Inr None, fs)
      | Some f \<Rightarrow>
          (case of_fresh now (ofs_ttl fs) f of
             Inl e \<Rightarrow> (Inl e, fs)
           | Inr False \<Rightarrow> (Inr None, fs)
           | Inr True \<Rightarrow>
               (Inr (Some (of_attr f)),
                if add_ref
                then ofs_update i (\<lambda>f. f\<lparr>of_reference_count := of_reference_count f + 1\<rparr>) fs else fs)))"

definition ofs_load_slices :: "systime \<Rightarrow> ino \<Rightarrow> nat \<Rightarrow> open_files \<Rightarrow> slice list option mresult" where
  "ofs_load_slices now i c fs =
     (case ofs_files fs i of
        None \<Rightarrow> Inr None
      | Some f \<Rightarrow>
          rbind (of_fresh now (ofs_ttl fs) f) (\<lambda>fresh. Inr (if fresh then of_chunks f c else None)))"

definition ofs_refresh_attr :: "systime \<Rightarrow> ino \<Rightarrow> inode_attr \<Rightarrow> open_files \<Rightarrow> inode_attr \<times> open_files" where
  "ofs_refresh_attr now i a fs =
     (case ofs_files fs i of
        None \<Rightarrow> (a, fs)
      | Some f \<Rightarrow> (fst (refresh_access now a f), ofs_update i (\<lambda>f. snd (refresh_access now a f)) fs))"

definition ofs_refresh_slices :: "ino \<Rightarrow> nat \<Rightarrow> slice list \<Rightarrow> open_files \<Rightarrow> open_files" where
  "ofs_refresh_slices i c ss fs = ofs_update i (of_refresh_slices c ss) fs"

datatype invalid_req = OneChunk nat | All | OnlyAttr

primrec of_invalid :: "invalid_req \<Rightarrow> open_file \<Rightarrow> open_file" where
  "of_invalid (OneChunk idx) f = of_invalid_slices idx f"
| "of_invalid All f = of_invalid_attr (of_invalid_all_chunk f)"
| "of_invalid OnlyAttr f = of_invalid_attr f"

definition ofs_invalid :: "ino \<Rightarrow> invalid_req \<Rightarrow> open_files \<Rightarrow> open_files" where
  "ofs_invalid i req fs = ofs_update i (of_invalid req) fs"

text \<open>\<^verbatim>\<open>OpenFiles::close\<close>: whether nobody holds the file any more.\<close>

definition ofs_close :: "ino \<Rightarrow> open_files \<Rightarrow> bool \<times> open_files" where
  "ofs_close i fs =
     (case ofs_files fs i of
        None \<Rightarrow> (True, fs)
      | Some f \<Rightarrow> (of_reference_count (of_decrease_ref f) = 0, ofs_update i of_decrease_ref fs))"

definition ofs_is_opened :: "open_files \<Rightarrow> ino \<Rightarrow> bool" where
  "ofs_is_opened fs i = (case ofs_load i fs of None \<Rightarrow> False | Some f \<Rightarrow> of_is_opened f)"

section \<open>Reference counts\<close>

text \<open>
  What the rest of the engine relies on: opening counts up, closing counts down and stops at
  zero, and nothing else changes a count.
\<close>

definition ref_of :: "open_files \<Rightarrow> ino \<Rightarrow> nat" where
  "ref_of fs i = (case ofs_files fs i of None \<Rightarrow> 0 | Some f \<Rightarrow> of_reference_count f)"

locale ref_counting =
  fixes count :: "'s \<Rightarrow> ino \<Rightarrow> nat" and acquire :: "ino \<Rightarrow> 's \<Rightarrow> 's" and release :: "ino \<Rightarrow> 's \<Rightarrow> 's"
  assumes count_acquire: "count (acquire i s) = (count s)(i := count s i + 1)"
    and count_release: "count (release i s) = (count s)(i := count s i - 1)"
begin

text \<open>A trace of opens (\<open>True\<close>) and closes; \<open>held\<close> is the balance a caller expects.\<close>

definition run :: "(bool \<times> ino) list \<Rightarrow> 's \<Rightarrow> 's" where
  "run es s = fold (\<lambda>(o', i). if o' then acquire i else release i) es s"

lemma run_count:
  assumes "\<And>n i. length (filter ((=) (False, i)) (take n es)) \<le> count s i + length (filter ((=) (True, i)) (take n es))"
  shows "count (run es s) i + length (filter ((=) (False, i)) es) = count s i + length (filter ((=) (True, i)) es)"
  using assms
proof (induction es arbitrary: s)
  case (Cons e es)
  obtain o' j where e: "e = (o', j)" by fastforce
  let ?s = "if o' then acquire j s else release j s"
  have c: "count ?s i + (if e = (False, i) then 1 else 0) = count s i + (if e = (True, i) then 1 else 0)" for i
    using Cons.prems [of i "Suc 0"] by (auto simp: e count_acquire count_release)
  have "length (filter ((=) (False, i)) (take n es)) \<le> count ?s i + length (filter ((=) (True, i)) (take n es))" for n i
    using Cons.prems [of i "Suc n"] c [of i] by (auto simp: e split: if_splits)
  from Cons.IH [OF this] have "count (run es ?s) i + length (filter ((=) (False, i)) es) =
      count ?s i + length (filter ((=) (True, i)) es)" .
  then show ?case using c [of i] by (auto simp: run_def e split: if_splits)
qed (simp add: run_def)

end

text \<open>The table counts this way.\<close>

lemma ref_of_update: "ref_of (ofs_update i g fs) = (ref_of fs)(i := (case ofs_files fs i of None \<Rightarrow> 0 | Some f \<Rightarrow> of_reference_count (g f)))"
  by (auto simp: ref_of_def ofs_update_def fun_eq_iff split: option.split)

lemma ref_of_open: "ref_of (snd (ofs_open now i a fs)) = (ref_of fs)(i := ref_of fs i + 1)"
  by (auto simp: ofs_open_def ref_of_update Let_def fun_eq_iff split: option.split)
    (auto simp: ref_of_def)

lemma ref_of_close: "ref_of (snd (ofs_close i fs)) = (ref_of fs)(i := ref_of fs i - 1)"
  "fst (ofs_close i fs) \<longleftrightarrow> ref_of fs i \<le> 1"
  by (auto simp: ofs_close_def ref_of_update of_decrease_ref_def fun_eq_iff split: option.split)
    (auto simp: ref_of_def)

lemma ref_of_update_same:
  "(\<And>f. of_reference_count (g f) = of_reference_count f) \<Longrightarrow> ref_of (ofs_update i g fs) = ref_of fs"
  by (auto simp: ref_of_update fun_eq_iff) (auto simp: ref_of_def split: option.split)

lemma ref_of_keep:
  "ref_of (snd (ofs_refresh_attr now i a fs)) = ref_of fs"
  "ref_of (ofs_refresh_slices i c ss fs) = ref_of fs"
  "ref_of (ofs_invalid i req fs) = ref_of fs"
proof -
  have "of_reference_count (of_invalid req f) = of_reference_count f" for f
    by (cases req) (simp_all add: of_invalid_slices_def of_invalid_attr_def of_invalid_all_chunk_def)
  then show "ref_of (ofs_invalid i req fs) = ref_of fs"
    by (simp add: ofs_invalid_def ref_of_update_same)
  have "of_reference_count (snd (refresh_access now a f)) = of_reference_count f" for f
    by (simp add: refresh_access_def)
  then show "ref_of (snd (ofs_refresh_attr now i a fs)) = ref_of fs"
    by (auto simp: ofs_refresh_attr_def ref_of_update_same split: option.split)
  show "ref_of (ofs_refresh_slices i c ss fs) = ref_of fs"
    by (simp add: ofs_refresh_slices_def of_refresh_slices_def ref_of_update_same)
qed

lemma ofs_is_opened_ref: "ofs_is_opened fs i \<longleftrightarrow> 0 < ref_of fs i"
  by (simp add: ofs_is_opened_def ofs_load_def ref_of_def of_is_opened_def split: option.split)

interpretation ofc: ref_counting ref_of "\<lambda>i fs. snd (ofs_open now i a fs)" "\<lambda>i fs. snd (ofs_close i fs)"
  for now a
  by unfold_locales (rule ref_of_open ref_of_close)+

end
