(* ===== verification/Engine.thy ===== *)
theory Engine
  imports Id_Table Open_Files
begin

text \<open>
  The metadata engine (\<^verbatim>\<open>meta/src/engine.rs\<close>): the operations the file system calls, over the
  backend, the open-file cache and the identifier tables. An operation is a computation on the
  engine's state; \<open>clk\<close> yields the clock readings of one operation in source order. The task
  that deletes the chunks of an unlinked file is queued in \<open>me_pending_deletes\<close> and run by
  \<open>run_delete_task\<close>. Metrics are not modelled.
\<close>

section \<open>State\<close>

record meta_config =
  mc_dsn :: string
  mc_read_only :: bool
  mc_open_cache :: duration
  mc_open_cache_limit :: nat
  mc_skip_dir_mtime :: duration

definition meta_config_default :: "string \<Rightarrow> meta_config" where
  "meta_config_default dsn =
     \<lparr> mc_dsn = dsn, mc_read_only = False, mc_open_cache = 0, mc_open_cache_limit = 10000,
       mc_skip_dir_mtime = 100000000 \<rparr>"

record 'db meta_engine =
  me_config :: meta_config
  me_format :: format
  me_root :: ino
  me_session_id :: nat
  me_open_files :: open_files
  me_symlinks :: "ino \<Rightarrow> bytes option"
  me_removed_files :: "ino set"
  me_pending_deletes :: "ino list"
  me_dir_parents :: "ino \<Rightarrow> ino option"
  me_used_size :: nat
  me_file_count :: nat
  me_free_inodes :: id_table
  me_free_slices :: id_table
  me_backend :: 'db

type_synonym ('db, 'a) eng = "('db meta_engine, meta_error, 'a) comp"

type_synonym clock = "nat \<Rightarrow> systime"

definition engine_open :: "'db kv \<Rightarrow> codec \<Rightarrow> meta_config \<Rightarrow> 'db \<Rightarrow> 'db meta_engine mresult" where
  "engine_open kv cd config db =
     rbind (load_format kv cd db) (\<lambda>fmt.
     Inr \<lparr> me_config = config, me_format = fmt, me_root = ROOT_INO, me_session_id = 0,
           me_open_files = open_files_new (mc_open_cache config), me_symlinks = (\<lambda>_. None),
           me_removed_files = {}, me_pending_deletes = [], me_dir_parents = (\<lambda>_. None),
           me_used_size = 0, me_file_count = 0, me_free_inodes = id_table_new,
           me_free_slices = id_table_new, me_backend = db \<rparr>)"

text \<open>\<^verbatim>\<open>update_format\<close>: the format of an existing volume, or a new volume with its root.\<close>

definition root_attr :: "systime \<Rightarrow> inode_attr" where
  "root_attr now =
     (attr_default now)\<lparr>a_kind := Directory, a_nlink := 2, a_length := 4096, a_parent := ROOT_INO,
                        a_mode := 0x1ff\<rparr>"

definition update_format ::
  "'db kv \<Rightarrow> codec \<Rightarrow> format \<Rightarrow> bool \<Rightarrow> systime \<Rightarrow> ('db, meta_error, unit) comp" where
  "update_format kv cd fmt force now db =
     (case load_format kv cd db of
        Inr stored \<Rightarrow>
          (if \<not> force then (Inl AlreadyInitialized, db)
           else (case layout_mismatch stored fmt of
                   Some mm \<Rightarrow> (Inl (IncompatibleFormat (flm_field mm) (flm_stored mm) (flm_requested mm)), db)
                 | None \<Rightarrow> set_format kv cd (merge_mutable_from stored fmt) db))
      | Inl e \<Rightarrow>
          (if e \<noteq> UninitializedEngine then (Inl e, db)
           else initialize_volume kv cd fmt (root_attr now) db))"

section \<open>Parts of the state\<close>

definition backend :: "('db, meta_error, 'a) comp \<Rightarrow> ('db, 'a) eng" where
  "backend m = szoom me_backend (\<lambda>db s. s\<lparr>me_backend := db\<rparr>) m"

definition backend_read :: "('db \<Rightarrow> 'a mresult) \<Rightarrow> ('db, 'a) eng" where
  "backend_read f = sask (\<lambda>s. f (me_backend s))"

definition open_files_op :: "(open_files, meta_error, 'a) comp \<Rightarrow> ('db, 'a) eng" where
  "open_files_op m = szoom me_open_files (\<lambda>fs s. s\<lparr>me_open_files := fs\<rparr>) m"

definition open_files_mod :: "(open_files \<Rightarrow> 'a \<times> open_files) \<Rightarrow> ('db, 'a) eng" where
  "open_files_mod f = open_files_op (\<lambda>fs. (Inr (fst (f fs)), snd (f fs)))"

definition open_files_set :: "(open_files \<Rightarrow> open_files) \<Rightarrow> ('db, unit) eng" where
  "open_files_set f = smod (\<lambda>s. s\<lparr>me_open_files := f (me_open_files s)\<rparr>)"

definition add_dir2parent_mapping :: "ino \<Rightarrow> ino \<Rightarrow> ('db, unit) eng" where
  "add_dir2parent_mapping i parent =
     smod (\<lambda>s. if me_dir_parents s i = None
              then s\<lparr>me_dir_parents := (me_dir_parents s)(i \<mapsto> parent)\<rparr> else s)"

definition del_dir2parents_mapping :: "ino \<Rightarrow> ('db, unit) eng" where
  "del_dir2parents_mapping i = smod (\<lambda>s. s\<lparr>me_dir_parents := (me_dir_parents s)(i := None)\<rparr>)"

text \<open>Atomic counters wrap.\<close>

definition stat_add :: "nat \<Rightarrow> nat \<Rightarrow> ('db, unit) eng" where
  "stat_add files bytes =
     smod (\<lambda>s. s\<lparr>me_file_count := wrap64 (me_file_count s + files),
                me_used_size := wrap64 (me_used_size s + bytes)\<rparr>)"

definition stat_sub :: "nat \<Rightarrow> nat \<Rightarrow> ('db, unit) eng" where
  "stat_sub files bytes =
     smod (\<lambda>s. s\<lparr>me_file_count := wrap64 (me_file_count s + 2 ^ 64 - files mod 2 ^ 64),
                me_used_size := wrap64 (me_used_size s + 2 ^ 64 - bytes mod 2 ^ 64)\<rparr>)"

definition next_inode :: "'db kv \<Rightarrow> codec \<Rightarrow> ('db, nat) eng" where
  "next_inode kv cd s =
     (case id_next kv cd NextInode (me_free_inodes s) (me_backend s) of
        (r, t, db) \<Rightarrow> (r, s\<lparr>me_free_inodes := t, me_backend := db\<rparr>))"

definition next_slice_id :: "'db kv \<Rightarrow> codec \<Rightarrow> ('db, nat) eng" where
  "next_slice_id kv cd s =
     (case id_next kv cd NextSlice (me_free_slices s) (me_backend s) of
        (r, t, db) \<Rightarrow> (r, s\<lparr>me_free_slices := t, me_backend := db\<rparr>))"

definition stat_fs :: "('db, fs_stat) eng" where
  "stat_fs = sget (\<lambda>s. \<lparr> fss_total_size = (case f_max_capacity (me_format s) of None \<Rightarrow> u64_max | Some n \<Rightarrow> n),
     fss_used_size = me_used_size s, fss_file_count = me_file_count s \<rparr>)"

definition check_root :: "'db meta_engine \<Rightarrow> ino \<Rightarrow> ino" where
  "check_root s i = (if ino_is_zero i then ROOT_INO else if i = ROOT_INO then me_root s else i)"

section \<open>Lookup and attributes\<close>

definition e_get_attr :: "'db kv \<Rightarrow> codec \<Rightarrow> clock \<Rightarrow> ino \<Rightarrow> ('db, inode_attr) eng" where
  "e_get_attr kv cd clk i0 =
     sbind (sget (\<lambda>s. (check_root s i0, mc_open_cache (me_config s)))) (\<lambda>(i, ttl).
     sbind (if ttl \<noteq> 0 then open_files_op (ofs_load_attr (clk 0) i False) else sret None) (\<lambda>cached.
     case cached of
       Some a \<Rightarrow> sret a
     | None \<Rightarrow>
         sbind (backend_read (get_attr kv cd i)) (\<lambda>a.
         sbind (open_files_mod (ofs_refresh_attr (clk 1) i a)) (\<lambda>a.
         sbind (if a_kind a = Directory \<and> \<not> ino_is_root i
                then add_dir2parent_mapping i (a_parent a) else sret ()) (\<lambda>_.
         sret a)))))"

definition do_lookup :: "'db kv \<Rightarrow> codec \<Rightarrow> ino \<Rightarrow> string \<Rightarrow> ('db, ino \<times> inode_attr) eng" where
  "do_lookup kv cd parent nm =
     sbind (backend_read (get_dentry kv cd parent nm)) (\<lambda>e.
     sbind (backend_read (get_attr kv cd (de_inode e))) (\<lambda>a.
     sret (de_inode e, a)))"

definition e_lookup ::
  "'db kv \<Rightarrow> codec \<Rightarrow> clock \<Rightarrow> clock \<Rightarrow> clock \<Rightarrow> fuse_context \<Rightarrow> ino \<Rightarrow> string \<Rightarrow> bool \<Rightarrow>
   ('db, ino \<times> inode_attr) eng" where
  "e_lookup kv cd clk clk' clk'' ctx parent0 nm check_perm =
     sbind (sget (\<lambda>s. (check_root s parent0, me_root s))) (\<lambda>(parent, root).
     sbind (if check_perm
            then sbind (e_get_attr kv cd clk parent) (\<lambda>pa. slift (check_access ctx pa MODE_MASK_X))
            else sret ()) (\<lambda>_.
     if nm = DOT_DOT \<and> parent \<noteq> root then
       sbind (e_get_attr kv cd clk' parent) (\<lambda>pa.
       sbind (slift (ensure (a_kind pa = Directory) (LibcError ENOTDIR))) (\<lambda>_.
       sbind (e_get_attr kv cd clk'' (a_parent pa)) (\<lambda>a.
       sret (a_parent pa, a))))
     else if nm = DOT_DOT \<or> nm = DOT then
       sbind (e_get_attr kv cd clk' parent) (\<lambda>a. sret (parent, a))
     else
       sbind (do_lookup kv cd parent nm) (\<lambda>(i, a).
       sbind (if a_kind a = Directory then add_dir2parent_mapping i parent else sret ()) (\<lambda>_.
       sret (i, a)))))"

text \<open>The loop of \<^verbatim>\<open>do_read_dir\<close>; a full entry carries the inode of the directory.\<close>

primrec read_dir_loop ::
  "'db kv \<Rightarrow> codec \<Rightarrow> ino \<Rightarrow> bool \<Rightarrow> dentry list \<Rightarrow> entry list \<Rightarrow> 'db \<Rightarrow> entry list mresult" where
  "read_dir_loop kv cd inode full [] acc db = Inr acc"
| "read_dir_loop kv cd inode full (de # des) acc db =
     (if full then
        rbind (get_attr kv cd (de_inode de) db) (\<lambda>a.
        read_dir_loop kv cd inode full des
          (acc @ [Full \<lparr> fe_inode = inode, fe_name = de_name de, fe_attr = a \<rparr>]) db)
      else read_dir_loop kv cd inode full des (acc @ [DEntry de]) db)"

definition do_read_dir :: "'db kv \<Rightarrow> codec \<Rightarrow> ino \<Rightarrow> bool \<Rightarrow> int \<Rightarrow> 'db \<Rightarrow> entry list mresult" where
  "do_read_dir kv cd inode full limit db =
     rbind (list_dentry kv cd inode limit db) (\<lambda>des. read_dir_loop kv cd inode full des [] db)"

definition e_read_dir ::
  "'db kv \<Rightarrow> codec \<Rightarrow> clock \<Rightarrow> fuse_context \<Rightarrow> ino \<Rightarrow> bool \<Rightarrow> ('db, entry list) eng" where
  "e_read_dir kv cd clk ctx inode0 full =
     sbind (sget (\<lambda>s. check_root s inode0)) (\<lambda>inode.
     sbind (e_get_attr kv cd clk inode) (\<lambda>a.
     sbind (slift (check_access ctx a (if full then MODE_MASK_R OR MODE_MASK_X else MODE_MASK_X))) (\<lambda>_.
     backend_read (do_read_dir kv cd inode full (-1)))))"

section \<open>Creating and removing nodes\<close>

text \<open>The attribute \<^verbatim>\<open>mknod\<close> builds for the new inode.\<close>

definition new_node_attr ::
  "fuse_context \<Rightarrow> ino \<Rightarrow> file_type \<Rightarrow> u32 \<Rightarrow> u32 \<Rightarrow> u32 \<Rightarrow> string \<Rightarrow> systime \<Rightarrow> inode_attr" where
  "new_node_attr ctx parent typ mode umask rdev path now =
     (let a = (attr_default now)\<lparr>a_mode := mode AND NOT umask, a_kind := typ, a_gid := cx_gid ctx,
                                 a_uid := cx_uid ctx, a_parent := parent\<rparr>
      in if typ = Directory then a\<lparr>a_nlink := 2, a_length := 4096\<rparr>
         else if typ = Symlink then a\<lparr>a_nlink := 1, a_length := length path\<rparr>
         else a\<lparr>a_nlink := 1, a_length := 0, a_rdev := rdev\<rparr>)"

definition e_mknod ::
  "'db kv \<Rightarrow> codec \<Rightarrow> clock \<Rightarrow> fuse_context \<Rightarrow> ino \<Rightarrow> string \<Rightarrow> file_type \<Rightarrow> u32 \<Rightarrow> u32 \<Rightarrow> u32 \<Rightarrow> string \<Rightarrow>
   ('db, ino \<times> inode_attr) eng" where
  "e_mknod kv cd clk ctx parent0 nm typ mode umask rdev path =
     sbind (sget (\<lambda>s. (mc_read_only (me_config s), check_root s parent0))) (\<lambda>(read_only, parent).
     sbind (slift (ensure (\<not> read_only) (LibcError EROFS))) (\<lambda>_.
     sbind (slift (ensure (nm \<noteq> '''') (LibcError ENOENT))) (\<lambda>_.
     sbind (next_inode kv cd) (\<lambda>new_inode.
     sbind (backend (do_mknod kv cd ctx new_inode
              (new_node_attr ctx parent typ mode umask rdev path (clk 0)) parent nm typ path
              (clk 1) (clk 2))) (\<lambda>r.
     sbind (stat_add 1 4096) (\<lambda>_.
     sret r))))))"

definition e_mkdir ::
  "'db kv \<Rightarrow> codec \<Rightarrow> clock \<Rightarrow> fuse_context \<Rightarrow> ino \<Rightarrow> string \<Rightarrow> u32 \<Rightarrow> u32 \<Rightarrow> ('db, ino \<times> inode_attr) eng" where
  "e_mkdir kv cd clk ctx parent nm mode umask =
     sbind (e_mknod kv cd clk ctx parent nm Directory mode umask 0 '''') (\<lambda>(i, a).
     sbind (add_dir2parent_mapping i parent) (\<lambda>_.
     sret (i, a)))"

definition e_rmdir :: "'db kv \<Rightarrow> codec \<Rightarrow> clock \<Rightarrow> fuse_context \<Rightarrow> ino \<Rightarrow> string \<Rightarrow> ('db, unit) eng" where
  "e_rmdir kv cd clk ctx parent0 nm =
     sbind (sget (\<lambda>s. (check_root s parent0, mc_skip_dir_mtime (me_config s)))) (\<lambda>(parent, skip).
     sbind (backend (do_rmdir kv cd ctx parent nm skip (clk 0))) (\<lambda>(dentry, _).
     sbind (stat_sub 1 4096) (\<lambda>_.
     del_dir2parents_mapping (de_inode dentry))))"

text \<open>An existing entry is opened instead.\<close>

definition e_create ::
  "'db kv \<Rightarrow> codec \<Rightarrow> clock \<Rightarrow> fuse_context \<Rightarrow> ino \<Rightarrow> string \<Rightarrow> u32 \<Rightarrow> u32 \<Rightarrow> u32 \<Rightarrow>
   ('db, ino \<times> inode_attr) eng" where
  "e_create kv cd clk ctx parent nm mode umask flags s =
     (case e_mknod kv cd clk ctx parent nm RegularFile mode umask 0 '''' s of
        (r, s1) \<Rightarrow>
          sbind (case r of
                   Inr x \<Rightarrow> sret x
                 | Inl e \<Rightarrow> if e = LibcError EEXIST then do_lookup kv cd parent nm else sfail e) (\<lambda>(i, a).
          sbind (open_files_mod (ofs_open (clk 3) i a)) (\<lambda>a.
          sret (i, a))) s1)"

definition e_symlink ::
  "'db kv \<Rightarrow> codec \<Rightarrow> clock \<Rightarrow> fuse_context \<Rightarrow> ino \<Rightarrow> string \<Rightarrow> string \<Rightarrow> ('db, ino \<times> inode_attr) eng" where
  "e_symlink kv cd clk ctx parent link_name target =
     e_mknod kv cd clk ctx parent link_name Symlink 0x1ff 0 0 target"

definition e_readlink :: "'db kv \<Rightarrow> ino \<Rightarrow> ('db, bytes) eng" where
  "e_readlink kv i =
     sbind (sget (\<lambda>s. me_symlinks s i)) (\<lambda>cached.
     case cached of
       Some target \<Rightarrow> sret target
     | None \<Rightarrow>
         sbind (backend_read (do_readlink kv i)) (\<lambda>t.
         sbind (smod (\<lambda>s. s\<lparr>me_symlinks := (me_symlinks s)(i \<mapsto> t)\<rparr>)) (\<lambda>_.
         sret t)))"

definition e_link ::
  "'db kv \<Rightarrow> codec \<Rightarrow> clock \<Rightarrow> fuse_context \<Rightarrow> ino \<Rightarrow> ino \<Rightarrow> string \<Rightarrow> ('db, inode_attr) eng" where
  "e_link kv cd clk ctx i new_parent new_name =
     sbind (e_get_attr kv cd clk i) (\<lambda>cur.
     sbind (slift (ensure (\<not> attr_is_dir cur) (LibcError EPERM))) (\<lambda>_.
     sbind (sget (\<lambda>s. mc_skip_dir_mtime (me_config s))) (\<lambda>skip.
     sbind (backend (do_link kv cd ctx skip i new_parent new_name (clk 2))) (\<lambda>a.
     sbind (open_files_set (ofs_invalid i OnlyAttr)) (\<lambda>_.
     sret a)))))"

text \<open>\<^verbatim>\<open>delete_file\<close>: an open file waits for its close, another is queued for deletion.\<close>

definition delete_file :: "bool \<Rightarrow> ino \<Rightarrow> ('db, unit) eng" where
  "delete_file opened i =
     smod (\<lambda>s. if opened then s\<lparr>me_removed_files := insert i (me_removed_files s)\<rparr>
              else s\<lparr>me_pending_deletes := me_pending_deletes s @ [i]\<rparr>)"

definition run_delete_task :: "'db kv \<Rightarrow> ('db, unit) eng" where
  "run_delete_task kv s =
     (case me_pending_deletes s of
        [] \<Rightarrow> (Inr (), s)
      | i # is \<Rightarrow> (Inr (), s\<lparr>me_pending_deletes := is, me_backend := do_delete_chunks kv i (me_backend s)\<rparr>))"

definition e_unlink :: "'db kv \<Rightarrow> codec \<Rightarrow> clock \<Rightarrow> fuse_context \<Rightarrow> ino \<Rightarrow> string \<Rightarrow> ('db, unit) eng" where
  "e_unlink kv cd clk ctx parent nm =
     sbind (sget (\<lambda>s. (mc_skip_dir_mtime (me_config s), ofs_is_opened (me_open_files s), me_session_id s)))
       (\<lambda>(skip, is_opened, session).
     sbind (backend (do_unlink kv cd ctx skip is_opened parent nm session (clk 0) (clk 1))) (\<lambda>r.
     sbind (stat_sub (ur_freed_inode r) (ur_freed_space r)) (\<lambda>_.
     sbind (open_files_set (ofs_invalid (ur_inode r) OnlyAttr)) (\<lambda>_.
     if ur_removed r \<noteq> None then delete_file (ur_is_opened r) (ur_inode r) else sret ()))))"

definition validate_rename_flags :: "u32 \<Rightarrow> u32 mresult" where
  "validate_rename_flags flags =
     rbind (ensure (flags AND NOT 7 = 0) (LibcError EINVAL)) (\<lambda>_.
     rbind (ensure (\<not> (flags_contains flags RENAME_NOREPLACE \<and> flags_contains flags RENAME_EXCHANGE))
              (LibcError EINVAL)) (\<lambda>_.
     rbind (ensure (\<not> flags_contains flags RENAME_WHITEOUT) (LibcError ENOTSUP)) (\<lambda>_.
     Inr flags)))"

definition e_rename ::
  "'db kv \<Rightarrow> codec \<Rightarrow> clock \<Rightarrow> fuse_context \<Rightarrow> ino \<Rightarrow> string \<Rightarrow> ino \<Rightarrow> string \<Rightarrow> u32 \<Rightarrow> ('db, unit) eng" where
  "e_rename kv cd clk ctx old_parent old_name new_parent new_name flags =
     sbind (slift (validate_rename_flags flags)) (\<lambda>rename_flags.
     sbind (sget (\<lambda>s. (mc_skip_dir_mtime (me_config s), ofs_is_opened (me_open_files s), me_session_id s)))
       (\<lambda>(skip, is_opened, session).
     sbind (backend (do_rename kv cd ctx skip is_opened session old_parent old_name new_parent
              new_name rename_flags (clk 0) (clk 1) (clk 2))) (\<lambda>r.
     case rr_need_delete r of
       Some (i, opened) \<Rightarrow> delete_file opened i
     | None \<Rightarrow> sret ())))"

section \<open>Changing attributes\<close>

text \<open>
  \<^verbatim>\<open>merge_attr\<close> in the order of the source: each stage may change the attribute to be stored,
  the caller's attribute (a mutable reference) and the flag that something changed.
\<close>

record merge_state =
  ms_dirty :: inode_attr
  ms_new :: inode_attr
  ms_changed :: bool

definition merge_suid :: "fuse_context \<Rightarrow> u32 \<Rightarrow> inode_attr \<Rightarrow> merge_state \<Rightarrow> merge_state" where
  "merge_suid ctx flags cur st =
     (let dirty = (if flags_contains flags SAF_MODE \<and> flags_contains flags (SAF_UID OR SAF_GID)
                   then (ms_dirty st)\<lparr>a_mode := a_mode (ms_dirty st) OR (a_mode cur AND 0xc00)\<rparr>
                   else ms_dirty st)
      in if a_mode cur AND 0xc00 \<noteq> 0 \<and> flags_contains flags (SAF_UID OR SAF_GID)
         then (if \<not> attr_is_dir dirty then
                 (let mask = (if cx_uid ctx \<noteq> 0 \<or> drop_bit 3 (a_mode dirty) AND 1 \<noteq> 0 then 0x3ff else 0x7ff)
                  in st\<lparr>ms_dirty := dirty\<lparr>a_mode := a_mode dirty AND mask\<rparr>,
                       ms_new := (ms_new st)\<lparr>a_mode := a_mode (ms_new st) AND mask\<rparr>, ms_changed := True\<rparr>)
               else st\<lparr>ms_dirty := dirty, ms_changed := True\<rparr>)
         else st\<lparr>ms_dirty := dirty\<rparr>)"

definition merge_gid :: "fuse_context \<Rightarrow> u32 \<Rightarrow> inode_attr \<Rightarrow> merge_state \<Rightarrow> merge_state mresult" where
  "merge_gid ctx flags cur st =
     (if flags_contains flags SAF_GID then
        rbind (ensure (cx_uid ctx = 0 \<or> cx_uid ctx = a_uid cur) (LibcError EPERM)) (\<lambda>_.
        if a_gid cur \<noteq> a_gid (ms_new st) then
          rbind (ensure (\<not> (cx_check_permission ctx \<and> a_uid cur \<noteq> 0 \<and> \<not> contains_gid ctx (a_gid (ms_new st))))
                   (LibcError EPERM)) (\<lambda>_.
          Inr (st\<lparr>ms_dirty := (ms_dirty st)\<lparr>a_gid := a_gid (ms_new st)\<rparr>, ms_changed := True\<rparr>))
        else Inr st)
      else Inr st)"

definition merge_uid :: "fuse_context \<Rightarrow> u32 \<Rightarrow> inode_attr \<Rightarrow> merge_state \<Rightarrow> merge_state mresult" where
  "merge_uid ctx flags cur st =
     (if flags_contains flags SAF_UID \<and> a_uid cur \<noteq> a_uid (ms_new st) then
        rbind (ensure (cx_uid ctx = 0) (LibcError EPERM)) (\<lambda>_.
        Inr (st\<lparr>ms_dirty := (ms_dirty st)\<lparr>a_uid := a_uid (ms_new st)\<rparr>, ms_changed := True\<rparr>))
      else Inr st)"

definition merge_mode :: "fuse_context \<Rightarrow> u32 \<Rightarrow> inode_attr \<Rightarrow> merge_state \<Rightarrow> merge_state mresult" where
  "merge_mode ctx flags cur st =
     (if flags_contains flags SAF_MODE then
        (let new = (if cx_uid ctx \<noteq> 0 \<and> a_mode (ms_new st) AND 0x400 \<noteq> 0 \<and> cx_uid ctx \<noteq> a_gid cur
                    then (ms_new st)\<lparr>a_mode := a_mode (ms_new st) AND 0xbff\<rparr> else ms_new st)
         in if a_mode cur \<noteq> a_mode new then
              rbind (ensure (\<not> (cx_uid ctx \<noteq> 0 \<and> cx_uid ctx \<noteq> a_uid cur
                              \<and> (a_mode cur AND 0x3ff \<noteq> a_mode new AND 0x3ff
                                 \<or> a_mode new AND 0x400 > a_mode cur AND 0x400
                                 \<or> a_mode new AND 0x800 > a_mode cur AND 0x800))) (LibcError EPERM)) (\<lambda>_.
              Inr (st\<lparr>ms_dirty := (ms_dirty st)\<lparr>a_mode := a_mode new\<rparr>, ms_new := new, ms_changed := True\<rparr>))
            else Inr (st\<lparr>ms_new := new\<rparr>))
      else Inr st)"

definition merge_atime ::
  "fuse_context \<Rightarrow> u32 \<Rightarrow> inode_attr \<Rightarrow> systime \<Rightarrow> merge_state \<Rightarrow> merge_state mresult" where
  "merge_atime ctx flags cur now st =
     (if flags_contains flags SAF_ATIME_NOW then
        rbind (ensure (is_ok (check_access ctx cur MODE_MASK_W) \<or> cx_uid ctx = a_uid cur) (LibcError EPERM)) (\<lambda>_.
        Inr (st\<lparr>ms_dirty := (ms_dirty st)\<lparr>a_atime := now\<rparr>, ms_changed := True\<rparr>))
      else if flags_contains flags SAF_ATIME then
        rbind (ensure (cx_uid ctx = a_uid cur) (LibcError EACCES)) (\<lambda>_.
        rbind (ensure (is_ok (check_access ctx cur MODE_MASK_W) \<or> cx_uid ctx = a_uid cur) (LibcError EACCES)) (\<lambda>_.
        Inr (st\<lparr>ms_dirty := (ms_dirty st)\<lparr>a_atime := a_atime (ms_new st)\<rparr>, ms_changed := True\<rparr>)))
      else Inr st)"

definition merge_mtime ::
  "fuse_context \<Rightarrow> u32 \<Rightarrow> inode_attr \<Rightarrow> systime \<Rightarrow> merge_state \<Rightarrow> merge_state mresult" where
  "merge_mtime ctx flags cur now st =
     (if flags_contains flags SAF_MTIME_NOW then
        rbind (ensure (is_ok (check_access ctx cur MODE_MASK_W) \<or> cx_uid ctx = a_uid cur) (LibcError EACCES)) (\<lambda>_.
        Inr (st\<lparr>ms_dirty := (ms_dirty st)\<lparr>a_mtime := now\<rparr>, ms_changed := True\<rparr>))
      else if flags_contains flags SAF_MTIME then
        rbind (ensure (cx_uid ctx = a_uid cur) (LibcError EACCES)) (\<lambda>_.
        rbind (ensure (is_ok (check_access ctx cur MODE_MASK_W) \<or> cx_uid ctx = a_uid cur) (LibcError EACCES)) (\<lambda>_.
        Inr (st\<lparr>ms_dirty := (ms_dirty st)\<lparr>a_mtime := a_mtime (ms_new st)\<rparr>, ms_changed := True\<rparr>)))
      else Inr st)"

definition merge_flag :: "u32 \<Rightarrow> merge_state \<Rightarrow> merge_state" where
  "merge_flag flags st =
     (if flags_contains flags SAF_FLAG \<and> a_flags (ms_dirty st) \<noteq> a_flags (ms_new st)
      then st\<lparr>ms_dirty := (ms_dirty st)\<lparr>a_flags := a_flags (ms_new st)\<rparr>, ms_changed := True\<rparr> else st)"

definition merge_attr ::
  "fuse_context \<Rightarrow> u32 \<Rightarrow> inode_attr \<Rightarrow> inode_attr \<Rightarrow> systime \<Rightarrow> (inode_attr \<times> inode_attr) mresult" where
  "merge_attr ctx flags cur new now =
     rbind (merge_gid ctx flags cur
              (merge_suid ctx flags cur \<lparr> ms_dirty = cur, ms_new = new, ms_changed = False \<rparr>)) (\<lambda>st.
     rbind (merge_uid ctx flags cur st) (\<lambda>st.
     rbind (merge_mode ctx flags cur st) (\<lambda>st.
     rbind (merge_atime ctx flags cur now st) (\<lambda>st.
     rbind (merge_mtime ctx flags cur now st) (\<lambda>st.
     let st = merge_flag flags st
     in Inr (if ms_changed st then ms_dirty st else cur, ms_new st))))))"

definition check_set_attr ::
  "'db kv \<Rightarrow> codec \<Rightarrow> clock \<Rightarrow> fuse_context \<Rightarrow> ino \<Rightarrow> u32 \<Rightarrow> inode_attr \<Rightarrow> ('db, inode_attr) eng" where
  "check_set_attr kv cd clk ctx i0 flags new =
     sbind (sget (\<lambda>s. check_root s i0)) (\<lambda>i.
     sbind (e_get_attr kv cd clk i) (\<lambda>cur.
     sbind (slift (merge_attr ctx flags cur new (clk 2))) (\<lambda>(dirty, new').
     sret new')))"

definition e_set_attr ::
  "'db kv \<Rightarrow> codec \<Rightarrow> systime \<Rightarrow> fuse_context \<Rightarrow> u32 \<Rightarrow> ino \<Rightarrow> inode_attr \<Rightarrow> ('db, inode_attr) eng" where
  "e_set_attr kv cd now ctx flags i0 new =
     sbind (sget (\<lambda>s. check_root s i0)) (\<lambda>i.
     sbind (backend_read (get_attr kv cd i)) (\<lambda>cur.
     sbind (slift (merge_attr ctx flags cur new now)) (\<lambda>(dirty, new').
     sbind (backend (set_attr kv cd i (dirty\<lparr>a_ctime := now\<rparr>))) (\<lambda>_.
     sret new'))))"

section \<open>Open files and contents\<close>

definition O_WRONLY :: u32 where "O_WRONLY = 1"
definition O_RDWR :: u32 where "O_RDWR = 2"
definition O_TRUNC :: u32 where "O_TRUNC = 0x200"
definition O_APPEND :: u32 where "O_APPEND = 0x400"

definition open_mask :: "u32 \<Rightarrow> u8 mresult" where
  "open_mask flags =
     (let m = flags AND (O_WRONLY OR O_RDWR)
      in if m = 0 then Inr MODE_MASK_R
         else if m = O_WRONLY then Inr MODE_MASK_W
         else if m = O_RDWR then Inr (MODE_MASK_W OR MODE_MASK_R)
         else Inl (LibcError EINVAL))"

text \<open>\<^verbatim>\<open>Flags::from_bits\<close> of the attribute's flags, and the checks on them.\<close>

definition open_flag_check :: "u32 \<Rightarrow> inode_attr \<Rightarrow> unit mresult" where
  "open_flag_check flags a =
     rbind (ensure (a_flags a AND NOT 3 = 0) (LibcError EIO)) (\<lambda>_.
     let write = (flags AND (O_WRONLY OR O_RDWR) \<noteq> 0);
         af = ucast (a_flags a) :: u8
     in
     rbind (ensure (\<not> (flags_contains af FLAG_IMMUTABLE \<and> write)) (LibcError EPERM)) (\<lambda>_.
     rbind (ensure (\<not> (flags_contains af FLAG_APPEND \<and> write \<and> flags AND O_APPEND = 0)) (LibcError EPERM)) (\<lambda>_.
     ensure (\<not> (flags_contains af FLAG_APPEND \<and> flags AND O_TRUNC \<noteq> 0)) (LibcError EPERM))))"

definition open_inode ::
  "'db kv \<Rightarrow> codec \<Rightarrow> clock \<Rightarrow> fuse_context \<Rightarrow> ino \<Rightarrow> u32 \<Rightarrow> ('db, inode_attr) eng" where
  "open_inode kv cd clk ctx i flags =
     sbind (sget me_config) (\<lambda>cfg.
     sbind (slift (ensure (\<not> (mc_read_only cfg
              \<and> flags AND (O_WRONLY OR O_RDWR OR O_TRUNC OR O_APPEND) \<noteq> 0)) (LibcError EROFS))) (\<lambda>_.
     sbind (if mc_open_cache cfg \<noteq> 0 then open_files_op (ofs_load_attr (clk 0) i True) else sret None) (\<lambda>cached.
     case cached of
       Some a \<Rightarrow> sret a
     | None \<Rightarrow>
         sbind (backend_read (get_attr kv cd i)) (\<lambda>a.
         sbind (slift (open_mask flags)) (\<lambda>mask.
         sbind (slift (check_access ctx a mask)) (\<lambda>_.
         sbind (slift (open_flag_check flags a)) (\<lambda>_.
         open_files_mod (ofs_open (clk 1) i a)))))))) "

primrec is_owned :: "slice \<Rightarrow> bool" where
  "is_owned (Owned _ _ _ _) = True"
| "is_owned (Borrowed _ _ _ _ _) = False"

definition write_slice ::
  "'db kv \<Rightarrow> codec \<Rightarrow> clock \<Rightarrow> ino \<Rightarrow> nat \<Rightarrow> nat \<Rightarrow> slice \<Rightarrow> ('db, unit) eng" where
  "write_slice kv cd clk i chunk_idx chunk_pos s =
     sbind (slift (ensure (is_owned s) Panicked)) (\<lambda>_.
     sbind (slift (ensure (get_chunk_pos s = chunk_pos) (LibcError EINVAL))) (\<lambda>_.
     sbind (backend (commit_slice kv cd i chunk_idx s (clk 0) (clk 1))) (\<lambda>commit.
     sbind (if sc_grew_by commit > 0 then stat_add 0 (sc_grew_by commit) else sret ()) (\<lambda>_.
     open_files_set (ofs_invalid i (OneChunk chunk_idx))))))"

definition read_slice ::
  "'db kv \<Rightarrow> codec \<Rightarrow> clock \<Rightarrow> ino \<Rightarrow> nat \<Rightarrow> ('db, slice list option) eng" where
  "read_slice kv cd clk i chunk_index =
     sbind (sask (\<lambda>s. ofs_load_slices (clk 0) i chunk_index (me_open_files s))) (\<lambda>cached.
     case cached of
       Some ss \<Rightarrow> sret (Some ss)
     | None \<Rightarrow>
         sbind (backend_read (get_chunk_slices kv cd i chunk_index)) (\<lambda>ss.
         sbind (open_files_set (ofs_refresh_slices i chunk_index ss)) (\<lambda>_.
         sret (Some ss))))"

definition validate_fallocate_mode :: "u8 \<Rightarrow> unit mresult" where
  "validate_fallocate_mode mode =
     rbind (ensure (mode AND NOT 0x3f = 0) (LibcError EINVAL)) (\<lambda>_.
     rbind (ensure (\<not> (flags_contains mode 0x08 \<and> mode \<noteq> 0x08)) (LibcError EINVAL)) (\<lambda>_.
     rbind (ensure (\<not> (flags_contains mode 0x20 \<and> mode \<noteq> 0x20)) (LibcError EINVAL)) (\<lambda>_.
     rbind (ensure (\<not> (flags_contains mode 0x02 \<and> \<not> flags_contains mode 0x01)) (LibcError EINVAL)) (\<lambda>_.
     Inl (LibcError ENOTSUP)))))"

definition e_fallocate :: "ino \<Rightarrow> nat \<Rightarrow> nat \<Rightarrow> u8 \<Rightarrow> ('db, unit) eng" where
  "e_fallocate i offset len mode = slift (validate_fallocate_mode mode)"

definition e_close :: "ino \<Rightarrow> ('db, unit) eng" where
  "e_close i =
     sbind (open_files_mod (ofs_close i)) (\<lambda>last.
     if last then smod (\<lambda>s. s\<lparr>me_removed_files := me_removed_files s - {i}\<rparr>) else sret ())"

text \<open>An open file whose cached length already is the new one is left alone.\<close>

definition e_truncate ::
  "'db kv \<Rightarrow> codec \<Rightarrow> clock \<Rightarrow> fuse_context \<Rightarrow> ino \<Rightarrow> nat \<Rightarrow> bool \<Rightarrow> ('db, inode_attr) eng" where
  "e_truncate kv cd clk ctx i len skip_perm_check =
     sbind (sget (\<lambda>s. ofs_load i (me_open_files s))) (\<lambda>cached.
     if (case cached of None \<Rightarrow> False | Some f \<Rightarrow> a_length (of_attr f) = len)
     then sret (of_attr (the cached))
     else
       sbind (backend (do_truncate kv cd ctx i len skip_perm_check (clk 0) (clk 1))) (\<lambda>a.
       sbind (open_files_set (ofs_invalid i All)) (\<lambda>_.
       sret a)))"

text \<open>Locks are accepted and not enforced.\<close>

definition set_lk :: "fuse_context \<Rightarrow> ino \<Rightarrow> nat \<Rightarrow> bool \<Rightarrow> int \<Rightarrow> nat \<Rightarrow> nat \<Rightarrow> ('db, unit) eng" where
  "set_lk ctx i owner block ltype start end' = sret ()"

definition flock :: "fuse_context \<Rightarrow> ino \<Rightarrow> nat \<Rightarrow> int \<Rightarrow> ('db, unit) eng" where
  "flock ctx i owner ltype = sret ()"

end
