(* ===== verification/Engine_Invariant.thy ===== *)
theory Engine_Invariant
  imports Engine
begin

text \<open>
  The invariant of the metadata engine: its database satisfies the namespace invariant, and the
  identifiers the engine may still hand out are not in use. Every operation keeps it, so it
  holds in every reachable state.
\<close>

section \<open>The counters\<close>

text \<open>The backend's batches leave the counters alone.\<close>

definition v_cnt :: "content \<Rightarrow> counter \<Rightarrow> bytes option" where
  "v_cnt m c = m (render (KCounter c))"

lemma v_cnt_upd [view_simps]:
  "v_cnt (m(render k := x)) = (case k of KCounter c \<Rightarrow> (v_cnt m)(c := x) | _ \<Rightarrow> v_cnt m)"
  by (auto simp: v_cnt_def render_inject_sess fun_eq_iff split: db_key.splits)

lemma delete_prefix_cnt:
  assumes "p = key_xattr_prefix i \<or> p = key_parent_prefix i"
  shows "v_cnt (apply_batch (delete_prefix_in_txn_write_batch scan p b) m) = v_cnt (apply_batch b m)"
proof -
  let ?kvs = "takeWhile (\<lambda>(k, v). prefix p k) (scan p)"
  have keep: "render k \<notin> fst ` set ?kvs" if "\<nexists>nm. k = KXattr i nm" "\<nexists>q. k = KParent i q" for k
    using assms that xattr_prefix_scan [of i k] parent_prefix_scan [of i k]
    by (auto dest!: set_takeWhileD)
  show ?thesis
    using keep by (simp add: fun_eq_iff v_cnt_def delete_prefix_in_txn_write_batch_def apply_deletes)
qed

lemmas delete_prefix_cnt_simps =
  delete_prefix_cnt [OF disjI1, OF refl] delete_prefix_cnt [OF disjI2, OF refl]

lemma mknod_plan_cnt:
  "mknod_plan cd rd ctx new attr parent nm typ path now1 now2 = Inr (b, x) \<Longrightarrow>
   v_cnt (apply_batch b m) = v_cnt m"
  by (cases "typ = Directory"; cases "typ = Symlink")
    (auto simp: mknod_plan_def plan_simps v_cnt_upd)

lemma rmdir_plan_cnt:
  "rmdir_plan cd rd scan ctx parent nm skip now = Inr (b, x) \<Longrightarrow> v_cnt (apply_batch b m) = v_cnt m"
  by (auto simp: rmdir_plan_def plan_simps v_cnt_upd split: if_split_asm split del: if_split)

lemma link_plan_cnt:
  "link_plan cd rd ctx skip inode p nm now = Inr (b, a') \<Longrightarrow> v_cnt (apply_batch b m) = v_cnt m"
  by (auto simp: link_plan_def plan_simps v_cnt_upd case_prod_beta split: if_split_asm split del: if_split)

lemma drop_inode_cnt:
  "drop_inode cd scan sid f i a opened now b = Inr (b', x) \<Longrightarrow>
   v_cnt (apply_batch b' m) = v_cnt (apply_batch b m)"
  by (auto simp: drop_inode_def plan_simps v_cnt_upd delete_prefix_cnt_simps
      split: if_split_asm split del: if_split)

lemma keep_inode_cnt:
  "keep_inode cd rd i p a b = Inr b' \<Longrightarrow> v_cnt (apply_batch b' m) = v_cnt (apply_batch b m)"
  by (auto simp: keep_inode_def plan_simps v_cnt_upd split: if_split_asm)

lemma unlink_plan_cnt:
  assumes "unlink_plan cd rd scan ctx skip is_opened p nm sid now now2 = Inr (b, r)"
  shows "v_cnt (apply_batch b m) = v_cnt m"
proof -
  from unlink_plan_parts [OF assms] obtain e pa a opened b1 fi fs where
    "do_get_dentry cd rd p nm = Inr e"
    "unlink_target cd rd ctx is_opened pa (de_inode e) now = Inr (a, opened)"
    and b1: "(if fst (update_modification_time_if now skip pa)
              then set_attr_in_write_batch cd p (snd (update_modification_time_if now skip pa)) []
              else Inr []) = Inr b1"
    and b: "(if a_nlink a > 0 then
              rbind (keep_inode cd rd (de_inode e) p a (b1 @ [BDelete (key_dentry p nm)])) (\<lambda>b. Inr (b, 0, 0))
            else drop_inode cd scan sid (\<lambda>n. n) (de_inode e) a opened now2
                   (b1 @ [BDelete (key_dentry p nm)])) = Inr (b, fi, fs)"
    by blast
  have "v_cnt (apply_batch b m) = v_cnt (apply_batch (b1 @ [BDelete (key_dentry p nm)]) m)"
    using b drop_inode_cnt keep_inode_cnt by (auto simp: rbind_eq_Inr split: if_split_asm)
  moreover have "v_cnt (apply_batch (b1 @ [BDelete (key_dentry p nm)]) m) = v_cnt m"
    using b1 by (auto simp: plan_simps v_cnt_upd split: if_split_asm)
  ultimately show ?thesis by simp
qed

lemma rename_batch_dst_cnt:
  assumes "rename_batch_dst cd rd scan sid op on np flags now2 st = Inr (b, r)"
  shows "v_cnt (apply_batch b m) = v_cnt m"
proof (cases "flags = RENAME_EXCHANGE")
  case True
  then show ?thesis using assms
    by (auto simp: rename_batch_dst_def plan_simps v_cnt_upd split: if_split_asm)
next
  case False
  show ?thesis
    using assms False drop_inode_cnt keep_inode_cnt
    by (fastforce simp: rename_batch_dst_def rbind_eq_Inr Let_def key_render v_cnt_upd
        split: option.splits if_split_asm prod.splits)
qed

lemma rename_plan_cnt:
  assumes "rename_plan cd rd scan skip sid op on np nn flags now now2 st = Inr (b, r)"
  shows "v_cnt (apply_batch b m) = v_cnt m"
proof -
  obtain uo opa un npa sa where attrs: "rename_attrs skip op np now st = ((uo, opa), (un, npa), sa)"
    by (metis prod.exhaust)
  from rename_plan_parts [OF assms attrs] obtain b0 b1 b2 b3 b4 where
    b0: "rename_batch_dst cd rd scan sid op on np flags now2 st = Inr (b0, r)"
    and b1: "(if op \<noteq> np \<and> uo then set_attr_in_write_batch cd op opa b0 else Inr b0) = Inr b1"
    and b2: "rename_src_links cd rd op np (de_inode (rn_old_entry st)) sa b1 = Inr b2"
    and b3: "set_attr_in_write_batch cd (de_inode (rn_old_entry st)) sa b2 = Inr b3"
    and b4: "set_dentry_in_write_batch cd np nn (de_inode (rn_old_entry st)) (a_kind sa) b3 = Inr b4"
    and b: "(if un then set_attr_in_write_batch cd np npa b4 else Inr b4) = Inr b"
    by blast
  have "v_cnt (apply_batch b1 m) = v_cnt (apply_batch b0 m)"
    using b1 by (auto simp: plan_simps v_cnt_upd split: if_split_asm)
  moreover have "v_cnt (apply_batch b2 m) = v_cnt (apply_batch b1 m)"
    using b2 by (auto simp: rename_src_links_def plan_simps v_cnt_upd split: if_split_asm)
  moreover have "v_cnt (apply_batch b m) = v_cnt (apply_batch b2 m)"
    using b3 b4 b by (auto simp: plan_simps v_cnt_upd split: if_split_asm)
  ultimately show ?thesis using rename_batch_dst_cnt [OF b0] by simp
qed

section \<open>Inodes in use\<close>

text \<open>Apart from \<^verbatim>\<open>mknod\<close> no operation creates an inode, and none moves the counters.\<close>

definition no_new :: "codec \<Rightarrow> content \<Rightarrow> content \<Rightarrow> bool" where
  "no_new cd m m' \<longleftrightarrow> dom (v_attr cd m') \<subseteq> dom (v_attr cd m) \<and> v_cnt m' = v_cnt m"

lemma no_new_refl [simp]: "no_new cd m m"
  by (simp add: no_new_def)

lemma dom_upd_attr: "dom (upd_attr u i a A) \<subseteq> insert i (dom A)"
  by (auto simp: upd_attr_def)

context meta_db
begin

lemma no_new_write:
  assumes "write_then_commit kv plan db = (r, db')"
    and "\<And>b x. plan = Inr (b, x) \<Longrightarrow> no_new cd (content db) (apply_batch b (content db))"
  shows "no_new cd (content db) (content db')"
  using write_then_commit_content [OF assms(1)] assms(2) by auto

lemma no_new_commit:
  assumes "commit_txn kv staged db = (r, db')"
    and "\<And>b x. staged = Inr (b, x) \<Longrightarrow> no_new cd (content db) (apply_batch b (content db))"
  shows "no_new cd (content db) (content db')"
  using commit_txn_content [OF assms(1)] assms(2) by auto

lemma do_get_attr_dom: "do_get_attr cd (kv_get kv db) i = Inr a \<Longrightarrow> i \<in> dom (v_attr cd (content db))"
  using do_get_attr_view by blast

lemma do_rmdir_no_new: "do_rmdir kv cd ctx parent nm skip now db = (r, db') \<Longrightarrow> no_new cd (content db) (content db')"
  unfolding do_rmdir_def
proof (erule no_new_write)
  fix b and x :: "dentry \<times> inode_attr"
  assume plan: "rmdir_plan cd (kv_get kv db) (kv_scan kv db) ctx parent nm skip now = Inr (b, x)"
  obtain e ca where x: "x = (e, ca)" by fastforce
  have "parent \<in> dom (v_attr cd (content db))"
    using rmdir_plan_views [OF plan [unfolded x]] do_get_attr_dom by blast
  then show "no_new cd (content db) (apply_batch b (content db))"
    using rmdir_plan_views [OF plan [unfolded x], of "content db"] rmdir_plan_cnt [OF plan]
    by (auto simp: no_new_def split: if_splits)
qed

lemma do_link_no_new:
  "do_link kv cd ctx skip inode p nm now db = (r, db') \<Longrightarrow> no_new cd (content db) (content db')"
  unfolding do_link_def
proof (erule no_new_write)
  fix b a'
  assume plan: "link_plan cd (kv_get kv db) ctx skip inode p nm now = Inr (b, a')"
  have "p \<in> dom (v_attr cd (content db))" "inode \<in> dom (v_attr cd (content db))"
    using link_plan_views [OF plan] do_get_attr_dom by blast+
  moreover from link_plan_views [OF plan, of "content db"] obtain pa where
    "v_attr cd (apply_batch b (content db)) = (if fst (update_modification_time_if now skip pa)
       then (v_attr cd (content db))(p \<mapsto> snd (update_modification_time_if now skip pa), inode \<mapsto> a')
       else (v_attr cd (content db))(inode \<mapsto> a'))"
    by blast
  ultimately show "no_new cd (content db) (apply_batch b (content db))"
    using link_plan_cnt [OF plan] by (auto simp: no_new_def split: if_splits)
qed

lemma unlink_target_dom:
  assumes "unlink_target cd (kv_get kv db) ctx is_opened pa i now = Inr (a, opened)"
    and "0 < a_nlink a \<or> a_kind a = RegularFile \<and> opened"
  shows "i \<in> dom (v_attr cd (content db))"
  using assms do_get_attr_dom
  by (auto simp: unlink_target_def attr_empty_def split: sum.splits)

lemma do_unlink_no_new:
  "do_unlink kv cd ctx skip is_opened p nm sid now now2 db = (r, db') \<Longrightarrow> no_new cd (content db) (content db')"
  unfolding do_unlink_def
proof (erule no_new_write)
  fix b x
  assume plan: "unlink_plan cd (kv_get kv db) (kv_scan kv db) ctx skip is_opened p nm sid now now2
    = Inr (b, x)"
  let ?A = "v_attr cd (content db)"
  from unlink_plan_views [OF plan, of "content db"] obtain e pa a opened where
    "do_get_dentry cd (kv_get kv db) p nm = Inr e" and p: "do_get_attr cd (kv_get kv db) p = Inr pa"
    and tgt: "unlink_target cd (kv_get kv db) ctx is_opened pa (de_inode e) now = Inr (a, opened)"
    and A: "v_attr cd (apply_batch b (content db)) =
        (if fst (update_modification_time_if now skip pa)
         then ?A(p \<mapsto> snd (update_modification_time_if now skip pa)) else ?A)
          (de_inode e := if 0 < a_nlink a \<or> a_kind a = RegularFile \<and> opened then Some a else None)"
    by blast
  have "dom (v_attr cd (apply_batch b (content db))) \<subseteq> dom ?A"
    using do_get_attr_dom [OF p] unlink_target_dom [OF tgt] unfolding A
    by (cases "0 < a_nlink a \<or> a_kind a = RegularFile \<and> opened") (auto split: if_splits)
  then show "no_new cd (content db) (apply_batch b (content db))"
    using unlink_plan_cnt [OF plan] by (simp add: no_new_def)
qed

lemma rename_batch_dst_dom:
  assumes chk: "rename_check cd (kv_get kv db) (kv_scan kv db) ctx is_opened op on np nn flags now0 e = Inr st"
    and b0: "rename_batch_dst cd (kv_get kv db) (kv_scan kv db) sid op on np flags now2 st = Inr (b0, r)"
  shows "dom (v_attr cd (apply_batch b0 (content db))) \<subseteq> dom (v_attr cd (content db))"
proof (cases "rn_dst st")
  case (Some x)
  obtain dst da where x: "x = (dst, da)" by fastforce
  have "de_inode dst \<in> dom (v_attr cd (content db))"
    using rename_check_state [OF chk] Some x do_get_attr_dom by (auto split: sum.splits)
  then show ?thesis
    using rename_batch_dst_views(2) [OF b0, of "content db"] Some x by auto
qed (use rename_batch_dst_views(2) [OF b0, of "content db"] in simp)

lemma rename_plan_no_new:
  assumes chk: "rename_check cd (kv_get kv db) (kv_scan kv db) ctx is_opened op on np nn flags now0 e = Inr st"
    and plan: "rename_plan cd (kv_get kv db) (kv_scan kv db) skip sid op on np nn flags now now2 st = Inr (b, r)"
  shows "no_new cd (content db) (apply_batch b (content db))"
proof -
  let ?A = "v_attr cd (content db)"
  obtain uo opa un npa sa where attrs: "rename_attrs skip op np now st = ((uo, opa), (un, npa), sa)"
    by (metis prod.exhaust)
  from rename_plan_views [OF plan attrs, of "content db"] obtain b0 where
    b0: "rename_batch_dst cd (kv_get kv db) (kv_scan kv db) sid op on np flags now2 st = Inr (b0, r)"
    and A: "v_attr cd (apply_batch b (content db)) = upd_attr un np npa
        ((upd_attr (op \<noteq> np \<and> uo) op opa (v_attr cd (apply_batch b0 (content db))))
          (de_inode (rn_old_entry st) \<mapsto> sa))"
    by blast
  have "{op, np, de_inode (rn_old_entry st)} \<subseteq> dom ?A"
    using rename_check_state [OF chk] do_get_attr_dom by auto
  then have "dom (v_attr cd (apply_batch b (content db))) \<subseteq> dom ?A"
    using rename_batch_dst_dom [OF chk b0] unfolding A by (auto simp: upd_attr_def split: if_splits)
  then show ?thesis using rename_plan_cnt [OF plan] by (simp add: no_new_def)
qed

lemma do_rename_no_new:
  assumes run: "do_rename kv cd ctx skip is_opened sid op on np nn flags now0 now now2 db = (r, db')"
  shows "no_new cd (content db) (content db')"
proof (cases "do_get_dentry cd (kv_get kv db) op on")
  case (Inr e)
  show ?thesis
  proof (cases "op = np \<and> on = nn")
    case False
    have "write_then_commit kv
        (rbind (rename_check cd (kv_get kv db) (kv_scan kv db) ctx is_opened op on np nn flags now0 e) (\<lambda>st.
         rename_plan cd (kv_get kv db) (kv_scan kv db) skip sid op on np nn flags now now2 st)) db = (r, db')"
      using run False Inr by (auto simp: do_rename_def)
    then show ?thesis
      by (rule no_new_write) (auto simp: rbind_eq_Inr intro: rename_plan_no_new)
  qed (use run Inr in \<open>auto simp: do_rename_def\<close>)
qed (use run in \<open>auto simp: do_rename_def\<close>)

end

lemma chunk_puts_cnt: "chunk_puts st \<Longrightarrow> v_cnt (m ++ map_of st) = v_cnt m"
proof (induction st)
  case (Cons x st)
  then obtain i c v where x: "x = (key_chunk_slices i c, v)" and st: "chunk_puts st"
    by (cases x) (auto simp: chunk_puts_def)
  show ?case
    unfolding x map_add_staged using Cons.IH [OF st] by (simp only: key_render view_simps) simp
qed simp

context meta_db
begin

lemma no_new_staged:
  assumes st: "chunk_puts st" and i: "i \<in> dom (v_attr cd m)"
    and put: "txn_put_attr cd i a st = Inr st'"
  shows "no_new cd m (apply_batch (staged_batch st') m)"
proof -
  obtain buf where buf: "enc_attr cd a = Some buf" "st' = (key_attr i, buf) # st"
    using put by (auto simp: txn_put_attr_def rbind_eq_Inr)
  show ?thesis
    using chunk_puts_views [OF st, of cd m] chunk_puts_cnt [OF st, of m] i attr_dec [OF buf(1)]
    by (auto simp: no_new_def apply_staged buf key_render view_simps simp del: map_of.simps)
qed

lemma commit_slice_no_new:
  assumes "commit_slice kv cd i c s now1 now2 db = (r, db')"
  shows "no_new cd (content db) (content db')"
proof (rule no_new_commit [OF assms [unfolded commit_slice_def]])
  fix b x
  assume "rbind (stage_slice_commit cd (kv_get kv db) i c s now1 now2) (\<lambda>(st, r). Inr (staged_batch st, r))
    = Inr (b, x)"
  then obtain st' where plan: "stage_slice_commit cd (kv_get kv db) i c s now1 now2 = Inr (st', x)"
    and b: "b = staged_batch st'"
    by (auto simp: rbind_eq_Inr)
  obtain a y st where a: "do_get_attr cd (txn_get (kv_get kv db) []) i = Inr a"
    and st: "stage_chunk_slice cd (kv_get kv db) i c s [] = Inr (y, st)"
    and alt: "st' = st \<or> txn_put_attr cd i (update_modification_time now1 now2 (grown a c s)) st = Inr st'"
    using stage_slice_commit_Inr [OF plan] by blast
  have p: "chunk_puts st" using stage_chunk_slice_puts [OF st] by (simp add: chunk_puts_def)
  have i: "i \<in> dom (v_attr cd (content db))"
    using a do_get_attr_dom by (simp add: txn_get_def [abs_def])
  have "no_new cd (content db) (apply_batch (staged_batch st) (content db))"
    using chunk_puts_views [OF p, of cd "content db"] chunk_puts_cnt [OF p, of "content db"]
    by (simp add: no_new_def apply_staged)
  then show "no_new cd (content db) (apply_batch b (content db))"
    using alt no_new_staged [OF p i] b by blast
qed

lemma do_truncate_no_new:
  assumes "do_truncate kv cd ctx i len skip now1 now2 db = (r, db')"
  shows "no_new cd (content db) (content db')"
proof (rule no_new_commit [OF assms [unfolded do_truncate_def]])
  fix b x
  assume "rbind (truncate_plan cd (kv_get kv db) ctx i len skip now1 now2) (\<lambda>(st, a). Inr (staged_batch st, a))
    = Inr (b, x)"
  then obtain a st st' where a: "do_get_attr cd (kv_get kv db) i = Inr a" and b: "b = staged_batch st'"
    and st: "(if len > a_length a then truncate_loop cd (kv_get kv db) i (a_length a) len [] else Inr []) = Inr st"
    and put: "txn_put_attr cd i (update_length len now1 now2 a) st = Inr st'"
    by (auto simp: truncate_plan_def rbind_eq_Inr Let_def)
  have p: "chunk_puts st"
    using st truncate_loop_puts by (fastforce simp: chunk_puts_def split: if_splits)
  show "no_new cd (content db) (apply_batch b (content db))"
    using no_new_staged [OF p do_get_attr_dom [OF a] put] by (simp add: b)
qed

text \<open>The deletion task removes chunk records and the notification.\<close>

lemma do_delete_chunks_views:
  "v_attr cd (content (do_delete_chunks kv i db)) = v_attr cd (content db)
   \<and> v_dentry cd (content (do_delete_chunks kv i db)) = v_dentry cd (content db)
   \<and> v_cnt (content (do_delete_chunks kv i db)) = v_cnt (content db)"
proof -
  let ?p = "key_chunk_slices_prefix i"
  let ?kvs = "takeWhile (\<lambda>(k, v). prefix ?p k) (kv_scan kv db ?p)"
  define b where "b = map (\<lambda>(k, v). BDelete k) ?kvs @ [BDelete (key_delete_chunk_after i)]"
  obtain r db' where run: "write_then_commit kv (Inr (b, ())) db = (r, db')" by fastforce
  have db': "do_delete_chunks kv i db = db'" using run by (simp add: do_delete_chunks_def b_def)
  have keep: "render k \<notin> fst ` set ?kvs" if "\<nexists>c. k = KChunk i c" for k
    using that chunk_prefix_scan [of i k] by (auto dest!: set_takeWhileD)
  have "v_attr cd (apply_batch b m) = v_attr cd m" "v_dentry cd (apply_batch b m) = v_dentry cd m"
    "v_cnt (apply_batch b m) = v_cnt m" for m
    using keep unfolding b_def
    by (simp_all add: key_render view_simps fun_eq_iff v_attr_def v_dentry_def v_cnt_def apply_deletes
        render_inject_sess split: prod.split)
  then show ?thesis using write_then_commit_content [OF run] by (auto simp: db')
qed

end

section \<open>Fresh identifiers\<close>

definition alloc_ok :: "codec \<Rightarrow> content \<Rightarrow> id_table \<Rightarrow> bool" where
  "alloc_ok cd m t \<longleftrightarrow>
     (\<exists>cur. counter_val cd m NextInode = Some cur \<and> 2 \<le> cur \<and> batch_of t \<subseteq> {2..<cur}
        \<and> dom (v_attr cd m) \<subseteq> {..<cur} - batch_of t)"

text \<open>The counter has not reached the end of its 64 bits.\<close>

definition ids_left :: "codec \<Rightarrow> content \<Rightarrow> bool" where
  "ids_left cd m \<longleftrightarrow> (\<forall>cur. counter_val cd m NextInode = Some cur \<longrightarrow> cur + 2048 < 2 ^ 64)"

lemma counter_val_cnt: "v_cnt m' = v_cnt m \<Longrightarrow> counter_val cd m' = counter_val cd m"
  by (auto simp: fun_eq_iff v_cnt_def counter_val_def key_render)

lemma alloc_ok_no_new: "alloc_ok cd m t \<Longrightarrow> no_new cd m m' \<Longrightarrow> alloc_ok cd m' t"
  unfolding alloc_ok_def no_new_def using counter_val_cnt by (metis subset_trans)

context meta_db
begin

lemma increase_count_by_run:
  assumes "increase_count_by kv cd c step db = (r, db')"
  shows "(\<exists>e. r = Inl e) \<and> content db' = content db
    \<or> (\<exists>cur buf. counter_val cd (content db) c = Some cur \<and> r = Inr (wrap64 (cur + step))
         \<and> enc_u64 cd (wrap64 (cur + step)) = Some buf
         \<and> content db' = (content db)(key_counter c := Some buf))"
proof (cases r)
  case (Inl e)
  then have "db' = db" using assms
    by (auto simp: increase_count_by_def commit_txn_def split: sum.splits option.splits)
  then show ?thesis using Inl by simp
next
  case (Inr n)
  obtain b where b: "content db' = apply_batch b (content db)"
    and plan: "(rbind (ok_or (kv_get kv db (key_counter c)) RocksdbError) (\<lambda>v.
        rbind (case v of None \<Rightarrow> Inr 0
               | Some buf \<Rightarrow> ok_or (dec_u64 cd buf) (ModelError (Corruption KCounterModel))) (\<lambda>current.
        let new = wrap64 (current + step) in
        rbind (ok_or (enc_u64 cd new) (ModelError (Corruption KCounterModel))) (\<lambda>new_buf.
          Inr ([BPut (key_counter c) new_buf], new))))) = Inr (b, n)"
    using commit_txn_Inr [OF assms [unfolded increase_count_by_def Inr]] by blast
  obtain v where v: "kv_get kv db (key_counter c) = Some v" using plan by (auto simp: rbind_eq_Inr)
  show ?thesis
    using plan v b get_content [OF v]
    by (auto simp: Inr rbind_eq_Inr Let_def counter_val_def split: option.splits)
qed

lemma id_refill_alloc:
  assumes ok: "alloc_ok cd (content db) t" and left: "ids_left cd (content db)"
    and run: "id_refill kv cd NextInode db = (Inr (n, m), db')"
  shows "2 \<le> n" "n + 1024 = m" "m + 1024 < 2 ^ 64" "counter_val cd (content db') NextInode = Some m"
    "dom (v_attr cd (content db')) \<subseteq> {..<n}"
    "v_attr cd (content db') = v_attr cd (content db)" "v_dentry cd (content db') = v_dentry cd (content db)"
proof -
  obtain cur where cur: "counter_val cd (content db) NextInode = Some cur" "2 \<le> cur"
    and dom: "dom (v_attr cd (content db)) \<subseteq> {..<cur}"
    using ok by (auto simp: alloc_ok_def)
  have bound: "cur + 2048 < 2 ^ 64" using left cur(1) by (simp add: ids_left_def)
  obtain new where inc: "increase_count_by kv cd NextInode 1024 db = (Inr new, db')"
    and nm: "n = wrap64 (new + 2 ^ 64 - 1024)" "m = new"
  proof (cases "increase_count_by kv cd NextInode 1024 db")
    case (Pair q d)
    then show ?thesis using run that [of m] by (cases q) (auto simp: id_refill_def)
  qed
  obtain buf where "new = cur + 1024" and buf: "enc_u64 cd (cur + 1024) = Some buf"
    and db': "content db' = (content db)(key_counter NextInode := Some buf)"
    using increase_count_by_run [OF inc] cur(1) bound by auto
  then show "n + 1024 = m" "2 \<le> n" "m + 1024 < 2 ^ 64"
    using nm bound cur(2) by (auto simp: wrap64_def)
  show "counter_val cd (content db') NextInode = Some m"
    using u64_dec [OF buf] bound db' nm \<open>new = cur + 1024\<close> by (simp add: counter_val_def)
  show A: "v_attr cd (content db') = v_attr cd (content db)"
    and "v_dentry cd (content db') = v_dentry cd (content db)"
    by (simp_all add: db' key_render view_simps)
  show "dom (v_attr cd (content db')) \<subseteq> {..<n}"
    using dom nm bound \<open>new = cur + 1024\<close> unfolding A by (simp add: wrap64_def)
qed

lemma id_next_alloc:
  assumes ok: "alloc_ok cd (content db) t" and left: "ids_left cd (content db)"
    and run: "id_next kv cd NextInode t db = (r, t', db')"
  shows "alloc_ok cd (content db') t' \<and> v_attr cd (content db') = v_attr cd (content db)
    \<and> v_dentry cd (content db') = v_dentry cd (content db)
    \<and> (\<forall>i. r = Inr i \<longrightarrow> v_attr cd (content db') i = None \<and> i \<notin> batch_of t'
           \<and> (\<forall>cur. counter_val cd (content db') NextInode = Some cur \<longrightarrow> i < cur))"
proof (cases "fst t \<ge> snd t")
  case True
  show ?thesis
  proof (cases "id_refill kv cd NextInode db")
    case (Pair q d)
    show ?thesis
    proof (cases q)
      case (Inl e)
      have "content d = content db"
        using Pair Inl increase_count_by_run [of NextInode 1024 db]
        by (auto simp: id_refill_def split: sum.splits prod.splits)
      then show ?thesis using run True Pair Inl ok by (auto simp: id_next_def)
    next
      case (Inr p)
      obtain n m where p: "p = (n, m)" by fastforce
      note fill = id_refill_alloc [OF ok left Pair [unfolded Inr p]]
      have "skip_reserved n (wrap64 (n + 1)) = (n, Suc n)" using skip_reserved_eq [of n] fill(1-3) by simp
      then have "r = Inr n" "t' = (Suc n, m)" "db' = d"
        using run True Pair Inr p by (auto simp: id_next_def)
      then show ?thesis using fill by (fastforce simp: alloc_ok_def batch_of_def)
    qed
  qed
next
  case False
  obtain n m where t: "t = (n, m)" and nm: "n < m" using False by (cases t) auto
  obtain cur where cur: "counter_val cd (content db) NextInode = Some cur" "2 \<le> cur"
    "batch_of t \<subseteq> {2..<cur}" "dom (v_attr cd (content db)) \<subseteq> {..<cur} - batch_of t"
    using ok by (auto simp: alloc_ok_def)
  have n: "2 \<le> n" "n < cur" using cur(3) nm by (auto simp: t batch_of_def)
  have "skip_reserved n (wrap64 (n + 1)) = (n, Suc n)"
    using skip_reserved_eq [of n] n left cur(1) by (auto simp: ids_left_def)
  then have "r = Inr n" "t' = (Suc n, m)" "db' = db" using run nm by (auto simp: id_next_def t)
  then show ?thesis using cur n nm by (auto simp: alloc_ok_def batch_of_def t)
qed

end

section \<open>The operations of the engine\<close>

definition eng_inv :: "codec \<Rightarrow> ('db \<Rightarrow> content) \<Rightarrow> 'db meta_engine \<Rightarrow> bool" where
  "eng_inv cd content s \<longleftrightarrow>
     ns_ok cd (content (me_backend s)) \<and> alloc_ok cd (content (me_backend s)) (me_free_inodes s)"

lemmas eng_part_defs =
  backend_read_def open_files_op_def open_files_mod_def open_files_set_def add_dir2parent_mapping_def
  del_dir2parents_mapping_def stat_add_def stat_sub_def delete_file_def

lemma eng_inv_parts [triple_rules]:
  "keeps (eng_inv cd content) (backend_read f)" "keeps (eng_inv cd content) (open_files_op m)"
  "keeps (eng_inv cd content) (open_files_mod g)" "keeps (eng_inv cd content) (open_files_set h)"
  "keeps (eng_inv cd content) (add_dir2parent_mapping i p)" "keeps (eng_inv cd content) (del_dir2parents_mapping i)"
  "keeps (eng_inv cd content) (stat_add j k)" "keeps (eng_inv cd content) (stat_sub j k)"
  "keeps (eng_inv cd content) (delete_file b i)"
  by (auto simp: triple_def eng_part_defs szoom_eq eng_inv_def)

lemma e_get_attr_inv [triple_rules]: "keeps (eng_inv cd content) (e_get_attr kv cd' clk i)"
  unfolding e_get_attr_def by (intro triple_rules)

lemma do_lookup_inv [triple_rules]: "keeps (eng_inv cd content) (do_lookup kv cd' parent nm)"
  unfolding do_lookup_def by (intro triple_rules)

lemma read_ops_inv:
  "keeps (eng_inv cd content) (e_lookup kv cd' clk clk' clk'' ctx parent nm perm)"
  "keeps (eng_inv cd content) (e_read_dir kv cd' clk ctx i full)"
  "keeps (eng_inv cd content) (e_readlink kv i)"
  "keeps (eng_inv cd content) (open_inode kv cd' clk ctx i flags)"
  "keeps (eng_inv cd content) (read_slice kv cd' clk i c)"
  "keeps (eng_inv cd content) (check_set_attr kv cd' clk ctx i flags new)"
  "keeps (eng_inv cd content) (e_close i)"
  unfolding e_lookup_def e_read_dir_def e_readlink_def open_inode_def read_slice_def check_set_attr_def
    e_close_def
  by (intro triple_rules; simp add: eng_inv_def)+

text \<open>A change of attributes keeps the kind, the links, the length and the parent.\<close>

definition same_shape :: "inode_attr \<Rightarrow> inode_attr \<Rightarrow> bool" where
  "same_shape a b \<longleftrightarrow> a_kind a = a_kind b \<and> a_nlink a = a_nlink b \<and> a_length a = a_length b
     \<and> a_parent a = a_parent b \<and> a_rdev a = a_rdev b"

lemma merge_stages:
  "same_shape (ms_dirty st) cur \<Longrightarrow> same_shape (ms_dirty (merge_suid ctx flags cur st)) cur"
  "merge_gid ctx flags cur st = Inr st' \<Longrightarrow> same_shape (ms_dirty st) cur \<Longrightarrow> same_shape (ms_dirty st') cur"
  "merge_uid ctx flags cur st = Inr st' \<Longrightarrow> same_shape (ms_dirty st) cur \<Longrightarrow> same_shape (ms_dirty st') cur"
  "merge_mode ctx flags cur st = Inr st' \<Longrightarrow> same_shape (ms_dirty st) cur \<Longrightarrow> same_shape (ms_dirty st') cur"
  "merge_atime ctx flags cur now st = Inr st' \<Longrightarrow> same_shape (ms_dirty st) cur \<Longrightarrow> same_shape (ms_dirty st') cur"
  "merge_mtime ctx flags cur now st = Inr st' \<Longrightarrow> same_shape (ms_dirty st) cur \<Longrightarrow> same_shape (ms_dirty st') cur"
  "same_shape (ms_dirty st) cur \<Longrightarrow> same_shape (ms_dirty (merge_flag flags st)) cur"
  by (auto simp: same_shape_def merge_suid_def merge_gid_def merge_uid_def merge_mode_def merge_atime_def
      merge_mtime_def merge_flag_def rbind_ensure Let_def split: if_splits)

lemma merge_attr_shape:
  assumes "merge_attr ctx flags cur new now = Inr (d, new')"
  shows "same_shape d cur"
proof -
  define st0 where "st0 = merge_suid ctx flags cur \<lparr> ms_dirty = cur, ms_new = new, ms_changed = False \<rparr>"
  have refl: "same_shape cur cur" by (simp add: same_shape_def)
  have st0: "same_shape (ms_dirty st0) cur" unfolding st0_def by (rule merge_stages) (simp add: refl)
  from assms obtain st1 st2 st3 st4 st5 where
    st: "merge_gid ctx flags cur st0 = Inr st1" "merge_uid ctx flags cur st1 = Inr st2"
      "merge_mode ctx flags cur st2 = Inr st3" "merge_atime ctx flags cur now st3 = Inr st4"
      "merge_mtime ctx flags cur now st4 = Inr st5"
    and d: "d = (if ms_changed (merge_flag flags st5) then ms_dirty (merge_flag flags st5) else cur)"
    by (auto simp: merge_attr_def rbind_eq_Inr Let_def st0_def)
  have "same_shape (ms_dirty (merge_flag flags st5)) cur"
    by (rule merge_stages(7), rule merge_stages(6) [OF st(5)], rule merge_stages(5) [OF st(4)],
        rule merge_stages(4) [OF st(3)], rule merge_stages(3) [OF st(2)], rule merge_stages(2) [OF st(1)],
        rule st0)
  then show ?thesis using d refl by simp
qed

text \<open>Linking needs a count that does not wrap.\<close>

definition link_room :: "codec \<Rightarrow> content \<Rightarrow> ino \<Rightarrow> bool" where
  "link_room cd m i \<longleftrightarrow> (\<forall>a. v_attr cd m i = Some a \<longrightarrow> a_nlink a + 1 \<noteq> 0)"

context meta_db
begin

text \<open>An operation of the backend that keeps the namespace and creates no inode.\<close>

lemma keeps_backend:
  assumes "\<And>db r db'. m db = (r, db') \<Longrightarrow> ns_ok cd (content db) \<Longrightarrow> ns_ok cd (content db')"
    and "\<And>db r db'. m db = (r, db') \<Longrightarrow> no_new cd (content db) (content db')"
  shows "keeps (eng_inv cd content) (backend m)"
proof (rule tripleI)
  fix s r s'
  assume inv: "eng_inv cd content s" and run: "backend m s = (r, s')"
  obtain db' where db': "m (me_backend s) = (r, db')" "s' = s\<lparr>me_backend := db'\<rparr>"
    using run by (auto simp: backend_def szoom_eq)
  show "eng_inv cd content s'"
    using inv assms [OF db'(1)] by (auto simp: eng_inv_def db'(2) intro: alloc_ok_no_new)
qed

lemma e_rmdir_inv: "keeps (eng_inv cd content) (e_rmdir kv cd clk ctx parent nm)"
  unfolding e_rmdir_def
  by (intro triple_rules keeps_backend) (blast intro: do_rmdir_ns_ok do_rmdir_no_new)+

lemma e_rename_inv: "keeps (eng_inv cd content) (e_rename kv cd clk ctx op on np nn flags)"
  unfolding e_rename_def
  by (intro triple_rules keeps_backend) (blast intro: do_rename_ns_ok do_rename_no_new)+

lemma write_slice_inv: "keeps (eng_inv cd content) (write_slice kv cd clk i c pos s)"
  unfolding write_slice_def
  by (intro triple_rules keeps_backend) (blast intro: commit_slice_ns_ok commit_slice_no_new)+

lemma e_truncate_inv: "keeps (eng_inv cd content) (e_truncate kv cd clk ctx i len skip)"
  unfolding e_truncate_def
  by (intro triple_rules keeps_backend) (blast intro: do_truncate_ns_ok do_truncate_no_new)+

lemma run_delete_task_inv: "keeps (eng_inv cd content) (run_delete_task kv)"
proof (rule tripleI)
  fix s r s'
  assume inv: "eng_inv cd content s" and run: "run_delete_task kv s = (r, s')"
  have "no_new cd (content db) (content (do_delete_chunks kv i db))"
    "ns_ok cd (content (do_delete_chunks kv i db)) = ns_ok cd (content db)" for i db
    using do_delete_chunks_views [of i db] by (simp_all add: no_new_def ns_ok_def)
  then show "eng_inv cd content s'"
    using inv run
    by (auto simp: run_delete_task_def eng_inv_def split: list.splits intro: alloc_ok_no_new)
qed

end

context meta_db
begin

lemma set_attr_keeps:
  assumes run: "set_attr kv cd i a db = (r, db')" and cur: "v_attr cd (content db) i = Some cur"
    and shape: "a_kind a = a_kind cur" "a_nlink a = a_nlink cur"
  shows "ns_ok cd (content db) \<Longrightarrow> ns_ok cd (content db')" "no_new cd (content db) (content db')"
proof -
  have alt: "content db' = content db
    \<or> (\<exists>buf. enc_attr cd a = Some buf \<and> content db' = (content db)(key_attr i := Some buf))"
    using run write_content by (fastforce simp: set_attr_def put_value_def db_put_def split: option.splits)
  then have A: "v_attr cd (content db') = v_attr cd (content db)
      \<or> v_attr cd (content db') = (v_attr cd (content db))(i \<mapsto> a)"
    and D: "v_dentry cd (content db') = v_dentry cd (content db)" "v_cnt (content db') = v_cnt (content db)"
    by (auto simp: key_render view_simps attr_dec)
  show "no_new cd (content db) (content db')" using A D cur by (auto simp: no_new_def split: if_splits)
  assume "ns_ok cd (content db)"
  then have inv: "ns_inv (v_attr cd (content db)) (v_dentry cd (content db))" by (simp add: ns_ok_def)
  then have "ns_inv ((v_attr cd (content db))(i \<mapsto> a)) (v_dentry cd (content db))"
    using ns_set_attr [OF inv cur shape(1)] ns_links [OF inv cur] shape
    by (cases "a_kind cur = Directory") (auto simp: links_ok_def)
  then show "ns_ok cd (content db')" using A D inv by (auto simp: ns_ok_def)
qed

lemma e_set_attr_inv: "keeps (eng_inv cd content) (e_set_attr kv cd now ctx flags i new)"
proof (rule tripleI)
  fix s r s'
  assume inv: "eng_inv cd content s" and run: "e_set_attr kv cd now ctx flags i new s = (r, s')"
  show "eng_inv cd content s'"
  proof (cases "s' = s")
    case False
    then obtain cur d new' q db' where cur: "get_attr kv cd (check_root s i) (me_backend s) = Inr cur"
      and m: "merge_attr ctx flags cur new now = Inr (d, new')"
      and set: "set_attr kv cd (check_root s i) (d\<lparr>a_ctime := now\<rparr>) (me_backend s) = (q, db')"
      and s': "s' = s\<lparr>me_backend := db'\<rparr>"
      using run by (auto simp: e_set_attr_def sbind_eq backend_read_def backend_def szoom_eq)
    have "v_attr cd (content (me_backend s)) (check_root s i) = Some cur"
      using cur do_get_attr_view by (simp add: get_attr_def)
    note keep = set_attr_keeps [OF set this]
    show ?thesis
      using keep inv merge_attr_shape [OF m]
      by (auto simp: eng_inv_def s' same_shape_def intro: alloc_ok_no_new)
  qed (use inv in simp)
qed

lemma next_slice_id_inv: "keeps (eng_inv cd content) (next_slice_id kv cd)"
proof (rule tripleI)
  fix s r s'
  assume inv: "eng_inv cd content s" and run: "next_slice_id kv cd s = (r, s')"
  obtain t db' where n: "id_next kv cd NextSlice (me_free_slices s) (me_backend s) = (r, t, db')"
    and s': "s' = s\<lparr>me_free_slices := t, me_backend := db'\<rparr>"
    using run by (auto simp: next_slice_id_def split: prod.splits)
  have "content db' = content (me_backend s)
    \<or> (\<exists>buf. content db' = (content (me_backend s))(key_counter NextSlice := Some buf))"
    using n increase_count_by_run [of NextSlice 4096 "me_backend s"]
    by (auto simp: id_next_def id_refill_def split: if_splits prod.splits sum.splits)
  then have "v_attr cd (content db') = v_attr cd (content (me_backend s))"
    "v_dentry cd (content db') = v_dentry cd (content (me_backend s))"
    "counter_val cd (content db') NextInode = counter_val cd (content (me_backend s)) NextInode"
    by (auto simp: key_render view_simps counter_val_def render_inject_sess)
  then show "eng_inv cd content s'" using inv by (simp add: eng_inv_def s' ns_ok_def alloc_ok_def)
qed

end

lemma new_node_attr_shape [simp]:
  "a_kind (new_node_attr ctx parent typ mode umask rdev path now) = typ"
  "typ \<noteq> Directory \<Longrightarrow> a_nlink (new_node_attr ctx parent typ mode umask rdev path now) = 1"
  by (simp_all add: new_node_attr_def Let_def)

context meta_db
begin

lemma do_mknod_new:
  assumes run: "do_mknod kv cd ctx new attr parent nm typ path now1 now2 db = (r, db')"
    and kind: "a_kind attr = typ"
  shows "dom (v_attr cd (content db')) \<subseteq> insert new (dom (v_attr cd (content db)))"
    "v_cnt (content db') = v_cnt (content db)"
proof -
  have step: "dom (v_attr cd (apply_batch b (content db))) \<subseteq> insert new (dom (v_attr cd (content db)))
      \<and> v_cnt (apply_batch b (content db)) = v_cnt (content db)"
    if plan: "mknod_plan cd (kv_get kv db) ctx new attr parent nm typ path now1 now2 = Inr (b, x)" for b x
  proof -
    obtain i a' where x: "x = (i, a')" by fastforce
    from mknod_plan_views [OF plan [unfolded x], of "content db"] obtain pa where
      "do_get_attr cd (kv_get kv db) parent = Inr pa"
      "v_attr cd (apply_batch b (content db)) =
        (if typ = Directory
         then (v_attr cd (content db))(new \<mapsto> a', parent \<mapsto>
                pa\<lparr>a_nlink := a_nlink pa + 1, a_mtime := now1, a_ctime := now1\<rparr>)
         else (v_attr cd (content db))(new \<mapsto> a'))"
      by blast
    then show ?thesis using mknod_plan_cnt [OF plan, of "content db"] do_get_attr_dom by auto
  qed
  consider "content db' = content db"
    | b x where "mknod_plan cd (kv_get kv db) ctx new attr parent nm typ path now1 now2 = Inr (b, x)"
        "content db' = apply_batch b (content db)"
    using write_then_commit_content [OF run [unfolded do_mknod_def]] by blast
  then have "dom (v_attr cd (content db')) \<subseteq> insert new (dom (v_attr cd (content db)))
      \<and> v_cnt (content db') = v_cnt (content db)"
  proof cases
    case 2
    then show ?thesis using step [OF 2(1)] by simp
  qed auto
  then show "dom (v_attr cd (content db')) \<subseteq> insert new (dom (v_attr cd (content db)))"
    "v_cnt (content db') = v_cnt (content db)"
    by blast+
qed

lemma mknod_alloc:
  assumes inv: "eng_inv cd content s" and left: "ids_left cd (content (me_backend s))"
    and nxt: "next_inode kv cd s = (Inr i, s1)"
    and mk: "do_mknod kv cd ctx i (new_node_attr ctx parent typ mode umask rdev path now) parent nm typ path
      now1 now2 (me_backend s1) = (r, db')"
  shows "eng_inv cd content (s1\<lparr>me_backend := db'\<rparr>)"
proof -
  obtain t db1 where n: "id_next kv cd NextInode (me_free_inodes s) (me_backend s) = (Inr i, t, db1)"
    and s1: "s1 = s\<lparr>me_free_inodes := t, me_backend := db1\<rparr>"
    using nxt by (auto simp: next_inode_def split: prod.splits)
  have ok: "alloc_ok cd (content (me_backend s)) (me_free_inodes s)" using inv by (simp add: eng_inv_def)
  note got = id_next_alloc [OF ok left n]
  have ns: "ns_ok cd (content db1)" using inv got by (simp add: eng_inv_def ns_ok_def)
  have "ns_ok cd (content db')"
    by (rule do_mknod_ns_ok [OF ns _ _ _ mk [unfolded s1, simplified]]) (use got in \<open>cases "typ = Directory"; simp\<close>)+
  moreover have "alloc_ok cd (content db') t"
  proof -
    obtain cur where cur: "counter_val cd (content db1) NextInode = Some cur" "2 \<le> cur"
      "batch_of t \<subseteq> {2..<cur}" "dom (v_attr cd (content db1)) \<subseteq> {..<cur} - batch_of t"
      using got unfolding alloc_ok_def by blast
    note new = do_mknod_new [OF mk [unfolded s1, simplified] new_node_attr_shape(1)]
    have "i \<in> {..<cur} - batch_of t" using got cur(1) by simp
    then have "dom (v_attr cd (content db')) \<subseteq> {..<cur} - batch_of t" using new(1) cur(4) by blast
    then show ?thesis using cur counter_val_cnt [OF new(2), of cd] by (auto simp: alloc_ok_def)
  qed
  ultimately show ?thesis by (simp add: eng_inv_def s1)
qed

lemma next_inode_inv:
  assumes "eng_inv cd content s" "ids_left cd (content (me_backend s))" "next_inode kv cd s = (r, s1)"
  shows "eng_inv cd content s1"
proof -
  obtain t db1 where n: "id_next kv cd NextInode (me_free_inodes s) (me_backend s) = (r, t, db1)"
    and s1: "s1 = s\<lparr>me_free_inodes := t, me_backend := db1\<rparr>"
    using assms(3) by (auto simp: next_inode_def split: prod.splits)
  have "alloc_ok cd (content (me_backend s)) (me_free_inodes s)" using assms(1) by (simp add: eng_inv_def)
  from id_next_alloc [OF this assms(2) n] assms(1) show ?thesis by (simp add: eng_inv_def s1 ns_ok_def)
qed

lemma e_mknod_inv:
  assumes inv: "eng_inv cd content s" and left: "ids_left cd (content (me_backend s))"
    and run: "e_mknod kv cd clk ctx parent nm typ mode umask rdev path s = (r, s')"
  shows "eng_inv cd content s'"
proof (cases "mc_read_only (me_config s) \<or> nm = ''''")
  case True
  then show ?thesis using run inv by (auto simp: e_mknod_def ensure_def split: if_splits)
next
  case False
  obtain q s1 where nxt: "next_inode kv cd s = (q, s1)" by fastforce
  show ?thesis
  proof (cases q)
    case (Inl e)
    then show ?thesis
      using run False nxt next_inode_inv [OF inv left nxt] by (auto simp: e_mknod_def sbind_apply)
  next
    case (Inr i)
    obtain q2 db2 where mk: "do_mknod kv cd ctx i (new_node_attr ctx (check_root s parent) typ mode umask rdev path (clk 0))
        (check_root s parent) nm typ path (clk 1) (clk 2) (me_backend s1) = (q2, db2)"
      by fastforce
    have "eng_inv cd content (s1\<lparr>me_backend := db2\<rparr>)" by (rule mknod_alloc [OF inv left nxt [unfolded Inr] mk])
    moreover have "s' = s1\<lparr>me_backend := db2\<rparr>
        \<or> s' = s1\<lparr>me_backend := db2, me_file_count := wrap64 (me_file_count s1 + 1),
                   me_used_size := wrap64 (me_used_size s1 + 4096)\<rparr>"
      using run False nxt Inr mk
      by (cases q2) (auto simp: e_mknod_def sbind_def backend_def szoom_def stat_add_def)
    ultimately show ?thesis by (auto simp: eng_inv_def)
  qed
qed

end

context meta_db
begin

lemma e_mkdir_inv:
  assumes "eng_inv cd content s" "ids_left cd (content (me_backend s))"
    and run: "e_mkdir kv cd clk ctx parent nm mode umask s = (r, s')"
  shows "eng_inv cd content s'"
proof (cases "e_mknod kv cd clk ctx parent nm Directory mode umask 0 '''' s")
  case (Pair q s1)
  then have "eng_inv cd content s1" using e_mknod_inv [OF assms(1,2)] by blast
  then show ?thesis
    using run Pair tripleD [OF eng_inv_parts(5)]
    by (cases q) (auto simp: e_mkdir_def sbind_def add_dir2parent_mapping_def eng_inv_def)
qed

lemma e_create_inv:
  assumes "eng_inv cd content s" "ids_left cd (content (me_backend s))"
    and run: "e_create kv cd clk ctx parent nm mode umask flags s = (r, s')"
  shows "eng_inv cd content s'"
proof (cases "e_mknod kv cd clk ctx parent nm RegularFile mode umask 0 '''' s")
  case (Pair q s1)
  then have inv: "eng_inv cd content s1" using e_mknod_inv [OF assms(1,2)] by blast
  have "keeps (eng_inv cd content) (sbind (case q of Inr x \<Rightarrow> sret x
      | Inl e \<Rightarrow> if e = LibcError EEXIST then do_lookup kv cd parent nm else sfail e) (\<lambda>(i, a).
      sbind (open_files_mod (ofs_open (clk 3) i a)) (\<lambda>a. sret (i, a))))"
    by (intro triple_rules)
  from tripleD [OF this inv] show ?thesis using run by (simp add: e_create_def Pair)
qed

text \<open>The link count and the reads an operation depends on are those of the state it starts in.\<close>

lemma e_get_attr_backend:
  assumes "e_get_attr kv cd' clk i s = (r, s')"
  shows "me_backend s' = me_backend s"
proof -
  have "keeps (\<lambda>t. me_backend t = me_backend s) (e_get_attr kv cd' clk i)"
    unfolding e_get_attr_def eng_part_defs by (intro triple_rules) auto
  from tripleD [OF this refl assms] show ?thesis .
qed

lemma e_link_inv:
  assumes inv: "eng_inv cd content s" and room: "link_room cd (content (me_backend s)) i"
    and run: "e_link kv cd clk ctx i new_parent new_name s = (r, s')"
  shows "eng_inv cd content s'"
proof (cases "e_get_attr kv cd clk i s")
  case (Pair q s1)
  have s1: "eng_inv cd content s1" "me_backend s1 = me_backend s"
    using tripleD [OF e_get_attr_inv inv Pair] e_get_attr_backend [OF Pair] by blast+
  obtain q2 db2 where lk: "do_link kv cd ctx (mc_skip_dir_mtime (me_config s1)) i new_parent new_name (clk 2)
      (me_backend s1) = (q2, db2)" by fastforce
  have "ns_ok cd (content db2)"
    using do_link_ns_ok [OF _ _ lk] s1 room by (auto simp: eng_inv_def link_room_def)
  then have inv2: "eng_inv cd content (s1\<lparr>me_backend := db2\<rparr>)"
    using do_link_no_new [OF lk] s1 by (auto simp: eng_inv_def intro: alloc_ok_no_new)
  have step: "backend (do_link kv cd ctx (mc_skip_dir_mtime (me_config s1)) i new_parent new_name (clk 2)) s1
      = (q2, s1\<lparr>me_backend := db2\<rparr>)"
    by (simp add: backend_def szoom_def lk)
  show ?thesis
  proof (cases "\<exists>cur. q = Inr cur \<and> \<not> attr_is_dir cur")
    case True
    then show ?thesis
      using run Pair step inv2
      by (cases q2) (auto simp: e_link_def sbind_apply open_files_set_def eng_inv_def)
  next
    case False
    then have "s' = s1" using run Pair by (cases q) (auto simp: e_link_def sbind_apply)
    then show ?thesis using s1 by simp
  qed
qed

lemma e_unlink_inv:
  assumes inv: "eng_inv cd content s" and reads: "\<And>k. kv_get kv (me_backend s) k \<noteq> None"
    and run: "e_unlink kv cd clk ctx parent nm s = (r, s')"
  shows "eng_inv cd content s'"
proof -
  obtain q db' where ul: "do_unlink kv cd ctx (mc_skip_dir_mtime (me_config s)) (ofs_is_opened (me_open_files s))
      parent nm (me_session_id s) (clk 0) (clk 1) (me_backend s) = (q, db')" by fastforce
  have "ns_ok cd (content db')" using do_unlink_ns_ok [OF _ reads ul] inv by (simp add: eng_inv_def)
  then have inv': "eng_inv cd content (s\<lparr>me_backend := db'\<rparr>)"
    using do_unlink_no_new [OF ul] inv by (auto simp: eng_inv_def intro: alloc_ok_no_new)
  have step: "backend (do_unlink kv cd ctx (mc_skip_dir_mtime (me_config s)) (ofs_is_opened (me_open_files s))
      parent nm (me_session_id s) (clk 0) (clk 1)) s = (q, s\<lparr>me_backend := db'\<rparr>)"
    by (simp add: backend_def szoom_def ul del: One_nat_def)
  show ?thesis
  proof (cases q)
    case (Inl e)
    then show ?thesis using run step inv' by (auto simp: e_unlink_def sbind_apply simp del: One_nat_def)
  next
    case (Inr x)
    have "keeps (eng_inv cd content) (sbind (stat_sub (ur_freed_inode x) (ur_freed_space x)) (\<lambda>_.
       sbind (open_files_set (ofs_invalid (ur_inode x) OnlyAttr)) (\<lambda>_.
       if ur_removed x \<noteq> None then delete_file (ur_is_opened x) (ur_inode x) else sret ())))"
      by (intro triple_rules)
    from tripleD [OF this inv'] show ?thesis using run step Inr
      by (simp add: e_unlink_def sbind_apply del: One_nat_def)
  qed
qed

end

end
