(* ===== verification/Engine_Reach.thy ===== *)
theory Engine_Reach
  imports Engine_Invariant
begin

text \<open>
  Every state the metadata engine can reach from a new volume, through any sequence of requests
  by any callers, of queued deletions and of remounts, satisfies the engine's invariant.
\<close>

section \<open>Requests\<close>

datatype eng_req =
  ReqLookup ino string bool
| ReqGetAttr ino
| ReqReadDir ino bool
| ReqMknod ino string file_type u32 u32 u32 string
| ReqMkdir ino string u32 u32
| ReqCreate ino string u32 u32 u32
| ReqSymlink ino string string
| ReqReadlink ino
| ReqRmdir ino string
| ReqLink ino ino string
| ReqUnlink ino string
| ReqRename ino string ino string u32
| ReqSetAttr u32 ino inode_attr
| ReqOpen ino u32
| ReqClose ino
| ReqWriteSlice ino nat nat slice
| ReqReadSlice ino nat
| ReqTruncate ino nat bool
| ReqNextSlice
| DeleteTask

text \<open>The state after a request of the caller \<open>ctx\<close>, whatever its result.\<close>

fun exec_req ::
  "'db kv \<Rightarrow> codec \<Rightarrow> (nat \<Rightarrow> clock) \<Rightarrow> fuse_context \<Rightarrow> eng_req \<Rightarrow> 'db meta_engine \<Rightarrow> 'db meta_engine" where
  "exec_req kv cd clk ctx (ReqLookup p nm perm) s = snd (e_lookup kv cd (clk 0) (clk 1) (clk 2) ctx p nm perm s)"
| "exec_req kv cd clk ctx (ReqGetAttr i) s = snd (e_get_attr kv cd (clk 0) i s)"
| "exec_req kv cd clk ctx (ReqReadDir i full) s = snd (e_read_dir kv cd (clk 0) ctx i full s)"
| "exec_req kv cd clk ctx (ReqMknod p nm typ mode umask rdev path) s =
     snd (e_mknod kv cd (clk 0) ctx p nm typ mode umask rdev path s)"
| "exec_req kv cd clk ctx (ReqMkdir p nm mode umask) s = snd (e_mkdir kv cd (clk 0) ctx p nm mode umask s)"
| "exec_req kv cd clk ctx (ReqCreate p nm mode umask flags) s =
     snd (e_create kv cd (clk 0) ctx p nm mode umask flags s)"
| "exec_req kv cd clk ctx (ReqSymlink p nm target) s = snd (e_symlink kv cd (clk 0) ctx p nm target s)"
| "exec_req kv cd clk ctx (ReqReadlink i) s = snd (e_readlink kv i s)"
| "exec_req kv cd clk ctx (ReqRmdir p nm) s = snd (e_rmdir kv cd (clk 0) ctx p nm s)"
| "exec_req kv cd clk ctx (ReqLink i p nm) s = snd (e_link kv cd (clk 0) ctx i p nm s)"
| "exec_req kv cd clk ctx (ReqUnlink p nm) s = snd (e_unlink kv cd (clk 0) ctx p nm s)"
| "exec_req kv cd clk ctx (ReqRename op on np nn flags) s = snd (e_rename kv cd (clk 0) ctx op on np nn flags s)"
| "exec_req kv cd clk ctx (ReqSetAttr flags i a) s = snd (e_set_attr kv cd (clk 0 0) ctx flags i a s)"
| "exec_req kv cd clk ctx (ReqOpen i flags) s = snd (open_inode kv cd (clk 0) ctx i flags s)"
| "exec_req kv cd clk ctx (ReqClose i) s = snd (e_close i s)"
| "exec_req kv cd clk ctx (ReqWriteSlice i c pos sl) s = snd (write_slice kv cd (clk 0) i c pos sl s)"
| "exec_req kv cd clk ctx (ReqReadSlice i c) s = snd (read_slice kv cd (clk 0) i c s)"
| "exec_req kv cd clk ctx (ReqTruncate i len skip) s = snd (e_truncate kv cd (clk 0) ctx i len skip s)"
| "exec_req kv cd clk ctx ReqNextSlice s = snd (next_slice_id kv cd s)"
| "exec_req kv cd clk ctx DeleteTask s = snd (run_delete_task kv s)"

text \<open>
  What a request relies on: inode numbers are left to allocate, a link count does not wrap, and
  the database reads of an unlink succeed.
\<close>

fun req_ok :: "'db kv \<Rightarrow> codec \<Rightarrow> ('db \<Rightarrow> content) \<Rightarrow> eng_req \<Rightarrow> 'db meta_engine \<Rightarrow> bool" where
  "req_ok kv cd content (ReqMknod p nm typ mode umask rdev path) s = ids_left cd (content (me_backend s))"
| "req_ok kv cd content (ReqMkdir p nm mode umask) s = ids_left cd (content (me_backend s))"
| "req_ok kv cd content (ReqCreate p nm mode umask flags) s = ids_left cd (content (me_backend s))"
| "req_ok kv cd content (ReqSymlink p nm target) s = ids_left cd (content (me_backend s))"
| "req_ok kv cd content (ReqLink i p nm) s = link_room cd (content (me_backend s)) i"
| "req_ok kv cd content (ReqUnlink p nm) s = (\<forall>k. kv_get kv (me_backend s) k \<noteq> None)"
| "req_ok kv cd content _ s = True"

inductive engine_reach :: "'db kv \<Rightarrow> codec \<Rightarrow> ('db \<Rightarrow> content) \<Rightarrow> 'db meta_engine \<Rightarrow> bool"
  for kv :: "'db kv" and cd :: codec and content :: "'db \<Rightarrow> content" where
  format: "content db = (\<lambda>_. None) \<Longrightarrow> update_format kv cd fmt force now db = (Inr (), db1) \<Longrightarrow>
     engine_open kv cd cfg db1 = Inr s \<Longrightarrow> engine_reach kv cd content s"
| remount: "engine_reach kv cd content s \<Longrightarrow> engine_open kv cd cfg (me_backend s) = Inr s' \<Longrightarrow>
     engine_reach kv cd content s'"
| request: "engine_reach kv cd content s \<Longrightarrow> req_ok kv cd content req s \<Longrightarrow>
     engine_reach kv cd content (exec_req kv cd clk ctx req s)"

section \<open>The invariant of reachable states\<close>

lemma engine_open_backend:
  "engine_open kv cd cfg db = Inr s \<Longrightarrow> me_backend s = db \<and> me_free_inodes s = id_table_new"
  by (auto simp: engine_open_def rbind_eq_Inr)

context meta_db
begin

lemma update_format_init:
  assumes new: "content db = (\<lambda>_. None)" and run: "update_format kv cd fmt force now db = (Inr (), db1)"
  shows "ns_ok cd (content db1)" "alloc_ok cd (content db1) id_table_new"
proof -
  have "load_format kv cd db \<noteq> Inr x" for x
    using new get_content by (fastforce simp: load_format_def rbind_eq_Inr)
  then have "initialize_volume kv cd fmt (root_attr now) db = (Inr (), db1)"
    using run by (auto simp: update_format_def split: sum.splits if_splits)
  then obtain b where "content db1 = apply_batch b (content db)"
    and b: "stage_initial_state cd fmt (root_attr now) = Inr b"
    unfolding initialize_volume_def by (auto dest!: commit_txn_Inr simp: rbind_eq_Inr)
  then obtain fb rb cb where enc: "enc_attr cd (root_attr now) = Some rb" "enc_u64 cd 2 = Some cb"
    and m: "content db1 = (\<lambda>_. None)(CURRENT_FORMAT \<mapsto> fb, key_attr ROOT_INO \<mapsto> rb, key_counter NextInode \<mapsto> cb)"
    by (auto simp: stage_initial_state_def rbind_eq_Inr new)
  have none: "v_attr cd (\<lambda>_. None) = (\<lambda>_. None)" "v_dentry cd (\<lambda>_. None) = (\<lambda>_. None)"
    by (auto simp: v_attr_def v_dentry_def)
  have A: "v_attr cd (content db1) = [ROOT_INO \<mapsto> root_attr now]"
    and D: "v_dentry cd (content db1) = (\<lambda>_. None)"
    using attr_dec [OF enc(1)] by (simp_all add: m key_render view_simps none)
  show "ns_ok cd (content db1)"
    by (simp add: ns_ok_def A D ns_inv_def links_ok_def refs_def root_attr_def)
  have "counter_val cd (content db1) NextInode = Some 2"
    using u64_dec [OF enc(2)] by (simp add: m counter_val_def)
  then show "alloc_ok cd (content db1) id_table_new"
    by (simp add: alloc_ok_def A batch_of_def id_table_new_def ROOT_INO_def)
qed

lemma exec_req_inv:
  assumes "eng_inv cd content s" "req_ok kv cd content req s"
  shows "eng_inv cd content (exec_req kv cd clk ctx req s)"
proof -
  note read_inv = read_ops_inv [THEN keeps_snd] e_get_attr_inv [THEN keeps_snd]
  note write_inv = e_rmdir_inv [THEN keeps_snd] e_rename_inv [THEN keeps_snd] write_slice_inv [THEN keeps_snd]
    e_truncate_inv [THEN keeps_snd] run_delete_task_inv [THEN keeps_snd] e_set_attr_inv [THEN keeps_snd]
    next_slice_id_inv [THEN keeps_snd]
  note cond_inv = e_mknod_inv [OF _ _ surjective_pairing] e_mkdir_inv [OF _ _ surjective_pairing]
    e_create_inv [OF _ _ surjective_pairing] e_link_inv [OF _ _ surjective_pairing]
    e_unlink_inv [OF _ _ surjective_pairing]
  show ?thesis
    using assms by (cases req) (simp_all add: read_inv write_inv cond_inv e_symlink_def)
qed

lemma engine_reach_inv: "engine_reach kv cd content s \<Longrightarrow> eng_inv cd content s"
proof (induction rule: engine_reach.induct)
  case (format db fmt force now db1 cfg s)
  then show ?case using update_format_init engine_open_backend by (fastforce simp: eng_inv_def)
next
  case (remount s cfg s')
  then show ?case
    using engine_open_backend [OF remount(2)]
    by (auto simp: eng_inv_def alloc_ok_def batch_of_def id_table_new_def)
next
  case (request s req clk ctx)
  then show ?case using exec_req_inv by blast
qed

end

section \<open>A new volume\<close>

context reliable_meta
begin

lemma format_open:
  assumes new: "content db = (\<lambda>_. None)" and now: "0 \<le> now"
  shows "\<exists>db1 s. update_format kv cd fmt force now db = (Inr (), db1) \<and> engine_open kv cd cfg db1 = Inr s
    \<and> me_format s = fmt \<and> me_backend s = db1"
proof -
  obtain fb rb cb where enc: "enc_format cd fmt = Some fb" "enc_attr cd (root_attr now) = Some rb"
    "enc_u64 cd 2 = Some cb"
    using format_enc [of fmt] u64_enc [of 2] enc_attr_some [of "root_attr now"] now
    by (auto simp: root_attr_def attr_default_def attr_times_ok_def)
  let ?b = "[BPut CURRENT_FORMAT fb, BPut (key_attr ROOT_INO) rb, BPut (key_counter NextInode) cb]"
  obtain db1 where run: "commit_txn kv (Inr (?b, ())) db = (Inr (), db1)"
    and m: "content db1 = apply_batch ?b (content db)"
    using commit_txn_ok [of ?b "()" db] by blast
  have init: "initialize_volume kv cd fmt (root_attr now) db = (Inr (), db1)"
    using run enc by (simp add: initialize_volume_def get_eq new stage_initial_state_def)
  have "load_format kv cd db = Inl UninitializedEngine" by (simp add: load_format_def get_eq new)
  then have "update_format kv cd fmt force now db = (Inr (), db1)"
    using init by (simp add: update_format_def)
  moreover have "load_format kv cd db1 = Inr fmt"
    using format_dec [OF enc(1)]
    by (simp add: load_format_def get_eq m key_render render_inject_sess)
  ultimately show ?thesis by (simp add: engine_open_def)
qed

end

section \<open>Properties\<close>



text \<open>C6. Formatting an empty store succeeds, and opening the formatted volume succeeds and finds
  the format that was given.\<close>

theorem formatted_volume_mounts:
  assumes "reliable_meta kv content cd" and "content db = (\<lambda>_. None)" and "0 \<le> now"
  shows "\<exists>db1 s. update_format kv cd fmt force now db = (Inr (), db1)
    \<and> engine_open kv cd cfg db1 = Inr s \<and> me_format s = fmt \<and> me_backend s = db1"
  using assms by (rule reliable_meta.format_open)

theorem formatted_volume_mounts_witness:
  "\<exists>db1 s. update_format alist_kv text_codec format_default False 0 [] = (Inr (), db1)
    \<and> engine_open alist_kv text_codec (meta_config_default ''/tmp/meta'') db1 = Inr s
    \<and> me_format s = format_default \<and> me_backend s = db1"
  by (rule formatted_volume_mounts [OF rmeta.reliable_meta_axioms]) simp_all

end
