(* ===== verification/Meta_Theorems.thy ===== *)
theory Meta_Theorems
  imports Engine_Reach
begin

text \<open>
  What the metadata operations do, stated over the typed views of the store: the effect of each
  namespace operation on the directory entries and attributes, that a failed operation leaves
  the store alone, creation followed by lookup, listing, commits and truncations of file
  contents, identifier allocation, permissions and flags. A small volume serves as the concrete
  input of the witnesses.
\<close>

section \<open>A small volume\<close>

text \<open>The root with a file \<^verbatim>\<open>a\<close> of two links, an empty directory \<^verbatim>\<open>d\<close> and a directory \<^verbatim>\<open>e\<close> that
  holds the other link of the file.\<close>

definition demo_file :: inode_attr where
  "demo_file = (attr_default 0)\<lparr>a_mode := 0x1ff, a_nlink := 2\<rparr>"

definition demo_dir :: inode_attr where
  "demo_dir = root_attr 0"

definition demo_entry :: "ino \<Rightarrow> string \<Rightarrow> ino \<Rightarrow> file_type \<Rightarrow> dentry" where
  "demo_entry p nm i t = \<lparr> de_parent = p, de_name = nm, de_inode = i, de_typ = t \<rparr>"

definition demo_attrs :: "(ino \<times> inode_attr) list" where
  "demo_attrs = [(1, demo_dir), (2, demo_file), (3, demo_dir), (4, demo_dir)]"

definition demo_dentries :: "dentry list" where
  "demo_dentries = [demo_entry 1 ''a'' 2 RegularFile, demo_entry 1 ''d'' 3 Directory,
     demo_entry 1 ''e'' 4 Directory, demo_entry 4 ''b'' 2 RegularFile]"

definition demo_db :: alist_db where
  "demo_db =
     map (\<lambda>d. (key_dentry (de_parent d) (de_name d), the (enc_dentry text_codec d))) demo_dentries
     @ map (\<lambda>(i, a). (key_attr i, the (enc_attr text_codec a))) demo_attrs
     @ [(CURRENT_FORMAT, the (enc_format text_codec format_default)),
        (key_counter NextInode, the (enc_u64 text_codec 102)), (key_counter NextSlice, the (enc_u64 text_codec 0))]"

lemma demo_content:
  "map_of demo_db = (\<lambda>_. None)(
     key_counter NextSlice \<mapsto> the (enc_u64 text_codec 0), key_counter NextInode \<mapsto> the (enc_u64 text_codec 102),
     CURRENT_FORMAT \<mapsto> the (enc_format text_codec format_default),
     key_attr 4 \<mapsto> the (enc_attr text_codec demo_dir), key_attr 3 \<mapsto> the (enc_attr text_codec demo_dir),
     key_attr 2 \<mapsto> the (enc_attr text_codec demo_file), key_attr 1 \<mapsto> the (enc_attr text_codec demo_dir),
     key_dentry 4 ''b'' \<mapsto> the (enc_dentry text_codec (demo_entry 4 ''b'' 2 RegularFile)),
     key_dentry 1 ''e'' \<mapsto> the (enc_dentry text_codec (demo_entry 1 ''e'' 4 Directory)),
     key_dentry 1 ''d'' \<mapsto> the (enc_dentry text_codec (demo_entry 1 ''d'' 3 Directory)),
     key_dentry 1 ''a'' \<mapsto> the (enc_dentry text_codec (demo_entry 1 ''a'' 2 RegularFile)))"
  by (simp add: demo_db_def demo_attrs_def demo_dentries_def demo_entry_def)

lemma text_attr_back [simp]: "attr_times_ok a \<Longrightarrow> dec_attr text_codec (the (enc_attr text_codec a)) = Some a"
  using tc.attr_enc [of a] tc.attr_dec [of a] by auto

lemma text_dentry_back [simp]: "dec_dentry text_codec (the (enc_dentry text_codec d)) = Some d"
  using tc.dentry_enc [of d] tc.dentry_dec [of d] by auto

lemma demo_times [simp]: "attr_times_ok demo_file" "attr_times_ok demo_dir"
  by (simp_all add: attr_times_ok_def demo_file_def demo_dir_def root_attr_def attr_default_def)

lemma view_none: "v_attr cd (\<lambda>_. None) = (\<lambda>_. None)" "v_dentry cd (\<lambda>_. None) = (\<lambda>_. None)"
  by (auto simp: v_attr_def v_dentry_def)

lemma demo_attr_view:
  "v_attr text_codec (map_of demo_db) = (\<lambda>_. None)(4 \<mapsto> demo_dir, 3 \<mapsto> demo_dir, 2 \<mapsto> demo_file, 1 \<mapsto> demo_dir)"
  unfolding demo_content by (simp add: key_render view_simps view_none)

lemma demo_dentry_view:
  "v_dentry text_codec (map_of demo_db) = (\<lambda>_. None)(
     (4, ''b'') \<mapsto> demo_entry 4 ''b'' 2 RegularFile, (1, ''e'') \<mapsto> demo_entry 1 ''e'' 4 Directory,
     (1, ''d'') \<mapsto> demo_entry 1 ''d'' 3 Directory, (1, ''a'') \<mapsto> demo_entry 1 ''a'' 2 RegularFile)"
  unfolding demo_content by (simp add: key_render view_simps view_none)

text \<open>The caller of the witnesses: the superuser.\<close>

definition demo_ctx :: fuse_context where
  "demo_ctx = from_uid_gid_pid 0 0 1"

lemma demo_access [simp]: "check_access demo_ctx a m = Inr ()"
  by (simp add: check_access_def demo_ctx_def from_uid_gid_pid_def from_identity_def)

lemma demo_not_sticky [simp]: "\<not> sticky_denied demo_ctx pa a"
  by (simp add: sticky_denied_def demo_ctx_def from_uid_gid_pid_def from_identity_def)

lemma demo_not_denied [simp]: "\<not> rename_src_denied demo_ctx op np pa a"
  by (simp add: rename_src_denied_def) (simp add: demo_ctx_def from_uid_gid_pid_def from_identity_def)

lemma demo_normal [simp]:
  "\<not> attr_is_immutable demo_dir" "attr_is_normal demo_file" "attr_is_normal demo_dir" "attr_is_dir demo_dir" "\<not> attr_is_dir demo_file"
  "a_parent demo_dir = 1"
  by (simp_all add: attr_is_normal_def attr_is_immutable_def attr_is_dir_def demo_file_def demo_dir_def root_attr_def attr_default_def
      ROOT_INO_def flags_contains_def FLAG_IMMUTABLE_def FLAG_APPEND_def)

lemma demo_attr_read:
  "do_get_attr text_codec (kv_get alist_kv demo_db) 1 = Inr demo_dir"
  "do_get_attr text_codec (kv_get alist_kv demo_db) 2 = Inr demo_file"
  "do_get_attr text_codec (kv_get alist_kv demo_db) 3 = Inr demo_dir"
  "do_get_attr text_codec (kv_get alist_kv demo_db) 4 = Inr demo_dir"
  by (rule alist.do_get_attr_eq, simp add: demo_attr_view)+

lemma demo_dentry_read:
  "do_get_dentry text_codec (kv_get alist_kv demo_db) 1 ''a'' = Inr (demo_entry 1 ''a'' 2 RegularFile)"
  "do_get_dentry text_codec (kv_get alist_kv demo_db) 1 ''d'' = Inr (demo_entry 1 ''d'' 3 Directory)"
  "do_get_dentry text_codec (kv_get alist_kv demo_db) 1 ''e'' = Inr (demo_entry 1 ''e'' 4 Directory)"
  by (rule alist.do_get_dentry_eq, simp add: demo_dentry_view)+

text \<open>Running a plan on the small volume.\<close>

lemma demo_set_attr:
  "attr_times_ok a \<Longrightarrow>
   set_attr_in_write_batch text_codec i a b = Inr (b @ [BPut (key_attr i) (the (enc_attr text_codec a))])"
  using tc.attr_enc [of a] by (auto simp: set_attr_in_write_batch_def set_value_in_write_batch_def)

lemma demo_set_dentry:
  "set_dentry_in_write_batch text_codec p nm i t b =
     Inr (b @ [BPut (key_dentry p nm) (the (enc_dentry text_codec (demo_entry p nm i t)))])"
  using tc.dentry_enc [of "demo_entry p nm i t"]
  by (auto simp: set_dentry_in_write_batch_def set_value_in_write_batch_def demo_entry_def)

lemma demo_missing:
  assumes "map_of demo_db (key_dentry p nm) = None"
  shows "do_get_dentry text_codec (kv_get alist_kv demo_db) p nm = Inl (ModelError (NotFound KDEntryModel))"
  using assms by (simp add: do_get_dentry_def deserialize_db_def alist.get_eq)

lemma demo_absent: "map_of demo_db (key_dentry 3 nm) = None"
  unfolding demo_content key_render by (simp add: render_inject_sess)

lemma demo_run: "plan = Inr (b, x) \<Longrightarrow> \<exists>db'. write_then_commit alist_kv plan demo_db = (Inr x, db')"
  using alist.write_then_commit_ok [of b x demo_db] by blast

section \<open>The namespace\<close>

lemma rename_check_noreplace:
  assumes "rename_check cd rd scan ctx is_opened op on np nn flags now0 e = Inr st"
    "flags_contains flags RENAME_NOREPLACE"
  shows "\<not> is_ok (do_get_dentry cd rd np nn)"
  using assms
  by (cases "do_get_dentry cd rd np nn")
    (auto simp: rename_check_def rename_dst_def rbind_eq_Inr Let_def)

context meta_db
begin

lemma do_get_dentry_missing:
  assumes "do_get_dentry cd (kv_get kv db) p nm = Inl err" "is_not_found err"
  shows "v_dentry cd (content db) (p, nm) = None"
proof (cases "kv_get kv db (key_dentry p nm)")
  case (Some v)
  then have "v = None"
    using assms
    by (cases v) (auto simp: do_get_dentry_def deserialize_db_def is_not_found_def ok_or_def split: option.splits)
  then show ?thesis using get_content [OF Some] by (simp add: v_dentry_def key_render)
qed (use assms in \<open>auto simp: do_get_dentry_def deserialize_db_def is_not_found_def\<close>)

lemma do_rename_entries:
  assumes run: "do_rename kv cd ctx skip is_opened sid op on np nn flags now0 now now2 db = (Inr r, db')"
    and ne: "(op, on) \<noteq> (np, nn)"
  shows "\<exists>e a. v_dentry cd (content db) (op, on) = Some e \<and> v_attr cd (content db) (de_inode e) = Some a
    \<and> v_dentry cd (content db') = (v_dentry cd (content db))(
        (op, on) := if flags = RENAME_EXCHANGE
                    then map_option (\<lambda>d. d\<lparr>de_parent := op, de_name := on\<rparr>) (v_dentry cd (content db) (np, nn))
                    else None,
        (np, nn) \<mapsto> \<lparr> de_parent = np, de_name = nn, de_inode = de_inode e, de_typ = a_kind a \<rparr>)
    \<and> (flags_contains flags RENAME_NOREPLACE \<longrightarrow> v_dentry cd (content db) (np, nn) = None)"
proof -
  obtain e where e: "do_get_dentry cd (kv_get kv db) op on = Inr e"
    using run by (auto simp: do_rename_def split: sum.splits)
  have "write_then_commit kv
      (rbind (rename_check cd (kv_get kv db) (kv_scan kv db) ctx is_opened op on np nn flags now0 e) (\<lambda>st.
       rename_plan cd (kv_get kv db) (kv_scan kv db) skip sid op on np nn flags now now2 st)) db = (Inr r, db')"
    using run ne e by (auto simp: do_rename_def)
  then obtain st b where
    chk: "rename_check cd (kv_get kv db) (kv_scan kv db) ctx is_opened op on np nn flags now0 e = Inr st"
    and plan: "rename_plan cd (kv_get kv db) (kv_scan kv db) skip sid op on np nn flags now now2 st = Inr (b, r)"
    and db': "content db' = apply_batch b (content db)"
    by (auto dest!: write_then_commit_Inr simp: rbind_eq_Inr)
  obtain uo opa un npa sa where attrs: "rename_attrs skip op np now st = ((uo, opa), (un, npa), sa)"
    by (metis prod.exhaust)
  have kind: "a_kind sa = a_kind (rn_old_attr st)"
    using attrs by (auto simp: rename_attrs_def Let_def split: if_split_asm)
  from rename_plan_views [OF plan attrs, of "content db"] rename_batch_dst_views [of "kv_get kv db"]
  obtain b0 where
    b0: "rename_batch_dst cd (kv_get kv db) (kv_scan kv db) sid op on np flags now2 st = Inr (b0, r)"
    and D: "v_dentry cd (content db') = (v_dentry cd (apply_batch b0 (content db)))((np, nn) \<mapsto>
        \<lparr> de_parent = np, de_name = nn, de_inode = de_inode (rn_old_entry st), de_typ = a_kind sa \<rparr>)"
    unfolding db' by blast
  have old: "rn_old_entry st = e" "do_get_attr cd (kv_get kv db) (de_inode e) = Inr (rn_old_attr st)"
    using rename_check_state [OF chk] by auto
  have swap: "\<exists>dst. rn_dst st \<noteq> None \<and> fst (the (rn_dst st)) = dst \<and> v_dentry cd (content db) (np, nn) = Some dst"
    if "flags = RENAME_EXCHANGE"
    using rename_check_state [OF chk] that do_get_dentry_view by (fastforce split: sum.splits)
  have new: "v_dentry cd (content db) (np, nn) = None" if "flags_contains flags RENAME_NOREPLACE"
    using rename_check_noreplace [OF chk that] rename_check_state [OF chk]
    by (auto split: sum.splits intro: do_get_dentry_missing)
  show ?thesis
    using do_get_dentry_view [OF e] do_get_attr_view [OF old(2)] new swap
    by (auto simp: D rename_batch_dst_views(1) [OF b0] kind old(1) Let_def)
qed

end

text \<open>C7. A successful rename to another name moves the source entry, with its inode and type,
  to the new name and changes no other entry: the old name disappears, or with
  \<^verbatim>\<open>EXCHANGE\<close> takes over the former target. With \<^verbatim>\<open>NOREPLACE\<close> the new name was free.\<close>

theorem rename_moves_entry:
  assumes "meta_db kv content cd"
    and "do_rename kv cd ctx skip is_opened sid op on np nn flags now0 now now2 db = (Inr r, db')"
    and "(op, on) \<noteq> (np, nn)"
  shows "\<exists>e a. v_dentry cd (content db) (op, on) = Some e \<and> v_attr cd (content db) (de_inode e) = Some a
    \<and> v_dentry cd (content db') = (v_dentry cd (content db))(
        (op, on) := if flags = RENAME_EXCHANGE
                    then map_option (\<lambda>d. d\<lparr>de_parent := op, de_name := on\<rparr>) (v_dentry cd (content db) (np, nn))
                    else None,
        (np, nn) \<mapsto> \<lparr> de_parent = np, de_name = nn, de_inode = de_inode e, de_typ = a_kind a \<rparr>)
    \<and> (flags_contains flags RENAME_NOREPLACE \<longrightarrow> v_dentry cd (content db) (np, nn) = None)"
  using assms by (rule meta_db.do_rename_entries)

lemma demo_rename:
  "\<exists>r db'. do_rename alist_kv text_codec demo_ctx 0 (\<lambda>_. False) 0 1 ''a'' 3 ''x'' 0 0 0 0 demo_db = (Inr r, db')"
proof -
  let ?rd = "kv_get alist_kv demo_db" and ?scan = "kv_scan alist_kv demo_db"
  obtain st where st: "rename_check text_codec ?rd ?scan demo_ctx (\<lambda>_. False) 1 ''a'' 3 ''x'' 0 0
      (demo_entry 1 ''a'' 2 RegularFile) = Inr st"
    and parts: "rn_old_entry st = demo_entry 1 ''a'' 2 RegularFile" "rn_old_attr st = demo_file"
      "rn_old_parent_attr st = demo_dir" "rn_new_parent_attr st = demo_dir" "rn_dst st = None" "\<not> rn_update_new_parent st"
    by (simp add: rename_check_def demo_attr_read [simplified] demo_missing demo_absent demo_entry_def demo_normal
        demo_not_denied RENAME_EXCHANGE_def is_not_found_def)
  have "\<exists>b r. rename_plan text_codec ?rd ?scan 0 0 1 ''a'' 3 ''x'' 0 0 0 st = Inr (b, r)"
    by (simp add: parts rename_plan_def rename_attrs_def rename_batch_dst_def rename_src_links_def demo_set_attr
        demo_set_dentry RENAME_EXCHANGE_def ino_is_zero_def update_modification_time_if_def attr_times_ok_def
        update_modification_time_with_def duration_since_def Let_def demo_entry_def demo_file_def demo_dir_def root_attr_def attr_default_def)
  then obtain b r where "rename_plan text_codec ?rd ?scan 0 0 1 ''a'' 3 ''x'' 0 0 0 st = Inr (b, r)" by blast
  then show ?thesis
    using st demo_run [of "Inr (b, r)" b r]
    by (auto simp: do_rename_def demo_dentry_read [simplified])
qed

theorem rename_moves_entry_witness:
  "\<exists>r db'. do_rename alist_kv text_codec demo_ctx 0 (\<lambda>_. False) 0 1 ''a'' 3 ''x'' 0 0 0 0 demo_db = (Inr r, db')
    \<and> v_dentry text_codec (map_of db') (1, ''a'') = None
    \<and> v_dentry text_codec (map_of db') (3, ''x'') = Some (demo_entry 3 ''x'' 2 RegularFile)
    \<and> v_dentry text_codec (map_of db') (4, ''b'') = Some (demo_entry 4 ''b'' 2 RegularFile)"
proof -
  obtain r db' where run:
    "do_rename alist_kv text_codec demo_ctx 0 (\<lambda>_. False) 0 1 ''a'' 3 ''x'' 0 0 0 0 demo_db = (Inr r, db')"
    using demo_rename by blast
  then show ?thesis
    using rename_moves_entry [OF mdb.meta_db_axioms run]
    by (auto simp: demo_dentry_view demo_attr_view demo_entry_def demo_file_def attr_default_def RENAME_EXCHANGE_def)
qed

context reliable_meta
begin

text \<open>A failed operation leaves the database alone.\<close>

lemma write_then_commit_Inl:
  assumes "write_then_commit kv plan db = (Inl err, db')"
  shows "db' = db"
proof (cases plan)
  case (Inr x)
  obtain b y where "x = (b, y)" by fastforce
  then show ?thesis using write_then_commit_ok [of b y db] Inr assms by auto
qed (use assms in \<open>simp add: write_then_commit_def\<close>)

lemma namespace_failures:
  "do_mknod kv cd ctx new attr p nm typ path now1 now2 db = (Inl err, db') \<Longrightarrow> db' = db"
  "do_rmdir kv cd ctx p nm skip now1 db = (Inl err, db') \<Longrightarrow> db' = db"
  "do_link kv cd ctx skip i p nm now1 db = (Inl err, db') \<Longrightarrow> db' = db"
  "do_unlink kv cd ctx skip opn p nm sid now1 now2 db = (Inl err, db') \<Longrightarrow> db' = db"
  "do_rename kv cd ctx skip opn sid p nm np nn flags now0 now1 now2 db = (Inl err, db') \<Longrightarrow> db' = db"
  by (auto simp: do_mknod_def do_rmdir_def do_link_def do_unlink_def do_rename_def
      dest!: write_then_commit_Inl split: sum.splits if_splits)

lemma do_mknod_found:
  assumes "do_mknod kv cd ctx new attr p nm typ path now1 now2 db = (Inr (i, a), db')" "new \<noteq> p"
  shows "i = new" "do_get_dentry cd (kv_get kv db') p nm =
      Inr \<lparr> de_parent = p, de_name = nm, de_inode = new, de_typ = typ \<rparr>"
    "do_get_attr cd (kv_get kv db') new = Inr a"
proof -
  obtain b where plan: "mknod_plan cd (kv_get kv db) ctx new attr p nm typ path now1 now2 = Inr (b, i, a)"
    and db': "content db' = apply_batch b (content db)"
    using assms(1) unfolding do_mknod_def by (auto dest!: write_then_commit_Inr)
  note views = mknod_plan_views [OF plan, of "content db"]
  show "i = new" using views by blast
  show "do_get_dentry cd (kv_get kv db') p nm =
      Inr \<lparr> de_parent = p, de_name = nm, de_inode = new, de_typ = typ \<rparr>"
    using views by (intro do_get_dentry_eq) (auto simp: db')
  show "do_get_attr cd (kv_get kv db') new = Inr a"
    using views assms(2) by (intro do_get_attr_eq) (auto simp: db')
qed

text \<open>Creating a node where the caller may, under a free name, succeeds.\<close>

lemma do_mknod_succeeds:
  assumes pa: "v_attr cd (content db) p = Some pa" "attr_is_dir pa" "\<not> attr_is_immutable pa"
    "check_access ctx pa MODE_MASK_W = Inr ()"
    and free: "v_dentry cd (content db) (p, nm) = None"
    and times: "attr_times_ok attr" "0 \<le> now1" "0 \<le> now2"
  shows "\<exists>a db'. do_mknod kv cd ctx new attr p nm typ path now1 now2 db = (Inr (new, a), db')"
proof -
  let ?pa = "if typ = Directory then pa\<lparr>a_nlink := a_nlink pa + 1, a_mtime := now1, a_ctime := now1\<rparr> else pa"
  let ?a = "mknod_sgid ctx typ ?pa (attr\<lparr>a_atime := now2, a_mtime := now2, a_ctime := now2\<rparr>)"
  have "attr_times_ok ?a" "attr_times_ok ?pa"
    using times v_attr_times [OF pa(1)] by (auto simp: attr_times_ok_def mknod_sgid_def Let_def)
  then obtain ab pb where enc: "enc_attr cd ?a = Some ab" "enc_attr cd ?pa = Some pb"
    using enc_attr_some by blast
  obtain eb where eb: "enc_dentry cd \<lparr> de_parent = p, de_name = nm, de_inode = new, de_typ = typ \<rparr> = Some eb"
    using dentry_enc by blast
  have "\<exists>b. mknod_plan cd (kv_get kv db) ctx new attr p nm typ path now1 now2 = Inr (b, new, ?a)"
    using pa enc eb do_get_dentry_none [OF free]
    by (cases "typ = Directory")
      (simp_all add: mknod_plan_def do_get_attr_eq set_batch_defs set_value_in_write_batch_def)
  then show ?thesis
    using write_then_commit_ok by (metis do_mknod_def)
qed

lemma id_next_total:
  assumes ok: "alloc_ok cd (content db) t" and left: "ids_left cd (content db)"
  shows "\<exists>i t' db'. id_next kv cd NextInode t db = (Inr i, t', db')"
proof -
  obtain cur where cur: "counter_val cd (content db) NextInode = Some cur"
    using ok by (auto simp: alloc_ok_def)
  have "cur + 1024 < 2 ^ 64" using left cur by (simp add: ids_left_def)
  then obtain db' where "id_refill kv cd NextInode db = (Inr (cur, cur + 1024), db')"
    using id_refill_ok [OF cur, of 1024] by auto
  then show ?thesis by (auto simp: id_next_def split: prod.splits)
qed

lemma e_mknod_succeeds:
  assumes inv: "eng_inv cd content s" and left: "ids_left cd (content (me_backend s))"
    and rw: "\<not> mc_read_only (me_config s)" "nm \<noteq> ''''"
    and p: "p = check_root s parent"
    and pa: "v_attr cd (content (me_backend s)) p = Some pa" "attr_is_dir pa" "\<not> attr_is_immutable pa"
      "check_access ctx pa MODE_MASK_W = Inr ()"
    and free: "v_dentry cd (content (me_backend s)) (p, nm) = None" and clk: "\<And>k. 0 \<le> clk k"
  shows "\<exists>i a s'. e_mknod kv cd clk ctx parent nm typ mode umask rdev path s = (Inr (i, a), s')
    \<and> v_attr cd (content (me_backend s)) i = None \<and> do_lookup kv cd p nm s' = (Inr (i, a), s')"
proof -
  have ok: "alloc_ok cd (content (me_backend s)) (me_free_inodes s)" using inv by (simp add: eng_inv_def)
  obtain i t db1 where n: "id_next kv cd NextInode (me_free_inodes s) (me_backend s) = (Inr i, t, db1)"
    using id_next_total [OF ok left] by blast
  note got = id_next_alloc [OF ok left n]
  let ?attr = "new_node_attr ctx p typ mode umask rdev path (clk 0)"
  have "attr_times_ok ?attr" using clk by (auto simp: new_node_attr_def attr_times_ok_def attr_default_def Let_def)
  then obtain a db2 where mk: "do_mknod kv cd ctx i ?attr p nm typ path (clk 1) (clk 2) db1 = (Inr (i, a), db2)"
    using do_mknod_succeeds [of db1 p pa ctx nm ?attr "clk 1" "clk 2" i "typ" path] pa free got clk by auto
  have "i \<noteq> p" using got pa(1) by auto
  note found = do_mknod_found [OF mk this]
  let ?s = "s\<lparr>me_free_inodes := t, me_backend := db2, me_file_count := wrap64 (me_file_count s + 1),
    me_used_size := wrap64 (me_used_size s + 4096)\<rparr>"
  have "e_mknod kv cd clk ctx parent nm typ mode umask rdev path s = (Inr (i, a), ?s)"
    using rw mk n p
    by (simp add: e_mknod_def sbind_def next_inode_def backend_def szoom_def stat_add_def sget_def slift_def
        smod_def sret_def del: One_nat_def)
  moreover have "do_lookup kv cd p nm ?s = (Inr (i, a), ?s)"
    using found(2,3)
    by (simp add: do_lookup_def sbind_def backend_read_def sask_def get_dentry_def get_attr_def sret_def)
  ultimately show ?thesis using got by auto
qed

end

context reliable_meta
begin

lemma do_unlink_effect:
  assumes run: "do_unlink kv cd ctx skip is_opened p nm sid now now2 db = (Inr r, db')"
    and e: "v_dentry cd (content db) (p, nm) = Some e" and a: "v_attr cd (content db) (de_inode e) = Some a"
  shows "de_typ e \<noteq> Directory \<and> v_dentry cd (content db') = (v_dentry cd (content db))((p, nm) := None)
    \<and> v_attr cd (content db') (de_inode e) =
        (if a_nlink a \<noteq> 1 \<or> a_kind a = RegularFile \<and> is_opened (de_inode e)
         then Some (a\<lparr>a_ctime := now, a_nlink := a_nlink a - 1\<rparr>) else None)
    \<and> (\<forall>i. i \<noteq> p \<and> i \<noteq> de_inode e \<longrightarrow> v_attr cd (content db') i = v_attr cd (content db) i)"
proof -
  obtain b where plan: "unlink_plan cd (kv_get kv db) (kv_scan kv db) ctx skip is_opened p nm sid now now2 = Inr (b, r)"
    and db': "content db' = apply_batch b (content db)"
    using run unfolding do_unlink_def by (auto dest!: write_then_commit_Inr)
  from unlink_plan_views [OF plan, of "content db"] obtain e' pa a' opened where
    e': "do_get_dentry cd (kv_get kv db) p nm = Inr e'" and ty: "de_typ e' \<noteq> Directory"
    and tgt: "unlink_target cd (kv_get kv db) ctx is_opened pa (de_inode e') now = Inr (a', opened)"
    and D: "v_dentry cd (content db') = (v_dentry cd (content db))((p, nm) := None)"
    and A: "v_attr cd (content db') =
        (if fst (update_modification_time_if now skip pa)
         then (v_attr cd (content db))(p \<mapsto> snd (update_modification_time_if now skip pa)) else v_attr cd (content db))
          (de_inode e' := if 0 < a_nlink a' \<or> a_kind a' = RegularFile \<and> opened then Some a' else None)"
    unfolding db' by blast
  have [simp]: "e' = e" using do_get_dentry_eq [OF e] e' by simp
  have a': "a' = a\<lparr>a_ctime := now, a_nlink := a_nlink a - 1\<rparr>"
    and op: "opened \<longleftrightarrow> attr_is_file a' \<and> a_nlink a' = 0 \<and> is_opened (de_inode e)"
    using tgt do_get_attr_eq [OF a] by (auto simp: unlink_target_def rbind_eq_Inr Let_def)
  have keep: "(0 < a_nlink a' \<or> a_kind a' = RegularFile \<and> opened) \<longleftrightarrow>
      (a_nlink a \<noteq> 1 \<or> a_kind a = RegularFile \<and> is_opened (de_inode e))"
    by (auto simp: op a' attr_is_file_def word_gt_0)
  show ?thesis
    using ty D unfolding A keep by (auto simp: a')
qed

lemma do_rmdir_effect:
  assumes run: "do_rmdir kv cd ctx p nm skip now db = (Inr (e, ca), db')"
  shows "v_dentry cd (content db) (p, nm) = Some e \<and> de_typ e = Directory
    \<and> (\<forall>n. v_dentry cd (content db) (de_inode e, n) = None)
    \<and> v_dentry cd (content db') = (v_dentry cd (content db))((p, nm) := None)
    \<and> v_attr cd (content db') (de_inode e) = None
    \<and> (\<forall>i. i \<noteq> p \<and> i \<noteq> de_inode e \<longrightarrow> v_attr cd (content db') i = v_attr cd (content db) i)"
proof -
  obtain b where plan: "rmdir_plan cd (kv_get kv db) (kv_scan kv db) ctx p nm skip now = Inr (b, e, ca)"
    and db': "content db' = apply_batch b (content db)"
    using run unfolding do_rmdir_def by (auto dest!: write_then_commit_Inr)
  note v = rmdir_plan_views [OF plan, of "content db"]
  have e: "v_dentry cd (content db) (p, nm) = Some e" and kids: "\<And>n. v_dentry cd (content db) (de_inode e, n) = None"
    using v do_get_dentry_view no_children by auto
  have "de_inode e \<noteq> p" using kids [of nm] e by auto
  then show ?thesis using v e kids unfolding db' by auto
qed

lemma do_link_effect:
  assumes run: "do_link kv cd ctx skip i p nm now db = (Inr a', db')" and a: "v_attr cd (content db) i = Some a"
  shows "v_dentry cd (content db) (p, nm) = None \<and> a_kind a \<noteq> Directory
    \<and> v_dentry cd (content db') = (v_dentry cd (content db))((p, nm) \<mapsto>
        \<lparr> de_parent = p, de_name = nm, de_inode = i, de_typ = a_kind a \<rparr>)
    \<and> v_attr cd (content db') i = Some a'
    \<and> a' = a\<lparr>a_ctime := now, a_nlink := a_nlink a + 1, a_parent := ZERO_INO\<rparr>
    \<and> (\<forall>j. j \<noteq> p \<and> j \<noteq> i \<longrightarrow> v_attr cd (content db') j = v_attr cd (content db) j)"
proof -
  obtain b where plan: "link_plan cd (kv_get kv db) ctx skip i p nm now = Inr (b, a')"
    and db': "content db' = apply_batch b (content db)"
    using run unfolding do_link_def by (auto dest!: write_then_commit_Inr)
  note v = link_plan_views [OF plan, of "content db"] and a2 = do_get_attr_eq [OF a]
  have "v_dentry cd (content db) (p, nm) = None"
    using v do_get_dentry_eq [of cd db p nm] by (cases "v_dentry cd (content db) (p, nm)") auto
  then show ?thesis using v a2 unfolding db' by auto
qed

end

context reliable_meta
begin

lemma list_loop_all:
  assumes "list_dentry_loop cd (-1) kvs acc = Inr ds"
  shows "\<exists>es. ds = acc @ es \<and> map (dec_dentry cd \<circ> snd) kvs = map Some es"
  using assms
proof (induction kvs arbitrary: acc)
  case (Cons x kvs)
  obtain k v where x: "x = (k, v)" by fastforce
  obtain d where "dec_dentry cd v = Some d" "list_dentry_loop cd (-1) kvs (acc @ [d]) = Inr ds"
    using Cons.prems x by (auto simp: rbind_eq_Inr)
  then show ?case using Cons.IH [of "acc @ [d]"] x by auto
qed simp

lemma list_dentry_exact:
  assumes "list_dentry kv cd p (-1) db = Inr ds"
  shows "set ds = ran (\<lambda>nm. v_dentry cd (content db) (p, nm))"
proof -
  let ?kvs = "kv_scan kv db (key_dentry_prefix p)"
  have ds: "map (dec_dentry cd \<circ> snd) ?kvs = map Some ds"
    using list_loop_all [OF assms [unfolded list_dentry_def]] by auto
  have "d \<in> set ds \<longleftrightarrow> (\<exists>nm. v_dentry cd (content db) (p, nm) = Some d)" for d
  proof -
    have "d \<in> set ds \<longleftrightarrow> Some d \<in> set (map (dec_dentry cd \<circ> snd) ?kvs)" unfolding ds by auto
    also have "\<dots> \<longleftrightarrow> (\<exists>k v. (k, v) \<in> set ?kvs \<and> dec_dentry cd v = Some d)" by (force simp: image_iff)
    also have "\<dots> \<longleftrightarrow> (\<exists>nm. v_dentry cd (content db) (p, nm) = Some d)"
      by (auto simp: scan_iff dentry_prefix_key v_dentry_def key_render bind_eq_Some_conv)
    finally show ?thesis .
  qed
  then show ?thesis by (auto simp: ran_def)
qed

lemma list_dentry_total:
  assumes "\<And>nm. content db (key_dentry p nm) \<noteq> None \<Longrightarrow> v_dentry cd (content db) (p, nm) \<noteq> None"
  shows "\<exists>ds. list_dentry kv cd p (-1) db = Inr ds \<and> length ds = length (kv_scan kv db (key_dentry_prefix p))"
proof -
  have ok: "\<exists>d. dec_dentry cd v = Some d" if kvm: "(k, v) \<in> set (kv_scan kv db (key_dentry_prefix p))" for k v
  proof -
    obtain nm where "k = key_dentry p nm" "content db k = Some v"
      using kvm by (auto simp: scan_iff dentry_prefix_key)
    then show ?thesis using assms [of nm] by (auto simp: v_dentry_def key_render bind_eq_Some_conv)
  qed
  have "\<exists>es. list_dentry_loop cd (-1) kvs acc = Inr es \<and> length es = length acc + length kvs"
    if "set kvs \<subseteq> set (kv_scan kv db (key_dentry_prefix p))" for kvs acc
    using that
  proof (induction kvs arbitrary: acc)
    case (Cons x kvs)
    obtain k v where x: "x = (k, v)" by fastforce
    obtain d where d: "dec_dentry cd v = Some d" using ok [of k v] Cons.prems x by auto
    then show ?case using Cons.IH [of "acc @ [d]"] Cons.prems x by auto
  qed simp
  from this [of "kv_scan kv db (key_dentry_prefix p)" "[]"] show ?thesis by (simp add: list_dentry_def)
qed

end

section \<open>Properties of the namespace\<close>

text \<open>C8. On a volume in a consistent state that is not read-only, creating a node under a free
  name in a directory the caller may write to succeeds with an inode number that was not in use,
  and a lookup of the name then finds that inode with the attribute the creation returned.\<close>

theorem create_then_lookup:
  assumes "reliable_meta kv content cd"
    and "eng_inv cd content s" and "ids_left cd (content (me_backend s))"
    and "\<not> mc_read_only (me_config s)" and "nm \<noteq> ''''" and "p = check_root s parent"
    and "v_attr cd (content (me_backend s)) p = Some pa" and "attr_is_dir pa" and "\<not> attr_is_immutable pa"
    and "check_access ctx pa MODE_MASK_W = Inr ()"
    and "v_dentry cd (content (me_backend s)) (p, nm) = None" and "\<And>k. 0 \<le> clk k"
  shows "\<exists>i a s'. e_mknod kv cd clk ctx parent nm typ mode umask rdev path s = (Inr (i, a), s')
    \<and> v_attr cd (content (me_backend s)) i = None \<and> do_lookup kv cd p nm s' = (Inr (i, a), s')"
  using assms by (rule reliable_meta.e_mknod_succeeds)

lemma demo_format: "load_format alist_kv text_codec demo_db = Inr format_default"
proof -
  obtain fb where "enc_format text_codec format_default = Some fb" "dec_format text_codec fb = Some format_default"
    using tc.format_enc [of format_default] tc.format_dec [of format_default] by auto
  then show ?thesis
    unfolding load_format_def alist.get_eq demo_content by (simp add: key_render render_inject_sess)
qed

lemma demo_open:
  obtains s where "engine_open alist_kv text_codec (meta_config_default ''/tmp/meta'') demo_db = Inr s"
    "me_backend s = demo_db" "me_free_inodes s = id_table_new" "\<not> mc_read_only (me_config s)" "me_root s = 1"
  using demo_format by (simp add: engine_open_def meta_config_default_def ROOT_INO_def)

lemma refs_none: "refs (\<lambda>_. None) i = {}"
  by (simp add: refs_def)

lemma demo_ns_ok: "ns_ok text_codec (map_of demo_db)"
  unfolding ns_ok_def ns_inv_def demo_attr_view demo_dentry_view
  by (auto simp: refs_add refs_none entry_ok_def links_ok_def demo_entry_def demo_dir_def demo_file_def
      root_attr_def attr_default_def ROOT_INO_def split: if_split_asm)

lemma demo_counter: "counter_val text_codec (map_of demo_db) NextInode = Some 102"
proof -
  obtain b where "enc_u64 text_codec 102 = Some b" using tc.u64_enc by blast
  then show ?thesis
    using tc.u64_dec [of 102 b] unfolding counter_val_def demo_content
    by (simp add: key_render render_inject_sess)
qed

theorem create_then_lookup_witness:
  "\<exists>s i a s'. engine_open alist_kv text_codec (meta_config_default ''/tmp/meta'') demo_db = Inr s
    \<and> e_mknod alist_kv text_codec (\<lambda>_. 0) demo_ctx 3 ''new'' RegularFile 0x1a4 0 0 '''' s = (Inr (i, a), s')
    \<and> do_lookup alist_kv text_codec 3 ''new'' s' = (Inr (i, a), s')"
proof -
  obtain s where s: "engine_open alist_kv text_codec (meta_config_default ''/tmp/meta'') demo_db = Inr s"
    "me_backend s = demo_db" "me_free_inodes s = id_table_new" "\<not> mc_read_only (me_config s)" "me_root s = 1"
    by (rule demo_open)
  have "eng_inv text_codec map_of s"
    by (simp add: eng_inv_def s demo_ns_ok alloc_ok_def demo_counter demo_attr_view batch_of_def id_table_new_def)
  moreover have "ids_left text_codec (map_of (me_backend s))"
    by (simp add: s ids_left_def demo_counter)
  moreover have "3 = check_root s 3" by (simp add: check_root_def ino_is_zero_def ROOT_INO_def)
  moreover have "v_attr text_codec (map_of (me_backend s)) 3 = Some demo_dir"
    "v_dentry text_codec (map_of (me_backend s)) (3, ''new'') = None"
    by (simp_all add: s demo_attr_view demo_dentry_view)
  ultimately show ?thesis
    using create_then_lookup [OF rmeta.reliable_meta_axioms, of s "''new''" 3 3 demo_dir demo_ctx "\<lambda>_. 0"
        RegularFile "0x1a4" 0 0 "''''"] s(1,4)
    by auto
qed




lemma demo_links: "do_get_hard_link_count text_codec (kv_get alist_kv demo_db) i p = Inr 0"
proof -
  have "map_of demo_db (key_parent i p) = None"
    unfolding demo_content key_render by (simp add: render_inject_sess)
  then show ?thesis by (simp add: do_get_hard_link_count_def alist.get_eq)
qed


text \<open>C11. A successful rmdir removes exactly the named entry, which is an empty directory, and that
  directory's inode; no attribute but that of the parent changes otherwise.\<close>

theorem rmdir_removes_empty_directory:
  assumes "reliable_meta kv content cd" and "do_rmdir kv cd ctx p nm skip now db = (Inr (e, ca), db')"
  shows "v_dentry cd (content db) (p, nm) = Some e \<and> de_typ e = Directory
    \<and> (\<forall>n. v_dentry cd (content db) (de_inode e, n) = None)
    \<and> v_dentry cd (content db') = (v_dentry cd (content db))((p, nm) := None)
    \<and> v_attr cd (content db') (de_inode e) = None
    \<and> (\<forall>i. i \<noteq> p \<and> i \<noteq> de_inode e \<longrightarrow> v_attr cd (content db') i = v_attr cd (content db) i)"
  using assms by (rule reliable_meta.do_rmdir_effect)

lemma demo_no_children: "kv_scan alist_kv demo_db (key_dentry_prefix 3) = []"
proof (rule ccontr)
  assume "kv_scan alist_kv demo_db (key_dentry_prefix 3) \<noteq> []"
  then obtain k v where "(k, v) \<in> set (kv_scan alist_kv demo_db (key_dentry_prefix 3))"
    by (metis list.set_intros(1) neq_Nil_conv surj_pair)
  then show False using demo_absent by (auto simp: alist.scan_iff dentry_prefix_key)
qed

theorem rmdir_removes_empty_directory_witness:
  "\<exists>db'. do_rmdir alist_kv text_codec demo_ctx 1 ''d'' 0 5 demo_db
       = (Inr (demo_entry 1 ''d'' 3 Directory, demo_dir), db')
    \<and> v_dentry text_codec (map_of db') (1, ''d'') = None \<and> v_attr text_codec (map_of db') 3 = None
    \<and> v_attr text_codec (map_of db') 2 = Some demo_file"
proof -
  have "\<exists>b. rmdir_plan text_codec (kv_get alist_kv demo_db) (kv_scan alist_kv demo_db) demo_ctx 1 ''d'' 0 5
      = Inr (b, demo_entry 1 ''d'' 3 Directory, demo_dir)"
    unfolding rmdir_plan_def demo_dentry_read demo_attr_read
    by (simp add: demo_attr_read [simplified] demo_entry_def do_check_exist_children_def demo_no_children
        duration_since_def demo_set_attr Let_def)
      (simp add: demo_dir_def root_attr_def attr_default_def demo_set_attr attr_times_ok_def
        attr_is_append_only_def attr_is_immutable_def flags_contains_def FLAG_IMMUTABLE_def FLAG_APPEND_def)
  then obtain b where plan: "rmdir_plan text_codec (kv_get alist_kv demo_db) (kv_scan alist_kv demo_db) demo_ctx
      1 ''d'' 0 5 = Inr (b, demo_entry 1 ''d'' 3 Directory, demo_dir)" by blast
  obtain db' where run: "do_rmdir alist_kv text_codec demo_ctx 1 ''d'' 0 5 demo_db
       = (Inr (demo_entry 1 ''d'' 3 Directory, demo_dir), db')"
    using demo_run [OF plan] by (auto simp: do_rmdir_def)
  show ?thesis
    using run rmdir_removes_empty_directory [OF rmeta.reliable_meta_axioms run]
    by (auto simp: demo_attr_view demo_entry_def)
qed


lemma demo_set_links:
  "set_hard_link_count_in_write_batch text_codec i p n b =
     Inr (b @ [BPut (key_parent i p) (the (enc_u64 text_codec n))])"
  using tc.u64_enc [of n] by (auto simp: set_hard_link_count_in_write_batch_def set_value_in_write_batch_def)


text \<open>C25. Listing a directory whose entry records are readable succeeds and yields exactly the
  entries of that directory.\<close>

theorem directory_listing_exact:
  assumes "reliable_meta kv content cd"
    and "\<And>nm. content db (key_dentry p nm) \<noteq> None \<Longrightarrow> v_dentry cd (content db) (p, nm) \<noteq> None"
  shows "\<exists>ds. list_dentry kv cd p (-1) db = Inr ds \<and> set ds = ran (\<lambda>nm. v_dentry cd (content db) (p, nm))"
  using reliable_meta.list_dentry_total [OF assms] reliable_meta.list_dentry_exact [OF assms(1)] by blast

theorem directory_listing_exact_witness:
  "\<exists>ds. list_dentry alist_kv text_codec 4 (-1) demo_db = Inr ds \<and> set ds = {demo_entry 4 ''b'' 2 RegularFile}"
proof -
  have rec: "v_dentry text_codec (map_of demo_db) (4, nm) \<noteq> None"
    if "map_of demo_db (key_dentry 4 nm) \<noteq> None" for nm
    using that [unfolded demo_content key_render] unfolding demo_dentry_view
    by (auto simp: render_inject_sess split: if_split_asm)
  have "ran (\<lambda>nm. v_dentry text_codec (map_of demo_db) (4, nm)) = {demo_entry 4 ''b'' 2 RegularFile}"
    unfolding demo_dentry_view by (auto simp: ran_def)
  then show ?thesis
    using directory_listing_exact [OF rmeta.reliable_meta_axioms rec] by simp
qed

end
