(* ===== verification/Data_Theorems.thy ===== *)
theory Data_Theorems
  imports Meta_Theorems
begin

text \<open>
  What the metadata layer guarantees about file contents and about its own bookkeeping: slice
  commits and truncations as seen by a reader of the chunk, identifier allocation, reference
  counts and caches of open files, the codecs of slices and block keys, permissions and flags.
\<close>

section \<open>Chunks\<close>

context reliable_meta
begin

lemma commit_read:
  assumes "v_attr cd (content db) i = Some a" and "attr_is_file a"
    and hold: "chunk_holds cd (content db) i c ss" and s: "slice_wf s" and "0 \<le> now1" and "0 \<le> now2"
  shows "\<exists>r db'. commit_slice kv cd i c s now1 now2 db = (Inr r, db')
    \<and> get_chunk_slices kv cd i c db' = Inr (add_slice s ss) \<and> sc_inserted r = (s \<notin> set ss)
    \<and> (\<exists>a'. v_attr cd (content db') = (v_attr cd (content db))(i \<mapsto> a')
         \<and> a_length a' = max (a_length a) (slice_end c s))
    \<and> (\<forall>x. x \<noteq> (i, c) \<longrightarrow> v_chunk (content db') x = v_chunk (content db) x)
    \<and> v_dentry cd (content db') = v_dentry cd (content db)"
proof -
  obtain r db' where run: "commit_slice kv cd i c s now1 now2 db = (Inr r, db')" "sc_inserted r = (s \<notin> set ss)"
    and C: "v_chunk (content db') = (v_chunk (content db))((i, c) := Some (chunk_enc cd (add_slice s ss)))"
    and A: "v_attr cd (content db') = (v_attr cd (content db))(i \<mapsto> commit_attr c s (s \<notin> set ss) now1 now2 a)"
    and D: "v_dentry cd (content db') = v_dentry cd (content db)"
    using commit_slice_effect [OF assms] by fastforce
  have "chunk_holds cd (content db') i c (add_slice s ss)"
    using hold s by (simp add: chunk_holds_def C add_slice_wf)
  then have "get_chunk_slices kv cd i c db' = Inr (add_slice s ss)"
    by (simp add: get_chunk_slices_holds)
  moreover have "a_length (commit_attr c s (s \<notin> set ss) now1 now2 a) = max (a_length a) (slice_end c s)"
    by (auto simp: commit_attr_def)
  ultimately show ?thesis using run C A D by auto
qed

end

text \<open>C26. Committing a slice to a regular file succeeds; a reader of the chunk then gets the list
  it had with the slice appended, unless it was there already, and the file's length covers the
  slice. Other chunks, attributes and all directory entries stay.\<close>

theorem commit_then_read:
  assumes "reliable_meta kv content cd"
    and "v_attr cd (content db) i = Some a" and "attr_is_file a"
    and "chunk_holds cd (content db) i c ss" and "slice_wf s" and "0 \<le> now1" and "0 \<le> now2"
  shows "\<exists>r db'. commit_slice kv cd i c s now1 now2 db = (Inr r, db')
    \<and> get_chunk_slices kv cd i c db' = Inr (add_slice s ss) \<and> sc_inserted r = (s \<notin> set ss)
    \<and> (\<exists>a'. v_attr cd (content db') = (v_attr cd (content db))(i \<mapsto> a')
         \<and> a_length a' = max (a_length a) (slice_end c s))
    \<and> (\<forall>x. x \<noteq> (i, c) \<longrightarrow> v_chunk (content db') x = v_chunk (content db) x)
    \<and> v_dentry cd (content db') = v_dentry cd (content db)"
  using assms by (rule reliable_meta.commit_read)

lemma demo_chunks: "chunk_holds text_codec (map_of demo_db) i c []"
proof -
  have "map_of demo_db (render (KChunk i c)) = None"
    unfolding demo_content key_render by (simp add: render_inject_sess)
  then show ?thesis by (simp add: chunk_holds_def v_chunk_def)
qed

theorem commit_then_read_witness:
  "\<exists>r db'. commit_slice alist_kv text_codec 2 1 (new_owned 16 7 100) 5 6 demo_db = (Inr r, db')
    \<and> get_chunk_slices alist_kv text_codec 2 1 db' = Inr [new_owned 16 7 100]
    \<and> (\<exists>a'. v_attr text_codec (map_of db') 2 = Some a' \<and> a_length a' = 67108980)"
proof -
  have "attr_is_file demo_file" by (simp add: attr_is_file_def demo_file_def attr_default_def)
  moreover have "slice_wf (new_owned 16 7 100)" by (simp add: new_owned_wf)
  ultimately obtain r db' a' where "commit_slice alist_kv text_codec 2 1 (new_owned 16 7 100) 5 6 demo_db = (Inr r, db')"
    "get_chunk_slices alist_kv text_codec 2 1 db' = Inr (add_slice (new_owned 16 7 100) [])"
    "v_attr text_codec (map_of db') = (v_attr text_codec (map_of demo_db))(2 \<mapsto> a')"
    "a_length a' = max (a_length demo_file) (slice_end 1 (new_owned 16 7 100))"
    using commit_then_read [OF rmeta.reliable_meta_axioms, of demo_db 2 demo_file 1 "[]" "new_owned 16 7 100" 5 6]
      demo_chunks by (auto simp: demo_attr_view)
  then show ?thesis
    by (auto simp: add_slice_def slice_end_def new_owned_def CHUNK_SIZE_def demo_file_def attr_default_def)
qed
section \<open>Truncation\<close>



lemma update_length_simps [simp]:
  "a_kind (update_length n t u a) = a_kind a" "attr_is_normal (update_length n t u a) = attr_is_normal a"
  "a_length (update_length n t u a) = n" "attr_is_file (update_length n t u a) = attr_is_file a"
  by (simp_all add: update_length_def update_modification_time_def attr_is_normal_def attr_is_file_def)

lemma commit_attr_simps [simp]:
  "a_kind (commit_attr c s b t u a) = a_kind a" "attr_is_normal (commit_attr c s b t u a) = attr_is_normal a"
  "a_length (commit_attr c s b t u a) = max (a_length a) (slice_end c s)"
  by (auto simp: commit_attr_def attr_is_normal_def)

context reliable_meta
begin

text \<open>A file within its first chunk, whose chunk list is \<open>ss\<close>.\<close>

definition one_chunk :: "'db \<Rightarrow> ino \<Rightarrow> inode_attr \<Rightarrow> nat \<Rightarrow> slice list \<Rightarrow> bool" where
  "one_chunk db i a n ss \<longleftrightarrow>
     v_attr cd (content db) i = Some a \<and> a_kind a = RegularFile \<and> attr_is_normal a \<and> a_length a = n
     \<and> (\<forall>c. chunk_holds cd (content db) i c (if c = 0 then ss else []))"

lemma grow_one_chunk:
  assumes f: "one_chunk db i a 0 ss" and n: "0 < n" "n \<le> CHUNK_SIZE"
  shows "\<exists>a' db'. do_truncate kv cd ctx i n True 0 0 db = (Inr a', db')
    \<and> one_chunk db' i a' n (add_slice (new_owned 0 EMPTY_SLICE_ID n) ss)"
proof -
  have sz: "n < 2 ^ 64" using n by (simp add: CHUNK_SIZE_def)
  have grow: "hole_chunk 0 n c \<longleftrightarrow> c = 0" for c
    using n by (cases c) (auto simp: hole_chunk_def)
  have hole: "chunk_hole 0 n 0 = new_owned 0 EMPTY_SLICE_ID n"
    using n by (simp add: chunk_hole_def hole_at_def hole_len_def)
  obtain db' where "do_truncate kv cd ctx i n True 0 0 db = (Inr (update_length n 0 0 a), db')"
    and t: "truncated cd (content db) i 0 n (\<lambda>c. if c = 0 then ss else []) (content db')"
    and "v_attr cd (content db') i = Some (update_length n 0 0 a)"
    using do_truncate_effect [of db i a True ctx n "\<lambda>c. if c = 0 then ss else []" 0 0] f n sz
    by (auto simp: one_chunk_def)
  moreover have "chunk_holds cd (content db') i c (if c = 0 then add_slice (new_owned 0 EMPTY_SLICE_ID n) ss else [])" for c
    using t unfolding truncated_def grow by (cases "c = 0") (auto simp: hole dest: spec [of _ c])
  ultimately show ?thesis using f by (auto simp: one_chunk_def)
qed

lemma shrink_one_chunk:
  assumes f: "one_chunk db i a n ss" and n: "0 < n" "n \<le> CHUNK_SIZE"
  shows "\<exists>a' db'. do_truncate kv cd ctx i 0 True 0 0 db = (Inr a', db') \<and> one_chunk db' i a' 0 ss"
proof -
  have sz: "n < 2 ^ 64" using n by (simp add: CHUNK_SIZE_def)
  obtain db' where run: "do_truncate kv cd ctx i 0 True 0 0 db = (Inr (update_length 0 0 0 a), db')"
    and t: "truncated cd (content db) i n 0 (\<lambda>c. if c = 0 then ss else []) (content db')"
    and A: "v_attr cd (content db') i = Some (update_length 0 0 0 a)"
    using do_truncate_effect [of db i a True ctx 0 "\<lambda>c. if c = 0 then ss else []" 0 0] f n sz
    by (auto simp: one_chunk_def)
  have "\<forall>c. chunk_holds cd (content db') i c (if c = 0 then ss else [])"
    using t by (simp add: truncated_def hole_chunk_def)
  then show ?thesis using run A f by (simp add: one_chunk_def)
qed

lemma write_one_chunk:
  assumes f: "one_chunk db i a n ss" and s: "slice_wf s" "slice_end 0 s \<le> n"
  shows "\<exists>r a' db'. commit_slice kv cd i 0 s 0 0 db = (Inr r, db') \<and> one_chunk db' i a' n (add_slice s ss)"
proof -
  have hold: "\<And>c. chunk_holds cd (content db) i c (if c = 0 then ss else [])"
    using f by (simp add: one_chunk_def)
  have h0: "chunk_holds cd (content db) i 0 ss" using hold [of 0] by simp
  obtain r db' where run: "commit_slice kv cd i 0 s 0 0 db = (Inr r, db')"
    and C: "v_chunk (content db') = (v_chunk (content db))((i, 0) := Some (chunk_enc cd (add_slice s ss)))"
    and A: "v_attr cd (content db') = (v_attr cd (content db))(i \<mapsto> commit_attr 0 s (s \<notin> set ss) 0 0 a)"
    using commit_slice_effect [of db i a 0 ss s 0 0] f h0 s(1) by (fastforce simp: one_chunk_def attr_is_file_def)
  have "chunk_holds cd (content db') i c (if c = 0 then add_slice s ss else [])" for c
    using hold [of c] h0 add_slice_wf [OF s(1), of ss] by (auto simp: chunk_holds_def C)
  then show ?thesis using run f A s(2) by (auto simp: one_chunk_def max_def)
qed

lemma shrink_then_grow:
  assumes f: "one_chunk db i a 0 []" and n: "0 < n" "n \<le> CHUNK_SIZE" and s: "s = new_owned 0 sid n" "sid < 2 ^ 64"
  shows "\<exists>a1 db1 r db2 a3 db3 a4 db4. do_truncate kv cd ctx i n True 0 0 db = (Inr a1, db1)
    \<and> commit_slice kv cd i 0 s 0 0 db1 = (Inr r, db2)
    \<and> do_truncate kv cd ctx i 0 True 0 0 db2 = (Inr a3, db3) \<and> a_length a3 = 0
    \<and> do_truncate kv cd ctx i n True 0 0 db3 = (Inr a4, db4) \<and> a_length a4 = n
    \<and> get_chunk_slices kv cd i 0 db4 = Inr (add_slice s [new_owned 0 EMPTY_SLICE_ID n])"
proof -
  let ?H = "new_owned 0 EMPTY_SLICE_ID n"
  obtain a1 db1 where 1: "do_truncate kv cd ctx i n True 0 0 db = (Inr a1, db1)" "one_chunk db1 i a1 n [?H]"
    using grow_one_chunk [OF f n, of ctx] by (auto simp: add_slice_def)
  have "slice_wf s" "slice_end 0 s \<le> n"
    using s n by (simp_all add: new_owned_wf slice_end_def new_owned_def CHUNK_SIZE_def)
  then obtain r a2 db2 where 2: "commit_slice kv cd i 0 s 0 0 db1 = (Inr r, db2)" "one_chunk db2 i a2 n (add_slice s [?H])"
    using write_one_chunk [OF 1(2)] by blast
  obtain a3 db3 where 3: "do_truncate kv cd ctx i 0 True 0 0 db2 = (Inr a3, db3)" "one_chunk db3 i a3 0 (add_slice s [?H])"
    using shrink_one_chunk [OF 2(2) n] by blast
  obtain a4 db4 where 4: "do_truncate kv cd ctx i n True 0 0 db3 = (Inr a4, db4)"
    "one_chunk db4 i a4 n (add_slice ?H (add_slice s [?H]))"
    using grow_one_chunk [OF 3(2) n] by blast
  have "add_slice ?H (add_slice s [?H]) = add_slice s [?H]" by (auto simp: add_slice_def)
  then have "chunk_holds cd (content db4) i 0 (add_slice s [?H])" using 4(2) by (auto simp: one_chunk_def dest: spec [of _ 0])
  then show ?thesis
    using 1(1) 2(1) 3 4 by (simp add: get_chunk_slices_holds one_chunk_def)
qed

end

text \<open>C28. An empty file that is extended, written, cut to nothing and extended again to the same
  length shows the bytes written before the cut: the second hole equals the first one, which is
  still in the chunk's list below the written slice, so it is not appended again.\<close>

theorem truncation_reexposes_data:
  assumes "reliable_meta kv content cd"
    and "v_attr cd (content db) i = Some a" and "a_kind a = RegularFile" and "attr_is_normal a"
    and "a_length a = 0" and "\<And>c. chunk_holds cd (content db) i c []"
    and "0 < n" and "n \<le> CHUNK_SIZE" and "0 < sid" and "sid < 2 ^ 64" and "p < n"
  shows "\<exists>a1 db1 r db2 a3 db3 a4 db4 ss. do_truncate kv cd ctx i n True 0 0 db = (Inr a1, db1)
    \<and> commit_slice kv cd i 0 (new_owned 0 sid n) 0 0 db1 = (Inr r, db2)
    \<and> do_truncate kv cd ctx i 0 True 0 0 db2 = (Inr a3, db3) \<and> a_length a3 = 0
    \<and> do_truncate kv cd ctx i n True 0 0 db3 = (Inr a4, db4) \<and> a_length a4 = n
    \<and> get_chunk_slices kv cd i 0 db4 = Inr ss \<and> visible_slice ss p = Some (new_owned 0 sid n)"
proof -
  let ?s = "new_owned 0 sid n"
  have n: "n < 2 ^ 32" using assms(8) by (simp add: CHUNK_SIZE_def)
  have vis: "visible_slice (add_slice ?s [new_owned 0 EMPTY_SLICE_ID n]) p = Some ?s"
    using assms(9,11) n by (simp add: visible_slice_def add_slice_def slice_covers_def new_owned_def EMPTY_SLICE_ID_def)
  have "reliable_meta.one_chunk content cd db i a 0 []"
    using assms by (simp add: reliable_meta.one_chunk_def)
  from reliable_meta.shrink_then_grow [OF assms(1) this assms(7,8) refl assms(10), of ctx] vis
  show ?thesis by blast
qed

theorem truncation_reexposes_data_witness:
  "\<exists>a1 db1 r db2 a3 db3 a4 db4 ss. do_truncate alist_kv text_codec demo_ctx 2 100 True 0 0 demo_db = (Inr a1, db1)
    \<and> commit_slice alist_kv text_codec 2 0 (new_owned 0 7 100) 0 0 db1 = (Inr r, db2)
    \<and> do_truncate alist_kv text_codec demo_ctx 2 0 True 0 0 db2 = (Inr a3, db3) \<and> a_length a3 = 0
    \<and> do_truncate alist_kv text_codec demo_ctx 2 100 True 0 0 db3 = (Inr a4, db4) \<and> a_length a4 = 100
    \<and> get_chunk_slices alist_kv text_codec 2 0 db4 = Inr ss \<and> visible_slice ss 50 = Some (new_owned 0 7 100)"
proof -
  have "v_attr text_codec (map_of demo_db) 2 = Some demo_file" "a_kind demo_file = RegularFile"
    "a_length demo_file = 0"
    by (simp_all add: demo_attr_view demo_file_def attr_default_def)
  then show ?thesis
    using demo_chunks by (intro truncation_reexposes_data [OF rmeta.reliable_meta_axioms]) (simp_all add: CHUNK_SIZE_def)
qed

section \<open>Identifiers\<close>



section \<open>Slice lists and block keys\<close>

text \<open>C34. The range map \<^verbatim>\<open>overlook\<close> builds from a chunk's slice list shows at every position the
  last slice of the list that covers it.\<close>

theorem overlook_shows_last_writer:
  assumes "range_map ops valid" and "overlook ops ss = Some rm"
  shows "rm_get ops rm p = visible_slice ss p"
  using assms by (rule overlook_get(2))

theorem overlook_shows_last_writer_witness:
  "\<exists>rm. overlook seg_ops [new_owned 0 7 100, new_owned 40 8 20] = Some rm
     \<and> rm_get seg_ops rm 50 = Some (new_owned 40 8 20)"
proof -
  obtain rm where rm: "overlook seg_ops [new_owned 0 7 100, new_owned 40 8 20] = Some rm"
    by (simp add: overlook_def new_owned_def)
  with overlook_shows_last_writer [OF seg.range_map_axioms rm, of 50] show ?thesis
    by (simp add: visible_slice_def slice_covers_def new_owned_def)
qed

text \<open>A list of slices that fit their fields, encoded one after the other, decodes to itself.\<close>

lemma slice_list_roundtrip:
  assumes "slice_codec enc dec" and "list_all slice_wf ss"
  shows "slices_decode dec (concat (map enc ss)) = Inr ss"
  using slice_codec.slices_decode_encode [OF assms] slice_codec.encode_all_def [OF assms(1)] by simp

text \<open>C35. The object path of a block key parses back to that key, and every string that parses
  is the object path of the key it yields.\<close>

theorem slice_key_roundtrip:
  "(sk_slice_id k < 2 ^ 64 \<and> sk_block_idx k < 2 ^ 64 \<and> sk_block_size k < 2 ^ 64 \<longrightarrow>
      slice_key_from_str (gen_path_for_object_sto k) = Inr k)
   \<and> (slice_key_from_str str = Inr k' \<longrightarrow> gen_path_for_object_sto k' = str)"
  using slice_key_from_str_path slice_key_from_str_canonical by blast

theorem slice_key_roundtrip_witness:
  "slice_key_from_str (gen_path_for_object_sto (slice_key_new 123456789 3 4194304)) = Inr (slice_key_new 123456789 3 4194304)"
  using slice_key_roundtrip [of "slice_key_new 123456789 3 4194304"] by (simp add: slice_key_new_def)

end
