(* ===== verification/Engine_Theorems.thy ===== *)
theory Engine_Theorems
  imports Data_Theorems
begin

text \<open>
  Properties of the engine's policies: who may change attributes and open files, what the cache
  of open files counts and when it is consulted, what re-formatting may change, and the bounds of
  the alignment helpers.
\<close>

section \<open>Attributes\<close>

lemma flags_contains_or: "flags_contains f (a OR b) \<longleftrightarrow> flags_contains f a \<and> flags_contains f b"
  unfolding flags_contains_def by (auto simp: bit_eq_iff bit_simps)

lemma merge_suid_foreign: "\<not> flags_contains flags SAF_GID \<Longrightarrow> merge_suid ctx flags cur st = st"
  by (simp add: merge_suid_def flags_contains_or)

lemma merge_gid_foreign:
  "merge_gid ctx flags cur st = Inr st' \<Longrightarrow> cx_uid ctx \<noteq> 0 \<Longrightarrow> cx_uid ctx \<noteq> a_uid cur \<Longrightarrow>
   \<not> flags_contains flags SAF_GID \<and> st' = st"
  by (auto simp: merge_gid_def rbind_ensure split: if_splits)

definition guarded :: "inode_attr \<Rightarrow> inode_attr \<Rightarrow> bool" where
  "guarded cur d \<longleftrightarrow> a_uid d = a_uid cur \<and> a_gid d = a_gid cur
    \<and> a_mode d AND 0x3ff = a_mode cur AND 0x3ff
    \<and> a_mode d AND 0x400 \<le> a_mode cur AND 0x400 \<and> a_mode d AND 0x800 \<le> a_mode cur AND 0x800"

lemma merge_foreign_stages:
  assumes "cx_uid ctx \<noteq> 0" "cx_uid ctx \<noteq> a_uid cur" "guarded cur (ms_dirty st)"
  shows "merge_uid ctx flags cur st = Inr st' \<Longrightarrow> guarded cur (ms_dirty st')"
    and "merge_mode ctx flags cur st = Inr st' \<Longrightarrow> guarded cur (ms_dirty st')"
    and "merge_atime ctx flags cur now st = Inr st' \<Longrightarrow> guarded cur (ms_dirty st')"
    and "merge_mtime ctx flags cur now st = Inr st' \<Longrightarrow> guarded cur (ms_dirty st')"
    and "guarded cur (ms_dirty (merge_flag flags st))"
  using assms
  by (auto simp: guarded_def merge_uid_def merge_mode_def merge_atime_def merge_mtime_def merge_flag_def
      rbind_ensure Let_def not_less split: if_splits)

text \<open>C30. A caller who is neither root nor the owner cannot change the owner or the group, cannot
  change permission bits or the sticky bit, and can at most drop the set-id bits.\<close>

theorem foreign_caller_cannot_chown_chmod:
  assumes merge: "merge_attr ctx flags cur new now = Inr (dirty, new')"
    and ctx: "cx_uid ctx \<noteq> 0" "cx_uid ctx \<noteq> a_uid cur"
  shows "a_uid dirty = a_uid cur \<and> a_gid dirty = a_gid cur
    \<and> a_mode dirty AND 0x3ff = a_mode cur AND 0x3ff
    \<and> a_mode dirty AND 0x400 \<le> a_mode cur AND 0x400 \<and> a_mode dirty AND 0x800 \<le> a_mode cur AND 0x800"
proof -
  define st0 where "st0 = merge_suid ctx flags cur \<lparr> ms_dirty = cur, ms_new = new, ms_changed = False \<rparr>"
  from merge obtain st1 st2 st3 st4 st5 where
    st: "merge_gid ctx flags cur st0 = Inr st1" "merge_uid ctx flags cur st1 = Inr st2"
      "merge_mode ctx flags cur st2 = Inr st3" "merge_atime ctx flags cur now st3 = Inr st4"
      "merge_mtime ctx flags cur now st4 = Inr st5"
    and d: "dirty = (if ms_changed (merge_flag flags st5) then ms_dirty (merge_flag flags st5) else cur)"
    by (auto simp: merge_attr_def rbind_eq_Inr Let_def st0_def)
  note gid = merge_gid_foreign [OF st(1) ctx] and stages = merge_foreign_stages [OF ctx]
  have "ms_dirty st1 = cur" using gid by (simp add: st0_def merge_suid_foreign)
  then have "guarded cur (ms_dirty st1)" by (simp add: guarded_def)
  from stages(1) [OF this st(2)] have "guarded cur (ms_dirty st2)" .
  from stages(2) [OF this st(3)] have "guarded cur (ms_dirty st3)" .
  from stages(3) [OF this st(4)] have "guarded cur (ms_dirty st4)" .
  from stages(4) [OF this st(5)] have "guarded cur (ms_dirty (merge_flag flags st5))" by (rule stages(5))
  then have "guarded cur dirty" by (simp add: d guarded_def)
  then show ?thesis by (simp add: guarded_def)
qed

theorem foreign_caller_cannot_chown_chmod_witness:
  "\<exists>dirty new'. merge_attr background SAF_MODE (demo_file\<lparr>a_mode := 0x9ff\<rparr>) (demo_file\<lparr>a_mode := 0x1ff\<rparr>) 0 = Inr (dirty, new')
     \<and> a_mode dirty AND 0x3ff = 0x1ff \<and> a_mode dirty AND 0x800 \<le> 0x800"
proof -
  let ?cur = "demo_file\<lparr>a_mode := 0x9ff\<rparr>" and ?new = "demo_file\<lparr>a_mode := 0x1ff\<rparr>"
  have "\<exists>dirty new'. merge_attr background SAF_MODE ?cur ?new 0 = Inr (dirty, new')"
    by (simp add: merge_attr_def merge_suid_def merge_gid_def merge_uid_def merge_mode_def merge_atime_def
        merge_mtime_def merge_flag_def rbind_ensure Let_def flags_contains_def background_def demo_file_def
        attr_default_def SAF_MODE_def SAF_UID_def SAF_GID_def SAF_ATIME_NOW_def SAF_ATIME_def SAF_MTIME_NOW_def
        SAF_MTIME_def SAF_FLAG_def)
  then obtain dirty new' where "merge_attr background SAF_MODE ?cur ?new 0 = Inr (dirty, new')" by blast
  with foreign_caller_cannot_chown_chmod [OF this] show ?thesis
    by (auto simp: background_def demo_file_def attr_default_def)
qed

section \<open>Opening files\<close>



text \<open>C32. With the attribute cache on, whoever opens a file that is in the cache and was checked
  recently gets it, whatever the mode bits and the inode's flags say.\<close>

theorem cached_open_skips_permission:
  assumes "ofs_files (me_open_files s) i = Some f" and "of_last_check f \<le> clk 0"
    and "clk 0 < of_last_check f + int (ofs_ttl (me_open_files s))"
    and "mc_open_cache (me_config s) \<noteq> 0" and "\<not> mc_read_only (me_config s)"
  shows "fst (open_inode kv cd clk ctx i flags s) = Inr (of_attr f)"
  using assms
  by (simp add: open_inode_def sbind_def sget_def slift_def sret_def open_files_op_def szoom_def ofs_load_attr_def
      of_fresh_def duration_since_def nat_less_iff)

definition demo_cached :: "alist_db meta_engine" where
  "demo_cached = (case engine_open alist_kv text_codec ((meta_config_default ''/tmp/meta'')\<lparr>mc_open_cache := 10\<rparr>) demo_db of
     Inr s \<Rightarrow> s\<lparr>me_open_files := snd (ofs_open 0 2 (demo_file\<lparr>a_mode := 0\<rparr>) (me_open_files s))\<rparr>)"

theorem cached_open_skips_permission_witness:
  "fst (open_inode alist_kv text_codec (\<lambda>_. 5) background 2 O_RDWR demo_cached)
     = Inr (demo_file\<lparr>a_mode := 0, a_keep_cache := True\<rparr>)"
proof -
  obtain s where "engine_open alist_kv text_codec (meta_config_default ''/tmp/meta'') demo_db = Inr s"
    by (rule demo_open)
  then have c: "ofs_files (me_open_files demo_cached) 2 = Some \<lparr> of_attr = demo_file\<lparr>a_mode := 0, a_keep_cache := True\<rparr>,
      of_reference_count = 1, of_last_check = 0, of_chunks = (\<lambda>_. None) \<rparr>"
    "ofs_ttl (me_open_files demo_cached) = 10" "mc_open_cache (me_config demo_cached) = 10"
    "\<not> mc_read_only (me_config demo_cached)"
    by (auto simp: demo_cached_def engine_open_def rbind_eq_Inr meta_config_default_def open_files_new_def
        ofs_open_def Let_def)
  then show ?thesis
    using cached_open_skips_permission [OF c(1), of "\<lambda>_. 5"] by simp
qed

section \<open>Holders of open files\<close>

definition holder_step :: "systime \<Rightarrow> inode_attr \<Rightarrow> bool \<times> ino \<Rightarrow> open_files \<Rightarrow> open_files" where
  "holder_step now a = (\<lambda>(opn, i) fs. if opn then snd (ofs_open now i a fs) else snd (ofs_close i fs))"

lemma holder_run: "fold (holder_step now a) es fs = ofc.run now a es fs"
  unfolding ofc.run_def holder_step_def by (rule fold_cong) (auto simp: fun_eq_iff)



section \<open>Formats\<close>

context reliable_meta
begin

lemma set_format_ok: "\<exists>db'. set_format kv cd fmt db = (Inr (), db') \<and> load_format kv cd db' = Inr fmt"
proof -
  obtain buf where buf: "enc_format cd fmt = Some buf" using format_enc by blast
  obtain db' where w: "kv_write kv [BPut CURRENT_FORMAT buf] db = Some db'" using write_ok by blast
  then show ?thesis
    using buf format_dec [OF buf] write_content [OF w]
    by (simp add: set_format_def put_value_def db_put_def load_format_def get_eq)
qed

end

text \<open>C36. Formatting a volume that has a format is refused without \<^verbatim>\<open>force\<close>; with it, a format of
  another chunk, block or page size is refused, and otherwise the stored format changes only in
  its mutable fields: its layout stays.\<close>

theorem reformat_keeps_layout:
  assumes "reliable_meta kv content cd" and "load_format kv cd db = Inr stored"
  shows "\<exists>r db'. update_format kv cd fmt force now db = (r, db')
    \<and> (if \<not> force then r = Inl AlreadyInitialized \<and> db' = db
       else if f_chunk_size stored \<noteq> f_chunk_size fmt \<or> f_block_size stored \<noteq> f_block_size fmt
               \<or> f_page_size stored \<noteq> f_page_size fmt
       then (\<exists>fld x y. r = Inl (IncompatibleFormat fld x y)) \<and> db' = db
       else r = Inr () \<and> (\<exists>fmt'. load_format kv cd db' = Inr fmt' \<and> layout_mismatch stored fmt' = None))"
proof (cases "layout_mismatch stored fmt")
  case None
  then show ?thesis
    using reliable_meta.set_format_ok [OF assms(1), of "merge_mutable_from stored fmt" db] assms(2) layout_mismatch_None [of stored fmt]
    by (auto simp: update_format_def)
next
  case (Some mm)
  then show ?thesis using assms(2) layout_mismatch_None [of stored fmt] by (auto simp: update_format_def)
qed

theorem reformat_keeps_layout_witness:
  "\<exists>db'. update_format alist_kv text_codec (format_default\<lparr>f_name := ''vol''\<rparr>) True 0 demo_db = (Inr (), db')
    \<and> (\<exists>fmt'. load_format alist_kv text_codec db' = Inr fmt' \<and> layout_mismatch format_default fmt' = None)"
proof -
  from reformat_keeps_layout [OF rmeta.reliable_meta_axioms demo_format, of "format_default\<lparr>f_name := ''vol''\<rparr>" True 0]
  show ?thesis by simp
qed

section \<open>Alignment\<close>

lemma sint_small: "m < 2 ^ 63 \<Longrightarrow> sint (of_nat m :: 64 word) = int m"
  by (simp add: signed_of_nat signed_take_bit_int_eq_self)

text \<open>\<^verbatim>\<open>align4k\<close> rounds a positive length below 2^63 - 4096 up to the next multiple of 4096.\<close>

lemma align4k_rounds_up:
  assumes "0 < n" and "n + 4096 < 2 ^ 63"
  shows "align4k (of_nat n) = int ((n + 4095) div 4096 * 4096)"
proof -
  let ?w = "of_nat n :: 64 word" and ?m = "((n - 1) div 4096 + 1) * 4096"
  have lt: "n < 2 ^ 64" using assms(2) by simp
  have u: "unat ?w = n" using lt by (simp add: unat_of_nat take_bit_nat_eq_self)
  have "?w \<noteq> 0" using u assms(1) by auto
  moreover have "?w - 1 = of_nat (n - 1)" using assms(1) by simp
  moreover have "(of_nat (n - 1) :: 64 word) div 4096 = of_nat ((n - 1) div 4096)"
    using lt by (intro word_unat_eq_iff [THEN iffD2]) (simp add: unat_div_distrib unat_of_nat take_bit_nat_eq_self)
  ultimately have eq: "align4k ?w = sint (of_nat ?m :: 64 word)"
    unfolding align4k_def Let_def by (simp add: add.commute [of 4096])
  have "n + 4095 = n - 1 + 4096" using assms(1) by simp
  then have m: "?m = (n + 4095) div 4096 * 4096" by (simp only: div_add_self2)
  have "?m < 2 ^ 63" using assms(2) m by linarith
  then have "sint (of_nat ?m :: 64 word) = int ?m" by (rule sint_small)
  then show ?thesis using eq m by simp
qed

text \<open>C40. \<^verbatim>\<open>align_to_block\<close> yields a power of two between the smallest and the largest block size,
  and within these bounds at most the size and more than half of it.\<close>

theorem align_to_block_bounds:
  "MIN_BLOCK_SIZE \<le> align_to_block n \<and> align_to_block n \<le> MAX_BLOCK_SIZE \<and> (\<exists>k. align_to_block n = 2 ^ k)
   \<and> (MIN_BLOCK_SIZE \<le> n \<and> n \<le> MAX_BLOCK_SIZE \<longrightarrow> align_to_block n \<le> n \<and> n < 2 * align_to_block n)"
proof (cases "n = 0")
  case True
  then show ?thesis
    by (auto simp: align_to_block_zero MIN_BLOCK_SIZE_def MAX_BLOCK_SIZE_def PAGE_SIZE_def intro: exI [of _ 17])
next
  case False
  then obtain k where k: "align_loop n 0 = (1, k)" "2 ^ k \<le> n" "n < 2 * 2 ^ k"
    using align_loop_power [of n 0] by auto
  have "align_to_block n = (if 2 ^ k < MIN_BLOCK_SIZE then 2 ^ 17 else if MAX_BLOCK_SIZE < 2 ^ k then 2 ^ 24 else 2 ^ k)"
    by (simp add: align_to_block_def k(1) Let_def MIN_BLOCK_SIZE_def PAGE_SIZE_def MAX_BLOCK_SIZE_def)
  moreover have "\<exists>j. 2 ^ j = (131072 :: nat)" "\<exists>j. 2 ^ j = (16777216 :: nat)"
    by (rule exI [of _ 17], simp, rule exI [of _ 24], simp)
  ultimately show ?thesis
    using k(2,3) by (auto simp: MIN_BLOCK_SIZE_def PAGE_SIZE_def MAX_BLOCK_SIZE_def)
qed

theorem align_to_block_bounds_witness:
  "align_to_block 200000 \<le> 200000 \<and> 200000 < 2 * align_to_block 200000"
  using align_to_block_bounds [of 200000] by (simp add: MIN_BLOCK_SIZE_def PAGE_SIZE_def MAX_BLOCK_SIZE_def)

end
