(* ===== verification/Storage_Base.thy ===== *)
theory Storage_Base
  imports Effects Slices
begin

text \<open>
  Shared ground of the storage crate (\<^verbatim>\<open>src/components/storage\<close>): its error type
  (\<^verbatim>\<open>err.rs\<close>, without the human-readable texts and source locations), byte strings, and the
  interface of the object store (\<^verbatim>\<open>utils/src/object_storage.rs\<close>, a thin wrapper over the
  \<^verbatim>\<open>object_store\<close> crate) as a record of operations on an abstract store state. The locale
  \<open>object_store\<close> states what that crate documents, and \<open>alist_store\<close> is an instance.
\<close>

named_theorems storage_simps \<open>unfolding rules of the storage operations\<close>

section \<open>Errors\<close>

datatype object_error = ObjNotFound | ObjOther

datatype storage_error =
  ObjectStorageError object_error
| CacheError
| UnknownIOError
| JoinErr
| FlushBlockFailed
| InvalidSliceBufferWriteOffset
| InvalidRange string nat nat nat
| InvalidPagePoolConfig nat nat
| MissingDiskPagePoolPath
| PagePoolExhausted
| UnexpectedLength string nat nat
| DiskPoolMmapError
| ErrStageNoMoreSpace string
| StoragePanicked \<comment> \<open>a panic of the code itself: a failed \<^verbatim>\<open>unwrap\<close> or \<^verbatim>\<open>expect\<close>\<close>

type_synonym 'a sresult = "storage_error + 'a"

definition is_not_found_error :: "object_error \<Rightarrow> bool" where
  "is_not_found_error e = (e = ObjNotFound)"

definition storage_is_not_found :: "storage_error \<Rightarrow> bool" where
  "storage_is_not_found e = (case e of ObjectStorageError source \<Rightarrow> is_not_found_error source | _ \<Rightarrow> False)"

definition is_no_space :: "storage_error \<Rightarrow> bool" where
  "is_no_space e = (case e of PagePoolExhausted \<Rightarrow> True | ErrStageNoMoreSpace _ \<Rightarrow> True | _ \<Rightarrow> False)"

text \<open>snafu's \<^verbatim>\<open>context\<close> on a call of the object store.\<close>

definition obj_context :: "object_error + 'a \<Rightarrow> 'a sresult" where
  "obj_context r = (case r of Inl e \<Rightarrow> Inl (ObjectStorageError e) | Inr x \<Rightarrow> Inr x)"

lemma obj_context_simps [simp]:
  "obj_context (Inl e) = Inl (ObjectStorageError e)"
  "obj_context (Inr x) = Inr x"
  by (simp_all add: obj_context_def)

lemma obj_context_Inr: "obj_context r = Inr x \<longleftrightarrow> r = Inr x"
  by (cases r) simp_all

section \<open>Bytes\<close>

definition zero_byte :: char where
  "zero_byte = CHR 0x00"

definition zeros :: "nat \<Rightarrow> bytes" where
  "zeros n = replicate n zero_byte"

text \<open>Bytes written over a buffer from an offset on: \<^verbatim>\<open>buf[off..off + d.len()].copy_from_slice(d)\<close>.\<close>

definition overwrite :: "nat \<Rightarrow> bytes \<Rightarrow> bytes \<Rightarrow> bytes" where
  "overwrite off d buf = take off buf @ d @ drop (off + length d) buf"

text \<open>\<^verbatim>\<open>&buf[off..off + n]\<close>.\<close>

definition sub_bytes :: "nat \<Rightarrow> nat \<Rightarrow> bytes \<Rightarrow> bytes" where
  "sub_bytes off n buf = take n (drop off buf)"

text \<open>\<^verbatim>\<open>usize\<close> subtraction of the release profile.\<close>

definition wrap_sub64 :: "nat \<Rightarrow> nat \<Rightarrow> nat" where
  "wrap_sub64 a b = (a + (2 ^ 64 - b mod 2 ^ 64)) mod 2 ^ 64"

lemma length_zeros [simp]: "length (zeros n) = n"
  by (simp add: zeros_def)

lemma nth_zeros [simp]: "i < n \<Longrightarrow> zeros n ! i = zero_byte"
  by (simp add: zeros_def)

lemma length_overwrite [simp]: "off + length d \<le> length buf \<Longrightarrow> length (overwrite off d buf) = length buf"
  by (simp add: overwrite_def)

lemma nth_overwrite:
  assumes "off + length d \<le> length buf" "i < length buf"
  shows "overwrite off d buf ! i = (if off \<le> i \<and> i < off + length d then d ! (i - off) else buf ! i)"
  using assms by (auto simp: overwrite_def nth_append)

lemma length_sub_bytes [simp]: "off + n \<le> length buf \<Longrightarrow> length (sub_bytes off n buf) = n"
  by (simp add: sub_bytes_def)

lemma nth_sub_bytes [simp]: "off + n \<le> length buf \<Longrightarrow> i < n \<Longrightarrow> sub_bytes off n buf ! i = buf ! (off + i)"
  by (simp add: sub_bytes_def)

lemma sub_bytes_zero [simp]: "sub_bytes off 0 buf = []"
  by (simp add: sub_bytes_def)

lemma sub_bytes_append: "sub_bytes off (n + m) buf = sub_bytes off n buf @ sub_bytes (off + n) m buf"
  by (simp add: sub_bytes_def take_add add.commute [of off n])

lemma wrap_sub64_id [simp]: "b \<le> a \<Longrightarrow> a < 2 ^ 64 \<Longrightarrow> wrap_sub64 a b = a - b"
proof -
  assume a: "b \<le> a" "a < 2 ^ 64"
  then have eq: "a + (2 ^ 64 - b mod 2 ^ 64) = (a - b) + 2 ^ 64" by simp
  have "a - b < 2 ^ 64" using a by simp
  then show ?thesis unfolding wrap_sub64_def eq by (simp only: mod_add_self2 mod_less)
qed

section \<open>The object store\<close>

text \<open>
  \<open>os_write\<close> is a whole object streamed through \<^verbatim>\<open>ObjectStorage::writer\<close>: the writes, the
  flush and the shutdown; \<open>None\<close> is an I/O error of any of them. \<open>os_path_ok\<close> is
  \<^verbatim>\<open>ObjectStoragePath::parse\<close>.
\<close>

record 'o object_ops =
  os_path_ok :: "string \<Rightarrow> bool"
  os_get :: "'o \<Rightarrow> string \<Rightarrow> object_error + bytes"
  os_write :: "string \<Rightarrow> bytes \<Rightarrow> 'o \<Rightarrow> 'o option"
  os_delete :: "string \<Rightarrow> 'o \<Rightarrow> object_error + 'o"

text \<open>
  Documented behaviour: a written object replaces the previous one and no other; a failed write
  publishes nothing; a read returns the object, reports its absence, or fails; a successful delete
  removes the object only.
\<close>

locale object_store =
  fixes ops :: "'o object_ops" and objects :: "'o \<Rightarrow> string \<Rightarrow> bytes option"
  assumes get_Inr: "os_get ops st p = Inr d \<Longrightarrow> objects st p = Some d"
    and get_missing: "os_get ops st p = Inl ObjNotFound \<Longrightarrow> objects st p = None"
    and write_Some: "os_write ops p d st = Some st' \<Longrightarrow> objects st' = (objects st)(p \<mapsto> d)"
    and delete_Inr: "os_delete ops p st = Inr st' \<Longrightarrow> objects st' = (objects st)(p := None)"

text \<open>A store whose calls do not fail.\<close>

locale reliable_object_store = object_store +
  assumes get_total: "os_get ops st p = (case objects st p of None \<Rightarrow> Inl ObjNotFound | Some d \<Rightarrow> Inr d)"
    and write_total: "\<exists>st'. os_write ops p d st = Some st'"
    and delete_total: "objects st p = Some d \<Longrightarrow> \<exists>st'. os_delete ops p st = Inr st'"

definition alist_store :: "(string \<times> bytes) list object_ops" where
  "alist_store = \<lparr>
     os_path_ok = (\<lambda>_. True),
     os_get = (\<lambda>st p. case map_of st p of None \<Rightarrow> Inl ObjNotFound | Some d \<Rightarrow> Inr d),
     os_write = (\<lambda>p d st. Some ((p, d) # filter (\<lambda>(q, _). q \<noteq> p) st)),
     os_delete = (\<lambda>p st. Inr (filter (\<lambda>(q, _). q \<noteq> p) st)) \<rparr>"

lemma map_of_filter_neq: "map_of (filter (\<lambda>(q, _). q \<noteq> p) xs) = (map_of xs)(p := None)"
  by (induction xs) (auto simp: fun_eq_iff)

interpretation alist_sto: reliable_object_store alist_store map_of
  by unfold_locales
    (auto simp: alist_store_def map_of_filter_neq split: option.splits)

end
