(* ===== verification/Page_Pool.thy ===== *)
theory Page_Pool
  imports Storage_Base Kiseki_Types
begin

text \<open>
  The page pools of \<^verbatim>\<open>storage/src/pool\<close>: a queue of zeroed memory buffers
  (\<^verbatim>\<open>memory_pool.rs\<close>), a queue of page numbers of a memory-mapped file (\<^verbatim>\<open>disk_pool.rs\<close>), and
  the hybrid of both behind one page type (\<^verbatim>\<open>mod.rs\<close>). crossbeam's \<^verbatim>\<open>ArrayQueue\<close> and fmmap's
  mapped file are parameters. A memory page is its buffer; a disk page is its number, and its
  bytes are in the pool's file. Waiting on the notifier is a call that returns \<open>None\<close>.

  The \<open>Drop\<close> of a page is the explicit operation \<open>page_drop\<close>. The pool outlives its pages: every
  slice buffer holds a reference to it.
\<close>

section \<open>Parameters\<close>

text \<open>crossbeam \<^verbatim>\<open>ArrayQueue\<close>: bounded and first-in first-out; a push on a full queue is refused.\<close>

record ('q, 'a) queue_ops =
  aq_new :: "nat \<Rightarrow> 'q"
  aq_push :: "'a \<Rightarrow> 'q \<Rightarrow> 'q option"
  aq_pop :: "'q \<Rightarrow> ('a \<times> 'q) option"
  aq_len :: "'q \<Rightarrow> nat"

locale array_queue =
  fixes qo :: "('q, 'a) queue_ops" and items :: "'q \<Rightarrow> 'a list" and cap :: "'q \<Rightarrow> nat"
  assumes new_items: "0 < n \<Longrightarrow> items (aq_new qo n) = [] \<and> cap (aq_new qo n) = n"
    and push_items: "length (items q) < cap q \<Longrightarrow>
           \<exists>q'. aq_push qo x q = Some q' \<and> items q' = items q @ [x] \<and> cap q' = cap q"
    and push_full: "cap q \<le> length (items q) \<Longrightarrow> aq_push qo x q = None"
    and pop_empty: "items q = [] \<Longrightarrow> aq_pop qo q = None"
    and pop_items: "items q = x # xs \<Longrightarrow>
           \<exists>q'. aq_pop qo q = Some (x, q') \<and> items q' = xs \<and> cap q' = cap q"
    and len_items: "aq_len qo q = length (items q)"

text \<open>The mapped file: \<^verbatim>\<open>open_mmap_file_mut\<close> with truncation, \<^verbatim>\<open>truncate\<close>, and copying
  through \<^verbatim>\<open>range_reader\<close>/\<^verbatim>\<open>range_writer\<close> at an offset.\<close>

record 'f mmap_ops =
  mm_open :: "string \<Rightarrow> nat \<Rightarrow> 'f option"
  mm_truncate :: "nat \<Rightarrow> 'f \<Rightarrow> 'f option"
  mm_read :: "nat \<Rightarrow> nat \<Rightarrow> 'f \<Rightarrow> bytes option"
  mm_write :: "nat \<Rightarrow> bytes \<Rightarrow> 'f \<Rightarrow> 'f option"

locale mmap_file =
  fixes mo :: "'f mmap_ops" and contents :: "'f \<Rightarrow> bytes"
  assumes truncate_len: "mm_truncate mo n f = Some f' \<Longrightarrow> length (contents f') = n"
    and read_range: "off + n \<le> length (contents f) \<Longrightarrow> mm_read mo off n f = Some (sub_bytes off n (contents f))"
    and write_range: "off + length d \<le> length (contents f) \<Longrightarrow>
           \<exists>f'. mm_write mo off d f = Some f' \<and> contents f' = overwrite off d (contents f)"

section \<open>The memory pool\<close>

record 'q mem_pool =
  mp_page_size :: nat
  mp_capacity :: nat
  mp_queue :: 'q

definition validate_page_pool_config :: "nat \<Rightarrow> nat \<Rightarrow> unit sresult" where
  "validate_page_pool_config page_size capacity =
     (if page_size = 0 \<or> capacity = 0 \<or> capacity mod page_size \<noteq> 0
      then Inl (InvalidPagePoolConfig page_size capacity) else Inr ())"

fun push_all :: "('q, 'a) queue_ops \<Rightarrow> 'a list \<Rightarrow> 'q \<Rightarrow> 'q sresult" where
  "push_all qo [] q = Inr q"
| "push_all qo (x # xs) q =
     (case aq_push qo x q of None \<Rightarrow> Inl StoragePanicked | Some q' \<Rightarrow> push_all qo xs q')"

definition mem_new :: "('q, bytes) queue_ops \<Rightarrow> nat \<Rightarrow> nat \<Rightarrow> 'q mem_pool sresult" where
  "mem_new qo page_size capacity =
     (if page_size = 0 \<or> capacity = 0 \<or> capacity mod page_size \<noteq> 0
      then Inl (InvalidPagePoolConfig page_size capacity)
      else let page_cnt = capacity div page_size in
        rbind (push_all qo (replicate page_cnt (zeros page_size)) (aq_new qo page_cnt)) (\<lambda>q.
          Inr \<lparr> mp_page_size = page_size, mp_capacity = capacity, mp_queue = q \<rparr>))"

definition mem_try_acquire :: "('q, bytes) queue_ops \<Rightarrow> 'q mem_pool \<Rightarrow> (bytes \<times> 'q mem_pool) option" where
  "mem_try_acquire qo p =
     (case aq_pop qo (mp_queue p) of None \<Rightarrow> None | Some (b, q) \<Rightarrow> Some (b, p\<lparr>mp_queue := q\<rparr>))"

text \<open>One turn of the loop of \<^verbatim>\<open>acquire_page\<close>: \<open>None\<close> waits for the notifier.\<close>

definition mem_acquire :: "('q, bytes) queue_ops \<Rightarrow> 'q mem_pool \<Rightarrow> (bytes \<times> 'q mem_pool) option" where
  "mem_acquire qo p =
     (case aq_pop qo (mp_queue p) of Some (b, q) \<Rightarrow> Some (b, p\<lparr>mp_queue := q\<rparr>) | None \<Rightarrow> None)"

definition mem_recycle :: "('q, bytes) queue_ops \<Rightarrow> bytes \<Rightarrow> 'q mem_pool \<Rightarrow> 'q mem_pool" where
  "mem_recycle qo buffer p =
     (case aq_push qo (zeros (length buffer)) (mp_queue p) of
        Some q \<Rightarrow> p\<lparr>mp_queue := q\<rparr> | None \<Rightarrow> p)"

definition mem_remain :: "('q, bytes) queue_ops \<Rightarrow> 'q mem_pool \<Rightarrow> nat" where
  "mem_remain qo p = aq_len qo (mp_queue p)"

definition mem_total_page_cnt :: "'q mem_pool \<Rightarrow> nat" where
  "mem_total_page_cnt p = mp_capacity p div mp_page_size p"

text \<open>\<^verbatim>\<open>offset.checked_add(length).filter(|end| *end <= bound)\<close>, as both page types have it.\<close>

definition checked_end :: "string \<Rightarrow> nat \<Rightarrow> nat \<Rightarrow> nat \<Rightarrow> nat sresult" where
  "checked_end subject offset len bound =
     (case checked_add64 offset len of
        Some e \<Rightarrow> if e \<le> bound then Inr e else Inl (InvalidRange subject offset len bound)
      | None \<Rightarrow> Inl (InvalidRange subject offset len bound))"

definition mem_checked_range :: "bytes \<Rightarrow> nat \<Rightarrow> nat \<Rightarrow> (nat \<times> nat) sresult" where
  "mem_checked_range page offset len =
     rbind (checked_end ''memory page'' offset len (length page)) (\<lambda>e. Inr (offset, e))"

text \<open>
  Copying a page out yields the bytes handed to the writer; \<^verbatim>\<open>tokio::io::copy\<close> moves the whole
  slice or fails, and the writers the code passes are buffers of that size or object writers, whose
  failures \<open>os_write\<close> carries.
\<close>

definition mem_copy_to_writer :: "bytes \<Rightarrow> nat \<Rightarrow> nat \<Rightarrow> bytes sresult" where
  "mem_copy_to_writer page offset len =
     rbind (mem_checked_range page offset len) (\<lambda>(b, e).
       let slice = sub_bytes b (e - b) page in
       if length slice \<noteq> len then Inl (UnexpectedLength ''memory page write'' len (length slice))
       else Inr slice)"

text \<open>
  Copying into a page from a reader that delivers \<open>d\<close>: the target is the range only, so a longer
  \<open>d\<close> fills it and then fails, and a shorter one is reported after it was copied.
\<close>

definition mem_copy_from_reader :: "bytes \<Rightarrow> nat \<Rightarrow> nat \<Rightarrow> bytes \<Rightarrow> unit sresult \<times> bytes" where
  "mem_copy_from_reader page offset len d =
     (case mem_checked_range page offset len of
        Inl e \<Rightarrow> (Inl e, page)
      | Inr (b, e) \<Rightarrow>
          let page' = overwrite b (take (e - b) d) page in
          if length d > e - b then (Inl UnknownIOError, page')
          else if length d \<noteq> len then (Inl (UnexpectedLength ''memory page read'' len (length d)), page')
          else (Inr (), page'))"

definition mem_page_drop :: "('q, bytes) queue_ops \<Rightarrow> bytes \<Rightarrow> 'q mem_pool \<Rightarrow> 'q mem_pool" where
  "mem_page_drop qo buffer p = mem_recycle qo buffer p"

section \<open>The disk pool\<close>

record ('q, 'f) disk_pool =
  dp_page_size :: nat
  dp_capacity :: nat
  dp_queue :: 'q
  dp_file :: 'f

definition disk_new ::
  "('q, nat) queue_ops \<Rightarrow> 'f mmap_ops \<Rightarrow> string \<Rightarrow> nat \<Rightarrow> nat \<Rightarrow> ('q, 'f) disk_pool sresult" where
  "disk_new qo mo path page_size capacity =
     (if page_size = 0 \<or> capacity = 0 \<or> capacity mod page_size \<noteq> 0
      then Inl (InvalidPagePoolConfig page_size capacity)
      else let cnt = capacity div page_size in
        rbind (ok_or (mm_open mo path capacity) DiskPoolMmapError) (\<lambda>f.
        rbind (ok_or (mm_truncate mo capacity f) DiskPoolMmapError) (\<lambda>f.
        rbind (push_all qo [0..<cnt] (aq_new qo cnt)) (\<lambda>q.
          Inr \<lparr> dp_page_size = page_size, dp_capacity = capacity, dp_queue = q, dp_file = f \<rparr>))))"

definition disk_try_acquire :: "('q, nat) queue_ops \<Rightarrow> ('q, 'f) disk_pool \<Rightarrow> (nat \<times> ('q, 'f) disk_pool) option" where
  "disk_try_acquire qo p =
     (case aq_pop qo (dp_queue p) of None \<Rightarrow> None | Some (i, q) \<Rightarrow> Some (i, p\<lparr>dp_queue := q\<rparr>))"

definition disk_acquire :: "('q, nat) queue_ops \<Rightarrow> ('q, 'f) disk_pool \<Rightarrow> (nat \<times> ('q, 'f) disk_pool) option" where
  "disk_acquire qo p =
     (case aq_pop qo (dp_queue p) of Some (i, q) \<Rightarrow> Some (i, p\<lparr>dp_queue := q\<rparr>) | None \<Rightarrow> None)"

definition disk_remain :: "('q, nat) queue_ops \<Rightarrow> ('q, 'f) disk_pool \<Rightarrow> nat" where
  "disk_remain qo p = aq_len qo (dp_queue p)"

definition disk_total_page_cnt :: "('q, 'f) disk_pool \<Rightarrow> nat" where
  "disk_total_page_cnt p = dp_capacity p div dp_page_size p"

definition disk_checked_range :: "('q, 'f) disk_pool \<Rightarrow> nat \<Rightarrow> nat \<Rightarrow> (nat \<times> nat) sresult" where
  "disk_checked_range p offset len =
     rbind (checked_end ''disk page'' offset len (dp_page_size p)) (\<lambda>e. Inr (offset, e))"

definition cal_offset :: "('q, 'f) disk_pool \<Rightarrow> nat \<Rightarrow> nat" where
  "cal_offset p page_id = wrap64 (page_id * dp_page_size p)"

definition disk_copy_to_writer ::
  "'f mmap_ops \<Rightarrow> ('q, 'f) disk_pool \<Rightarrow> nat \<Rightarrow> nat \<Rightarrow> nat \<Rightarrow> bytes sresult" where
  "disk_copy_to_writer mo p page_id offset len =
     rbind (disk_checked_range p offset len) (\<lambda>(b, e).
     rbind (ok_or (mm_read mo (wrap64 (cal_offset p page_id + b)) (e - b) (dp_file p)) DiskPoolMmapError) (\<lambda>d.
       if length d \<noteq> len then Inl (UnexpectedLength ''disk page write'' len (length d)) else Inr d))"

definition disk_copy_from_reader ::
  "'f mmap_ops \<Rightarrow> nat \<Rightarrow> nat \<Rightarrow> nat \<Rightarrow> bytes \<Rightarrow> ('q, 'f) disk_pool \<Rightarrow> unit sresult \<times> ('q, 'f) disk_pool" where
  "disk_copy_from_reader mo page_id offset len d p =
     (case disk_checked_range p offset len of
        Inl e \<Rightarrow> (Inl e, p)
      | Inr (b, e) \<Rightarrow>
          (case mm_write mo (wrap64 (cal_offset p page_id + b)) (take (e - b) d) (dp_file p) of
             None \<Rightarrow> (Inl DiskPoolMmapError, p)
           | Some f \<Rightarrow>
               let p' = p\<lparr>dp_file := f\<rparr> in
               if length d > e - b then (Inl UnknownIOError, p')
               else if length d \<noteq> len then (Inl (UnexpectedLength ''disk page read'' len (length d)), p')
               else (Inr (), p')))"

definition disk_page_drop :: "('q, nat) queue_ops \<Rightarrow> nat \<Rightarrow> ('q, 'f) disk_pool \<Rightarrow> ('q, 'f) disk_pool sresult" where
  "disk_page_drop qo page_id p =
     rbind (ok_or (aq_push qo page_id (dp_queue p)) StoragePanicked) (\<lambda>q. Inr (p\<lparr>dp_queue := q\<rparr>))"

section \<open>The hybrid pool\<close>

record pool_builder =
  pb_page_size :: nat
  pb_memory_capacity :: nat
  pb_disk_capacity :: "nat option"
  pb_disk_pool_path :: "string option"

definition pool_builder_default :: pool_builder where
  "pool_builder_default =
     \<lparr> pb_page_size = 0, pb_memory_capacity = 0, pb_disk_capacity = None, pb_disk_pool_path = None \<rparr>"

definition with_page_size :: "nat \<Rightarrow> pool_builder \<Rightarrow> pool_builder" where
  "with_page_size n b = b\<lparr>pb_page_size := n\<rparr>"

definition with_memory_capacity :: "nat \<Rightarrow> pool_builder \<Rightarrow> pool_builder" where
  "with_memory_capacity n b = b\<lparr>pb_memory_capacity := n\<rparr>"

definition with_disk_capacity :: "nat \<Rightarrow> pool_builder \<Rightarrow> pool_builder" where
  "with_disk_capacity n b = b\<lparr>pb_disk_capacity := Some n\<rparr>"

definition with_disk_capacity_and_path :: "nat \<Rightarrow> string \<Rightarrow> pool_builder \<Rightarrow> pool_builder" where
  "with_disk_capacity_and_path n path b = b\<lparr>pb_disk_capacity := Some n, pb_disk_pool_path := Some path\<rparr>"

record ('mq, 'dq, 'f) hybrid_pool =
  hp_page_size :: nat
  hp_memory_capacity :: nat
  hp_disk_capacity :: nat
  hp_disk_pool_path :: "string option"
  hp_total_page_cnt :: nat
  hp_memory :: "'mq mem_pool"
  hp_disk :: "('dq, 'f) disk_pool option"

record ('mq, 'dq, 'f) pool_env =
  pe_mem :: "('mq, bytes) queue_ops"
  pe_disk :: "('dq, nat) queue_ops"
  pe_file :: "'f mmap_ops"

text \<open>The order of the checks is the code's: a missing path is found after the disk configuration
  was validated.\<close>

definition pool_build :: "('mq, 'dq, 'f) pool_env \<Rightarrow> pool_builder \<Rightarrow> ('mq, 'dq, 'f) hybrid_pool sresult" where
  "pool_build env b =
     rbind (validate_page_pool_config (pb_page_size b) (pb_memory_capacity b)) (\<lambda>_.
     let total = pb_memory_capacity b div pb_page_size b in
     rbind (mem_new (pe_mem env) (pb_page_size b) (pb_memory_capacity b)) (\<lambda>mem.
     rbind
       (case pb_disk_capacity b of
          Some disk_capacity \<Rightarrow>
            rbind (validate_page_pool_config (pb_page_size b) disk_capacity) (\<lambda>_.
            rbind (ok_or (pb_disk_pool_path b) MissingDiskPagePoolPath) (\<lambda>path.
            rbind (disk_new (pe_disk env) (pe_file env) path (pb_page_size b) disk_capacity) (\<lambda>d.
              Inr (Some d, Some path, disk_capacity, wrap64 (total + disk_capacity div pb_page_size b)))))
        | None \<Rightarrow> Inr (None, None, 0, total)) (\<lambda>(d, path, disk_capacity, total).
       Inr \<lparr> hp_page_size = pb_page_size b, hp_memory_capacity = pb_memory_capacity b,
             hp_disk_capacity = disk_capacity, hp_disk_pool_path = path, hp_total_page_cnt = total,
             hp_memory = mem, hp_disk = d \<rparr>)))"

datatype page = MemoryPage bytes | DiskPage nat

definition try_acquire_page ::
  "('mq, 'dq, 'f) pool_env \<Rightarrow> ('mq, 'dq, 'f) hybrid_pool \<Rightarrow> (page \<times> ('mq, 'dq, 'f) hybrid_pool) option" where
  "try_acquire_page env p =
     (case mem_try_acquire (pe_mem env) (hp_memory p) of
        Some (b, m) \<Rightarrow> Some (MemoryPage b, p\<lparr>hp_memory := m\<rparr>)
      | None \<Rightarrow>
          (case hp_disk p of
             None \<Rightarrow> None
           | Some d \<Rightarrow>
               (case disk_try_acquire (pe_disk env) d of
                  None \<Rightarrow> None
                | Some (i, d') \<Rightarrow> Some (DiskPage i, p\<lparr>hp_disk := Some d'\<rparr>))))"

definition acquire_page ::
  "('mq, 'dq, 'f) pool_env \<Rightarrow> ('mq, 'dq, 'f) hybrid_pool \<Rightarrow> (page \<times> ('mq, 'dq, 'f) hybrid_pool) option" where
  "acquire_page env p =
     (case (if mem_remain (pe_mem env) (hp_memory p) > 0 then try_acquire_page env p else None) of
        Some r \<Rightarrow> Some r
      | None \<Rightarrow>
          (case hp_disk p of
             Some d \<Rightarrow>
               map_option (\<lambda>(i, d'). (DiskPage i, p\<lparr>hp_disk := Some d'\<rparr>)) (disk_acquire (pe_disk env) d)
           | None \<Rightarrow>
               map_option (\<lambda>(b, m). (MemoryPage b, p\<lparr>hp_memory := m\<rparr>)) (mem_acquire (pe_mem env) (hp_memory p))))"

definition pool_remain :: "('mq, 'dq, 'f) pool_env \<Rightarrow> ('mq, 'dq, 'f) hybrid_pool \<Rightarrow> nat" where
  "pool_remain env p =
     wrap64 (mem_remain (pe_mem env) (hp_memory p) +
             (case hp_disk p of None \<Rightarrow> 0 | Some d \<Rightarrow> disk_remain (pe_disk env) d))"

definition pool_capacity :: "('mq, 'dq, 'f) hybrid_pool \<Rightarrow> nat" where
  "pool_capacity p = wrap64 (hp_memory_capacity p + hp_disk_capacity p)"

definition page_copy_to_writer ::
  "('mq, 'dq, 'f) pool_env \<Rightarrow> ('mq, 'dq, 'f) hybrid_pool \<Rightarrow> page \<Rightarrow> nat \<Rightarrow> nat \<Rightarrow> bytes sresult" where
  "page_copy_to_writer env p pg offset len =
     (case pg of
        MemoryPage b \<Rightarrow> mem_copy_to_writer b offset len
      | DiskPage i \<Rightarrow>
          (case hp_disk p of
             None \<Rightarrow> Inl StoragePanicked \<comment> \<open>no disk page exists without a disk pool\<close>
           | Some d \<Rightarrow> disk_copy_to_writer (pe_file env) d i offset len))"

definition page_copy_from_reader ::
  "('mq, 'dq, 'f) pool_env \<Rightarrow> page \<Rightarrow> nat \<Rightarrow> nat \<Rightarrow> bytes \<Rightarrow> ('mq, 'dq, 'f) hybrid_pool \<Rightarrow>
   unit sresult \<times> page \<times> ('mq, 'dq, 'f) hybrid_pool" where
  "page_copy_from_reader env pg offset len data p =
     (case pg of
        MemoryPage b \<Rightarrow> (case mem_copy_from_reader b offset len data of (r, b') \<Rightarrow> (r, MemoryPage b', p))
      | DiskPage i \<Rightarrow>
          (case hp_disk p of
             None \<Rightarrow> (Inl StoragePanicked, pg, p)
           | Some d \<Rightarrow>
               (case disk_copy_from_reader (pe_file env) i offset len data d of
                  (r, d') \<Rightarrow> (r, pg, p\<lparr>hp_disk := Some d'\<rparr>))))"

definition page_drop ::
  "('mq, 'dq, 'f) pool_env \<Rightarrow> page \<Rightarrow> ('mq, 'dq, 'f) hybrid_pool \<Rightarrow> ('mq, 'dq, 'f) hybrid_pool sresult" where
  "page_drop env pg p =
     (case pg of
        MemoryPage b \<Rightarrow> Inr (p\<lparr>hp_memory := mem_page_drop (pe_mem env) b (hp_memory p)\<rparr>)
      | DiskPage i \<Rightarrow>
          (case hp_disk p of
             None \<Rightarrow> Inl StoragePanicked
           | Some d \<Rightarrow> rbind (disk_page_drop (pe_disk env) i d) (\<lambda>d'. Inr (p\<lparr>hp_disk := Some d'\<rparr>))))"

section \<open>Instances of the parameters\<close>

definition list_queue :: "('a list \<times> nat, 'a) queue_ops" where
  "list_queue = \<lparr>
     aq_new = (\<lambda>n. ([], n)),
     aq_push = (\<lambda>x (xs, n). if length xs < n then Some (xs @ [x], n) else None),
     aq_pop = (\<lambda>(xs, n). case xs of [] \<Rightarrow> None | x # ys \<Rightarrow> Some (x, (ys, n))),
     aq_len = (\<lambda>(xs, n). length xs) \<rparr>"

interpretation lq: array_queue list_queue fst snd
  by unfold_locales (auto simp: list_queue_def split: list.splits)

definition buffer_file :: "bytes mmap_ops" where
  "buffer_file = \<lparr>
     mm_open = (\<lambda>_ n. Some []),
     mm_truncate = (\<lambda>n f. Some (take n f @ zeros (n - length f))),
     mm_read = (\<lambda>off n f. if off + n \<le> length f then Some (sub_bytes off n f) else None),
     mm_write = (\<lambda>off d f. if off + length d \<le> length f then Some (overwrite off d f) else None) \<rparr>"

interpretation bf: mmap_file buffer_file id
  by unfold_locales (auto simp: buffer_file_def)

section \<open>Conservation of pages\<close>

text \<open>The pages handed out and not yet dropped, as the users of the pool hold them.\<close>

inductive pool_step ::
  "('mq, 'dq, 'f) pool_env \<Rightarrow> ('mq, 'dq, 'f) hybrid_pool \<times> page list \<Rightarrow>
   ('mq, 'dq, 'f) hybrid_pool \<times> page list \<Rightarrow> bool" for env where
  step_acquire: "try_acquire_page env p = Some (pg, p') \<Longrightarrow> pool_step env (p, ps) (p', ps @ [pg])"
| step_write: "page_copy_from_reader env pg off len d p = (r, pg', p') \<Longrightarrow>
     pool_step env (p, xs @ pg # ys) (p', xs @ pg' # ys)"
| step_drop: "page_drop env pg p = Inr p' \<Longrightarrow> pool_step env (p, xs @ pg # ys) (p', xs @ ys)"

fun mem_pages :: "page list \<Rightarrow> bytes list" where
  "mem_pages [] = []"
| "mem_pages (MemoryPage b # ps) = b # mem_pages ps"
| "mem_pages (DiskPage i # ps) = mem_pages ps"

fun disk_pages :: "page list \<Rightarrow> nat list" where
  "disk_pages [] = []"
| "disk_pages (MemoryPage b # ps) = disk_pages ps"
| "disk_pages (DiskPage i # ps) = i # disk_pages ps"

lemma mem_pages_append [simp]: "mem_pages (xs @ ys) = mem_pages xs @ mem_pages ys"
  by (induction xs rule: mem_pages.induct) simp_all

lemma disk_pages_append [simp]: "disk_pages (xs @ ys) = disk_pages xs @ disk_pages ys"
  by (induction xs rule: disk_pages.induct) simp_all

lemma length_pages: "length (mem_pages ps) + length (disk_pages ps) = length ps"
  by (induction ps rule: mem_pages.induct) simp_all

lemma in_pages [simp]:
  "b \<in> set (mem_pages ps) \<longleftrightarrow> MemoryPage b \<in> set ps"
  "i \<in> set (disk_pages ps) \<longleftrightarrow> DiskPage i \<in> set ps"
  by (induction ps rule: mem_pages.induct) auto

lemma validate_ok:
  "validate_page_pool_config n c = Inr () \<longleftrightarrow> 0 < n \<and> 0 < c \<and> c mod n = 0"
  by (auto simp: validate_page_pool_config_def)

lemma whole_pages: "0 < n \<Longrightarrow> 0 < c \<Longrightarrow> c mod n = 0 \<Longrightarrow> 0 < c div n" for n c :: nat
  by (auto simp: div_greater_zero_iff mod_eq_0_iff_dvd dest: dvd_imp_le)

context array_queue
begin

lemma push_all_items:
  assumes "length (items q) + length xs \<le> cap q"
  shows "\<exists>q'. push_all qo xs q = Inr q' \<and> items q' = items q @ xs \<and> cap q' = cap q"
  using assms
proof (induction xs arbitrary: q)
  case (Cons x xs)
  then obtain q' where "aq_push qo x q = Some q'" "items q' = items q @ [x]" "cap q' = cap q"
    using push_items [of q x] by auto
  then show ?case using Cons.IH [of q'] Cons.prems by auto
qed simp

lemma fresh_items:
  assumes "0 < n" "length xs = n"
  shows "\<exists>q'. push_all qo xs (aq_new qo n) = Inr q' \<and> items q' = xs \<and> cap q' = n"
  using push_all_items [of "aq_new qo n" xs] new_items [of n] assms by auto

lemma pop_Some: "aq_pop qo q = Some (x, q') \<Longrightarrow> items q = x # items q' \<and> cap q' = cap q"
  using pop_empty [of q] pop_items [of q] by (cases "items q") auto

lemma push_Some: "aq_push qo x q = Some q' \<Longrightarrow>
    items q' = items q @ [x] \<and> cap q' = cap q \<and> length (items q) < cap q"
  using push_items [of q x] push_full [of q x] by (cases "length (items q) < cap q") auto

lemma pop_None: "aq_pop qo q = None \<longleftrightarrow> items q = []"
  using pop_empty [of q] pop_items [of q] by (cases "items q") auto

end

text \<open>The memory half and the disk half of the conservation invariant.\<close>

definition mem_inv :: "('q \<Rightarrow> bytes list) \<Rightarrow> ('q \<Rightarrow> nat) \<Rightarrow> 'q mem_pool \<Rightarrow> bytes list \<Rightarrow> bool" where
  "mem_inv mi mc m live \<longleftrightarrow>
     mc (mp_queue m) = mem_total_page_cnt m \<and>
     length (mi (mp_queue m)) + length live = mem_total_page_cnt m \<and>
     (\<forall>b \<in> set (mi (mp_queue m)). b = zeros (mp_page_size m)) \<and>
     (\<forall>b \<in> set live. length b = mp_page_size m)"

definition disk_inv :: "('q \<Rightarrow> nat list) \<Rightarrow> ('q \<Rightarrow> nat) \<Rightarrow> ('q, 'f) disk_pool \<Rightarrow> nat list \<Rightarrow> bool" where
  "disk_inv di dc d live \<longleftrightarrow>
     dc (dp_queue d) = disk_total_page_cnt d \<and>
     distinct (di (dp_queue d) @ live) \<and>
     set (di (dp_queue d) @ live) = {0..<disk_total_page_cnt d}"

lemma disk_inv_length: "disk_inv di dc d live \<Longrightarrow> length (di (dp_queue d)) + length live = disk_total_page_cnt d"
  unfolding disk_inv_def by (metis card_atLeastLessThan diff_zero distinct_card length_append)

definition pool_inv where
  "pool_inv mi mc di dc p ps \<longleftrightarrow>
     mem_inv mi mc (hp_memory p) (mem_pages ps) \<and>
     (case hp_disk p of None \<Rightarrow> disk_pages ps = [] | Some d \<Rightarrow> disk_inv di dc d (disk_pages ps)) \<and>
     hp_total_page_cnt p = mem_total_page_cnt (hp_memory p) +
       (case hp_disk p of None \<Rightarrow> 0 | Some d \<Rightarrow> disk_total_page_cnt d) \<and>
     hp_total_page_cnt p < 2 ^ 64"

locale pool_queues =
  mq: array_queue mqo mi mc + dq: array_queue dqo di dc
  for mqo :: "('mq, bytes) queue_ops" and mi mc and dqo :: "('dq, nat) queue_ops" and di dc
begin

lemma mem_acquire_inv:
  assumes "mem_inv mi mc m live" "mem_try_acquire mqo m = Some (b, m')"
  shows "mem_inv mi mc m' (live @ [b]) \<and> b = zeros (mp_page_size m) \<and>
         mem_total_page_cnt m' = mem_total_page_cnt m"
  using assms mq.pop_Some [of "mp_queue m" b]
  by (auto simp: mem_try_acquire_def mem_inv_def mem_total_page_cnt_def split: option.splits)

lemma mem_acquire_None: "mem_try_acquire mqo m = None \<longleftrightarrow> mi (mp_queue m) = []"
  by (auto simp: mem_try_acquire_def mq.pop_None mq.pop_empty split: option.splits)

lemma mem_drop_inv:
  assumes "mem_inv mi mc m (xs @ b # ys)"
  shows "mem_inv mi mc (mem_page_drop mqo b m) (xs @ ys) \<and>
         mem_total_page_cnt (mem_page_drop mqo b m) = mem_total_page_cnt m"
proof -
  have "length (mi (mp_queue m)) < mc (mp_queue m)" using assms by (simp add: mem_inv_def)
  then obtain q where q: "aq_push mqo (zeros (length b)) (mp_queue m) = Some q"
      "mi q = mi (mp_queue m) @ [zeros (length b)]" "mc q = mc (mp_queue m)"
    using mq.push_items by blast
  have "length b = mp_page_size m" using assms by (simp add: mem_inv_def)
  then show ?thesis using assms q
    by (auto simp: mem_inv_def mem_page_drop_def mem_recycle_def mem_total_page_cnt_def)
qed

lemma disk_acquire_inv:
  assumes "disk_inv di dc d live" "disk_try_acquire dqo d = Some (i, d')"
  shows "disk_inv di dc d' (live @ [i]) \<and> disk_total_page_cnt d' = disk_total_page_cnt d"
  using assms dq.pop_Some [of "dp_queue d" i]
  by (auto simp: disk_try_acquire_def disk_inv_def disk_total_page_cnt_def split: option.splits)

lemma disk_acquire_None: "disk_try_acquire dqo d = None \<longleftrightarrow> di (dp_queue d) = []"
  by (auto simp: disk_try_acquire_def dq.pop_None dq.pop_empty split: option.splits)

lemma disk_drop_inv:
  assumes "disk_inv di dc d (xs @ i # ys)"
  shows "\<exists>d'. disk_page_drop dqo i d = Inr d' \<and> disk_inv di dc d' (xs @ ys) \<and>
              disk_total_page_cnt d' = disk_total_page_cnt d"
proof -
  have "length (di (dp_queue d)) < dc (dp_queue d)"
    using assms disk_inv_length [OF assms] by (simp add: disk_inv_def)
  then obtain q where q: "aq_push dqo i (dp_queue d) = Some q" "di q = di (dp_queue d) @ [i]"
      "dc q = dc (dp_queue d)"
    using dq.push_items by blast
  show ?thesis using assms q by (auto simp: disk_inv_def disk_page_drop_def disk_total_page_cnt_def)
qed

end

context pool_queues
begin

lemma mem_new_inv:
  assumes "mem_new mqo n c = Inr m"
  shows "mem_inv mi mc m [] \<and> mem_total_page_cnt m = c div n \<and> mp_page_size m = n"
proof -
  have nc: "0 < n" "0 < c" "c mod n = 0" using assms by (auto simp: mem_new_def split: if_splits)
  then have "0 < c div n" by (rule whole_pages)
  then obtain q where "push_all mqo (replicate (c div n) (zeros n)) (aq_new mqo (c div n)) = Inr q"
      "mi q = replicate (c div n) (zeros n)" "mc q = c div n"
    using mq.fresh_items [of "c div n" "replicate (c div n) (zeros n)"] by auto
  then show ?thesis using assms nc
    by (auto simp: mem_new_def mem_inv_def mem_total_page_cnt_def)
qed

lemma disk_new_inv:
  assumes "disk_new dqo mo path n c = Inr d"
  shows "disk_inv di dc d [] \<and> disk_total_page_cnt d = c div n"
proof -
  have nc: "0 < n" "0 < c" "c mod n = 0" using assms by (auto simp: disk_new_def split: if_splits)
  then have "0 < c div n" by (rule whole_pages)
  then obtain q where "push_all dqo [0..<c div n] (aq_new dqo (c div n)) = Inr q"
      "di q = [0..<c div n]" "dc q = c div n"
    using dq.fresh_items [of "c div n" "[0..<c div n]"] by auto
  then show ?thesis using assms nc
    by (auto simp: disk_new_def disk_inv_def disk_total_page_cnt_def rbind_eq_Inr)
qed

lemma pool_build_inv:
  assumes "pe_mem env = mqo" "pe_disk env = dqo" "pool_build env b = Inr p"
    "pb_memory_capacity b + (case pb_disk_capacity b of None \<Rightarrow> 0 | Some c \<Rightarrow> c) < 2 ^ 64"
  shows "pool_inv mi mc di dc p []"
proof -
  obtain m where m: "mem_new mqo (pb_page_size b) (pb_memory_capacity b) = Inr m" "hp_memory p = m"
    using assms(1,3) by (auto simp: pool_build_def Let_def rbind_eq_Inr)
  have le: "x div n \<le> x" for x n :: nat by simp
  show ?thesis
  proof (cases "pb_disk_capacity b")
    case None
    then have "hp_disk p = None" "hp_total_page_cnt p = pb_memory_capacity b div pb_page_size b"
      using assms(3) by (auto simp: pool_build_def Let_def rbind_eq_Inr)
    moreover have "pb_memory_capacity b div pb_page_size b < 2 ^ 64"
      using le_less_trans [OF le] assms(4) None by simp
    ultimately show ?thesis using m mem_new_inv [OF m(1)] by (simp add: pool_inv_def)
  next
    case (Some c)
    then obtain d path where d: "disk_new dqo (pe_file env) path (pb_page_size b) c = Inr d" "hp_disk p = Some d"
        "hp_total_page_cnt p = wrap64 (pb_memory_capacity b div pb_page_size b + c div pb_page_size b)"
      using assms(2,3) by (auto simp: pool_build_def Let_def rbind_eq_Inr)
    have "pb_memory_capacity b div pb_page_size b + c div pb_page_size b < 2 ^ 64"
      using le_less_trans [OF add_mono [OF le le]] assms(4) Some by simp
    then show ?thesis using m mem_new_inv [OF m(1)] d disk_new_inv [OF d(1)]
      by (simp add: pool_inv_def)
  qed
qed

lemma acquire_inv:
  assumes "pe_mem env = mqo" "pe_disk env = dqo" "pool_inv mi mc di dc p ps"
    "try_acquire_page env p = Some (pg, p')"
  shows "pool_inv mi mc di dc p' (ps @ [pg])"
proof (cases "mem_try_acquire mqo (hp_memory p)")
  case None
  then obtain d i d' where "hp_disk p = Some d" "disk_try_acquire dqo d = Some (i, d')"
      "pg = DiskPage i" "p' = p\<lparr>hp_disk := Some d'\<rparr>"
    using assms(1,2,4) by (auto simp: try_acquire_page_def split: option.splits)
  then show ?thesis using assms(3) disk_acquire_inv [of d "disk_pages ps" i d']
    by (auto simp: pool_inv_def)
next
  case (Some r)
  then obtain b m where "r = (b, m)" "mem_try_acquire mqo (hp_memory p) = Some (b, m)"
      "pg = MemoryPage b" "p' = p\<lparr>hp_memory := m\<rparr>"
    using assms(1,4) by (cases r) (auto simp: try_acquire_page_def)
  then show ?thesis using assms(3) mem_acquire_inv [of "hp_memory p" "mem_pages ps" b m]
    by (auto simp: pool_inv_def split: option.splits)
qed

lemma drop_inv:
  assumes "pe_mem env = mqo" "pe_disk env = dqo" "pool_inv mi mc di dc p (xs @ pg # ys)"
  shows "\<exists>p'. page_drop env pg p = Inr p' \<and> pool_inv mi mc di dc p' (xs @ ys)"
proof (cases pg)
  case (MemoryPage b)
  then show ?thesis using assms mem_drop_inv [of "hp_memory p" "mem_pages xs" b "mem_pages ys"]
    by (auto simp: page_drop_def pool_inv_def split: option.splits)
next
  case (DiskPage i)
  then obtain d where d: "hp_disk p = Some d" "disk_inv di dc d (disk_pages xs @ i # disk_pages ys)"
    using assms(3) by (auto simp: pool_inv_def split: option.splits)
  obtain d' where "disk_page_drop dqo i d = Inr d'" "disk_inv di dc d' (disk_pages xs @ disk_pages ys)"
      "disk_total_page_cnt d' = disk_total_page_cnt d"
    using disk_drop_inv [OF d(2)] by blast
  then show ?thesis using assms d DiskPage by (auto simp: page_drop_def pool_inv_def)
qed

lemma write_inv:
  assumes "pool_inv mi mc di dc p (xs @ pg # ys)"
    "page_copy_from_reader env pg off len data p = (r, pg', p')"
  shows "pool_inv mi mc di dc p' (xs @ pg' # ys)"
proof (cases pg)
  case (MemoryPage b)
  obtain r' b' where w: "mem_copy_from_reader b off len data = (r', b')" by (cases "mem_copy_from_reader b off len data")
  have "length b' = length b"
    using w by (auto simp: mem_copy_from_reader_def mem_checked_range_def checked_end_def Let_def
      split: sum.splits option.splits if_splits)
  then show ?thesis using assms MemoryPage w
    by (auto simp: page_copy_from_reader_def pool_inv_def mem_inv_def split: option.splits)
next
  case (DiskPage i)
  then obtain d where d: "hp_disk p = Some d" using assms(1) by (auto simp: pool_inv_def split: option.splits)
  obtain r' d' where w: "disk_copy_from_reader (pe_file env) i off len data d = (r', d')"
    by (cases "disk_copy_from_reader (pe_file env) i off len data d")
  then have same: "dp_queue d' = dp_queue d" "disk_total_page_cnt d' = disk_total_page_cnt d"
    by (auto simp: disk_copy_from_reader_def disk_total_page_cnt_def Let_def
      split: sum.splits option.splits if_splits)
  have "pg' = pg" "p' = p\<lparr>hp_disk := Some d'\<rparr>"
    using assms(2) DiskPage d w by (simp_all add: page_copy_from_reader_def)
  then show ?thesis using assms(1) d same by (simp add: pool_inv_def disk_inv_def)
qed

lemma step_inv:
  assumes "pe_mem env = mqo" "pe_disk env = dqo" "pool_step env s s'"
    "pool_inv mi mc di dc (fst s) (snd s)"
  shows "pool_inv mi mc di dc (fst s') (snd s')"
  using assms(3)
proof cases
  case (step_acquire p pg p' ps)
  then show ?thesis using acquire_inv [OF assms(1,2)] assms(4) by simp
next
  case (step_write pg off len d p r pg' p' xs ys)
  then show ?thesis using write_inv assms(4) by simp
next
  case (step_drop pg p p' xs ys)
  then show ?thesis using drop_inv [OF assms(1,2), of p xs pg ys] assms(4) by simp
qed

end

interpretation lpq: pool_queues list_queue fst snd list_queue fst snd ..

section \<open>The pool as its users see it\<close>

text \<open>
  What slice buffers and the stage cache call: \<^verbatim>\<open>try_acquire_page\<close>, the two copies and the
  drop. The hybrid pool provides them.
\<close>

record ('p, 'pg) page_ops =
  po_acquire :: "'p \<Rightarrow> ('pg \<times> 'p) option"
  po_read :: "'p \<Rightarrow> 'pg \<Rightarrow> nat \<Rightarrow> nat \<Rightarrow> bytes sresult"
  po_write :: "'pg \<Rightarrow> nat \<Rightarrow> nat \<Rightarrow> bytes \<Rightarrow> 'p \<Rightarrow> unit sresult \<times> 'pg \<times> 'p"
  po_drop :: "'pg \<Rightarrow> 'p \<Rightarrow> 'p sresult"

definition hybrid_ops :: "('mq, 'dq, 'f) pool_env \<Rightarrow> (('mq, 'dq, 'f) hybrid_pool, page) page_ops" where
  "hybrid_ops env = \<lparr> po_acquire = try_acquire_page env, po_read = page_copy_to_writer env,
     po_write = page_copy_from_reader env, po_drop = page_drop env \<rparr>"

text \<open>
  The contract of exclusively owned pages: a page acquired is zeroed, a read returns the page's
  bytes, a write changes that page and nothing else, and a dropped page can be acquired again.
\<close>

locale owned_pages =
  fixes po :: "('p, 'pg) page_ops" and page_bytes :: "'pg \<Rightarrow> bytes"
    and pool_ok :: "'p \<Rightarrow> bool" and free :: "'p \<Rightarrow> nat" and total :: "'p \<Rightarrow> nat"
  assumes acquire_free: "pool_ok p \<Longrightarrow> 0 < free p \<Longrightarrow>
      \<exists>pg p'. po_acquire po p = Some (pg, p') \<and> pool_ok p' \<and> page_bytes pg = zeros PAGE_SIZE \<and>
              Suc (free p') = free p \<and> total p' = total p"
    and acquire_empty: "pool_ok p \<Longrightarrow> free p = 0 \<Longrightarrow> po_acquire po p = None"
    and read_owned: "pool_ok p \<Longrightarrow> length (page_bytes pg) = PAGE_SIZE \<Longrightarrow> off + n \<le> PAGE_SIZE \<Longrightarrow>
      po_read po p pg off n = Inr (sub_bytes off n (page_bytes pg))"
    and write_owned: "pool_ok p \<Longrightarrow> length (page_bytes pg) = PAGE_SIZE \<Longrightarrow> off + length d \<le> PAGE_SIZE \<Longrightarrow>
      \<exists>pg'. po_write po pg off (length d) d p = (Inr (), pg', p) \<and> page_bytes pg' = overwrite off d (page_bytes pg)"
    and drop_owned: "pool_ok p \<Longrightarrow> length (page_bytes pg) = PAGE_SIZE \<Longrightarrow> free p < total p \<Longrightarrow>
      \<exists>p'. po_drop po pg p = Inr p' \<and> pool_ok p' \<and> free p' = Suc (free p) \<and> total p' = total p"

text \<open>A pool without a disk part hands out memory pages only and keeps the contract.\<close>

definition memory_only :: "('mq \<Rightarrow> bytes list) \<Rightarrow> ('mq \<Rightarrow> nat) \<Rightarrow> ('mq, 'dq, 'f) hybrid_pool \<Rightarrow> bool" where
  "memory_only mi mc p \<longleftrightarrow> hp_disk p = None \<and> mp_page_size (hp_memory p) = PAGE_SIZE \<and>
     (\<forall>b \<in> set (mi (mp_queue (hp_memory p))). b = zeros PAGE_SIZE)"

definition memory_bytes :: "page \<Rightarrow> bytes" where
  "memory_bytes pg = (case pg of MemoryPage b \<Rightarrow> b | DiskPage _ \<Rightarrow> [])"

lemma PAGE_SIZE_small: "0 < PAGE_SIZE" "PAGE_SIZE < 2 ^ 64"
  by (simp_all add: PAGE_SIZE_def)

lemma checked_end_ok:
  "off + n \<le> bound \<Longrightarrow> bound < 2 ^ 64 \<Longrightarrow> checked_end subject off n bound = Inr (off + n)"
  by (simp add: checked_end_def checked_add64_def)

lemma mem_copy_to_owned:
  assumes "length b = PAGE_SIZE" "off + n \<le> PAGE_SIZE"
  shows "mem_copy_to_writer b off n = Inr (sub_bytes off n b)"
  using checked_end_ok [OF assms(2) PAGE_SIZE_small(2)] assms
  by (simp add: mem_copy_to_writer_def mem_checked_range_def)

lemma mem_copy_from_owned:
  assumes "length b = PAGE_SIZE" "off + length d \<le> PAGE_SIZE"
  shows "mem_copy_from_reader b off (length d) d = (Inr (), overwrite off d b)"
  using checked_end_ok [OF assms(2) PAGE_SIZE_small(2)] assms
  by (simp add: mem_copy_from_reader_def mem_checked_range_def)

lemma memory_bytes_page: "length (memory_bytes pg) = PAGE_SIZE \<Longrightarrow> \<exists>b. pg = MemoryPage b \<and> length b = PAGE_SIZE"
  using PAGE_SIZE_small by (cases pg) (simp_all add: memory_bytes_def)

context pool_queues
begin

lemma acquire_memory:
  assumes "pe_mem env = mqo" "memory_only mi mc p" "mi (mp_queue (hp_memory p)) = x # xs"
  shows "\<exists>p'. try_acquire_page env p = Some (MemoryPage (zeros PAGE_SIZE), p') \<and> memory_only mi mc p' \<and>
              mi (mp_queue (hp_memory p')) = xs \<and> mc (mp_queue (hp_memory p')) = mc (mp_queue (hp_memory p))"
  using mq.pop_items [OF assms(3)] assms
  by (auto simp: try_acquire_page_def mem_try_acquire_def memory_only_def)

lemma drop_memory:
  assumes "pe_mem env = mqo" "memory_only mi mc p" "length b = PAGE_SIZE"
    "length (mi (mp_queue (hp_memory p))) < mc (mp_queue (hp_memory p))"
  shows "\<exists>p'. page_drop env (MemoryPage b) p = Inr p' \<and> memory_only mi mc p' \<and>
              length (mi (mp_queue (hp_memory p'))) = Suc (length (mi (mp_queue (hp_memory p)))) \<and>
              mc (mp_queue (hp_memory p')) = mc (mp_queue (hp_memory p))"
  using mq.push_items [OF assms(4), of "zeros PAGE_SIZE"] assms
  by (auto simp: page_drop_def mem_page_drop_def mem_recycle_def memory_only_def)

end

sublocale pool_queues \<subseteq> hybrid: owned_pages
  "hybrid_ops \<lparr>pe_mem = mqo, pe_disk = dqo, pe_file = fo\<rparr>" memory_bytes "memory_only mi mc"
  "\<lambda>p. length (mi (mp_queue (hp_memory p)))" "\<lambda>p. mc (mp_queue (hp_memory p))" for fo
proof (unfold_locales, goal_cases)
  case (1 p)
  then obtain x xs where "mi (mp_queue (hp_memory p)) = x # xs" by (cases "mi (mp_queue (hp_memory p))") auto
  then show ?case using acquire_memory [of "\<lparr>pe_mem = mqo, pe_disk = dqo, pe_file = fo\<rparr>" p x xs] 1
    by (auto simp: hybrid_ops_def memory_bytes_def)
next
  case (2 p)
  then have "mem_try_acquire mqo (hp_memory p) = None" by (simp add: mem_acquire_None)
  then show ?case using 2 by (simp add: hybrid_ops_def try_acquire_page_def memory_only_def)
next
  case (3 p pg off n)
  then show ?case using memory_bytes_page [of pg]
    by (auto simp: hybrid_ops_def page_copy_to_writer_def memory_bytes_def mem_copy_to_owned)
next
  case (4 p pg off d)
  then show ?case using memory_bytes_page [of pg]
    by (auto simp: hybrid_ops_def page_copy_from_reader_def memory_bytes_def mem_copy_from_owned)
next
  case (5 p pg)
  then obtain b where "pg = MemoryPage b" "length b = PAGE_SIZE" using memory_bytes_page by blast
  then show ?case using drop_memory [of "\<lparr>pe_mem = mqo, pe_disk = dqo, pe_file = fo\<rparr>" p b] 5
    by (simp add: hybrid_ops_def)
qed

end
