(* ===== verification/Task_Registry.thy ===== *)
theory Task_Registry
  imports Storage_Base
begin

text \<open>
  The registry of a mount's background tasks (\<^verbatim>\<open>storage/src/task_registry.rs\<close>). A task is the
  job it was spawned for; \<open>tr_running\<close> is what tokio's tracker holds, \<open>tr_abort_handles\<close> the ids
  with an abort handle. Admission holds the \<^verbatim>\<open>accepting\<close> lock until the handle is registered,
  so a spawn is one step. The counters are \<^verbatim>\<open>AtomicUsize\<close> and wrap.
\<close>

record 'j task_registry =
  tr_running :: "(nat \<times> 'j) list"
  tr_cancelled :: bool
  tr_accepting :: bool
  tr_closed :: bool
  tr_abort_handles :: "nat list"
  tr_next_task_id :: nat
  tr_active :: nat
  tr_spawned :: nat
  tr_completed :: nat
  tr_panicked :: nat

record task_snapshot =
  ts_active :: nat
  ts_spawned :: nat
  ts_completed :: nat
  ts_panicked :: nat

definition registry_new :: "'j task_registry" where
  "registry_new = \<lparr> tr_running = [], tr_cancelled = False, tr_accepting = True, tr_closed = False,
     tr_abort_handles = [], tr_next_task_id = 0, tr_active = 0, tr_spawned = 0, tr_completed = 0,
     tr_panicked = 0 \<rparr>"

definition registry_spawn :: "'j \<Rightarrow> 'j task_registry \<Rightarrow> bool \<times> 'j task_registry" where
  "registry_spawn job r =
     (if \<not> tr_accepting r then (False, r)
      else let task_id = tr_next_task_id r in
        (True, r\<lparr> tr_active := wrap64 (tr_active r + 1), tr_spawned := wrap64 (tr_spawned r + 1),
                  tr_next_task_id := wrap64 (task_id + 1), tr_running := tr_running r @ [(task_id, job)],
                  tr_abort_handles := tr_abort_handles r @ [task_id] \<rparr>))"

definition begin_draining :: "'j task_registry \<Rightarrow> bool \<times> 'j task_registry" where
  "begin_draining r =
     (if \<not> tr_accepting r then (False, r) else (True, r\<lparr>tr_accepting := False, tr_closed := True\<rparr>))"

definition registry_cancel :: "'j task_registry \<Rightarrow> 'j task_registry" where
  "registry_cancel r = r\<lparr>tr_cancelled := True\<rparr>"

text \<open>\<^verbatim>\<open>wait\<close> returns when the tracker is closed and empty.\<close>

definition wait_ready :: "'j task_registry \<Rightarrow> bool" where
  "wait_ready r = (tr_closed r \<and> tr_running r = [])"

text \<open>The end of a task: its completion guard is dropped, after the panic counter if it panicked.\<close>

definition task_complete :: "nat \<Rightarrow> bool \<Rightarrow> 'j task_registry \<Rightarrow> 'j task_registry" where
  "task_complete task_id panicked r =
     r\<lparr> tr_panicked := (if panicked then wrap64 (tr_panicked r + 1) else tr_panicked r),
        tr_abort_handles := filter (\<lambda>i. i \<noteq> task_id) (tr_abort_handles r),
        tr_running := filter (\<lambda>(i, _). i \<noteq> task_id) (tr_running r),
        tr_active := wrap_sub64 (tr_active r) 1,
        tr_completed := wrap64 (tr_completed r + 1) \<rparr>"

text \<open>
  The handles of unfinished tasks are counted and aborted: tokio drops an aborted task, which drops
  its guard, and the ids are returned in the order their tasks end.
\<close>

definition abort_all :: "'j task_registry \<Rightarrow> nat \<times> nat list \<times> 'j task_registry" where
  "abort_all r =
     (let handles = filter (\<lambda>i. i \<in> fst ` set (tr_running r)) (tr_abort_handles r) in
      (length handles, handles, r\<lparr>tr_abort_handles := []\<rparr>))"

definition snapshot :: "'j task_registry \<Rightarrow> task_snapshot" where
  "snapshot r = \<lparr> ts_active = tr_active r, ts_spawned = tr_spawned r,
     ts_completed = tr_completed r, ts_panicked = tr_panicked r \<rparr>"

section \<open>Runs of a registry\<close>

text \<open>A run: spawns, ends of running tasks (each once, aborted ones included), and the calls of the
  shutdown.\<close>

inductive registry_step :: "'j task_registry \<Rightarrow> 'j task_registry \<Rightarrow> bool" where
  r_spawn: "registry_step r (snd (registry_spawn job r))"
| r_drain: "registry_step r (snd (begin_draining r))"
| r_cancel: "registry_step r (registry_cancel r)"
| r_abort: "registry_step r (snd (snd (abort_all r)))"
| r_end: "(i, job) \<in> set (tr_running r) \<Longrightarrow> registry_step r (task_complete i panicked r)"

definition registry_inv :: "'j task_registry \<Rightarrow> bool" where
  "registry_inv r \<longleftrightarrow>
     distinct (map fst (tr_running r)) \<and>
     (\<forall>i \<in> fst ` set (tr_running r). i < tr_spawned r) \<and>
     tr_next_task_id r = tr_spawned r \<and>
     tr_active r = length (tr_running r) \<and>
     tr_spawned r = tr_active r + tr_completed r \<and>
     tr_panicked r \<le> tr_completed r \<and>
     tr_closed r = (\<not> tr_accepting r)"

lemma length_filter_fst:
  "distinct (map fst xs) \<Longrightarrow> (i, j) \<in> set xs \<Longrightarrow> Suc (length (filter (\<lambda>(k, _). k \<noteq> i) xs)) = length xs"
proof (induction xs)
  case (Cons x xs)
  show ?case
  proof (cases "fst x = i")
    case True
    then have "\<forall>y \<in> set xs. fst y \<noteq> i" using Cons.prems(1) by (force simp: image_iff)
    then have "filter (\<lambda>(k, _). k \<noteq> i) xs = xs" by (auto intro!: filter_True)
    then show ?thesis using True by (cases x) simp
  next
    case False
    then show ?thesis using Cons by (cases x) auto
  qed
qed simp

lemma distinct_filter_fst: "distinct (map fst xs) \<Longrightarrow> distinct (map fst (filter P xs))"
  by (induction xs) auto

text \<open>The registries a run of \<open>n\<close> calls reaches.\<close>

inductive registry_run :: "nat \<Rightarrow> 'j task_registry \<Rightarrow> bool" where
  run_new: "registry_run 0 registry_new"
| run_step: "registry_run n r \<Longrightarrow> registry_step r r' \<Longrightarrow> registry_run (Suc n) r'"

lemma registry_step_inv:
  assumes "registry_step r r'" "registry_inv r" "tr_spawned r < 2 ^ 64 - 1"
  shows "registry_inv r' \<and> tr_spawned r' \<le> Suc (tr_spawned r)"
  using assms(1)
proof cases
  case (r_spawn job)
  have "wrap64 (tr_spawned r + 1) = tr_spawned r + 1" "wrap64 (tr_active r + 1) = tr_active r + 1"
    using assms(2,3) by (simp_all add: registry_inv_def)
  then show ?thesis using assms(2) r_spawn
    by (auto simp: registry_inv_def registry_spawn_def Let_def)
next
  case (r_end i job panicked)
  have inv: "distinct (map fst (tr_running r))" "tr_active r = length (tr_running r)"
      "tr_spawned r = tr_active r + tr_completed r"
    using assms(2) by (simp_all add: registry_inv_def)
  have len: "length (tr_running r) = Suc (length (filter (\<lambda>(k, _). k \<noteq> i) (tr_running r)))"
    using length_filter_fst [OF inv(1) r_end(2)] by simp
  have "wrap_sub64 (tr_active r) 1 = length (filter (\<lambda>(k, _). k \<noteq> i) (tr_running r))"
    using inv len assms(3) wrap_sub64_id [of 1 "tr_active r"] by simp
  moreover have "wrap64 (tr_completed r + 1) = tr_completed r + 1" "wrap64 (tr_panicked r + 1) = tr_panicked r + 1"
    using assms(2,3) by (simp_all add: registry_inv_def)
  ultimately show ?thesis using assms(2) r_end inv len distinct_filter_fst [OF inv(1)]
    by (auto simp: registry_inv_def task_complete_def)
qed (use assms(2) in \<open>auto simp: registry_inv_def begin_draining_def registry_cancel_def abort_all_def Let_def\<close>)

lemma registry_run_inv: "registry_run n r \<Longrightarrow> n < 2 ^ 64 \<Longrightarrow> registry_inv r \<and> tr_spawned r \<le> n"
proof (induction rule: registry_run.induct)
  case (run_step n r r')
  then show ?case using registry_step_inv [of r r'] by auto
qed (simp add: registry_inv_def registry_new_def)

text \<open>After the drain began nothing is admitted.\<close>

lemma drained_step:
  "registry_step r r' \<Longrightarrow> \<not> tr_accepting r \<Longrightarrow> \<not> tr_accepting r' \<and> set (tr_running r') \<subseteq> set (tr_running r)"
  by (induction rule: registry_step.induct)
    (auto simp: registry_spawn_def begin_draining_def registry_cancel_def abort_all_def task_complete_def Let_def)

end
