(* ===== verification/File_Cache.thy ===== *)
theory File_Cache
  imports Page_Pool Task_Registry
begin

text \<open>
  The stage cache (\<^verbatim>\<open>storage/src/cache/file_cache.rs\<close>) and its file offload
  (\<^verbatim>\<open>storage/src/uring.rs\<close>): blocks of a slice are written to files of a stage directory and
  migrated to the remote object store. The file system calls, moka's cache and the remote store
  are parameters. The background tasks are jobs of the mount's registry: a migration runs when the
  step relation picks it, so every interleaving of whole operations is a run.
\<close>

section \<open>Parameters\<close>

datatype io_error = IoNotFound | IoUnexpectedEof | IoOther

text \<open>
  One entry of \<^verbatim>\<open>read_dir\<close>; \<open>fde_name\<close> is \<open>None\<close> when the name is not UTF-8.
\<close>

record fs_dir_entry =
  fde_name :: "string option"
  fde_is_file :: bool
  fde_len :: nat

text \<open>
  The stage directory, its files by their names in it. \<open>fs_write_all\<close> and \<open>fs_sync\<close> report
  success. An entry \<open>None\<close> of \<open>fs_read_dir\<close> is an I/O error of reading that entry. The last two
  are the object-store view of the same directory (\<^verbatim>\<open>LocalFileSystem\<close>).
\<close>

record 'f fs_ops =
  fs_create_dir_all :: "'f \<Rightarrow> 'f option"
  fs_create :: "string \<Rightarrow> 'f \<Rightarrow> (io_error + 'f)"
  fs_write_all :: "string \<Rightarrow> bytes \<Rightarrow> 'f \<Rightarrow> bool \<times> 'f"
  fs_sync :: "string \<Rightarrow> 'f \<Rightarrow> bool \<times> 'f"
  fs_rename :: "string \<Rightarrow> string \<Rightarrow> 'f \<Rightarrow> 'f option"
  fs_remove :: "string \<Rightarrow> 'f \<Rightarrow> 'f option"
  fs_open :: "string \<Rightarrow> 'f \<Rightarrow> (io_error + unit)"
  fs_read_at :: "string \<Rightarrow> nat \<Rightarrow> nat \<Rightarrow> 'f \<Rightarrow> (io_error + bytes)"
  fs_read_dir :: "'f \<Rightarrow> fs_dir_entry option list option"
  fs_get :: "'f \<Rightarrow> string \<Rightarrow> object_error + bytes"
  fs_delete :: "string \<Rightarrow> 'f \<Rightarrow> object_error + 'f"

text \<open>moka: a cached value may disappear at any time, and a removal of any cause calls the
  eviction listener.\<close>

record ('c, 'k, 'v) moka_ops =
  mk_get :: "'k \<Rightarrow> 'c \<Rightarrow> 'v option"
  mk_insert :: "'k \<Rightarrow> 'v \<Rightarrow> 'c \<Rightarrow> 'c"
  mk_remove :: "'k \<Rightarrow> 'c \<Rightarrow> 'c"

section \<open>Files through io_uring\<close>

definition READ_CHUNK :: nat where
  "READ_CHUNK = 1048576"

definition tmp_path :: "string \<Rightarrow> string" where
  "tmp_path name = name @ ''.uring.tmp''"

text \<open>Errors of the removals are ignored, as in the code.\<close>

definition remove_quiet :: "'f fs_ops \<Rightarrow> string \<Rightarrow> 'f \<Rightarrow> 'f" where
  "remove_quiet fs name f = (case fs_remove fs name f of None \<Rightarrow> f | Some f' \<Rightarrow> f')"

definition write_atomic :: "'f fs_ops \<Rightarrow> string \<Rightarrow> bytes \<Rightarrow> ('f, io_error, unit) comp" where
  "write_atomic fs name data f =
     (case fs_create_dir_all fs f of
        None \<Rightarrow> (Inl IoOther, f)
      | Some f \<Rightarrow>
          let tmp = tmp_path name in
          (case fs_create fs tmp f of
             Inl e \<Rightarrow> (Inl e, f)
           | Inr f \<Rightarrow>
               (case fs_write_all fs tmp data f of
                  (written, f) \<Rightarrow>
                    (case (if written then fs_sync fs tmp f else (True, f)) of
                       (synced, f) \<Rightarrow>
                         if \<not> (written \<and> synced) then (Inl IoOther, remove_quiet fs tmp f)
                         else (case fs_rename fs tmp name f of
                                 Some f \<Rightarrow> (Inr (), f)
                               | None \<Rightarrow> (Inl IoOther, remove_quiet fs tmp f))))))"

text \<open>The loop of \<^verbatim>\<open>read_exact_at\<close>: short reads are continued, and end of file ends it.\<close>

function read_exact_loop ::
  "'f fs_ops \<Rightarrow> string \<Rightarrow> 'f \<Rightarrow> nat \<Rightarrow> nat \<Rightarrow> bytes \<Rightarrow> io_error + bytes" where
  "read_exact_loop fs name f len pos out =
     (if length out < len
      then (let want = min (len - length out) READ_CHUNK in
            case fs_read_at fs name pos want f of
              Inl e \<Rightarrow> Inl e
            | Inr buf \<Rightarrow>
                let got = take want buf in
                if got = [] then Inr out
                else read_exact_loop fs name f len (pos + length got) (out @ got))
      else Inr out)"
  by auto

termination
  by (relation "measure (\<lambda>(fs, name, f, len, pos, out). len - length out)")
    (auto simp: min_def simp flip: length_greater_0_conv)

declare read_exact_loop.simps [simp del]

definition read_exact_at :: "'f fs_ops \<Rightarrow> string \<Rightarrow> nat \<Rightarrow> nat \<Rightarrow> 'f \<Rightarrow> io_error + bytes" where
  "read_exact_at fs name offset len f =
     rbind (fs_open fs name f) (\<lambda>_.
     rbind (read_exact_loop fs name f len offset []) (\<lambda>out.
       if length out < len then Inl IoUnexpectedEof else Inr out))"

section \<open>Blocks\<close>

text \<open>A block assembled from its pages, a missing page being zeros; a page index out of range
  panics.\<close>

function gather_loop ::
  "('p, 'pg) page_ops \<Rightarrow> 'p \<Rightarrow> 'pg option list \<Rightarrow> nat \<Rightarrow> nat \<Rightarrow> bytes sresult" where
  "gather_loop po p pages block_length current =
     (if current < block_length
      then (let page_idx = current div PAGE_SIZE; page_offset = current mod PAGE_SIZE;
                to_copy = min (PAGE_SIZE - page_offset) (block_length - current) in
            if length pages \<le> page_idx then Inl StoragePanicked
            else rbind (case pages ! page_idx of
                          None \<Rightarrow> Inr (zeros to_copy)
                        | Some page \<Rightarrow> po_read po p page page_offset to_copy) (\<lambda>d.
                 rbind (gather_loop po p pages block_length (current + to_copy)) (\<lambda>rest.
                   Inr (d @ rest))))
      else Inr [])"
  by auto

termination
  by (relation "measure (\<lambda>(po, p, pages, n, current). n - current)")
    (auto simp: PAGE_SIZE_def min_def)

declare gather_loop.simps [simp del]

definition gather_block :: "('p, 'pg) page_ops \<Rightarrow> 'p \<Rightarrow> nat \<Rightarrow> 'pg option list \<Rightarrow> bytes sresult" where
  "gather_block po p block_length pages = gather_loop po p pages block_length 0"

section \<open>The cache\<close>

text \<open>The identity of an entry is its migration lock: \<^verbatim>\<open>same_generation\<close> compares the locks.\<close>

record cache_index =
  ci_slice_key :: slice_key
  ci_migration_lock :: nat

definition same_generation :: "cache_index \<Rightarrow> cache_index \<Rightarrow> bool" where
  "same_generation a b = (ci_migration_lock a = ci_migration_lock b)"

record file_cache_config =
  fcc_stage_cache_dir :: string
  fcc_max_stage_size :: nat
  fcc_cache_ttl :: duration

definition DEFAULT_STAGE_CACHE_SIZE :: nat where
  "DEFAULT_STAGE_CACHE_SIZE = 10737418240"

definition file_cache_config_default :: file_cache_config where
  "file_cache_config_default =
     \<lparr> fcc_stage_cache_dir = '''', fcc_max_stage_size = DEFAULT_STAGE_CACHE_SIZE,
       fcc_cache_ttl = 86400 * 1000000000 \<rparr>"

record ('f, 'o, 'c) file_cache =
  fc_staged_index :: "(slice_key \<times> cache_index) list"
  fc_index :: 'c
  fc_remote :: 'o
  fc_local :: 'f
  fc_tasks :: "(cache_index \<times> bool) task_registry" \<comment> \<open>the flag: a pressure migration\<close>
  fc_staged_bytes :: nat
  fc_pressure_active :: bool
  fc_max_stage_size :: nat
  fc_stage_dir :: string
  fc_next_lock :: nat \<comment> \<open>allocation of the migration locks\<close>

record ('f, 'o, 'c) cache_env =
  ce_fs :: "'f fs_ops"
  ce_remote :: "'o object_ops"
  ce_moka :: "('c, slice_key, cache_index) moka_ops"

type_synonym ('f, 'o, 'c, 'a) fc_comp = "(('f, 'o, 'c) file_cache, storage_error, 'a) comp"

definition object_path :: "slice_key \<Rightarrow> string" where
  "object_path k = gen_path_for_object_sto k"

definition index_put :: "slice_key \<Rightarrow> cache_index \<Rightarrow> (slice_key \<times> cache_index) list \<Rightarrow> (slice_key \<times> cache_index) list" where
  "index_put k v xs = filter (\<lambda>(q, _). q \<noteq> k) xs @ [(k, v)]"

definition index_del :: "slice_key \<Rightarrow> (slice_key \<times> cache_index) list \<Rightarrow> (slice_key \<times> cache_index) list" where
  "index_del k xs = filter (\<lambda>(q, _). q \<noteq> k) xs"

text \<open>\<^verbatim>\<open>AtomicU64::fetch_sub\<close>.\<close>

definition release_stage_bytes :: "nat \<Rightarrow> ('f, 'o, 'c) file_cache \<Rightarrow> ('f, 'o, 'c) file_cache" where
  "release_stage_bytes n c = c\<lparr>fc_staged_bytes := wrap_sub64 (fc_staged_bytes c) n\<rparr>"

definition spawn_migration :: "cache_index \<Rightarrow> bool \<Rightarrow> ('f, 'o, 'c) file_cache \<Rightarrow> bool \<times> ('f, 'o, 'c) file_cache" where
  "spawn_migration entry pressure c =
     (case registry_spawn (entry, pressure) (fc_tasks c) of (ok, r) \<Rightarrow> (ok, c\<lparr>fc_tasks := r\<rparr>))"

text \<open>The listener of the policy cache: a rejected migration is only logged.\<close>

definition eviction_listener :: "cache_index \<Rightarrow> ('f, 'o, 'c) file_cache \<Rightarrow> ('f, 'o, 'c) file_cache" where
  "eviction_listener v c = snd (spawn_migration v False c)"

definition index_invalidate ::
  "('f, 'o, 'c) cache_env \<Rightarrow> slice_key \<Rightarrow> ('f, 'o, 'c) file_cache \<Rightarrow> ('f, 'o, 'c) file_cache" where
  "index_invalidate env k c =
     (case mk_get (ce_moka env) k (fc_index c) of
        None \<Rightarrow> c
      | Some v \<Rightarrow> eviction_listener v (c\<lparr>fc_index := mk_remove (ce_moka env) k (fc_index c)\<rparr>))"

section \<open>Migration\<close>

text \<open>
  The copy streams the local object into a remote writer: a failure of either side is the I/O error
  of \<open>os_write\<close>. The remote object is published before its length is checked.
\<close>

definition migrate_from_local_to_remote ::
  "('f, 'o, 'c) cache_env \<Rightarrow> nat \<Rightarrow> slice_key \<Rightarrow> ('f, 'o, 'c, unit) fc_comp" where
  "migrate_from_local_to_remote env expect_copy_len key =
     (let path = object_path key in
      sbind (sask (\<lambda>c. obj_context (fs_get (ce_fs env) (fc_local c) path))) (\<lambda>data.
      sbind (\<lambda>c. case os_write (ce_remote env) path data (fc_remote c) of
                    None \<Rightarrow> (Inl UnknownIOError, c)
                  | Some o' \<Rightarrow> (Inr (), c\<lparr>fc_remote := o'\<rparr>)) (\<lambda>_.
      if length data \<noteq> expect_copy_len then sfail FlushBlockFailed
      else sbind (sask (\<lambda>c. obj_context (os_get (ce_remote env) (fc_remote c) path))) (\<lambda>remote.
        if length remote \<noteq> expect_copy_len then sfail FlushBlockFailed
        else (\<lambda>c. case fs_delete (ce_fs env) path (fc_local c) of
                    Inl e \<Rightarrow> (Inl (ObjectStorageError e), c)
                  | Inr f \<Rightarrow> (Inr (), c\<lparr>fc_local := f\<rparr>))))))"

definition is_current :: "cache_index \<Rightarrow> ('f, 'o, 'c) file_cache \<Rightarrow> bool" where
  "is_current entry c =
     (case map_of (fc_staged_index c) (ci_slice_key entry) of
        None \<Rightarrow> False | Some current \<Rightarrow> same_generation current entry)"

definition migrate_once :: "('f, 'o, 'c) cache_env \<Rightarrow> cache_index \<Rightarrow> ('f, 'o, 'c, unit) fc_comp" where
  "migrate_once env entry =
     sbind (sget (is_current entry)) (\<lambda>current.
     if \<not> current then sret ()
     else sbind (migrate_from_local_to_remote env (sk_block_size (ci_slice_key entry)) (ci_slice_key entry)) (\<lambda>_.
       smod (\<lambda>c.
         if is_current entry c
         then release_stage_bytes (sk_block_size (ci_slice_key entry))
                (c\<lparr>fc_staged_index := index_del (ci_slice_key entry) (fc_staged_index c)\<rparr>)
         else c)))"

text \<open>
  One turn of \<^verbatim>\<open>migrate_with_retry\<close>: \<open>True\<close> when the loop breaks. A failed attempt sleeps and is
  tried again, the delay doubling up to a second.
\<close>

definition migrate_turn :: "('f, 'o, 'c) cache_env \<Rightarrow> cache_index \<Rightarrow> ('f, 'o, 'c) file_cache \<Rightarrow> bool \<times> ('f, 'o, 'c) file_cache" where
  "migrate_turn env entry c =
     (if tr_cancelled (fc_tasks c) then (True, c)
      else case migrate_once env entry c of
             (Inr _, c') \<Rightarrow> (True, c')
           | (Inl _, c') \<Rightarrow> (tr_cancelled (fc_tasks c'), c'))"

definition next_retry_delay :: "duration \<Rightarrow> duration" where
  "next_retry_delay d = min (d * 2) 1000000000"

section \<open>Operations\<close>

definition schedule_pressure_migration :: "('f, 'o, 'c) file_cache \<Rightarrow> ('f, 'o, 'c) file_cache" where
  "schedule_pressure_migration c =
     (if fc_pressure_active c then c
      else case fc_staged_index c of
             [] \<Rightarrow> c
           | (_, entry) # _ \<Rightarrow>
               (case spawn_migration entry True (c\<lparr>fc_pressure_active := True\<rparr>) of
                  (True, c') \<Rightarrow> c'
                | (False, c') \<Rightarrow> c'\<lparr>fc_pressure_active := False\<rparr>))"

definition reserve_stage_bytes :: "nat \<Rightarrow> ('f, 'o, 'c, unit) fc_comp" where
  "reserve_stage_bytes n c =
     (let current = fc_staged_bytes c; no_space = ErrStageNoMoreSpace (fc_stage_dir c) in
      case checked_add64 current n of
        None \<Rightarrow> (Inl no_space, c)
      | Some nxt \<Rightarrow>
          if nxt > fc_max_stage_size c
          then (Inl no_space,
                if n \<le> fc_max_stage_size c \<and> current \<noteq> 0 then schedule_pressure_migration c else c)
          else (Inr (), c\<lparr>fc_staged_bytes := nxt\<rparr>))"

text \<open>The initialiser of \<^verbatim>\<open>try_get_with\<close>: the block is gathered and written, and a new entry made.\<close>

definition stage_block ::
  "('f, 'o, 'c) cache_env \<Rightarrow> ('p, 'pg) page_ops \<Rightarrow> 'p \<Rightarrow> slice_key \<Rightarrow> 'pg option list \<Rightarrow> ('f, 'o, 'c, cache_index) fc_comp" where
  "stage_block env po p key pages =
     sbind (slift (gather_block po p (sk_block_size key) pages)) (\<lambda>data.
     sbind (\<lambda>c. case write_atomic (ce_fs env) (object_path key) data (fc_local c) of
                   (Inl _, f) \<Rightarrow> (Inl CacheError, c\<lparr>fc_local := f\<rparr>)
                 | (Inr _, f) \<Rightarrow> (Inr (), c\<lparr>fc_local := f\<rparr>)) (\<lambda>_.
     (\<lambda>c. (Inr \<lparr> ci_slice_key = key, ci_migration_lock = fc_next_lock c \<rparr>,
           c\<lparr>fc_next_lock := fc_next_lock c + 1\<rparr>))))"

definition index_try_get_with ::
  "('f, 'o, 'c) cache_env \<Rightarrow> slice_key \<Rightarrow> ('f, 'o, 'c, cache_index) fc_comp \<Rightarrow> ('f, 'o, 'c, cache_index) fc_comp" where
  "index_try_get_with env key init c =
     (case mk_get (ce_moka env) key (fc_index c) of
        Some v \<Rightarrow> (Inr v, c)
      | None \<Rightarrow>
          (case init c of
             (Inl e, c') \<Rightarrow> (Inl e, c')
           | (Inr v, c') \<Rightarrow> (Inr v, c'\<lparr>fc_index := mk_insert (ce_moka env) key v (fc_index c')\<rparr>)))"

definition count_pages :: "'pg option list \<Rightarrow> nat" where
  "count_pages pages = length (filter (\<lambda>pg. case pg of None \<Rightarrow> False | Some _ \<Rightarrow> True) pages)"

definition fc_stage ::
  "('f, 'o, 'c) cache_env \<Rightarrow> ('p, 'pg) page_ops \<Rightarrow> 'p \<Rightarrow> nat \<Rightarrow> nat \<Rightarrow> nat \<Rightarrow> 'pg option list \<Rightarrow>
   ('f, 'o, 'c, nat \<times> nat) fc_comp" where
  "fc_stage env po p sid block_index block_length pages =
     (let key = slice_key_new sid block_index block_length;
          released = count_pages pages in
      sbind (sget (\<lambda>c. map_of (fc_staged_index c) key)) (\<lambda>staged.
      case staged of
        Some _ \<Rightarrow> sret (block_length, released)
      | None \<Rightarrow>
          sbind (reserve_stage_bytes block_length) (\<lambda>_.
          sbind (\<lambda>c. case index_try_get_with env key (stage_block env po p key pages) c of
                       (Inl _, c') \<Rightarrow> (Inl CacheError, release_stage_bytes block_length c')
                     | (Inr v, c') \<Rightarrow> (Inr v, c')) (\<lambda>entry.
          sbind (smod (\<lambda>c.
            let c' = c\<lparr>fc_staged_index := index_put key entry (fc_staged_index c)\<rparr> in
            if map_of (fc_staged_index c) key \<noteq> None then release_stage_bytes block_length c' else c')) (\<lambda>_.
          sret (block_length, released))))))"

definition remove_staged :: "slice_key \<Rightarrow> ('f, 'o, 'c) file_cache \<Rightarrow> ('f, 'o, 'c) file_cache" where
  "remove_staged key c =
     (case map_of (fc_staged_index c) key of
        None \<Rightarrow> c
      | Some entry \<Rightarrow>
          release_stage_bytes (sk_block_size (ci_slice_key entry))
            (c\<lparr>fc_staged_index := index_del key (fc_staged_index c)\<rparr>))"

definition remote_block_is_confirmed ::
  "('f, 'o, 'c) cache_env \<Rightarrow> slice_key \<Rightarrow> ('f, 'o, 'c) file_cache \<Rightarrow> bool sresult" where
  "remote_block_is_confirmed env key c =
     (case os_get (ce_remote env) (fc_remote c) (object_path key) of
        Inr object \<Rightarrow> Inr (length object = sk_block_size key)
      | Inl e \<Rightarrow> if is_not_found_error e then Inr False else Inl (ObjectStorageError e))"

text \<open>A block whose local file is gone was migrated: it is dropped from the index when the remote
  store has it.\<close>

definition local_missing ::
  "('f, 'o, 'c) cache_env \<Rightarrow> slice_key \<Rightarrow> ('f, 'o, 'c, bytes option) fc_comp" where
  "local_missing env key =
     sbind (sask (remote_block_is_confirmed env key)) (\<lambda>confirmed.
     if confirmed then sbind (smod (remove_staged key)) (\<lambda>_. sret None) else sfail FlushBlockFailed)"

definition fc_get :: "('f, 'o, 'c) cache_env \<Rightarrow> slice_key \<Rightarrow> ('f, 'o, 'c, bytes option) fc_comp" where
  "fc_get env key c =
     (if map_of (fc_staged_index c) key = None then (Inr None, c)
      else case fs_get (ce_fs env) (fc_local c) (object_path key) of
             Inr reader \<Rightarrow> (Inr (Some reader), c)
           | Inl e \<Rightarrow> if is_not_found_error e then local_missing env key c
                      else (Inl (ObjectStorageError e), c))"

definition fc_get_range ::
  "('f, 'o, 'c) cache_env \<Rightarrow> slice_key \<Rightarrow> nat \<Rightarrow> nat \<Rightarrow> ('f, 'o, 'c, bytes option) fc_comp" where
  "fc_get_range env key offset len c =
     (if map_of (fc_staged_index c) key = None then (Inr None, c)
      else case read_exact_at (ce_fs env) (object_path key) offset len (fc_local c) of
             Inr d \<Rightarrow> (Inr (Some d), c)
           | Inl IoNotFound \<Rightarrow> local_missing env key c
           | Inl _ \<Rightarrow> (Inl CacheError, c))"

definition flush_key :: "('f, 'o, 'c) cache_env \<Rightarrow> slice_key \<Rightarrow> ('f, 'o, 'c, unit) fc_comp" where
  "flush_key env key c =
     (case map_of (fc_staged_index c) key of
        None \<Rightarrow> (Inr (), index_invalidate env key c)
      | Some entry \<Rightarrow> sbind (migrate_once env entry) (\<lambda>_. smod (index_invalidate env key)) c)"

fun flush_keys :: "('f, 'o, 'c) cache_env \<Rightarrow> slice_key list \<Rightarrow> ('f, 'o, 'c, unit) fc_comp" where
  "flush_keys env [] = sret ()"
| "flush_keys env (k # ks) = sbind (flush_key env k) (\<lambda>_. flush_keys env ks)"

definition flush_slice :: "('f, 'o, 'c) cache_env \<Rightarrow> nat \<Rightarrow> ('f, 'o, 'c, unit) fc_comp" where
  "flush_slice env slice_id c =
     flush_keys env
       (sort_key sk_block_idx (filter (\<lambda>k. sk_slice_id k = slice_id) (map fst (fc_staged_index c)))) c"

definition pending_count :: "('f, 'o, 'c) file_cache \<Rightarrow> nat" where
  "pending_count c = length (fc_staged_index c)"

text \<open>The order of \<^verbatim>\<open>sort_unstable_by_key(|key| (key.slice_id, key.block_idx))\<close>.\<close>

definition flush_all :: "('f, 'o, 'c) cache_env \<Rightarrow> ('f, 'o, 'c, nat) fc_comp" where
  "flush_all env c =
     sbind (flush_keys env (sort_key sk_slice_id (sort_key sk_block_idx (map fst (fc_staged_index c)))))
       (\<lambda>_. sget pending_count) c"

section \<open>Recovery and start\<close>

definition is_ascii_digit :: "char \<Rightarrow> bool" where
  "is_ascii_digit ch = (48 \<le> (of_char ch :: nat) \<and> (of_char ch :: nat) < 58)"

text \<open>\<^verbatim>\<open>str::rsplit_once\<close>: around the last occurrence.\<close>

fun rsplit_once :: "string \<Rightarrow> string \<Rightarrow> (string \<times> string) option" where
  "rsplit_once pat [] = (if pat = [] then Some ([], []) else None)"
| "rsplit_once pat (x # xs) =
     (case rsplit_once pat xs of
        Some (a, b) \<Rightarrow> Some (x # a, b)
      | None \<Rightarrow> if take (length pat) (x # xs) = pat then Some ([], drop (length pat) (x # xs)) else None)"

definition is_incomplete_stage_file :: "string \<Rightarrow> bool" where
  "is_incomplete_stage_file file_name =
     (case strip_prefix ''.'' file_name of
        None \<Rightarrow> False
      | Some rest \<Rightarrow>
          (case rsplit_once ''.tmp-'' rest of
             None \<Rightarrow> False
           | Some (canonical, suffix) \<Rightarrow>
               is_ok (slice_key_from_str canonical) \<and>
               length (split_on CHR ''-'' suffix) = 2 \<and>
               (\<forall>part \<in> set (split_on CHR ''-'' suffix). part \<noteq> [] \<and> (\<forall>ch \<in> set part. is_ascii_digit ch))))"

text \<open>The loop over the entries of the stage directory, removing leftovers as it goes; the entries
  get new locks in the order they are found.\<close>

fun recover_entries ::
  "'f fs_ops \<Rightarrow> fs_dir_entry option list \<Rightarrow> nat \<Rightarrow> (slice_key \<times> cache_index) list \<Rightarrow>
   ('f, storage_error, (slice_key \<times> cache_index) list) comp" where
  "recover_entries fs [] lk acc = sret acc"
| "recover_entries fs (None # es) lk acc = sfail UnknownIOError"
| "recover_entries fs (Some e # es) lk acc =
     (if \<not> fde_is_file e then sfail CacheError
      else case fde_name e of
        None \<Rightarrow> sfail CacheError
      | Some name \<Rightarrow>
          if is_incomplete_stage_file name
          then (\<lambda>f. case fs_remove fs name f of
                      None \<Rightarrow> (Inl UnknownIOError, f)
                    | Some f' \<Rightarrow> recover_entries fs es lk acc f')
          else (case slice_key_from_str name of
                  Inl _ \<Rightarrow> sfail CacheError
                | Inr key \<Rightarrow>
                    if fde_len e \<noteq> sk_block_size key then sfail CacheError
                    else recover_entries fs es (lk + 1)
                           (index_put key \<lparr> ci_slice_key = key, ci_migration_lock = lk \<rparr> acc)))"

definition recover_stage_index :: "'f fs_ops \<Rightarrow> ('f, storage_error, (slice_key \<times> cache_index) list) comp" where
  "recover_stage_index fs f =
     (case fs_read_dir fs f of
        None \<Rightarrow> (Inl UnknownIOError, f)
      | Some es \<Rightarrow> recover_entries fs es 0 [] f)"

fun spawn_recovered :: "cache_index list \<Rightarrow> ('f, 'o, 'c, unit) fc_comp" where
  "spawn_recovered [] = sret ()"
| "spawn_recovered (e # es) =
     (\<lambda>c. case spawn_migration e False c of
            (True, c') \<Rightarrow> spawn_recovered es c'
          | (False, c') \<Rightarrow> (Inl CacheError, c'))"

text \<open>\<open>FileCache::new\<close> on the files of the stage directory, an empty policy cache, the remote store
  and the mount's registry.\<close>

definition file_cache_new ::
  "('f, 'o, 'c) cache_env \<Rightarrow> file_cache_config \<Rightarrow> 'f \<Rightarrow> 'c \<Rightarrow> 'o \<Rightarrow> (cache_index \<times> bool) task_registry \<Rightarrow>
   ('f, 'o, 'c) file_cache sresult" where
  "file_cache_new env config files empty_index remote tasks =
     (if take 1 (fcc_stage_cache_dir config) \<noteq> ''/'' then Inl CacheError
      else case fs_create_dir_all (ce_fs env) files of
        None \<Rightarrow> Inl (ObjectStorageError ObjOther)
      | Some files \<Rightarrow>
          (case recover_stage_index (ce_fs env) files of
             (Inl e, _) \<Rightarrow> Inl e
           | (Inr recovered, files) \<Rightarrow>
               fst (sbind (spawn_recovered (map snd recovered)) (\<lambda>_. sget (\<lambda>c. c))
                 \<lparr> fc_staged_index = recovered, fc_index = empty_index, fc_remote = remote, fc_local = files,
                   fc_tasks = tasks,
                   fc_staged_bytes = wrap64 (sum_list (map (\<lambda>(k, e). sk_block_size (ci_slice_key e)) recovered)),
                   fc_pressure_active = False, fc_max_stage_size = fcc_max_stage_size config,
                   fc_stage_dir = fcc_stage_cache_dir config,
                   fc_next_lock = fold (\<lambda>(_, e). max (ci_migration_lock e + 1)) recovered 0 \<rparr>)))"

section \<open>Contracts of the parameters\<close>

text \<open>
  The stage directory as a map from names to contents. A write into a file just created holds the
  data when it reports success, and any bytes otherwise; a read returns a prefix of what the file
  has at the offset.
\<close>

locale stage_fs =
  fixes fs :: "'f fs_ops" and files :: "'f \<Rightarrow> string \<Rightarrow> bytes option"
  assumes dir_files: "fs_create_dir_all fs f = Some f' \<Longrightarrow> files f' = files f"
    and create_files: "fs_create fs n f = Inr f' \<Longrightarrow> files f' = (files f)(n \<mapsto> [])"
    and write_files: "fs_write_all fs n d f = (ok, f') \<Longrightarrow>
          \<exists>x. files f' = (files f)(n \<mapsto> x) \<and> (ok \<and> files f n = Some [] \<longrightarrow> x = d)"
    and sync_files: "fs_sync fs n f = (ok, f') \<Longrightarrow> files f' = files f"
    and rename_files: "a \<noteq> b \<Longrightarrow> fs_rename fs a b f = Some f' \<Longrightarrow> files f' = (files f)(b := files f a, a := None)"
    and remove_files: "fs_remove fs n f = Some f' \<Longrightarrow> files f' = (files f)(n := None)"
    and read_files: "fs_read_at fs n off want f = Inr d \<Longrightarrow>
          \<exists>data. files f n = Some data \<and> d = take (length d) (sub_bytes off want data)"
    and get_files: "fs_get fs f n = Inr d \<Longrightarrow> files f n = Some d"
    and delete_files: "fs_delete fs n f = Inr f' \<Longrightarrow> files f' = (files f)(n := None)"
    and dir_entries: "fs_read_dir fs f = Some es \<Longrightarrow> Some e \<in> set es \<Longrightarrow> fde_name e = Some n \<Longrightarrow> fde_is_file e \<Longrightarrow>
          \<exists>d. files f n = Some d"

locale moka_cache =
  fixes mo :: "('c, 'k, 'v) moka_ops"
  assumes get_insert: "mk_get mo k (mk_insert mo k' v c) = Some w \<Longrightarrow> k = k' \<and> w = v \<or> mk_get mo k c = Some w"
    and get_remove: "mk_get mo k (mk_remove mo k' c) = Some w \<Longrightarrow> k \<noteq> k' \<and> mk_get mo k c = Some w"

section \<open>No staged block is lost\<close>

text \<open>
  \<open>content\<close> gives the bytes of a block by its path: blocks are immutable. A block is safe when the
  remote store has it, or the index lists it and its stage file has it.
\<close>

definition block_safe where
  "block_safe files objects content c k \<longleftrightarrow>
     map_of (fc_staged_index c) k \<noteq> None \<and> files (fc_local c) (object_path k) = Some (content (object_path k)) \<or>
     objects (fc_remote c) (object_path k) = Some (content (object_path k))"

definition fc_inv where
  "fc_inv env files objects content acked c \<longleftrightarrow>
     (\<forall>k d. files (fc_local c) (object_path k) = Some d \<longrightarrow> d = content (object_path k)) \<and>
     (\<forall>k d. objects (fc_remote c) (object_path k) = Some d \<longrightarrow> d = content (object_path k)) \<and>
     (\<forall>k e. map_of (fc_staged_index c) k = Some e \<longrightarrow> ci_slice_key e = k \<and> block_safe files objects content c k) \<and>
     (\<forall>k v. mk_get (ce_moka env) k (fc_index c) = Some v \<longrightarrow> ci_slice_key v = k \<and> block_safe files objects content c k) \<and>
     (\<forall>k \<in> acked. block_safe files objects content c k)"

lemma map_of_index_put [simp]: "map_of (index_put k v xs) = (map_of xs)(k \<mapsto> v)"
  by (auto simp: index_put_def map_of_filter_neq map_add_def fun_eq_iff split: option.splits)

lemma map_of_index_del [simp]: "map_of (index_del k xs) = (map_of xs)(k := None)"
  by (simp add: index_del_def map_of_filter_neq)

lemma hex8_no_dot: "CHR ''.'' \<notin> set (hex8 n)"
proof
  assume "CHR ''.'' \<in> set (hex8 n)"
  then have "\<exists>d. hex_digit CHR ''.'' = Some d"
    using hex8_dig [of "CHR ''.''" n] unfolding is_dig_def by (metis hex_digit_digit_char)
  then show False by (simp add: hex_digit_def)
qed

lemma object_path_no_dot: "CHR ''.'' \<notin> set (object_path k)"
  by (simp add: object_path_def gen_path_for_object_sto_def slice_key_fmt_def hex8_no_dot)

lemma tmp_not_block: "tmp_path n \<noteq> object_path k"
  using object_path_no_dot [of k] by (metis tmp_path_def in_set_conv_decomp append_Cons append.assoc)

context stage_fs
begin

lemma remove_quiet_files: "m \<noteq> n \<Longrightarrow> files (remove_quiet fs n f) m = files f m"
  using remove_files [of n f] by (auto simp: remove_quiet_def split: option.splits)

lemma write_atomic_files:
  assumes "write_atomic fs n d f = (r, f')" "m \<noteq> tmp_path n" "n \<noteq> tmp_path n"
  shows "files f' m = (if m = n \<and> is_ok r then Some d else files f m)"
proof (cases "fs_create_dir_all fs f")
  case None
  then show ?thesis using assms by (auto simp: write_atomic_def)
next
  case (Some f1)
  note 1 = this
  show ?thesis
  proof (cases "fs_create fs (tmp_path n) f1")
    case (Inl e)
    then show ?thesis using assms 1 by (auto simp: write_atomic_def dir_files)
  next
    case (Inr f2)
    obtain ok f3 where 3: "fs_write_all fs (tmp_path n) d f2 = (ok, f3)" by (cases "fs_write_all fs (tmp_path n) d f2")
    obtain ok' f4 where 4: "(if ok then fs_sync fs (tmp_path n) f3 else (True, f3)) = (ok', f4)" by fastforce
    have f2: "files f2 = (files f)(tmp_path n \<mapsto> [])" using Inr 1 by (simp add: create_files dir_files)
    obtain x where x: "files f3 = (files f)(tmp_path n \<mapsto> x)" "ok \<longrightarrow> x = d"
      using write_files [OF 3] f2 by auto
    have f4: "files f4 = files f3" using 4 sync_files by (auto split: if_splits)
    show ?thesis using assms 1 Inr 3 4 x f4 remove_quiet_files [of m "tmp_path n" f4]
        rename_files [of "tmp_path n" n f4]
      by (auto simp: write_atomic_def Let_def split: if_splits option.splits)
  qed
qed

end

locale cache_world = stage_fs "ce_fs env" files + object_store "ce_remote env" objects + moka_cache "ce_moka env"
  for env :: "('f, 'o, 'c) cache_env" and files objects +
  fixes content :: "string \<Rightarrow> bytes"
begin

abbreviation "safe \<equiv> block_safe files objects content"
abbreviation "okc \<equiv> fc_inv env files objects content"

lemma inv_local: "okc A c \<Longrightarrow> files (fc_local c) (object_path k) = Some d \<Longrightarrow> d = content (object_path k)"
  by (simp add: fc_inv_def)

lemma inv_remote: "okc A c \<Longrightarrow> objects (fc_remote c) (object_path k) = Some d \<Longrightarrow> d = content (object_path k)"
  by (simp add: fc_inv_def)

lemma inv_key: "okc A c \<Longrightarrow> map_of (fc_staged_index c) k = Some e \<Longrightarrow> ci_slice_key e = k"
  by (simp add: fc_inv_def)

text \<open>What a step has to show: contents stay right, safe blocks stay safe, new entries are safe.\<close>

lemma inv_change:
  assumes "okc A c"
    and "\<And>k d. files (fc_local c') (object_path k) = Some d \<Longrightarrow> d = content (object_path k)"
    and "\<And>k d. objects (fc_remote c') (object_path k) = Some d \<Longrightarrow> d = content (object_path k)"
    and "\<And>k. safe c k \<Longrightarrow> safe c' k"
    and "\<And>k e. map_of (fc_staged_index c') k = Some e \<Longrightarrow>
           map_of (fc_staged_index c) k = Some e \<or> ci_slice_key e = k \<and> safe c' k"
    and "\<And>k v. mk_get (ce_moka env) k (fc_index c') = Some v \<Longrightarrow>
           mk_get (ce_moka env) k (fc_index c) = Some v \<or> ci_slice_key v = k \<and> safe c' k"
  shows "okc A c'"
  using assms unfolding fc_inv_def by meson

lemma inv_same:
  assumes "okc A c" "fc_staged_index c' = fc_staged_index c" "fc_local c' = fc_local c"
    "fc_remote c' = fc_remote c" "fc_index c' = fc_index c"
  shows "okc A c'"
  using assms by (simp add: fc_inv_def block_safe_def)

lemma inv_policy_drop:
  assumes "okc A c"
  shows "okc A (c\<lparr>fc_index := mk_remove (ce_moka env) k (fc_index c)\<rparr>)"
  by (rule inv_change [OF assms])
    (use inv_local [OF assms] inv_remote [OF assms] in \<open>auto simp: block_safe_def dest: get_remove\<close>)

lemma inv_listener: "okc A c \<Longrightarrow> okc A (snd (spawn_migration e b c))"
  by (erule inv_same) (auto simp: spawn_migration_def split: prod.splits)

lemma inv_invalidate: "okc A c \<Longrightarrow> okc A (index_invalidate env k c)"
  by (auto simp: index_invalidate_def eviction_listener_def intro!: inv_policy_drop inv_listener
    split: option.splits)

text \<open>A copy in the remote store, and then the removal of the local one.\<close>

lemma inv_put_remote:
  assumes "okc A c" "os_write (ce_remote env) (object_path k) (content (object_path k)) (fc_remote c) = Some o'"
  shows "okc A (c\<lparr>fc_remote := o'\<rparr>)"
  by (rule inv_change [OF assms(1)])
    (use write_Some [OF assms(2)] inv_local [OF assms(1)] inv_remote [OF assms(1)] in
      \<open>auto simp: block_safe_def split: if_splits\<close>)

lemma inv_drop_local:
  assumes "okc A c" "objects (fc_remote c) (object_path k) = Some (content (object_path k))"
    "fs_delete (ce_fs env) (object_path k) (fc_local c) = Inr f'"
  shows "okc A (c\<lparr>fc_local := f'\<rparr>)"
proof (rule inv_change [OF assms(1)])
  fix q assume "safe c q"
  then show "safe (c\<lparr>fc_local := f'\<rparr>) q"
    using delete_files [OF assms(3)] assms(2) by (cases "object_path q = object_path k") (simp_all add: block_safe_def)
qed (use delete_files [OF assms(3)] inv_local [OF assms(1)] inv_remote [OF assms(1)] in
      \<open>auto split: if_splits\<close>)

lemma inv_unstage:
  assumes "okc A c" "objects (fc_remote c) (object_path k) = Some (content (object_path k))"
  shows "okc A (c\<lparr>fc_staged_index := index_del k (fc_staged_index c)\<rparr>)"
proof (rule inv_change [OF assms(1)])
  fix q assume "safe c q"
  then show "safe (c\<lparr>fc_staged_index := index_del k (fc_staged_index c)\<rparr>) q"
    using assms(2) by (cases "q = k") (simp_all add: block_safe_def)
qed (use inv_local [OF assms(1)] inv_remote [OF assms(1)] in \<open>auto split: if_splits\<close>)

lemma release_inv: "okc A c \<Longrightarrow> okc A (release_stage_bytes n c)"
  by (erule inv_same) (simp_all add: release_stage_bytes_def)

lemma migrate_copy_inv:
  assumes "okc A c" "migrate_from_local_to_remote env n k c = (r, c')"
  shows "okc A c' \<and> fc_staged_index c' = fc_staged_index c \<and> fc_index c' = fc_index c \<and>
         (is_ok r \<longrightarrow> objects (fc_remote c') (object_path k) = Some (content (object_path k)))"
proof (cases "fs_get (ce_fs env) (fc_local c) (object_path k)")
  case (Inl e)
  then show ?thesis using assms by (auto simp: migrate_from_local_to_remote_def Let_def sbind_def)
next
  case (Inr d)
  then have d: "d = content (object_path k)" using get_files inv_local [OF assms(1)] by blast
  show ?thesis
  proof (cases "os_write (ce_remote env) (object_path k) d (fc_remote c)")
    case None
    then show ?thesis using assms Inr by (auto simp: migrate_from_local_to_remote_def Let_def sbind_def)
  next
    case (Some o')
    have inv': "okc A (c\<lparr>fc_remote := o'\<rparr>)" using inv_put_remote [OF assms(1)] Some d by blast
    have rem: "objects o' (object_path k) = Some (content (object_path k))" using write_Some [OF Some] d by simp
    show ?thesis using assms Inr Some inv' rem inv_drop_local [OF inv', of k]
      by (auto simp: migrate_from_local_to_remote_def Let_def sbind_def obj_context_def
        split: if_splits sum.splits)
  qed
qed

lemma migrate_once_inv:
  assumes "okc A c" "migrate_once env e c = (r, c')"
  shows "okc A c' \<and>
    (is_ok r \<longrightarrow> is_current e c \<longrightarrow> map_of (fc_staged_index c') (ci_slice_key e) = None \<and>
       objects (fc_remote c') (object_path (ci_slice_key e)) = Some (content (object_path (ci_slice_key e))))"
proof (cases "is_current e c")
  case True
  obtain r1 c1 where m: "migrate_from_local_to_remote env (sk_block_size (ci_slice_key e)) (ci_slice_key e) c = (r1, c1)"
    by fastforce
  note copy = migrate_copy_inv [OF assms(1) m]
  have "is_current e c1" using True copy by (simp add: is_current_def)
  show ?thesis
  proof (cases r1)
    case (Inl err)
    then show ?thesis using assms(2) True m copy by (auto simp: migrate_once_def sbind_def)
  next
    case (Inr u)
    let ?c2 = "c1\<lparr>fc_staged_index := index_del (ci_slice_key e) (fc_staged_index c1)\<rparr>"
    have c': "r = Inr ()" "c' = release_stage_bytes (sk_block_size (ci_slice_key e)) ?c2"
      using assms(2) True m Inr \<open>is_current e c1\<close> by (auto simp: migrate_once_def sbind_def)
    have "okc A ?c2" by (rule inv_unstage) (use copy Inr in simp_all)
    then have "okc A c'" unfolding c'(2) by (rule release_inv)
    then show ?thesis using c' copy Inr by (auto simp: release_stage_bytes_def)
  qed
qed (use assms in \<open>auto simp: migrate_once_def\<close>)

end

context cache_world
begin

lemma remove_staged_inv:
  assumes "okc A c" "objects (fc_remote c) (object_path k) = Some (content (object_path k))"
  shows "okc A (remove_staged k c)"
proof (cases "map_of (fc_staged_index c) k")
  case (Some e)
  then show ?thesis using release_inv [OF inv_unstage [OF assms]] by (simp add: remove_staged_def)
qed (use assms in \<open>simp add: remove_staged_def\<close>)

lemma local_missing_inv:
  assumes "okc A c" "local_missing env k c = (r, c')"
  shows "okc A c' \<and> (\<forall>v. r = Inr v \<longrightarrow> v = None \<and> objects (fc_remote c') (object_path k) = Some (content (object_path k)))"
proof (cases "os_get (ce_remote env) (fc_remote c) (object_path k)")
  case (Inl e)
  then show ?thesis using assms
    by (auto simp: local_missing_def remote_block_is_confirmed_def sbind_def split: if_splits)
next
  case (Inr d)
  then have rem: "objects (fc_remote c) (object_path k) = Some (content (object_path k))"
    using get_Inr inv_remote [OF assms(1)] by blast
  have "fc_remote (remove_staged k c) = fc_remote c"
    by (auto simp: remove_staged_def release_stage_bytes_def split: option.splits)
  then show ?thesis using assms Inr rem remove_staged_inv [OF assms(1) rem]
    by (auto simp: local_missing_def remote_block_is_confirmed_def sbind_def split: if_splits)
qed

lemma reserve_inv: "okc A c \<Longrightarrow> reserve_stage_bytes n c = (r, c') \<Longrightarrow> okc A c' \<and> fc_index c' = fc_index c \<and>
    fc_staged_index c' = fc_staged_index c"
proof -
  assume a: "okc A c" "reserve_stage_bytes n c = (r, c')"
  have same: "fc_staged_index c' = fc_staged_index c \<and> fc_local c' = fc_local c \<and>
      fc_remote c' = fc_remote c \<and> fc_index c' = fc_index c"
    using a(2) by (auto simp: reserve_stage_bytes_def schedule_pressure_migration_def spawn_migration_def
      Let_def split: option.splits if_splits list.splits prod.splits bool.splits)
  then have "okc A c'" by (intro inv_same [OF a(1)]) simp_all
  then show ?thesis using same by simp
qed

text \<open>A block written to the stage directory.\<close>

lemma write_block_files:
  assumes "write_atomic (ce_fs env) (object_path k) (content (object_path k)) f = (r, f')"
  shows "files f' (object_path q) =
    (if object_path q = object_path k \<and> is_ok r then Some (content (object_path k)) else files f (object_path q))"
  using write_atomic_files [OF assms] tmp_not_block by metis

lemma write_block_inv:
  assumes "okc A c" "write_atomic (ce_fs env) (object_path k) (content (object_path k)) (fc_local c) = (r, f')"
  shows "okc A (c\<lparr>fc_local := f'\<rparr>)"
proof (rule inv_change [OF assms(1)])
  fix q assume "safe c q"
  then show "safe (c\<lparr>fc_local := f'\<rparr>) q" using write_block_files [OF assms(2)] by (auto simp: block_safe_def)
qed (use write_block_files [OF assms(2)] inv_local [OF assms(1)] inv_remote [OF assms(1)] in
      \<open>auto split: if_splits\<close>)

lemma stage_block_inv:
  assumes "okc A c" "stage_block env po p k pages c = (r, c')"
    "\<And>d. gather_block po p (sk_block_size k) pages = Inr d \<Longrightarrow> d = content (object_path k)"
  shows "okc A c' \<and> fc_index c' = fc_index c \<and> fc_staged_index c' = fc_staged_index c \<and>
    (\<forall>e. r = Inr e \<longrightarrow> ci_slice_key e = k \<and> files (fc_local c') (object_path k) = Some (content (object_path k)))"
proof (cases "gather_block po p (sk_block_size k) pages")
  case (Inl e)
  then show ?thesis using assms by (auto simp: stage_block_def sbind_def)
next
  case (Inr d)
  then have d: "d = content (object_path k)" by (rule assms(3))
  obtain r1 f' where w: "write_atomic (ce_fs env) (object_path k) d (fc_local c) = (r1, f')" by fastforce
  have ok: "okc A (c\<lparr>fc_local := f'\<rparr>)" using write_block_inv [OF assms(1)] w d by blast
  have "okc A (c\<lparr>fc_local := f', fc_next_lock := n\<rparr>)" for n using ok by (rule inv_same) simp_all
  then show ?thesis using assms(2) Inr w ok write_block_files [of k "fc_local c" r1 f' k] d
    by (cases r1) (auto simp: stage_block_def sbind_def)
qed

text \<open>The index takes an entry of a block that has its stage file or is safe already; the policy
  cache may take it too.\<close>

lemma inv_admit:
  assumes "okc A c" "ci_slice_key v = k"
    "files (fc_local c) (object_path k) = Some (content (object_path k)) \<or> safe c k"
    "\<And>q w. mk_get (ce_moka env) q i' = Some w \<Longrightarrow> q = k \<and> w = v \<or> mk_get (ce_moka env) q (fc_index c) = Some w"
    "fc_staged_index c' = index_put k v (fc_staged_index c)" "fc_index c' = i'"
    "fc_local c' = fc_local c" "fc_remote c' = fc_remote c"
  shows "okc (insert k A) c'"
proof -
  have mono: "safe c q \<Longrightarrow> safe c' q" for q using assms(5,7,8) by (auto simp: block_safe_def)
  have k: "safe c' k" using assms(3,5,7,8) by (auto simp: block_safe_def)
  have "okc A c'"
  proof (rule inv_change [OF assms(1)])
    fix q w assume "mk_get (ce_moka env) q (fc_index c') = Some w"
    then show "mk_get (ce_moka env) q (fc_index c) = Some w \<or> ci_slice_key w = q \<and> safe c' q"
      using assms(2,4,6) k by blast
  qed (use mono k assms(2,5,7,8) inv_local [OF assms(1)] inv_remote [OF assms(1)] in \<open>auto split: if_splits\<close>)
  then show ?thesis using k by (simp add: fc_inv_def)
qed

lemma inv_acked: "okc A c \<Longrightarrow> safe c k \<Longrightarrow> okc (insert k A) c"
  by (simp add: fc_inv_def)

lemma inv_staged_safe: "okc A c \<Longrightarrow> map_of (fc_staged_index c) k = Some e \<Longrightarrow> safe c k"
  by (simp add: fc_inv_def)

lemma inv_policy_safe: "okc A c \<Longrightarrow> mk_get (ce_moka env) k (fc_index c) = Some v \<Longrightarrow> ci_slice_key v = k \<and> safe c k"
  by (simp add: fc_inv_def)

end

end
