(* ===== verification/Cache_Safety.thy ===== *)
theory Cache_Safety
  imports File_Cache
begin

text \<open>
  The runs of the stage cache and what they guarantee: no block is lost between the moment it was
  acknowledged and the moment the remote store has it, whatever fails, and a successful
  \<^verbatim>\<open>flush_slice\<close> is the durability barrier its comment promises.
\<close>

section \<open>Operations keep the invariant\<close>

context cache_world
begin

lemma stage_inv:
  assumes "okc A c" "fc_stage env po p sid idx len pages c = (r, c')"
    "\<And>d. gather_block po p len pages = Inr d \<Longrightarrow> d = content (object_path (slice_key_new sid idx len))"
  shows "okc (if is_ok r then insert (slice_key_new sid idx len) A else A) c' \<and>
    (is_ok r \<longrightarrow> r = Inr (len, count_pages pages))"
proof (cases "map_of (fc_staged_index c) (slice_key_new sid idx len)")
  case (Some e)
  then show ?thesis using assms(1,2) inv_acked inv_staged_safe [OF assms(1) Some]
    by (auto simp: fc_stage_def Let_def)
next
  case None
  let ?k = "slice_key_new sid idx len"
  obtain r1 c1 where res: "reserve_stage_bytes len c = (r1, c1)" by fastforce
  note c1 = reserve_inv [OF assms(1) res]
  show ?thesis
  proof (cases r1)
    case (Inl e)
    then show ?thesis using assms(2) None res c1 by (auto simp: fc_stage_def Let_def sbind_def)
  next
    case (Inr u)
    show ?thesis
    proof (cases "mk_get (ce_moka env) ?k (fc_index c1)")
      case (Some v)
      let ?c2 = "c1\<lparr>fc_staged_index := index_put ?k v (fc_staged_index c1)\<rparr>"
      have "r = Inr (len, count_pages pages)" "c' = ?c2"
        using assms(2) None res Inr Some c1 by (auto simp: fc_stage_def Let_def sbind_def index_try_get_with_def)
      moreover have "okc (insert ?k A) ?c2"
        by (rule inv_admit [of A c1 v ?k "fc_index c1"]) (use c1 inv_policy_safe [of A c1, OF _ Some] in auto)
      ultimately show ?thesis by simp
    next
      case none2: None
      obtain r2 c2 where st: "stage_block env po p ?k pages c1 = (r2, c2)" by fastforce
      have c2: "okc A c2 \<and> fc_index c2 = fc_index c1 \<and> fc_staged_index c2 = fc_staged_index c1 \<and>
          (\<forall>e. r2 = Inr e \<longrightarrow> ci_slice_key e = ?k \<and> files (fc_local c2) (object_path ?k) = Some (content (object_path ?k)))"
        by (rule stage_block_inv [OF conjunct1 [OF c1] st]) (use assms(3) in \<open>simp add: slice_key_new_def\<close>)
      show ?thesis
      proof (cases r2)
        case (Inl e)
        then have "r = Inl CacheError" "c' = release_stage_bytes len c2"
          using assms(2) None res Inr none2 st by (auto simp: fc_stage_def Let_def sbind_def index_try_get_with_def)
        then show ?thesis using release_inv c2 by simp
      next
        case inr2: (Inr v)
        let ?c3 = "c2\<lparr>fc_index := mk_insert (ce_moka env) ?k v (fc_index c2),
                      fc_staged_index := index_put ?k v (fc_staged_index c2)\<rparr>"
        have "r = Inr (len, count_pages pages)" "c' = ?c3"
          using assms(2) None res Inr none2 st inr2 c1 c2
          by (auto simp: fc_stage_def Let_def sbind_def index_try_get_with_def)
        moreover have "okc (insert ?k A) ?c3"
          by (rule inv_admit [of A c2 v ?k "mk_insert (ce_moka env) ?k v (fc_index c2)"])
            (use c2 inr2 get_insert in auto)
        ultimately show ?thesis by simp
      qed
    qed
  qed
qed

lemma get_inv:
  assumes "okc A c" "fc_get env k c = (r, c')"
  shows "okc A c' \<and> (\<forall>d. r = Inr (Some d) \<longrightarrow> d = content (object_path k))"
proof (cases "map_of (fc_staged_index c) k = None")
  case False
  show ?thesis
  proof (cases "fs_get (ce_fs env) (fc_local c) (object_path k)")
    case (Inl e)
    then show ?thesis using assms False local_missing_inv [OF assms(1)]
      by (auto simp: fc_get_def split: if_splits)
  next
    case (Inr d)
    then show ?thesis using assms False get_files inv_local [OF assms(1)] by (auto simp: fc_get_def)
  qed
qed (use assms in \<open>auto simp: fc_get_def\<close>)

lemma flush_key_inv:
  assumes "okc A c" "flush_key env k c = (r, c')"
  shows "okc A c' \<and>
    (is_ok r \<longrightarrow> map_of (fc_staged_index c') k = None \<and>
      (map_of (fc_staged_index c) k \<noteq> None \<longrightarrow>
         objects (fc_remote c') (object_path k) = Some (content (object_path k))))"
proof (cases "map_of (fc_staged_index c) k")
  case None
  have "fc_staged_index (index_invalidate env k c) = fc_staged_index c"
    by (auto simp: index_invalidate_def eviction_listener_def spawn_migration_def split: option.splits prod.splits)
  then show ?thesis using assms None inv_invalidate by (auto simp: flush_key_def)
next
  case (Some e)
  then have e: "ci_slice_key e = k" "is_current e c"
    using inv_key [OF assms(1)] by (simp_all add: is_current_def same_generation_def)
  obtain r1 c1 where m: "migrate_once env e c = (r1, c1)" by fastforce
  note c1 = migrate_once_inv [OF assms(1) m]
  have "fc_staged_index (index_invalidate env k c1) = fc_staged_index c1 \<and>
        fc_remote (index_invalidate env k c1) = fc_remote c1"
    by (auto simp: index_invalidate_def eviction_listener_def spawn_migration_def split: option.splits prod.splits)
  then show ?thesis using assms(2) Some m c1 e inv_invalidate [of A c1 k]
    by (cases r1) (auto simp: flush_key_def sbind_def)
qed

end

context cache_world
begin

text \<open>Work on one block keeps the remote copies of the others.\<close>

lemma migrate_remote_mono:
  "migrate_from_local_to_remote env n k c = (r, c') \<Longrightarrow> dom (objects (fc_remote c)) \<subseteq> dom (objects (fc_remote c'))"
  by (auto simp: migrate_from_local_to_remote_def Let_def sbind_def obj_context_def dest!: write_Some
    split: sum.splits option.splits if_splits prod.splits)

lemma invalidate_same:
  "fc_staged_index (index_invalidate env k c) = fc_staged_index c"
  "fc_remote (index_invalidate env k c) = fc_remote c"
  by (auto simp: index_invalidate_def eviction_listener_def spawn_migration_def split: option.splits prod.splits)

lemma flush_remote_mono:
  assumes "flush_key env k c = (r, c')"
  shows "dom (objects (fc_remote c)) \<subseteq> dom (objects (fc_remote c'))"
proof (cases "map_of (fc_staged_index c) k")
  case (Some e)
  obtain r1 c1 where m: "migrate_once env e c = (r1, c1)" by fastforce
  then have "dom (objects (fc_remote c)) \<subseteq> dom (objects (fc_remote c1))"
    using migrate_remote_mono [of "sk_block_size (ci_slice_key e)" "ci_slice_key e" c]
    by (auto simp: migrate_once_def sbind_def release_stage_bytes_def split: if_splits sum.splits prod.splits)
  then show ?thesis using assms Some m invalidate_same(2) [of k c1]
    by (cases r1) (auto simp: flush_key_def sbind_def)
qed (use assms invalidate_same in \<open>auto simp: flush_key_def\<close>)

lemma migrate_staged_others:
  assumes "okc A c" "migrate_once env e c = (r, c')" "q \<noteq> ci_slice_key e"
  shows "map_of (fc_staged_index c') q = map_of (fc_staged_index c) q"
proof -
  obtain r1 c1 where m: "migrate_from_local_to_remote env (sk_block_size (ci_slice_key e)) (ci_slice_key e) c = (r1, c1)"
    by fastforce
  then show ?thesis using assms(2,3) migrate_copy_inv [OF assms(1) m]
    by (cases r1) (auto simp: migrate_once_def sbind_def release_stage_bytes_def split: if_splits)
qed

lemma flush_staged_others:
  assumes "okc A c" "flush_key env k c = (r, c')" "q \<noteq> k"
  shows "map_of (fc_staged_index c') q = map_of (fc_staged_index c) q"
proof (cases "map_of (fc_staged_index c) k")
  case (Some e)
  obtain r1 c1 where m: "migrate_once env e c = (r1, c1)" by fastforce
  have "map_of (fc_staged_index c1) q = map_of (fc_staged_index c) q"
    using migrate_staged_others [OF assms(1) m] inv_key [OF assms(1) Some] assms(3) by simp
  then show ?thesis using assms(2) Some m invalidate_same(1) [of k c1]
    by (cases r1) (auto simp: flush_key_def sbind_def)
qed (use assms(2) invalidate_same in \<open>auto simp: flush_key_def\<close>)

lemma flush_keys_inv:
  assumes "flush_keys env ks c = (r, c')" "okc A c"
  shows "okc A c' \<and> dom (objects (fc_remote c)) \<subseteq> dom (objects (fc_remote c')) \<and>
    (is_ok r \<longrightarrow> (\<forall>k \<in> set ks. map_of (fc_staged_index c) k \<noteq> None \<longrightarrow>
       objects (fc_remote c') (object_path k) = Some (content (object_path k))))"
  using assms
proof (induction ks arbitrary: c)
  case (Cons k ks)
  obtain r1 c1 where f: "flush_key env k c = (r1, c1)" by fastforce
  note c1 = flush_key_inv [OF Cons.prems(2) f] and m1 = flush_remote_mono [OF f]
  show ?case
  proof (cases r1)
    case (Inl e)
    then show ?thesis using Cons.prems f c1 m1 by (auto simp: sbind_def)
  next
    case (Inr u)
    then have run: "flush_keys env ks c1 = (r, c')" using Cons.prems(1) f by (simp add: sbind_def)
    have IH: "okc A c'" "dom (objects (fc_remote c1)) \<subseteq> dom (objects (fc_remote c'))"
      using Cons.IH [OF run] c1 by auto
    have keep: "objects (fc_remote c') (object_path q) = Some (content (object_path q))"
      if q: "objects (fc_remote c1) (object_path q) = Some (content (object_path q))" for q
    proof -
      obtain d where "objects (fc_remote c') (object_path q) = Some d" using q IH(2) by blast
      then show ?thesis using inv_remote [OF IH(1)] by simp
    qed
    have "objects (fc_remote c') (object_path q) = Some (content (object_path q))"
      if "is_ok r" "q \<in> set (k # ks)" "map_of (fc_staged_index c) q \<noteq> None" for q
    proof (cases "q = k")
      case True
      then show ?thesis using keep c1 Inr that by auto
    next
      case False
      then show ?thesis using that Cons.IH [OF run] c1 flush_staged_others [OF Cons.prems(2) f False] by auto
    qed
    then show ?thesis using IH m1 by blast
  qed
qed simp

end

text \<open>
  A run of the cache: every operation of its users with any outcome, the eviction of an entry of
  the policy cache, a turn of a running migration, and the calls of the shutdown. The second
  component collects the blocks whose staging was acknowledged. Staging concerns blocks that are
  immutable: \<open>content\<close> is what a block of that name holds.
\<close>

inductive cache_step ::
  "('f, 'o, 'c) cache_env \<Rightarrow> ('p, 'pg) page_ops \<Rightarrow> (string \<Rightarrow> bytes) \<Rightarrow>
   ('f, 'o, 'c) file_cache \<times> slice_key set \<Rightarrow> ('f, 'o, 'c) file_cache \<times> slice_key set \<Rightarrow> bool"
  for env po content where
  cs_stage: "fc_stage env po p sid idx len pages c = (r, c') \<Longrightarrow>
     (\<And>d. gather_block po p len pages = Inr d \<Longrightarrow> d = content (object_path (slice_key_new sid idx len))) \<Longrightarrow>
     cache_step env po content (c, A) (c', if is_ok r then insert (slice_key_new sid idx len) A else A)"
| cs_get: "fc_get env k c = (r, c') \<Longrightarrow> cache_step env po content (c, A) (c', A)"
| cs_get_range: "fc_get_range env k off len c = (r, c') \<Longrightarrow> cache_step env po content (c, A) (c', A)"
| cs_flush_key: "flush_key env k c = (r, c') \<Longrightarrow> cache_step env po content (c, A) (c', A)"
| cs_evict: "cache_step env po content (c, A) (index_invalidate env k c, A)"
| cs_migrate: "(i, e, pressure) \<in> set (tr_running (fc_tasks c)) \<Longrightarrow> migrate_turn env e c = (finished, c') \<Longrightarrow>
     cache_step env po content (c, A)
       (if finished
        then c'\<lparr>fc_tasks := task_complete i False (fc_tasks c'),
                fc_pressure_active := (if pressure then False else fc_pressure_active c')\<rparr>
        else c', A)"
| cs_drain: "cache_step env po content (c, A) (c\<lparr>fc_tasks := snd (begin_draining (fc_tasks c))\<rparr>, A)"
| cs_cancel: "cache_step env po content (c, A) (c\<lparr>fc_tasks := registry_cancel (fc_tasks c)\<rparr>, A)"

lemma take_sub_bytes:
  assumes "buf = take (length buf) (sub_bytes pos want data)"
  shows "take want buf = sub_bytes pos (length (take want buf)) data"
proof -
  have "take want buf = take want (take (length buf) (take want (drop pos data)))"
    using assms by (simp add: sub_bytes_def)
  also have "\<dots> = take (min (length buf) want) (drop pos data)" by (simp add: min.commute)
  finally show ?thesis unfolding sub_bytes_def length_take .
qed

context stage_fs
begin

lemma read_exact_loop_files:
  assumes "\<And>data. files f n = Some data \<Longrightarrow> data = D" "read_exact_loop fs n f len pos out = Inr d"
    "out = sub_bytes off (length out) D" "pos = off + length out" "length out \<le> len"
  shows "d = sub_bytes off (length d) D \<and> length d \<le> len"
  using assms(2-)
proof (induction "len - length out" arbitrary: pos out rule: less_induct)
  case less
  define want where "want = min (len - length out) READ_CHUNK"
  show ?case
  proof (cases "length out < len")
    case True
    then obtain buf where buf: "fs_read_at fs n pos want f = Inr buf"
      using less.prems(1) by (subst (asm) read_exact_loop.simps) (auto simp: want_def Let_def split: sum.splits)
    have got: "take want buf = sub_bytes pos (length (take want buf)) D"
      using read_files [OF buf] assms(1) take_sub_bytes by blast
    show ?thesis
    proof (cases "take want buf = []")
      case True
      then show ?thesis using less.prems buf \<open>length out < len\<close>
        by (subst (asm) read_exact_loop.simps) (simp add: want_def [symmetric])
    next
      case False
      let ?out = "out @ take want buf"
      have run: "read_exact_loop fs n f len (pos + length (take want buf)) ?out = Inr d"
        using less.prems(1) buf True False
        by (subst (asm) read_exact_loop.simps) (simp add: want_def [symmetric])
      have "?out = sub_bytes off (length out) D @ sub_bytes (off + length out) (length (take want buf)) D"
        using got less.prems(2,3) by metis
      then have eq: "?out = sub_bytes off (length ?out) D" unfolding length_append sub_bytes_append .
      have le: "length ?out \<le> len" using less.prems(4) by (auto simp: want_def)
      have lt: "len - length ?out < len - length out" using True False by (cases "take want buf") auto
      have "pos + length (take want buf) = off + length ?out" using less.prems(3) by simp
      then show ?thesis by (rule less.hyps [OF lt run eq _ le])
    qed
  next
    case False
    then show ?thesis using less.prems by (subst (asm) read_exact_loop.simps) auto
  qed
qed

lemma read_exact_at_files:
  assumes "read_exact_at fs n off len f = Inr d" "\<And>data. files f n = Some data \<Longrightarrow> data = D"
  shows "d = sub_bytes off len D \<and> length d = len"
proof -
  have "read_exact_loop fs n f len off [] = Inr d" "len \<le> length d"
    using assms(1) by (auto simp: read_exact_at_def rbind_eq_Inr split: if_splits)
  then show ?thesis using read_exact_loop_files [of f n D len off "[]" d off] assms(2) by auto
qed

end

context cache_world
begin

lemma get_range_inv:
  assumes "okc A c" "fc_get_range env k off len c = (r, c')"
  shows "okc A c' \<and> (\<forall>d. r = Inr (Some d) \<longrightarrow> d = sub_bytes off len (content (object_path k)) \<and> length d = len)"
proof (cases "map_of (fc_staged_index c) k = None")
  case False
  show ?thesis
  proof (cases "read_exact_at (ce_fs env) (object_path k) off len (fc_local c)")
    case (Inl e)
    then show ?thesis using assms False local_missing_inv [OF assms(1)]
      by (cases e) (auto simp: fc_get_range_def)
  next
    case (Inr d)
    then show ?thesis using assms False read_exact_at_files [OF Inr inv_local [OF assms(1)]]
      by (auto simp: fc_get_range_def)
  qed
qed (use assms in \<open>auto simp: fc_get_range_def\<close>)

lemma migrate_turn_inv: "okc A c \<Longrightarrow> migrate_turn env e c = (b, c') \<Longrightarrow> okc A c'"
  using migrate_once_inv by (fastforce simp: migrate_turn_def split: if_splits prod.splits sum.splits)

lemma cache_step_inv:
  assumes "cache_step env po content s s'" "okc (snd s) (fst s)"
  shows "okc (snd s') (fst s')"
  using assms(1)
proof cases
  case (cs_stage p sid idx len pages c r c' A)
  then show ?thesis using stage_inv [of A c po p sid idx len pages r c'] assms(2) by simp
next
  case (cs_migrate i e pressure c finished c' A)
  have "okc A c'" using migrate_turn_inv [OF _ cs_migrate(4)] assms(2) cs_migrate(1) by simp
  then have "okc A (c'\<lparr>fc_tasks := t, fc_pressure_active := b\<rparr>)" for t b by (rule inv_same) simp_all
  then show ?thesis using cs_migrate \<open>okc A c'\<close> by simp
next
  case (cs_drain c A)
  have "okc A (c\<lparr>fc_tasks := t\<rparr>)" for t by (rule inv_same [of A c]) (use assms(2) cs_drain in simp_all)
  then show ?thesis using cs_drain by simp
next
  case (cs_cancel c A)
  have "okc A (c\<lparr>fc_tasks := t\<rparr>)" for t by (rule inv_same [of A c]) (use assms(2) cs_cancel in simp_all)
  then show ?thesis using cs_cancel by simp
next
  case (cs_get k c r c' A)
  then show ?thesis using get_inv [of A c k r c'] assms(2) by simp
next
  case (cs_get_range k off len c r c' A)
  then show ?thesis using get_range_inv [of A c k off len r c'] assms(2) by simp
next
  case (cs_flush_key k c r c' A)
  then show ?thesis using flush_key_inv [of A c k r c'] assms(2) by simp
next
  case (cs_evict c A k)
  then show ?thesis using inv_invalidate [of A c k] assms(2) by simp
qed

lemma cache_run_inv:
  assumes "(cache_step env po content)\<^sup>*\<^sup>* s s'" "okc (snd s) (fst s)"
  shows "okc (snd s') (fst s')"
  using assms by (induction rule: rtranclp_induct) (auto intro: cache_step_inv)

lemma flush_slice_inv:
  assumes "okc A c" "flush_slice env sid c = (Inr (), c')" "k \<in> A" "sk_slice_id k = sid"
  shows "objects (fc_remote c') (object_path k) = Some (content (object_path k))"
proof -
  have "safe c k" using assms(1,3) by (simp add: fc_inv_def)
  note run = flush_keys_inv [OF assms(2) [unfolded flush_slice_def] assms(1)]
  show ?thesis
  proof (cases "map_of (fc_staged_index c) k")
    case (Some e)
    then have "k \<in> fst ` set (fc_staged_index c)" using map_of_SomeD [OF Some] by force
    then show ?thesis using run assms(4) Some by auto
  next
    case None
    then obtain d where "objects (fc_remote c') (object_path k) = Some d"
      using \<open>safe c k\<close> run by (auto simp: block_safe_def)
    then show ?thesis using run inv_remote by blast
  qed
qed

end

section \<open>Recovery\<close>

lemma slice_key_from_str_path_eq: "slice_key_from_str n = Inr k \<Longrightarrow> object_path k = n"
  by (auto simp: slice_key_from_str_def object_path_def rbind_eq_Inr Let_def
    split: option.splits list.splits if_splits)

lemma incomplete_not_block: "is_incomplete_stage_file n \<Longrightarrow> n \<noteq> object_path k"
proof
  assume "is_incomplete_stage_file n" "n = object_path k"
  then have "take 1 (object_path k) = ''.''"
    by (auto simp: is_incomplete_stage_file_def strip_prefix_def split: option.splits if_splits)
  then have "CHR ''.'' \<in> set (object_path k)" by (metis in_set_takeD list.set_intros(1))
  then show False using object_path_no_dot by blast
qed

text \<open>The recovered entries are of files that exist.\<close>

definition entries_ok :: "(string \<Rightarrow> bytes option) \<Rightarrow> (slice_key \<times> cache_index) list \<Rightarrow> bool" where
  "entries_ok files acc \<longleftrightarrow>
     (\<forall>k e. map_of acc k = Some e \<longrightarrow> ci_slice_key e = k \<and> files (object_path k) \<noteq> None)"

context stage_fs
begin

lemma recover_entries_ok:
  assumes "recover_entries fs es lk acc f = (Inr idx, f')" "entries_ok (files f) acc"
    "\<And>e n. Some e \<in> set es \<Longrightarrow> fde_is_file e \<Longrightarrow> fde_name e = Some n \<Longrightarrow>
       files f n \<noteq> None \<or> is_incomplete_stage_file n"
  shows "entries_ok (files f') idx \<and> (\<forall>k. files f' (object_path k) = files f (object_path k))"
  using assms
proof (induction es arbitrary: lk acc f)
  case (Cons x es)
  obtain e n where n: "x = Some e" "fde_is_file e" "fde_name e = Some n"
    using Cons.prems(1) by (cases x) (auto split: if_splits option.splits)
  show ?case
  proof (cases "is_incomplete_stage_file n")
    case True
    then obtain f1 where f1: "fs_remove fs n f = Some f1" "recover_entries fs es lk acc f1 = (Inr idx, f')"
      using Cons.prems(1) n by (auto split: option.splits)
    have same: "files f1 (object_path k) = files f (object_path k)" for k
      using remove_files [OF f1(1)] incomplete_not_block [OF True, of k] by simp
    have "files f1 m \<noteq> None \<or> is_incomplete_stage_file m"
      if "Some e' \<in> set es" "fde_is_file e'" "fde_name e' = Some m" for e' m
      using Cons.prems(3) [of e' m] that remove_files [OF f1(1)] True by auto
    moreover have "entries_ok (files f1) acc" using Cons.prems(2) same by (simp add: entries_ok_def)
    ultimately show ?thesis using Cons.IH [OF f1(2)] same by simp
  next
    case False
    then obtain k where k: "slice_key_from_str n = Inr k"
        "recover_entries fs es (lk + 1) (index_put k \<lparr>ci_slice_key = k, ci_migration_lock = lk\<rparr> acc) f = (Inr idx, f')"
      using Cons.prems(1) n by (auto split: sum.splits if_splits)
    have "files f (object_path k) \<noteq> None"
      using Cons.prems(3) [of e n] n False slice_key_from_str_path_eq [OF k(1)] by auto
    then have "entries_ok (files f) (index_put k \<lparr>ci_slice_key = k, ci_migration_lock = lk\<rparr> acc)"
      using Cons.prems(2) by (auto simp: entries_ok_def)
    then show ?thesis using Cons.IH [OF k(2)] Cons.prems(3) by (meson list.set_intros(2))
  qed
qed simp

end

context cache_world
begin

lemma spawn_recovered_same:
  "spawn_recovered es c = (r, c') \<Longrightarrow> fc_staged_index c' = fc_staged_index c \<and> fc_local c' = fc_local c \<and>
     fc_remote c' = fc_remote c \<and> fc_index c' = fc_index c"
proof (induction es arbitrary: c)
  case (Cons e es)
  then show ?case by (auto simp: spawn_migration_def split: prod.splits bool.splits)
qed simp

lemma file_cache_new_inv:
  assumes "file_cache_new env config f empty_index remote tasks = Inr c"
    and "\<And>k. mk_get (ce_moka env) k empty_index = None"
    and "\<And>k d. files f (object_path k) = Some d \<Longrightarrow> d = content (object_path k)"
    and "\<And>k d. objects remote (object_path k) = Some d \<Longrightarrow> d = content (object_path k)"
  shows "okc {} c"
proof -
  obtain f1 where f1: "fs_create_dir_all (ce_fs env) f = Some f1"
    using assms(1) by (auto simp: file_cache_new_def split: if_splits option.splits)
  obtain idx f2 where rec: "recover_stage_index (ce_fs env) f1 = (Inr idx, f2)"
    using assms(1) f1 by (auto simp: file_cache_new_def split: if_splits sum.splits prod.splits)
  obtain es where es: "fs_read_dir (ce_fs env) f1 = Some es" "recover_entries (ce_fs env) es 0 [] f1 = (Inr idx, f2)"
    using rec by (auto simp: recover_stage_index_def split: option.splits)
  have ok: "entries_ok (files f2) idx \<and> (\<forall>k. files f2 (object_path k) = files f1 (object_path k))"
    by (rule recover_entries_ok [OF es(2)]) (use dir_entries [OF es(1)] in \<open>auto simp: entries_ok_def\<close>)
  have f: "files f1 = files f" using dir_files [OF f1] .
  define c1 where "c1 = \<lparr> fc_staged_index = idx, fc_index = empty_index, fc_remote = remote, fc_local = f2,
      fc_tasks = tasks,
      fc_staged_bytes = wrap64 (sum_list (map (\<lambda>(k, e). sk_block_size (ci_slice_key e)) idx)),
      fc_pressure_active = False, fc_max_stage_size = fcc_max_stage_size config,
      fc_stage_dir = fcc_stage_cache_dir config,
      fc_next_lock = fold (\<lambda>(_, e). max (ci_migration_lock e + 1)) idx 0 \<rparr>"
  have "fst (sbind (spawn_recovered (map snd idx)) (\<lambda>_. sget (\<lambda>c. c)) c1) = Inr c"
    using assms(1) f1 rec by (simp add: file_cache_new_def c1_def split: if_splits)
  then obtain u where "spawn_recovered (map snd idx) c1 = (Inr u, c)"
    by (auto simp: sbind_def split: prod.splits sum.splits)
  then have c: "fc_staged_index c = idx" "fc_local c = f2" "fc_remote c = remote" "fc_index c = empty_index"
    using spawn_recovered_same by (fastforce simp: c1_def)+
  have loc: "d = content (object_path k)" if "files f2 (object_path k) = Some d" for k d
    using ok f assms(3) [of k d] that by simp
  have idx: "ci_slice_key e = k \<and> files f2 (object_path k) = Some (content (object_path k))"
    if st: "map_of idx k = Some e" for k e
  proof -
    obtain d where "files f2 (object_path k) = Some d" using ok st unfolding entries_ok_def by blast
    then show ?thesis using loc ok st unfolding entries_ok_def by blast
  qed
  show ?thesis unfolding fc_inv_def block_safe_def c assms(2)
    by (intro conjI) (use loc in blast, use assms(4) in blast, use idx in blast, simp, simp)
qed

end

section \<open>An instance of the parameters\<close>

definition alist_fs :: "(string \<times> bytes) list fs_ops" where
  "alist_fs = \<lparr>
     fs_create_dir_all = Some,
     fs_create = (\<lambda>n f. Inr ((n, []) # filter (\<lambda>(q, _). q \<noteq> n) f)),
     fs_write_all = (\<lambda>n d f. (True, (n, d) # filter (\<lambda>(q, _). q \<noteq> n) f)),
     fs_sync = (\<lambda>n f. (True, f)),
     fs_rename = (\<lambda>a b f. case map_of f a of
        None \<Rightarrow> None
      | Some d \<Rightarrow> Some (if a = b then f
                         else (b, d) # filter (\<lambda>(q, _). q \<noteq> a) (filter (\<lambda>(q, _). q \<noteq> b) f))),
     fs_remove = (\<lambda>n f. Some (filter (\<lambda>(q, _). q \<noteq> n) f)),
     fs_open = (\<lambda>n f. case map_of f n of None \<Rightarrow> Inl IoNotFound | Some _ \<Rightarrow> Inr ()),
     fs_read_at = (\<lambda>n off want f. case map_of f n of None \<Rightarrow> Inl IoOther | Some d \<Rightarrow> Inr (sub_bytes off want d)),
     fs_read_dir = (\<lambda>f. Some (map (\<lambda>(n, d). Some \<lparr>fde_name = Some n, fde_is_file = True, fde_len = length d\<rparr>) f)),
     fs_get = (\<lambda>f n. case map_of f n of None \<Rightarrow> Inl ObjNotFound | Some d \<Rightarrow> Inr d),
     fs_delete = (\<lambda>n f. Inr (filter (\<lambda>(q, _). q \<noteq> n) f)) \<rparr>"

interpretation afs: stage_fs alist_fs map_of
proof (unfold_locales, goal_cases)
  case (5 a b f f')
  then show ?case
    by (auto simp: alist_fs_def map_of_filter_neq fun_eq_iff simp del: filter_filter split: option.splits if_splits)
next
  case (10 f es e n)
  then show ?case by (auto simp: alist_fs_def weak_map_of_SomeI split: prod.splits)
qed (auto simp: alist_fs_def map_of_filter_neq fun_eq_iff split: option.splits)

text \<open>A policy cache that keeps the newest entries.\<close>

definition list_moka :: "nat \<Rightarrow> (('k \<times> 'v) list, 'k, 'v) moka_ops" where
  "list_moka n = \<lparr>
     mk_get = (\<lambda>k c. map_of c k),
     mk_insert = (\<lambda>k v c. take n ((k, v) # c)),
     mk_remove = (\<lambda>k c. filter (\<lambda>(q, _). q \<noteq> k) c) \<rparr>"

lemma map_of_take: "map_of (take n xs) k = Some v \<Longrightarrow> map_of xs k = Some v"
proof (induction xs arbitrary: n)
  case (Cons x xs)
  then show ?case by (cases n; cases x) (auto split: if_splits)
qed simp

lemma list_moka_cache: "moka_cache (list_moka n)"
proof (unfold_locales, goal_cases)
  case (1 k k' v c w)
  then have "map_of (take n ((k', v) # c)) k = Some w" by (simp add: list_moka_def)
  then have "map_of ((k', v) # c) k = Some w" by (rule map_of_take)
  then show ?case by (auto simp: list_moka_def split: if_splits)
next
  case (2 k k' c w)
  then show ?case by (auto simp: list_moka_def map_of_filter_neq split: if_splits)
qed

interpretation lmk: moka_cache "list_moka n" for n
  by (rule list_moka_cache)

definition demo_cache_env ::
  "((string \<times> bytes) list, (string \<times> bytes) list, (slice_key \<times> cache_index) list) cache_env" where
  "demo_cache_env = \<lparr> ce_fs = alist_fs, ce_remote = alist_store, ce_moka = list_moka 16 \<rparr>"

interpretation demo_cache: cache_world demo_cache_env map_of map_of content for content
  unfolding cache_world_def demo_cache_env_def
  by (simp add: afs.stage_fs_axioms alist_sto.object_store_axioms list_moka_cache)

section \<open>The block cache in memory\<close>

definition mem_cache_get ::
  "('c, slice_key, bytes) moka_ops \<Rightarrow> 'o object_ops \<Rightarrow> 'o \<Rightarrow> slice_key \<Rightarrow> 'c \<Rightarrow> bytes option sresult \<times> 'c" where
  "mem_cache_get mo ro remote key c =
     (case mk_get mo key c of
        Some v \<Rightarrow> (Inr (Some v), c)
      | None \<Rightarrow>
          (case obj_context (os_get ro remote (object_path key)) of
             Inr v \<Rightarrow> (Inr (Some v), mk_insert mo key v c)
           | Inl e \<Rightarrow> if storage_is_not_found e then (Inr None, c) else (Inl CacheError, c)))"

definition mem_coherent where
  "mem_coherent mo content c \<longleftrightarrow> (\<forall>k v. mk_get mo k c = Some v \<longrightarrow> v = content (object_path k))"

lemma mem_cache_get_coherent:
  assumes "moka_cache mo" "object_store ro objects" "mem_coherent mo content c"
    "\<And>k d. objects remote (object_path k) = Some d \<Longrightarrow> d = content (object_path k)"
    "mem_cache_get mo ro remote key c = (r, c')"
  shows "mem_coherent mo content c' \<and> (\<forall>d. r = Inr (Some d) \<longrightarrow> d = content (object_path key))"
proof (cases "mk_get mo key c")
  case None
  show ?thesis
  proof (cases "os_get ro remote (object_path key)")
    case (Inl e)
    then show ?thesis using assms(3,5) None by (auto simp: mem_cache_get_def split: if_splits)
  next
    case (Inr d)
    then have "d = content (object_path key)" using assms(4) object_store.get_Inr [OF assms(2)] by blast
    then show ?thesis using assms(3,5) None Inr moka_cache.get_insert [OF assms(1)]
      unfolding mem_coherent_def mem_cache_get_def by fastforce
  qed
next
  case (Some v)
  then show ?thesis using assms(3,5) by (auto simp: mem_cache_get_def mem_coherent_def)
qed

end
