(* ===== verification/Slice_Buffer.thy ===== *)
theory Slice_Buffer
  imports Cache_Safety
begin

text \<open>
  The write buffer of one slice (\<^verbatim>\<open>storage/src/slice_buffer.rs\<close>): a chunk of block slots, each
  empty or a row of optional pages. Reading and writing are nested loops over blocks and pages;
  flushing hands whole blocks to the object store or to the stage cache and returns their pages to
  the pool. The pool is used through \<open>page_ops\<close>. An operation runs on a world of the pool, the
  buffer, and the store or cache the blocks go to.
\<close>

section \<open>Data\<close>

record 'pg data_block =
  db_length :: nat
  db_pages :: "'pg option list"

datatype 'pg block = BEmpty | BData "'pg data_block"

record 'pg slice_buffer =
  sb_length :: nat
  sb_flushed_length :: nat
  sb_block_slots :: "'pg block list"
  sb_total_page_cnt :: nat

record slice_buffer_status =
  st_length :: nat
  st_page_cnt :: nat
  st_real_size :: nat
  st_full_block_cnt :: nat
  st_partial_block_cnt :: nat

record ('p, 'pg, 's) sb_world =
  sw_pool :: 'p
  sw_buf :: "'pg slice_buffer"
  sw_sink :: 's

type_synonym ('p, 'pg, 's, 'a) sb_comp = "(('p, 'pg, 's) sb_world, storage_error, 'a) comp"

definition new_data_block :: "'pg block" where
  "new_data_block = BData \<lparr> db_length = 0, db_pages = replicate (BLOCK_SIZE div PAGE_SIZE) None \<rparr>"

definition slice_buffer_new :: "'pg slice_buffer" where
  "slice_buffer_new = \<lparr> sb_length = 0, sb_flushed_length = 0,
     sb_block_slots = replicate (CHUNK_SIZE div BLOCK_SIZE) BEmpty, sb_total_page_cnt = 0 \<rparr>"

definition block_is_full :: "'pg block \<Rightarrow> bool" where
  "block_is_full b = (case b of BEmpty \<Rightarrow> False | BData db \<Rightarrow> db_length db = BLOCK_SIZE)"

definition full_block_cnt :: "'pg slice_buffer \<Rightarrow> nat" where
  "full_block_cnt sb = length (filter block_is_full (sb_block_slots sb))"

definition sb_status :: "'pg slice_buffer \<Rightarrow> slice_buffer_status" where
  "sb_status sb =
     (let full_cnt = full_block_cnt sb in
      \<lparr> st_length = sb_length sb, st_page_cnt = sb_total_page_cnt sb,
        st_real_size = wrap64 (sb_total_page_cnt sb * PAGE_SIZE), st_full_block_cnt = full_cnt,
        st_partial_block_cnt = length (sb_block_slots sb) - full_cnt \<rparr>)"

section \<open>Reading\<close>

text \<open>One page of a block: a missing page and an empty block are holes.\<close>

definition read_page ::
  "('p, 'pg) page_ops \<Rightarrow> 'p \<Rightarrow> 'pg block \<Rightarrow> nat \<Rightarrow> nat \<Rightarrow> nat \<Rightarrow> bytes sresult" where
  "read_page po p block page_idx page_offset n =
     (case block of
        BEmpty \<Rightarrow> Inr (zeros n)
      | BData db \<Rightarrow>
          if length (db_pages db) \<le> page_idx
          then Inl (InvalidRange ''data block page'' page_idx 1 (length (db_pages db)))
          else (case db_pages db ! page_idx of
                  Some page \<Rightarrow> po_read po p page page_offset n
                | None \<Rightarrow> Inr (zeros n)))"

text \<open>The inner loop: \<open>n\<close> bytes of a block from an offset, \<open>done\<close> of them read.\<close>

function read_block ::
  "('p, 'pg) page_ops \<Rightarrow> 'p \<Rightarrow> 'pg block \<Rightarrow> nat \<Rightarrow> nat \<Rightarrow> nat \<Rightarrow> bytes sresult" where
  "read_block po p block block_offset n dn =
     (if dn < n
      then (let new_block_offset = block_offset + dn;
                page_idx = new_block_offset div PAGE_SIZE;
                page_offset = new_block_offset mod PAGE_SIZE;
                m = min (n - dn) (PAGE_SIZE - page_offset) in
            rbind (read_page po p block page_idx page_offset m) (\<lambda>d.
            rbind (read_block po p block block_offset n (dn + m)) (\<lambda>rest. Inr (d @ rest))))
      else Inr [])"
  by auto
termination
  by (relation "measure (\<lambda>(po, p, block, block_offset, n, dn). n - dn)") (auto simp: PAGE_SIZE_def)

declare read_block.simps [simp del]

text \<open>The outer loop: \<open>got\<close> of the \<open>n\<close> expected bytes are read.\<close>

function read_blocks ::
  "('p, 'pg) page_ops \<Rightarrow> 'p \<Rightarrow> 'pg slice_buffer \<Rightarrow> nat \<Rightarrow> nat \<Rightarrow> nat \<Rightarrow> bytes sresult" where
  "read_blocks po p sb offset n got =
     (if got < n
      then (let new_pos = got + offset;
                block_idx = new_pos div BLOCK_SIZE;
                block_offset = new_pos mod BLOCK_SIZE;
                m = min (n - got) (BLOCK_SIZE - block_offset) in
            if length (sb_block_slots sb) \<le> block_idx
            then Inl (InvalidRange ''slice buffer block'' block_idx 1 (length (sb_block_slots sb)))
            else
              rbind (read_block po p (sb_block_slots sb ! block_idx) block_offset m 0) (\<lambda>d.
              rbind (read_blocks po p sb offset n (got + m)) (\<lambda>rest. Inr (d @ rest))))
      else Inr [])"
  by auto
termination
  by (relation "measure (\<lambda>(po, p, sb, offset, n, got). n - got)") (auto simp: BLOCK_SIZE_def)

declare read_blocks.simps [simp del]

text \<open>\<^verbatim>\<open>read_at\<close> into a destination of \<open>dst_len\<close> bytes: the bytes it fills.\<close>

definition sb_read_at :: "('p, 'pg) page_ops \<Rightarrow> 'p \<Rightarrow> 'pg slice_buffer \<Rightarrow> nat \<Rightarrow> nat \<Rightarrow> bytes sresult" where
  "sb_read_at po p sb offset dst_len =
     (if offset \<ge> sb_length sb then Inr []
      else if dst_len = 0 then Inr []
      else read_blocks po p sb offset (min dst_len (sb_length sb - offset)) 0)"

section \<open>Pages of a block\<close>

definition upd_buf :: "('pg slice_buffer \<Rightarrow> 'pg slice_buffer) \<Rightarrow> ('p, 'pg, 's) sb_world \<Rightarrow> ('p, 'pg, 's) sb_world" where
  "upd_buf g w = w\<lparr>sw_buf := g (sw_buf w)\<rparr>"

definition set_slot :: "nat \<Rightarrow> 'pg block \<Rightarrow> 'pg slice_buffer \<Rightarrow> 'pg slice_buffer" where
  "set_slot i b sb = sb\<lparr>sb_block_slots := (sb_block_slots sb)[i := b]\<rparr>"

text \<open>\<^verbatim>\<open>DataBlock::get_page\<close> on the block of a slot: whether the page is a new one.\<close>

definition get_page :: "('p, 'pg) page_ops \<Rightarrow> nat \<Rightarrow> 'pg data_block \<Rightarrow> nat \<Rightarrow> ('p, 'pg, 's, 'pg \<times> bool) sb_comp" where
  "get_page po bi db page_idx w =
     (if length (db_pages db) \<le> page_idx
      then (Inl (InvalidRange ''data block page'' page_idx 1 (length (db_pages db))), w)
      else case db_pages db ! page_idx of
        Some page \<Rightarrow> (Inr (page, False), w)
      | None \<Rightarrow>
          (case po_acquire po (sw_pool w) of
             None \<Rightarrow> (Inl PagePoolExhausted, w)
           | Some (page, p) \<Rightarrow>
               (Inr (page, True),
                upd_buf (set_slot bi (BData (db\<lparr>db_pages := (db_pages db)[page_idx := Some page]\<rparr>))) (w\<lparr>sw_pool := p\<rparr>))))"

text \<open>\<^verbatim>\<open>copy_from_reader\<close> into the page of a slot.\<close>

definition copy_into_page ::
  "('p, 'pg) page_ops \<Rightarrow> nat \<Rightarrow> nat \<Rightarrow> 'pg \<Rightarrow> nat \<Rightarrow> bytes \<Rightarrow> ('p, 'pg, 's, unit) sb_comp" where
  "copy_into_page po bi page_idx page page_offset d w =
     (case po_write po page page_offset (length d) d (sw_pool w) of
        (r, page', p) \<Rightarrow>
          (r, upd_buf (\<lambda>sb. case sb_block_slots sb ! bi of
                 BEmpty \<Rightarrow> sb
               | BData db \<Rightarrow> set_slot bi (BData (db\<lparr>db_pages := (db_pages db)[page_idx := Some page']\<rparr>)) sb)
              (w\<lparr>sw_pool := p\<rparr>)))"

text \<open>\<^verbatim>\<open>data_block.length = max(data_block.length, block_offset + total_page_write_len)\<close>.\<close>

definition grow_block :: "nat \<Rightarrow> nat \<Rightarrow> 'pg slice_buffer \<Rightarrow> 'pg slice_buffer" where
  "grow_block bi n sb =
     (case sb_block_slots sb ! bi of
        BEmpty \<Rightarrow> sb
      | BData db \<Rightarrow> set_slot bi (BData (db\<lparr>db_length := max (db_length db) n\<rparr>)) sb)"

section \<open>Writing\<close>

text \<open>
  The inner loop of \<^verbatim>\<open>write_at\<close>: \<open>n\<close> bytes into the block of slot \<open>bi\<close>, \<open>dn\<close> of them written,
  taken from \<open>data\<close> at \<open>tw\<close>. The code holds the data block of the slot during the loop.
\<close>

function write_block ::
  "('p, 'pg) page_ops \<Rightarrow> nat \<Rightarrow> nat \<Rightarrow> nat \<Rightarrow> nat \<Rightarrow> bytes \<Rightarrow> nat \<Rightarrow> ('p, 'pg, 's, unit) sb_comp" where
  "write_block po bi block_offset n dn data tw =
     (if dn < n
      then (let new_block_offset = block_offset + dn;
                page_idx = new_block_offset div PAGE_SIZE;
                page_offset = new_block_offset mod PAGE_SIZE;
                m = min (n - dn) (PAGE_SIZE - page_offset) in
            sbind (\<lambda>w. case sb_block_slots (sw_buf w) ! bi of
                         BEmpty \<Rightarrow> (Inl StoragePanicked, w)
                       | BData db \<Rightarrow> get_page po bi db page_idx w) (\<lambda>(page, new_one).
            sbind (smod (upd_buf (\<lambda>sb. if new_one then sb\<lparr>sb_total_page_cnt := sb_total_page_cnt sb + 1\<rparr> else sb))) (\<lambda>_.
            sbind (copy_into_page po bi page_idx page page_offset (sub_bytes tw m data)) (\<lambda>_.
            sbind (smod (upd_buf (grow_block bi (block_offset + (dn + m))))) (\<lambda>_.
              write_block po bi block_offset n (dn + m) data (tw + m))))))
      else sret ())"
  by auto
termination
  by (relation "measure (\<lambda>(po, bi, block_offset, n, dn, data, tw). n - dn)") (auto simp: PAGE_SIZE_def)

declare write_block.simps [simp del]

definition init_slot :: "nat \<Rightarrow> 'pg slice_buffer \<Rightarrow> 'pg slice_buffer" where
  "init_slot bi sb = (case sb_block_slots sb ! bi of BEmpty \<Rightarrow> set_slot bi new_data_block sb | BData _ \<Rightarrow> sb)"

function write_blocks ::
  "('p, 'pg) page_ops \<Rightarrow> nat \<Rightarrow> nat \<Rightarrow> bytes \<Rightarrow> nat \<Rightarrow> ('p, 'pg, 's, unit) sb_comp" where
  "write_blocks po offset n data tw =
     (if tw < n
      then (let new_offset = offset + tw;
                block_index = new_offset div BLOCK_SIZE;
                block_offset = new_offset mod BLOCK_SIZE;
                m = min (n - tw) (BLOCK_SIZE - block_offset) in
            sbind (sask (\<lambda>w. let l = length (sb_block_slots (sw_buf w)) in
                     if l \<le> block_index then Inl (InvalidRange ''slice buffer block'' block_index 1 l) else Inr ())) (\<lambda>_.
            sbind (smod (upd_buf (init_slot block_index))) (\<lambda>_.
            sbind (write_block po block_index block_offset m 0 data tw) (\<lambda>_.
              write_blocks po offset n data (tw + m)))))
      else sret ())"
  by auto
termination
  by (relation "measure (\<lambda>(po, offset, n, data, tw). n - tw)") (auto simp: BLOCK_SIZE_def)

declare write_blocks.simps [simp del]

subsection \<open>Reserving the pages of a write\<close>

definition needs_page :: "'pg slice_buffer \<Rightarrow> nat \<times> nat \<Rightarrow> bool" where
  "needs_page sb pos =
     (case sb_block_slots sb ! fst pos of
        BEmpty \<Rightarrow> True
      | BData db \<Rightarrow> (case db_pages db ! snd pos of None \<Rightarrow> True | Some _ \<Rightarrow> False))"

definition missing_pages :: "nat \<Rightarrow> nat \<Rightarrow> 'pg slice_buffer \<Rightarrow> (nat \<times> nat) list" where
  "missing_pages offset write_end sb =
     (let pages_per_block = BLOCK_SIZE div PAGE_SIZE;
          first_page = offset div PAGE_SIZE; last_page = (write_end - 1) div PAGE_SIZE in
      filter (needs_page sb) (map (\<lambda>g. (g div pages_per_block, g mod pages_per_block)) [first_page..<Suc last_page]))"

text \<open>Pages collected before a failure are dropped with the vector that holds them.\<close>

fun drop_pages :: "('p, 'pg) page_ops \<Rightarrow> 'pg list \<Rightarrow> 'p \<Rightarrow> 'p sresult" where
  "drop_pages po [] p = Inr p"
| "drop_pages po (pg # pgs) p = rbind (po_drop po pg p) (drop_pages po pgs)"

fun acquire_pages :: "('p, 'pg) page_ops \<Rightarrow> nat \<Rightarrow> 'pg list \<Rightarrow> ('p, storage_error, 'pg list) comp" where
  "acquire_pages po 0 acc p = (Inr acc, p)"
| "acquire_pages po (Suc n) acc p =
     (case po_acquire po p of
        None \<Rightarrow> (case drop_pages po acc p of Inl e \<Rightarrow> (Inl e, p) | Inr p' \<Rightarrow> (Inl PagePoolExhausted, p'))
      | Some (pg, p') \<Rightarrow> acquire_pages po n (acc @ [pg]) p')"

definition install_page :: "(nat \<times> nat) \<times> 'pg \<Rightarrow> 'pg slice_buffer \<Rightarrow> 'pg slice_buffer" where
  "install_page slot sb =
     (case slot of ((bi, pi), page) \<Rightarrow>
        let sb' = init_slot bi sb in
        case sb_block_slots sb' ! bi of
          BEmpty \<Rightarrow> sb'
        | BData db \<Rightarrow> set_slot bi (BData (db\<lparr>db_pages := (db_pages db)[pi := Some page]\<rparr>)) sb')"

definition reserve_pages_for_write :: "('p, 'pg) page_ops \<Rightarrow> nat \<Rightarrow> nat \<Rightarrow> ('p, 'pg, 's, unit) sb_comp" where
  "reserve_pages_for_write po offset write_end w =
     (let missing = missing_pages offset write_end (sw_buf w) in
      case acquire_pages po (length missing) [] (sw_pool w) of
        (Inl e, p) \<Rightarrow> (Inl e, w\<lparr>sw_pool := p\<rparr>)
      | (Inr reserved, p) \<Rightarrow>
          (Inr (), upd_buf (\<lambda>sb.
              let sb' = fold install_page (zip missing reserved) sb in
              sb'\<lparr>sb_total_page_cnt := sb_total_page_cnt sb' + length reserved\<rparr>) (w\<lparr>sw_pool := p\<rparr>)))"

definition sb_write_at :: "('p, 'pg) page_ops \<Rightarrow> nat \<Rightarrow> bytes \<Rightarrow> ('p, 'pg, 's, nat) sb_comp" where
  "sb_write_at po offset data w =
     (let expected = length data in
      if expected = 0 then (Inr 0, w)
      else case checked_end ''slice buffer write'' offset expected CHUNK_SIZE of
        Inl e \<Rightarrow> (Inl e, w)
      | Inr write_end \<Rightarrow>
          if offset < sb_flushed_length (sw_buf w) then (Inl InvalidSliceBufferWriteOffset, w)
          else
            sbind (reserve_pages_for_write po offset write_end) (\<lambda>_.
            sbind (write_blocks po offset expected data 0) (\<lambda>_.
            sbind (smod (upd_buf (\<lambda>sb. sb\<lparr>sb_length := max (sb_length sb) write_end\<rparr>))) (\<lambda>_.
              sret expected))) w)"

section \<open>Flushing\<close>

function collect_loop :: "('p, 'pg) page_ops \<Rightarrow> 'p \<Rightarrow> 'pg data_block \<Rightarrow> nat \<Rightarrow> bytes sresult" where
  "collect_loop po p db current =
     (if current < db_length db
      then (let page_idx = current div PAGE_SIZE; page_offset = current mod PAGE_SIZE;
                to_flush_len = min (PAGE_SIZE - page_offset) (db_length db - current) in
            if length (db_pages db) \<le> page_idx
            then Inl (InvalidRange ''data block page'' page_idx 1 (length (db_pages db)))
            else rbind (case db_pages db ! page_idx of
                          None \<Rightarrow> Inr (zeros to_flush_len)
                        | Some page \<Rightarrow> po_read po p page page_offset to_flush_len) (\<lambda>d.
                 rbind (collect_loop po p db (current + to_flush_len)) (\<lambda>rest. Inr (d @ rest))))
      else Inr [])"
  by auto
termination
  by (relation "measure (\<lambda>(po, p, db, current). db_length db - current)") (auto simp: PAGE_SIZE_def)

declare collect_loop.simps [simp del]

text \<open>The bytes are streamed into a writer of the object; it is published by its shutdown.\<close>

definition copy_data_block_to_object_storage ::
  "('p, 'pg) page_ops \<Rightarrow> 'o object_ops \<Rightarrow> 'pg data_block \<Rightarrow> string \<Rightarrow> ('p, 'pg, 'o, unit) sb_comp" where
  "copy_data_block_to_object_storage po oo db key w =
     (if \<not> os_path_ok oo key then (Inl (ObjectStorageError ObjOther), w)
      else case collect_loop po (sw_pool w) db 0 of
        Inl e \<Rightarrow> (Inl e, w)
      | Inr d \<Rightarrow>
          (case os_write oo key d (sw_sink w) of
             None \<Rightarrow> (Inl UnknownIOError, w)
           | Some st \<Rightarrow> (Inr (), w\<lparr>sw_sink := st\<rparr>)))"

definition pending_blocks :: "nat \<Rightarrow> 'pg slice_buffer \<Rightarrow> nat list" where
  "pending_blocks offset sb =
     filter (\<lambda>i. case sb_block_slots sb ! i of BEmpty \<Rightarrow> False | BData _ \<Rightarrow> (i + 1) * BLOCK_SIZE \<le> offset)
       [0..<length (sb_block_slots sb)]"

definition check_flush_offset :: "string \<Rightarrow> nat \<Rightarrow> 'pg slice_buffer \<Rightarrow> unit sresult" where
  "check_flush_offset subject offset sb =
     (if sb_flushed_length sb > offset then Inl InvalidSliceBufferWriteOffset
      else if offset > CHUNK_SIZE then Inl (InvalidRange subject offset 0 CHUNK_SIZE) else Inr ())"

text \<open>\<^verbatim>\<open>self.block_slots[idx] = Block::Empty\<close> drops the pages of the block.\<close>

definition release_block :: "('p, 'pg) page_ops \<Rightarrow> nat \<Rightarrow> 'pg data_block \<Rightarrow> ('p, 'pg, 's, unit) sb_comp" where
  "release_block po idx db w =
     (case drop_pages po (List.map_filter id (db_pages db)) (sw_pool w) of
        Inl e \<Rightarrow> (Inl e, w)
      | Inr p \<Rightarrow>
          (Inr (), upd_buf (\<lambda>sb. (set_slot idx BEmpty sb)
              \<lparr>sb_flushed_length := max (sb_flushed_length sb) (idx * BLOCK_SIZE + db_length db)\<rparr>) (w\<lparr>sw_pool := p\<rparr>)))"

fun flush_blocks ::
  "('p, 'pg) page_ops \<Rightarrow> 'o object_ops \<Rightarrow> (nat \<Rightarrow> nat \<Rightarrow> string) \<Rightarrow> nat list \<Rightarrow> nat \<Rightarrow> ('p, 'pg, 'o, nat) sb_comp" where
  "flush_blocks po oo key_gen [] released w = (Inr released, w)"
| "flush_blocks po oo key_gen (idx # rest) released w =
     (case sb_block_slots (sw_buf w) ! idx of
        BEmpty \<Rightarrow> flush_blocks po oo key_gen rest released w
      | BData db \<Rightarrow>
          let n = count_pages (db_pages db) in
          sbind (copy_data_block_to_object_storage po oo db (key_gen idx (db_length db))) (\<lambda>_.
          sbind (release_block po idx db) (\<lambda>_.
          sbind (smod (upd_buf (\<lambda>sb. sb\<lparr>sb_total_page_cnt := wrap_sub64 (sb_total_page_cnt sb) n\<rparr>))) (\<lambda>_.
            flush_blocks po oo key_gen rest (released + n)))) w)"

definition flush_bulk_to ::
  "('p, 'pg) page_ops \<Rightarrow> 'o object_ops \<Rightarrow> nat \<Rightarrow> (nat \<Rightarrow> nat \<Rightarrow> string) \<Rightarrow> ('p, 'pg, 'o, nat) sb_comp" where
  "flush_bulk_to po oo offset key_gen w =
     (case check_flush_offset ''slice buffer flush'' offset (sw_buf w) of
        Inl e \<Rightarrow> (Inl e, w)
      | Inr _ \<Rightarrow> flush_blocks po oo key_gen (pending_blocks offset (sw_buf w)) 0 w)"

definition flush_bulk ::
  "('p, 'pg) page_ops \<Rightarrow> 'o object_ops \<Rightarrow> (nat \<Rightarrow> nat \<Rightarrow> string) \<Rightarrow> ('p, 'pg, 'o, nat) sb_comp" where
  "flush_bulk po oo key_gen w = flush_bulk_to po oo (sb_length (sw_buf w)) key_gen w"

definition sb_flush ::
  "('p, 'pg) page_ops \<Rightarrow> 'o object_ops \<Rightarrow> (nat \<Rightarrow> nat \<Rightarrow> string) \<Rightarrow> ('p, 'pg, 'o, nat) sb_comp" where
  "sb_flush po oo key_gen w =
     (if sb_length (sw_buf w) = 0 then (Inr 0, w)
      else flush_bulk_to po oo (((sb_length (sw_buf w) - 1) div BLOCK_SIZE + 1) * BLOCK_SIZE) key_gen w)"

text \<open>Staging: the count of the pages is taken off at the end only.\<close>

fun stage_blocks ::
  "('f, 'o, 'c) cache_env \<Rightarrow> ('p, 'pg) page_ops \<Rightarrow> nat \<Rightarrow> nat list \<Rightarrow> nat \<Rightarrow>
   ('p, 'pg, ('f, 'o, 'c) file_cache, nat) sb_comp" where
  "stage_blocks env po sid [] released w = (Inr released, w)"
| "stage_blocks env po sid (idx # rest) released w =
     (case sb_block_slots (sw_buf w) ! idx of
        BEmpty \<Rightarrow> stage_blocks env po sid rest released w
      | BData db \<Rightarrow>
          (case fc_stage env po (sw_pool w) sid idx (db_length db) (db_pages db) (sw_sink w) of
             (Inl e, c) \<Rightarrow> (Inl e, w\<lparr>sw_sink := c\<rparr>)
           | (Inr (_, n), c) \<Rightarrow>
               sbind (release_block po idx db) (\<lambda>_. stage_blocks env po sid rest (released + n)) (w\<lparr>sw_sink := c\<rparr>)))"

definition sb_stage ::
  "('f, 'o, 'c) cache_env \<Rightarrow> ('p, 'pg) page_ops \<Rightarrow> nat \<Rightarrow> nat \<Rightarrow> ('p, 'pg, ('f, 'o, 'c) file_cache, nat) sb_comp" where
  "sb_stage env po sid offset w =
     (case check_flush_offset ''slice buffer stage'' offset (sw_buf w) of
        Inl e \<Rightarrow> (Inl e, w)
      | Inr _ \<Rightarrow>
          sbind (stage_blocks env po sid (pending_blocks offset (sw_buf w)) 0) (\<lambda>released.
          sbind (smod (upd_buf (\<lambda>sb. sb\<lparr>sb_total_page_cnt := wrap_sub64 (sb_total_page_cnt sb) released\<rparr>))) (\<lambda>_.
            sret released)) w)"

definition flush_v2 ::
  "('f, 'o, 'c) cache_env \<Rightarrow> ('p, 'pg) page_ops \<Rightarrow> nat \<Rightarrow> ('p, 'pg, ('f, 'o, 'c) file_cache, nat) sb_comp" where
  "flush_v2 env po sid w =
     (if sb_length (sw_buf w) = 0 then (Inr 0, w)
      else sb_stage env po sid (((sb_length (sw_buf w) - 1) div BLOCK_SIZE + 1) * BLOCK_SIZE) w)"

section \<open>Reading a flushed slice\<close>

definition cal_object_block_size :: "nat \<Rightarrow> nat \<Rightarrow> nat \<Rightarrow> nat" where
  "cal_object_block_size len block_idx block_size = min (wrap_sub64 len (block_idx * block_size)) block_size"

text \<open>The reads of the blocks, in order: the code joins them and reports an error of any.\<close>

function read_object_blocks ::
  "'o object_ops \<Rightarrow> (nat \<Rightarrow> nat \<Rightarrow> string) \<Rightarrow> 'o \<Rightarrow> nat \<Rightarrow> nat \<Rightarrow> nat \<Rightarrow> nat \<Rightarrow> bytes sresult" where
  "read_object_blocks oo gen_key st len offset n got =
     (if got < n
      then (let new_pos = got + offset;
                block_idx = new_pos div BLOCK_SIZE;
                block_offset = new_pos mod BLOCK_SIZE;
                obj_block_size = cal_object_block_size len block_idx BLOCK_SIZE;
                m = min (n - got) (obj_block_size - block_offset);
                key = gen_key block_idx obj_block_size in
            if m = 0 then Inl StoragePanicked \<comment> \<open>the code would loop; excluded by its guards\<close>
            else if \<not> os_path_ok oo key then Inl (ObjectStorageError ObjOther)
            else rbind (obj_context (os_get oo st key)) (\<lambda>block.
              if length block < block_offset + m
              then Inl (InvalidRange ''object block'' block_offset m (length block))
              else rbind (read_object_blocks oo gen_key st len offset n (got + m)) (\<lambda>rest.
                     Inr (sub_bytes block_offset m block @ rest))))
      else Inr [])"
  by auto
termination
  by (relation "measure (\<lambda>(oo, gen_key, st, len, offset, n, got). n - got)") auto

declare read_object_blocks.simps [simp del]

definition read_slice_from_object_storage ::
  "'o object_ops \<Rightarrow> (nat \<Rightarrow> nat \<Rightarrow> string) \<Rightarrow> 'o \<Rightarrow> nat \<Rightarrow> nat \<Rightarrow> nat \<Rightarrow> bytes sresult" where
  "read_slice_from_object_storage oo gen_key st len offset dst_len =
     (if len > CHUNK_SIZE then Inl (InvalidRange ''object slice'' 0 len CHUNK_SIZE)
      else if dst_len = 0 \<or> offset \<ge> len then Inr []
      else read_object_blocks oo gen_key st len offset (min (len - offset) dst_len) 0)"

end
