(* ===== verification/Buffer_Spec.thy ===== *)
theory Buffer_Spec
  imports Slice_Buffer
begin

text \<open>
  What a slice buffer promises: it is an array of bytes, zero where nothing was written. \<open>sb_byte\<close>
  is that array of a buffer, reads return segments of it, a successful write updates a segment, and
  flushing moves segments to the store. The proofs are over the contract \<open>owned_pages\<close>.
\<close>

section \<open>The bytes of a buffer\<close>

definition block_byte :: "('pg \<Rightarrow> bytes) \<Rightarrow> 'pg block \<Rightarrow> nat \<Rightarrow> char" where
  "block_byte pb blk j =
     (case blk of
        BEmpty \<Rightarrow> zero_byte
      | BData db \<Rightarrow> (case db_pages db ! (j div PAGE_SIZE) of
                        None \<Rightarrow> zero_byte | Some pg \<Rightarrow> pb pg ! (j mod PAGE_SIZE)))"

definition sb_byte :: "('pg \<Rightarrow> bytes) \<Rightarrow> 'pg slice_buffer \<Rightarrow> nat \<Rightarrow> char" where
  "sb_byte pb sb i = block_byte pb (sb_block_slots sb ! (i div BLOCK_SIZE)) (i mod BLOCK_SIZE)"

definition block_wf :: "('pg \<Rightarrow> bytes) \<Rightarrow> 'pg block \<Rightarrow> bool" where
  "block_wf pb blk \<longleftrightarrow>
     (case blk of
        BEmpty \<Rightarrow> True
      | BData db \<Rightarrow> length (db_pages db) = BLOCK_SIZE div PAGE_SIZE \<and> db_length db \<le> BLOCK_SIZE \<and>
          (\<forall>pg. Some pg \<in> set (db_pages db) \<longrightarrow> length (pb pg) = PAGE_SIZE))"

definition sb_wf :: "('pg \<Rightarrow> bytes) \<Rightarrow> 'pg slice_buffer \<Rightarrow> bool" where
  "sb_wf pb sb \<longleftrightarrow> length (sb_block_slots sb) = CHUNK_SIZE div BLOCK_SIZE \<and>
     (\<forall>blk \<in> set (sb_block_slots sb). block_wf pb blk) \<and> sb_length sb \<le> CHUNK_SIZE"

lemma sizes: "PAGE_SIZE = 131072" "BLOCK_SIZE = 4194304" "CHUNK_SIZE = 67108864"
  by (simp_all add: PAGE_SIZE_def BLOCK_SIZE_def CHUNK_SIZE_def)

lemma sizes_pos: "0 < PAGE_SIZE" "0 < BLOCK_SIZE" "0 < CHUNK_SIZE"
  by (simp_all add: sizes)

lemma div_mod_within:
  fixes b k i :: nat
  assumes "b mod k + i < k"
  shows "(b + i) div k = b div k" "(b + i) mod k = b mod k + i"
proof -
  define x where "x = b mod k + i"
  have eq: "b + i = x + k * (b div k)" unfolding x_def by (metis add.assoc add.commute mult_div_mod_eq)
  have "x < k" using assms by (simp add: x_def)
  show "(b + i) div k = b div k" unfolding eq using \<open>x < k\<close> by simp
  have "(b + i) mod k = x" unfolding eq using \<open>x < k\<close> by simp
  then show "(b + i) mod k = b mod k + i" unfolding x_def .
qed

lemma page_idx_bound: "j < BLOCK_SIZE \<Longrightarrow> j div PAGE_SIZE < BLOCK_SIZE div PAGE_SIZE"
  by (simp add: sizes less_mult_imp_div_less)

lemma block_idx_bound: "i < CHUNK_SIZE \<Longrightarrow> i div BLOCK_SIZE < CHUNK_SIZE div BLOCK_SIZE"
  by (simp add: sizes less_mult_imp_div_less)

lemma map_upt_append: "a \<le> b \<Longrightarrow> b \<le> c \<Longrightarrow> map f [a..<b] @ map f [b..<c] = map f [a..<c]"
  by (metis map_append upt_add_eq_append le_Suc_ex)

lemma within_page:
  assumes "m \<le> PAGE_SIZE - b mod PAGE_SIZE" "i < m"
  shows "(b + i) div PAGE_SIZE = b div PAGE_SIZE" "(b + i) mod PAGE_SIZE = b mod PAGE_SIZE + i"
  using div_mod_within [of b PAGE_SIZE i] assms sizes_pos by auto

lemma within_block:
  assumes "m \<le> BLOCK_SIZE - b mod BLOCK_SIZE" "i < m"
  shows "(b + i) div BLOCK_SIZE = b div BLOCK_SIZE" "(b + i) mod BLOCK_SIZE = b mod BLOCK_SIZE + i"
  using div_mod_within [of b BLOCK_SIZE i] assms sizes_pos by auto

section \<open>Reading\<close>

context owned_pages
begin

text \<open>Bytes of one page of a block, as the inner loops read them.\<close>

lemma page_segment:
  assumes "pool_ok p" "block_wf page_bytes (BData db)" "b < BLOCK_SIZE" "m \<le> PAGE_SIZE - b mod PAGE_SIZE"
  shows "(case db_pages db ! (b div PAGE_SIZE) of
            None \<Rightarrow> Inr (zeros m)
          | Some page \<Rightarrow> po_read po p page (b mod PAGE_SIZE) m)
         = Inr (map (block_byte page_bytes (BData db)) [b..<b + m])"
proof (cases "db_pages db ! (b div PAGE_SIZE)")
  case None
  then have "map (block_byte page_bytes (BData db)) [b..<b + m] = zeros m"
    using within_page(1) [OF assms(4)] by (intro nth_equalityI) (simp_all add: block_byte_def)
  then show ?thesis using None by simp
next
  case (Some pg)
  have "b div PAGE_SIZE < length (db_pages db)"
    using assms(2) page_idx_bound [OF assms(3)] by (simp add: block_wf_def)
  then have len: "length (page_bytes pg) = PAGE_SIZE"
    using assms(2) Some nth_mem [of "b div PAGE_SIZE" "db_pages db"] by (auto simp: block_wf_def)
  have le: "b mod PAGE_SIZE + m \<le> PAGE_SIZE" using assms(4) sizes_pos(1) mod_less_divisor [of PAGE_SIZE b] by linarith
  have "map (block_byte page_bytes (BData db)) [b..<b + m] = sub_bytes (b mod PAGE_SIZE) m (page_bytes pg)"
    using Some within_page [OF assms(4)] len le by (intro nth_equalityI) (simp_all add: block_byte_def)
  then show ?thesis using Some read_owned [OF assms(1) len le] by simp
qed

lemma read_page_segment:
  assumes "pool_ok p" "block_wf page_bytes blk" "b < BLOCK_SIZE" "m \<le> PAGE_SIZE - b mod PAGE_SIZE"
  shows "read_page po p blk (b div PAGE_SIZE) (b mod PAGE_SIZE) m = Inr (map (block_byte page_bytes blk) [b..<b + m])"
proof (cases blk)
  case BEmpty
  then show ?thesis by (simp add: read_page_def, intro nth_equalityI) (simp_all add: block_byte_def)
next
  case (BData db)
  then have "\<not> length (db_pages db) \<le> b div PAGE_SIZE"
    using assms(2) page_idx_bound [OF assms(3)] by (simp add: block_wf_def)
  then show ?thesis using page_segment [OF assms(1) _ assms(3,4), of db] assms(2) BData
    by (simp add: read_page_def split: option.splits)
qed

lemma read_block_bytes:
  assumes "pool_ok p" "block_wf page_bytes blk" "boff + n \<le> BLOCK_SIZE" "dn \<le> n"
  shows "read_block po p blk boff n dn = Inr (map (block_byte page_bytes blk) [boff + dn..<boff + n])"
  using assms(4)
proof (induction "n - dn" arbitrary: dn rule: less_induct)
  case less
  show ?case
  proof (cases "dn < n")
    case True
    define b where "b = boff + dn"
    define m where "m = min (n - dn) (PAGE_SIZE - b mod PAGE_SIZE)"
    have m: "0 < m" "dn + m \<le> n" "m \<le> PAGE_SIZE - b mod PAGE_SIZE"
      using True sizes_pos by (auto simp: m_def)
    have "read_page po p blk (b div PAGE_SIZE) (b mod PAGE_SIZE) m = Inr (map (block_byte page_bytes blk) [b..<b + m])"
      by (rule read_page_segment) (use assms m True in \<open>auto simp: b_def\<close>)
    moreover have "read_block po p blk boff n (dn + m) = Inr (map (block_byte page_bytes blk) [b + m..<boff + n])"
      using less.hyps [of "dn + m"] m True by (simp add: b_def add.assoc)
    ultimately show ?thesis using True m map_upt_append [of b "b + m" "boff + n"]
      by (subst read_block.simps) (simp add: Let_def b_def [symmetric] m_def [symmetric], simp add: b_def)
  qed (use less.prems in \<open>simp add: read_block.simps\<close>)
qed

lemma read_blocks_bytes:
  assumes "pool_ok p" "sb_wf page_bytes sb" "offset + n \<le> CHUNK_SIZE" "got \<le> n"
  shows "read_blocks po p sb offset n got = Inr (map (sb_byte page_bytes sb) [offset + got..<offset + n])"
  using assms(4)
proof (induction "n - got" arbitrary: got rule: less_induct)
  case less
  show ?case
  proof (cases "got < n")
    case True
    define b where "b = got + offset"
    define m where "m = min (n - got) (BLOCK_SIZE - b mod BLOCK_SIZE)"
    have m: "0 < m" "got + m \<le> n" "m \<le> BLOCK_SIZE - b mod BLOCK_SIZE"
      using True sizes_pos by (auto simp: m_def)
    have idx: "b div BLOCK_SIZE < length (sb_block_slots sb)"
      using assms(2,3) True block_idx_bound [of b] by (simp add: b_def sb_wf_def)
    let ?blk = "sb_block_slots sb ! (b div BLOCK_SIZE)"
    have "read_block po p ?blk (b mod BLOCK_SIZE) m 0 =
        Inr (map (block_byte page_bytes ?blk) [b mod BLOCK_SIZE + 0..<b mod BLOCK_SIZE + m])"
      by (rule read_block_bytes) (use assms(1,2) idx m sizes_pos mod_less_divisor [of BLOCK_SIZE b] in \<open>auto simp: sb_wf_def\<close>)
    moreover have "map (block_byte page_bytes ?blk) [b mod BLOCK_SIZE + 0..<b mod BLOCK_SIZE + m] =
        map (sb_byte page_bytes sb) [b..<b + m]"
      using within_block [OF m(3)] by (intro nth_equalityI) (simp_all add: sb_byte_def)
    moreover have "read_blocks po p sb offset n (got + m) = Inr (map (sb_byte page_bytes sb) [b + m..<offset + n])"
      using less.hyps [of "got + m"] m True by (simp add: b_def add.assoc add.commute add.left_commute)
    ultimately show ?thesis using True m idx map_upt_append [of b "b + m" "offset + n"]
      by (subst read_blocks.simps) (simp add: Let_def b_def [symmetric] m_def [symmetric], simp add: b_def add.commute)
  qed (use less.prems in \<open>simp add: read_blocks.simps\<close>)
qed

lemma read_at_bytes:
  assumes "pool_ok p" "sb_wf page_bytes sb"
  shows "sb_read_at po p sb offset n =
    Inr (map (sb_byte page_bytes sb) [offset..<min (offset + n) (sb_length sb)])"
proof (cases "offset \<ge> sb_length sb \<or> n = 0")
  case False
  then have "sb_read_at po p sb offset n =
      Inr (map (sb_byte page_bytes sb) [offset + 0..<offset + min n (sb_length sb - offset)])"
    unfolding sb_read_at_def using read_blocks_bytes [OF assms, of offset "min n (sb_length sb - offset)" 0] assms(2)
    by (auto simp: sb_wf_def)
  moreover have "offset + min n (sb_length sb - offset) = min (offset + n) (sb_length sb)" using False by auto
  ultimately show ?thesis by simp
qed (auto simp: sb_read_at_def)

end

end
