(* ===== verification/Buffer_Write.thy ===== *)
theory Buffer_Write
  imports Buffer_Spec
begin

text \<open>The effect of a write on the bytes of a slice buffer.\<close>

section \<open>Slots\<close>

lemma set_slot_simps [simp]:
  "sb_block_slots (set_slot i b sb) = (sb_block_slots sb)[i := b]"
  "sb_length (set_slot i b sb) = sb_length sb"
  "sb_flushed_length (set_slot i b sb) = sb_flushed_length sb"
  "sb_total_page_cnt (set_slot i b sb) = sb_total_page_cnt sb"
  by (simp_all add: set_slot_def)

lemma set_slot_again [simp]: "set_slot i b (set_slot i b' sb) = set_slot i b sb"
  by (simp add: set_slot_def)

lemma set_slot_id: "sb_block_slots sb ! i = b \<Longrightarrow> set_slot i b sb = sb"
  by (cases sb) (auto simp: set_slot_def)

lemma upd_buf_simps [simp]:
  "sw_pool (upd_buf g w) = sw_pool w" "sw_buf (upd_buf g w) = g (sw_buf w)" "sw_sink (upd_buf g w) = sw_sink w"
  by (simp_all add: upd_buf_def)

lemma sb_byte_set_slot:
  assumes "i < length (sb_block_slots sb)"
  shows "sb_byte pb (set_slot i blk sb) k =
    (if k div BLOCK_SIZE = i then block_byte pb blk (k mod BLOCK_SIZE) else sb_byte pb sb k)"
  using assms by (simp add: sb_byte_def)

lemma sb_wf_set_slot: "sb_wf pb sb \<Longrightarrow> block_wf pb blk \<Longrightarrow> sb_wf pb (set_slot i blk sb)"
  using set_update_subset_insert [of "sb_block_slots sb" i blk] by (auto simp: sb_wf_def)

lemma same_page_mod:
  fixes b j k :: nat
  assumes "j div k = b div k"
  shows "b \<le> j \<longleftrightarrow> b mod k \<le> j mod k" "j < b + m \<longleftrightarrow> j mod k < b mod k + m" "j - b = j mod k - b mod k"
proof -
  have "j = k * (b div k) + j mod k" "b = k * (b div k) + b mod k"
    using assms by (metis mult_div_mod_eq)+
  then show "b \<le> j \<longleftrightarrow> b mod k \<le> j mod k" "j < b + m \<longleftrightarrow> j mod k < b mod k + m" "j - b = j mod k - b mod k"
    by linarith+
qed

section \<open>One block\<close>

context owned_pages
begin

text \<open>One turn of the inner loop: the piece of a page.\<close>

lemma page_piece:
  assumes "block_wf page_bytes (BData db)" "b < BLOCK_SIZE" "length d \<le> PAGE_SIZE - b mod PAGE_SIZE"
    "db_pages db ! (b div PAGE_SIZE) = Some pg"
    "page_bytes pg' = overwrite (b mod PAGE_SIZE) d (page_bytes pg)"
  shows "length (page_bytes pg') = PAGE_SIZE \<and>
    (\<forall>j < BLOCK_SIZE. block_byte page_bytes (BData (db\<lparr>db_pages := (db_pages db)[b div PAGE_SIZE := Some pg']\<rparr>)) j =
      (if b \<le> j \<and> j < b + length d then d ! (j - b) else block_byte page_bytes (BData db) j))"
proof (intro conjI allI impI)
  have idx: "b div PAGE_SIZE < length (db_pages db)"
    using assms(1) page_idx_bound [OF assms(2)] by (simp add: block_wf_def)
  then have len: "length (page_bytes pg) = PAGE_SIZE"
    using assms(1,4) nth_mem [of "b div PAGE_SIZE" "db_pages db"] by (auto simp: block_wf_def)
  have le: "b mod PAGE_SIZE + length d \<le> length (page_bytes pg)"
    using assms(3) len mod_less_divisor [OF sizes_pos(1), of b] by linarith
  then show "length (page_bytes pg') = PAGE_SIZE" using assms(5) len by simp
  fix j assume j: "j < BLOCK_SIZE"
  show "block_byte page_bytes (BData (db\<lparr>db_pages := (db_pages db)[b div PAGE_SIZE := Some pg']\<rparr>)) j =
      (if b \<le> j \<and> j < b + length d then d ! (j - b) else block_byte page_bytes (BData db) j)"
  proof (cases "j div PAGE_SIZE = b div PAGE_SIZE")
    case True
    note same = same_page_mod [OF True]
    have "j mod PAGE_SIZE < length (page_bytes pg)" using len sizes_pos by simp
    then show ?thesis using True idx assms(4,5) nth_overwrite [OF le, of "j mod PAGE_SIZE"] same
      by (simp add: block_byte_def)
  next
    case False
    then have "\<not> (b \<le> j \<and> j < b + length d)"
      using within_page(1) [OF assms(3), of "j - b"] by (cases "b \<le> j") (auto simp: less_diff_conv2)
    then show ?thesis using False by (auto simp: block_byte_def)
  qed
qed

end

text \<open>What the inner loop does to the data block of its slot.\<close>

definition block_written ::
  "('pg \<Rightarrow> bytes) \<Rightarrow> nat \<Rightarrow> bytes \<Rightarrow> 'pg data_block \<Rightarrow> 'pg data_block \<Rightarrow> bool" where
  "block_written pb b d db db' \<longleftrightarrow>
     block_wf pb (BData db') \<and>
     (\<forall>i. db_pages db' ! i = None \<longleftrightarrow> db_pages db ! i = None) \<and>
     count_pages (db_pages db') = count_pages (db_pages db) \<and>
     (\<forall>j < BLOCK_SIZE. block_byte pb (BData db') j =
        (if b \<le> j \<and> j < b + length d then d ! (j - b) else block_byte pb (BData db) j)) \<and>
     db_length db' = (if d = [] then db_length db else max (db_length db) (b + length d))"

lemma block_written_refl: "block_wf pb (BData db) \<Longrightarrow> block_written pb b [] db db"
  by (auto simp: block_written_def)

lemma block_written_trans:
  assumes "block_written pb b d db db'" "block_written pb (b + length d) e db' db''"
  shows "block_written pb b (d @ e) db db''"
  using assms by (auto simp: block_written_def nth_append max_def)

lemma count_pages_update:
  assumes "i < length ps" "ps ! i = Some x"
  shows "count_pages (ps[i := Some y]) = count_pages ps"
  using assms
proof (induction ps arbitrary: i)
  case (Cons p ps)
  then show ?case by (cases i) (auto simp: count_pages_def)
qed simp

lemma sub_bytes_sub:
  "n + m \<le> k \<Longrightarrow> sub_bytes n m (sub_bytes t k data) = sub_bytes (t + n) m data"
  by (simp add: sub_bytes_def drop_take min_def add.commute)

context owned_pages
begin

lemma block_written_piece:
  assumes "block_wf page_bytes (BData db)" "b + length d \<le> BLOCK_SIZE" "d \<noteq> []" "length d \<le> PAGE_SIZE - b mod PAGE_SIZE"
    "db_pages db ! (b div PAGE_SIZE) = Some pg"
    "page_bytes pg' = overwrite (b mod PAGE_SIZE) d (page_bytes pg)"
  shows "block_written page_bytes b d db
    (db\<lparr>db_pages := (db_pages db)[b div PAGE_SIZE := Some pg'], db_length := max (db_length db) (b + length d)\<rparr>)"
proof -
  have b: "b < BLOCK_SIZE" using assms(2,3) by (cases d) auto
  have idx: "b div PAGE_SIZE < length (db_pages db)"
    using assms(1) page_idx_bound [OF b] by (simp add: block_wf_def)
  note piece = page_piece [OF assms(1) b assms(4,5,6)]
  have "set ((db_pages db)[b div PAGE_SIZE := Some pg']) \<subseteq> insert (Some pg') (set (db_pages db))"
    by (rule set_update_subset_insert)
  then have "block_wf page_bytes (BData (db\<lparr>db_pages := (db_pages db)[b div PAGE_SIZE := Some pg'], db_length := max (db_length db) (b + length d)\<rparr>))"
    using assms(1,2) piece by (auto simp: block_wf_def)
  moreover have "block_byte page_bytes (BData (db\<lparr>db_pages := q, db_length := n\<rparr>)) j =
      block_byte page_bytes (BData (db\<lparr>db_pages := q\<rparr>)) j" for q n j
    by (simp add: block_byte_def)
  moreover have "((db_pages db)[b div PAGE_SIZE := Some pg'] ! i = None) = (db_pages db ! i = None)" for i
    using assms(5) idx by (auto simp: nth_list_update)
  ultimately show ?thesis using piece assms(3) count_pages_update [OF idx assms(5)] by (simp add: block_written_def)
qed

lemma write_block_effect:
  assumes "pool_ok (sw_pool w)" "bi < length (sb_block_slots (sw_buf w))"
    "sb_block_slots (sw_buf w) ! bi = BData db" "block_wf page_bytes (BData db)" "boff + n \<le> BLOCK_SIZE" "dn \<le> n"
    "\<And>j. boff + dn \<le> j \<Longrightarrow> j < boff + n \<Longrightarrow> db_pages db ! (j div PAGE_SIZE) \<noteq> None"
    "tw + (n - dn) \<le> length data"
  shows "\<exists>db'. write_block po bi boff n dn data tw w = (Inr (), upd_buf (set_slot bi (BData db')) w) \<and>
               block_written page_bytes (boff + dn) (sub_bytes tw (n - dn) data) db db'"
  using assms
proof (induction "n - dn" arbitrary: dn tw w db rule: less_induct)
  case less
  show ?case
  proof (cases "dn < n")
    case True
    define b where "b = boff + dn"
    define m where "m = min (n - dn) (PAGE_SIZE - b mod PAGE_SIZE)"
    define d where "d = sub_bytes tw m data"
    have m: "0 < m" "dn + m \<le> n" "m \<le> PAGE_SIZE - b mod PAGE_SIZE" using True sizes_pos by (auto simp: m_def)
    have d: "length d = m" using less.prems(8) m by (simp add: d_def)
    have b: "b < BLOCK_SIZE" using less.prems(5) True by (simp add: b_def)
    obtain pg where pg: "db_pages db ! (b div PAGE_SIZE) = Some pg" using less.prems(7) [of b] True by (auto simp: b_def)
    have idx: "b div PAGE_SIZE < length (db_pages db)"
      using less.prems(4) page_idx_bound [OF b] by (simp add: block_wf_def)
    have "length (page_bytes pg) = PAGE_SIZE"
      using less.prems(4) pg idx nth_mem [of "b div PAGE_SIZE" "db_pages db"] by (auto simp: block_wf_def)
    moreover have "b mod PAGE_SIZE + length d \<le> PAGE_SIZE"
      using m d mod_less_divisor [OF sizes_pos(1), of b] by linarith
    ultimately obtain pg' where pg': "po_write po pg (b mod PAGE_SIZE) (length d) d (sw_pool w) = (Inr (), pg', sw_pool w)"
        "page_bytes pg' = overwrite (b mod PAGE_SIZE) d (page_bytes pg)"
      using write_owned less.prems(1) by blast
    define db1 where "db1 = db\<lparr>db_pages := (db_pages db)[b div PAGE_SIZE := Some pg'], db_length := max (db_length db) (b + length d)\<rparr>"
    have db1: "block_written page_bytes b d db db1" unfolding db1_def
      by (rule block_written_piece) (use less.prems(4,5) m d pg pg' b_def in auto)
    let ?w1 = "upd_buf (set_slot bi (BData db1)) w"
    have step: "write_block po bi boff n dn data tw w = write_block po bi boff n (dn + m) data (tw + m) ?w1"
      using True pg pg'(1) less.prems(2,3) idx d
      by (subst write_block.simps)
        (simp add: Let_def b_def [symmetric] m_def [symmetric] d_def [symmetric] sbind_def get_page_def
          copy_into_page_def grow_block_def upd_buf_def db1_def, simp add: b_def add.assoc)
    have "\<exists>db'. write_block po bi boff n (dn + m) data (tw + m) ?w1 = (Inr (), upd_buf (set_slot bi (BData db')) ?w1) \<and>
               block_written page_bytes (boff + (dn + m)) (sub_bytes (tw + m) (n - (dn + m)) data) db1 db'"
      by (rule less.hyps) (use less.prems m db1 True in \<open>auto simp: block_written_def\<close>)
    then obtain db' where db': "write_block po bi boff n (dn + m) data (tw + m) ?w1 = (Inr (), upd_buf (set_slot bi (BData db')) ?w1)"
        "block_written page_bytes (b + length d) (sub_bytes (tw + m) (n - (dn + m)) data) db1 db'"
      by (auto simp: b_def d add.assoc)
    have "d @ sub_bytes (tw + m) (n - (dn + m)) data = sub_bytes tw (n - dn) data"
      using m sub_bytes_append [of tw m "n - (dn + m)" data] by (simp add: d_def)
    then have "block_written page_bytes b (sub_bytes tw (n - dn) data) db db'"
      using block_written_trans [OF db1 db'(2)] by simp
    then show ?thesis using step db'(1) by (auto simp: b_def upd_buf_def)
  next
    case False
    then have "upd_buf (set_slot bi (BData db)) w = w"
      using less.prems(3) by (simp add: upd_buf_def set_slot_id)
    then show ?thesis using False less.prems by (intro exI [of _ db]) (simp add: write_block.simps block_written_refl)
  qed
qed

end

section \<open>The whole buffer\<close>

definition block_len :: "'pg block \<Rightarrow> nat" where
  "block_len blk = (case blk of BEmpty \<Rightarrow> 0 | BData db \<Rightarrow> db_length db)"

definition block_pages :: "'pg block \<Rightarrow> nat" where
  "block_pages blk = (case blk of BEmpty \<Rightarrow> 0 | BData db \<Rightarrow> count_pages (db_pages db))"

definition page_count :: "'pg slice_buffer \<Rightarrow> nat" where
  "page_count sb = sum_list (map block_pages (sb_block_slots sb))"

definition has_page :: "'pg slice_buffer \<Rightarrow> nat \<times> nat \<Rightarrow> bool" where
  "has_page sb pos = (\<not> needs_page sb pos)"

definition page_pos :: "nat \<Rightarrow> nat \<times> nat" where
  "page_pos i = (i div BLOCK_SIZE, (i mod BLOCK_SIZE) div PAGE_SIZE)"

text \<open>How far a write of \<open>n\<close> bytes at \<open>off\<close> reaches into a block.\<close>

definition reach :: "nat \<Rightarrow> nat \<Rightarrow> nat \<Rightarrow> nat" where
  "reach off n bi =
     (if 0 < n \<and> off < (bi + 1) * BLOCK_SIZE \<and> bi * BLOCK_SIZE < off + n
      then min BLOCK_SIZE (off + n - bi * BLOCK_SIZE) else 0)"

definition sb_written :: "('pg \<Rightarrow> bytes) \<Rightarrow> nat \<Rightarrow> bytes \<Rightarrow> 'pg slice_buffer \<Rightarrow> 'pg slice_buffer \<Rightarrow> bool" where
  "sb_written pb off d sb sb' \<longleftrightarrow>
     sb_wf pb sb' \<and>
     (\<forall>i < CHUNK_SIZE. sb_byte pb sb' i = (if off \<le> i \<and> i < off + length d then d ! (i - off) else sb_byte pb sb i)) \<and>
     (\<forall>i < CHUNK_SIZE. has_page sb' (page_pos i) = has_page sb (page_pos i)) \<and>
     (\<forall>bi < CHUNK_SIZE div BLOCK_SIZE. block_len (sb_block_slots sb' ! bi) =
        max (block_len (sb_block_slots sb ! bi)) (reach off (length d) bi)) \<and>
     page_count sb' = page_count sb \<and> sb_total_page_cnt sb' = sb_total_page_cnt sb \<and>
     sb_length sb' = sb_length sb \<and> sb_flushed_length sb' = sb_flushed_length sb"

lemma sb_written_refl: "sb_wf pb sb \<Longrightarrow> sb_written pb off [] sb sb"
  by (auto simp: sb_written_def reach_def)

lemma page_count_set_slot:
  assumes "i < length (sb_block_slots sb)" "block_pages blk = block_pages (sb_block_slots sb ! i)"
  shows "page_count (set_slot i blk sb) = page_count sb"
proof -
  have "(map block_pages (sb_block_slots sb))[i := block_pages blk] = map block_pages (sb_block_slots sb)"
    using assms by (simp add: list_update_same_conv)
  then show ?thesis by (simp add: page_count_def map_update)
qed

lemma has_page_iff:
  "has_page sb pos = (case sb_block_slots sb ! fst pos of BEmpty \<Rightarrow> False | BData db \<Rightarrow> db_pages db ! snd pos \<noteq> None)"
  by (auto simp: has_page_def needs_page_def split: block.splits option.splits)

lemma has_page_set_slot:
  assumes "bi < length (sb_block_slots sb)" "sb_block_slots sb ! bi = BData db"
    "\<And>i. db_pages db' ! i = None \<longleftrightarrow> db_pages db ! i = None"
  shows "has_page (set_slot bi (BData db') sb) pos = has_page sb pos"
  using assms by (cases "fst pos = bi") (simp_all add: has_page_iff)

text \<open>A piece that stays within one block.\<close>

lemma reach_within:
  assumes "b = bi * BLOCK_SIZE + boff" "boff + n \<le> BLOCK_SIZE" "0 < n"
  shows "reach b n k = (if k = bi then boff + n else 0)"
proof (cases "k = bi")
  case True
  then show ?thesis using assms by (auto simp: reach_def)
next
  case False
  then consider "k < bi" | "bi < k" by linarith
  then show ?thesis
  proof cases
    case 1
    then have "(k + 1) * BLOCK_SIZE \<le> bi * BLOCK_SIZE" by (intro mult_le_mono1) simp
    then show ?thesis using assms False by (simp add: reach_def)
  next
    case 2
    then have "(bi + 1) * BLOCK_SIZE \<le> k * BLOCK_SIZE" by (intro mult_le_mono1) simp
    then show ?thesis using assms False by (simp add: reach_def)
  qed
qed

lemma sb_written_block:
  assumes "sb_wf pb sb" "bi < CHUNK_SIZE div BLOCK_SIZE" "sb_block_slots sb ! bi = BData db"
    "block_written pb boff d db db'" "d \<noteq> []" "boff + length d \<le> BLOCK_SIZE"
  shows "sb_written pb (bi * BLOCK_SIZE + boff) d sb (set_slot bi (BData db') sb)"
proof -
  have bi: "bi < length (sb_block_slots sb)" using assms(1,2) by (simp add: sb_wf_def)
  have byte: "sb_byte pb (set_slot bi (BData db') sb) i =
      (if bi * BLOCK_SIZE + boff \<le> i \<and> i < bi * BLOCK_SIZE + boff + length d
       then d ! (i - (bi * BLOCK_SIZE + boff)) else sb_byte pb sb i)" for i
  proof (cases "i div BLOCK_SIZE = bi")
    case True
    then have i: "i = bi * BLOCK_SIZE + i mod BLOCK_SIZE" by (metis div_mult_mod_eq)
    define r where "r = i mod BLOCK_SIZE"
    have r: "bi * BLOCK_SIZE + boff \<le> i \<longleftrightarrow> boff \<le> r" "i < bi * BLOCK_SIZE + boff + length d \<longleftrightarrow> r < boff + length d"
        "i - (bi * BLOCK_SIZE + boff) = r - boff"
      using i unfolding r_def by linarith+
    have "block_byte pb (BData db') r = (if boff \<le> r \<and> r < boff + length d then d ! (r - boff) else block_byte pb (BData db) r)"
      using assms(4) sizes_pos by (simp add: block_written_def r_def)
    moreover have "sb_byte pb sb i = block_byte pb (BData db) r" using True assms(3) by (simp add: sb_byte_def r_def)
    ultimately show ?thesis unfolding r using True by (simp add: sb_byte_set_slot [OF bi] r_def)
  next
    case False
    then have "\<not> (bi * BLOCK_SIZE \<le> i \<and> i < bi * BLOCK_SIZE + BLOCK_SIZE)"
      by (metis add.commute div_nat_eqI mult.commute mult_Suc_right)
    then show ?thesis using False assms(6) by (subst sb_byte_set_slot [OF bi]) auto
  qed
  have "block_len ((sb_block_slots sb)[bi := BData db'] ! k) =
      max (block_len (sb_block_slots sb ! k)) (reach (bi * BLOCK_SIZE + boff) (length d) k)" for k
    using reach_within [of _ bi boff "length d" k] assms(3-6) bi
    by (auto simp: nth_list_update block_len_def block_written_def)
  moreover have "sb_wf pb (set_slot bi (BData db') sb)"
    using assms(1,4) by (simp add: sb_wf_set_slot block_written_def)
  moreover have "page_count (set_slot bi (BData db') sb) = page_count sb"
    using assms(3,4) by (intro page_count_set_slot [OF bi]) (simp add: block_pages_def block_written_def)
  moreover have "has_page (set_slot bi (BData db') sb) pos = has_page sb pos" for pos
    using has_page_set_slot [OF bi assms(3)] assms(4) by (simp add: block_written_def)
  ultimately show ?thesis using byte by (simp add: sb_written_def)
qed

lemma reach_append: "reach off (n + m) bi = max (reach off n bi) (reach (off + n) m bi)"
  by (auto simp: reach_def max_def min_def algebra_simps)

lemma sb_written_trans:
  assumes "sb_written pb off d sb sb'" "sb_written pb (off + length d) e sb' sb''"
  shows "sb_written pb off (d @ e) sb sb''"
proof -
  have "sb_byte pb sb'' i = (if off \<le> i \<and> i < off + length (d @ e) then (d @ e) ! (i - off) else sb_byte pb sb i)"
    if "i < CHUNK_SIZE" for i
    using assms that by (auto simp: sb_written_def nth_append)
  then show ?thesis using assms by (simp add: sb_written_def reach_append max.assoc)
qed

lemma page_pos_block: "j < BLOCK_SIZE \<Longrightarrow> page_pos (bi * BLOCK_SIZE + j) = (bi, j div PAGE_SIZE)"
  by (simp add: page_pos_def)

context owned_pages
begin

lemma write_blocks_effect:
  assumes "pool_ok (sw_pool w)" "sb_wf page_bytes (sw_buf w)" "offset + n \<le> CHUNK_SIZE" "tw \<le> n" "n \<le> length data"
    "\<And>i. offset + tw \<le> i \<Longrightarrow> i < offset + n \<Longrightarrow> has_page (sw_buf w) (page_pos i)"
  shows "\<exists>sb'. write_blocks po offset n data tw w = (Inr (), upd_buf (\<lambda>_. sb') w) \<and>
               sb_written page_bytes (offset + tw) (sub_bytes tw (n - tw) data) (sw_buf w) sb'"
  using assms
proof (induction "n - tw" arbitrary: tw w rule: less_induct)
  case less
  show ?case
  proof (cases "tw < n")
    case True
    define b where "b = offset + tw"
    define bi where "bi = b div BLOCK_SIZE"
    define boff where "boff = b mod BLOCK_SIZE"
    define m where "m = min (n - tw) (BLOCK_SIZE - boff)"
    define d where "d = sub_bytes tw m data"
    have b: "b = bi * BLOCK_SIZE + boff" by (simp add: bi_def boff_def)
    have "boff < BLOCK_SIZE" using sizes_pos by (simp add: boff_def)
    then have m: "0 < m" "tw + m \<le> n" "boff + m \<le> BLOCK_SIZE" using True by (auto simp: m_def)
    have len: "length d = m" using less.prems(5) m by (simp add: d_def)
    then have d: "length d = m" "d \<noteq> []" using m by auto
    have bi: "bi < CHUNK_SIZE div BLOCK_SIZE" "bi < length (sb_block_slots (sw_buf w))"
      using less.prems(2,3) True block_idx_bound [of b] by (auto simp: b_def bi_def sb_wf_def)
    have pages: "has_page (sw_buf w) (bi, j div PAGE_SIZE)" if "boff \<le> j" "j < boff + m" for j
    proof -
      have "offset + tw \<le> bi * BLOCK_SIZE + j" "bi * BLOCK_SIZE + j < offset + n"
        using that b m unfolding b_def by linarith+
      moreover have "j < BLOCK_SIZE" using that m by linarith
      ultimately show ?thesis using less.prems(6) [of "bi * BLOCK_SIZE + j"] by (simp add: page_pos_block)
    qed
    then obtain db where db: "sb_block_slots (sw_buf w) ! bi = BData db"
      using m by (cases "sb_block_slots (sw_buf w) ! bi") (fastforce simp: has_page_iff)+
    have "\<exists>db'. write_block po bi boff m 0 data tw w = (Inr (), upd_buf (set_slot bi (BData db')) w) \<and>
        block_written page_bytes (boff + 0) (sub_bytes tw (m - 0) data) db db'"
      by (rule write_block_effect)
        (use less.prems m bi db pages nth_mem [OF bi(2)] in \<open>auto simp: sb_wf_def has_page_iff\<close>)
    then obtain db' where db': "write_block po bi boff m 0 data tw w = (Inr (), upd_buf (set_slot bi (BData db')) w)"
        "block_written page_bytes boff d db db'" by (auto simp: d_def)
    let ?w1 = "upd_buf (set_slot bi (BData db')) w"
    have w1: "sb_written page_bytes b d (sw_buf w) (sw_buf ?w1)"
      using sb_written_block [OF less.prems(2) bi(1) db db'(2) d(2)] m d b by simp
    have step: "write_blocks po offset n data tw w = write_blocks po offset n data (tw + m) ?w1"
      using True bi db db'(1)
      by (subst write_blocks.simps)
        (simp add: Let_def b_def [symmetric] bi_def [symmetric] boff_def [symmetric] m_def [symmetric] sbind_def
          init_slot_def upd_buf_def)
    have "\<exists>sb'. write_blocks po offset n data (tw + m) ?w1 = (Inr (), upd_buf (\<lambda>_. sb') ?w1) \<and>
               sb_written page_bytes (offset + (tw + m)) (sub_bytes (tw + m) (n - (tw + m)) data) (sw_buf ?w1) sb'"
      by (rule less.hyps) (use less.prems m True w1 in \<open>auto simp: sb_written_def\<close>)
    then obtain sb' where sb': "write_blocks po offset n data (tw + m) ?w1 = (Inr (), upd_buf (\<lambda>_. sb') ?w1)"
        "sb_written page_bytes (b + length d) (sub_bytes (tw + m) (n - (tw + m)) data) (sw_buf ?w1) sb'"
      by (auto simp: b_def d add.assoc)
    have "d @ sub_bytes (tw + m) (n - (tw + m)) data = sub_bytes tw (n - tw) data"
      using m sub_bytes_append [of tw m "n - (tw + m)" data] by (simp add: d_def)
    then have "sb_written page_bytes b (sub_bytes tw (n - tw) data) (sw_buf w) sb'"
      using sb_written_trans [OF w1 sb'(2)] by simp
    then show ?thesis using step sb'(1) by (auto simp: b_def upd_buf_def)
  next
    case False
    have "upd_buf (\<lambda>_. sw_buf w) w = w" by (simp add: upd_buf_def)
    then show ?thesis using False less.prems
      by (intro exI [of _ "sw_buf w"]) (simp add: write_blocks.simps sb_written_refl)
  qed
qed

end

end
