(* ===== verification/Buffer_Ops.thy ===== *)
theory Buffer_Ops
  imports Buffer_Write
begin

text \<open>
  Reservation of pages and the operation \<^verbatim>\<open>write_at\<close> as a whole: it writes everything, or fails and
  leaves the bytes and the pool's count as they were.
\<close>

section \<open>Pages from and to the pool\<close>

context owned_pages
begin

lemma drop_pages_effect:
  assumes "pool_ok p" "\<And>pg. pg \<in> set pgs \<Longrightarrow> length (page_bytes pg) = PAGE_SIZE" "free p + length pgs \<le> total p"
  shows "\<exists>p'. drop_pages po pgs p = Inr p' \<and> pool_ok p' \<and> free p' = free p + length pgs \<and> total p' = total p"
  using assms
proof (induction pgs arbitrary: p)
  case (Cons pg pgs)
  obtain p1 where "po_drop po pg p = Inr p1" "pool_ok p1" "free p1 = Suc (free p)" "total p1 = total p"
    using drop_owned [of p pg] Cons.prems by auto
  then show ?case using Cons.IH [of p1] Cons.prems by auto
qed simp

lemma acquire_pages_effect:
  assumes "pool_ok p" "n \<le> free p"
  shows "\<exists>pgs p'. acquire_pages po n acc p = (Inr (acc @ pgs), p') \<and> length pgs = n \<and>
    (\<forall>pg \<in> set pgs. page_bytes pg = zeros PAGE_SIZE) \<and> pool_ok p' \<and> free p' + n = free p \<and> total p' = total p"
  using assms
proof (induction n arbitrary: acc p)
  case (Suc n)
  obtain pg p1 where 1: "po_acquire po p = Some (pg, p1)" "pool_ok p1" "page_bytes pg = zeros PAGE_SIZE"
      "Suc (free p1) = free p" "total p1 = total p"
    using acquire_free [OF Suc.prems(1)] Suc.prems(2) by auto
  then obtain pgs p' where "acquire_pages po n (acc @ [pg]) p1 = (Inr ((acc @ [pg]) @ pgs), p')" "length pgs = n"
      "\<forall>pg \<in> set pgs. page_bytes pg = zeros PAGE_SIZE" "pool_ok p'" "free p' + n = free p1" "total p' = total p1"
    using Suc.IH [of p1 "acc @ [pg]"] Suc.prems(2) by auto
  then show ?case using 1 by (intro exI [of _ "pg # pgs"] exI [of _ p']) auto
qed simp

lemma acquire_pages_exhausted:
  assumes "pool_ok p" "free p < n" "\<And>pg. pg \<in> set acc \<Longrightarrow> length (page_bytes pg) = PAGE_SIZE"
    "free p + length acc \<le> total p"
  shows "\<exists>p'. acquire_pages po n acc p = (Inl PagePoolExhausted, p') \<and> pool_ok p' \<and>
    free p' = free p + length acc \<and> total p' = total p"
  using assms
proof (induction n arbitrary: acc p)
  case (Suc n)
  show ?case
  proof (cases "free p")
    case 0
    then show ?thesis using acquire_empty [OF Suc.prems(1)] drop_pages_effect [OF Suc.prems(1), of acc] Suc.prems
      by auto
  next
    case (Suc k)
    obtain pg p1 where 1: "po_acquire po p = Some (pg, p1)" "pool_ok p1" "page_bytes pg = zeros PAGE_SIZE"
        "Suc (free p1) = free p" "total p1 = total p"
      using acquire_free [OF Suc.prems(1)] Suc by auto
    then have "\<exists>p'. acquire_pages po n (acc @ [pg]) p1 = (Inl PagePoolExhausted, p') \<and> pool_ok p' \<and>
        free p' = free p1 + length (acc @ [pg]) \<and> total p' = total p1"
      using Suc.prems by (intro Suc.IH) auto
    then show ?thesis using 1 by auto
  qed
qed simp

end

section \<open>Reservation\<close>

definition valid_pos :: "nat \<times> nat \<Rightarrow> bool" where
  "valid_pos pos \<longleftrightarrow> fst pos < CHUNK_SIZE div BLOCK_SIZE \<and> snd pos < BLOCK_SIZE div PAGE_SIZE"

text \<open>Pages were added at the positions \<open>S\<close>, and nothing can be read that could not before.\<close>

definition sb_filled :: "('pg \<Rightarrow> bytes) \<Rightarrow> (nat \<times> nat) set \<Rightarrow> 'pg slice_buffer \<Rightarrow> 'pg slice_buffer \<Rightarrow> bool" where
  "sb_filled pb S sb sb' \<longleftrightarrow>
     sb_wf pb sb' \<and>
     (\<forall>i < CHUNK_SIZE. sb_byte pb sb' i = sb_byte pb sb i) \<and>
     (\<forall>pos. valid_pos pos \<longrightarrow> has_page sb' pos = (has_page sb pos \<or> pos \<in> S)) \<and>
     (\<forall>bi < CHUNK_SIZE div BLOCK_SIZE. block_len (sb_block_slots sb' ! bi) = block_len (sb_block_slots sb ! bi)) \<and>
     page_count sb' = page_count sb + card S \<and> sb_total_page_cnt sb' = sb_total_page_cnt sb \<and>
     sb_length sb' = sb_length sb \<and> sb_flushed_length sb' = sb_flushed_length sb"

lemma sb_filled_refl: "sb_wf pb sb \<Longrightarrow> sb_filled pb {} sb sb"
  by (simp add: sb_filled_def)

lemma sb_filled_trans:
  "sb_filled pb S sb sb' \<Longrightarrow> sb_filled pb T sb' sb'' \<Longrightarrow> finite S \<Longrightarrow> finite T \<Longrightarrow> S \<inter> T = {} \<Longrightarrow>
   sb_filled pb (S \<union> T) sb sb''"
  by (auto simp: sb_filled_def card_Un_disjoint)

lemma page_count_change:
  assumes "i < length (sb_block_slots sb)"
  shows "page_count (set_slot i blk sb) + block_pages (sb_block_slots sb ! i) = page_count sb + block_pages blk"
proof -
  have "sum_list (xs[i := x]) + xs ! i = sum_list xs + x" if "i < length xs" for xs and x :: nat
    using that by (induction xs arbitrary: i) (auto split: nat.splits)
  from this [of "map block_pages (sb_block_slots sb)" "block_pages blk"] show ?thesis
    using assms by (simp add: page_count_def map_update)
qed

lemma count_pages_fill:
  "i < length ps \<Longrightarrow> ps ! i = None \<Longrightarrow> count_pages (ps[i := Some x]) = Suc (count_pages ps)"
proof (induction ps arbitrary: i)
  case (Cons p ps)
  then show ?case by (cases i) (auto simp: count_pages_def)
qed simp

lemma init_slot_filled:
  assumes "sb_wf pb sb" "bi < CHUNK_SIZE div BLOCK_SIZE"
  shows "sb_filled pb {} sb (init_slot bi sb)"
proof (cases "sb_block_slots sb ! bi")
  case BEmpty
  have bi: "bi < length (sb_block_slots sb)" using assms by (simp add: sb_wf_def)
  have "block_wf pb new_data_block" by (auto simp: block_wf_def new_data_block_def)
  moreover have "sb_byte pb (set_slot bi new_data_block sb) i = sb_byte pb sb i" if "i < CHUNK_SIZE" for i
    using BEmpty page_idx_bound [of "i mod BLOCK_SIZE"] sizes_pos
    by (subst sb_byte_set_slot [OF bi]) (auto simp: sb_byte_def block_byte_def new_data_block_def)
  moreover have "has_page (set_slot bi new_data_block sb) pos = has_page sb pos" if "valid_pos pos" for pos
    using BEmpty bi that by (cases "fst pos = bi") (auto simp: has_page_iff valid_pos_def new_data_block_def)
  moreover have "page_count (set_slot bi new_data_block sb) = page_count sb"
    using BEmpty by (intro page_count_set_slot [OF bi]) (simp add: block_pages_def new_data_block_def count_pages_def)
  ultimately show ?thesis using BEmpty assms bi
    by (auto simp: init_slot_def sb_filled_def sb_wf_set_slot nth_list_update block_len_def new_data_block_def)
next
  case (BData db)
  then show ?thesis using assms by (simp add: init_slot_def sb_filled_refl)
qed

lemma install_filled:
  assumes "sb_wf pb sb" "sb_block_slots sb ! bi = BData db" "valid_pos (bi, pi)" "db_pages db ! pi = None"
    "pb pg = zeros PAGE_SIZE"
  shows "sb_filled pb {(bi, pi)} sb (set_slot bi (BData (db\<lparr>db_pages := (db_pages db)[pi := Some pg]\<rparr>)) sb)"
proof -
  let ?db = "db\<lparr>db_pages := (db_pages db)[pi := Some pg]\<rparr>"
  have bi: "bi < length (sb_block_slots sb)" using assms(1,3) by (simp add: sb_wf_def valid_pos_def)
  have "block_wf pb (BData db)" using assms(1,2) nth_mem [OF bi] by (simp add: sb_wf_def)
  then have pi: "pi < length (db_pages db)" and wf: "block_wf pb (BData ?db)"
    using assms(3,5) set_update_subset_insert [of "db_pages db" pi "Some pg"]
    by (auto simp: block_wf_def valid_pos_def)
  have "sb_byte pb (set_slot bi (BData ?db) sb) i = sb_byte pb sb i" for i
    using assms(2,4,5) pi sizes_pos
    by (subst sb_byte_set_slot [OF bi]) (auto simp: sb_byte_def block_byte_def nth_list_update)
  moreover have "has_page (set_slot bi (BData ?db) sb) pos = (has_page sb pos \<or> pos \<in> {(bi, pi)})" for pos
    using assms(2) bi pi by (cases "fst pos = bi") (auto simp: has_page_iff nth_list_update prod_eq_iff)
  moreover have "count_pages ((db_pages db)[pi := Some pg]) = Suc (count_pages (db_pages db))"
    using pi assms(4) by (rule count_pages_fill)
  then have "page_count (set_slot bi (BData ?db) sb) = page_count sb + 1"
    using page_count_change [OF bi, of "BData ?db"] assms(2) by (simp add: block_pages_def)
  ultimately show ?thesis using assms(1,2) bi wf
    by (auto simp: sb_filled_def sb_wf_set_slot nth_list_update block_len_def)
qed

lemma install_page_filled:
  assumes "sb_wf pb sb" "valid_pos pos" "\<not> has_page sb pos" "pb pg = zeros PAGE_SIZE"
  shows "sb_filled pb {pos} sb (install_page (pos, pg) sb)"
proof -
  obtain bi pi where pos: "pos = (bi, pi)" by (cases pos)
  define sb1 where "sb1 = init_slot bi sb"
  have bi: "bi < CHUNK_SIZE div BLOCK_SIZE" using assms(2) pos by (simp add: valid_pos_def)
  have 1: "sb_filled pb {} sb sb1" unfolding sb1_def by (rule init_slot_filled [OF assms(1) bi])
  have "bi < length (sb_block_slots sb)" using assms(1) bi by (simp add: sb_wf_def)
  then obtain db where db: "sb_block_slots sb1 ! bi = BData db"
    by (cases "sb_block_slots sb ! bi") (auto simp: sb1_def init_slot_def new_data_block_def)
  have "\<not> has_page sb1 pos" using 1 assms(2,3) unfolding sb_filled_def by blast
  then have "db_pages db ! pi = None" using db pos by (simp add: has_page_iff)
  then have "sb_filled pb {(bi, pi)} sb1 (install_page (pos, pg) sb)"
    using install_filled [OF _ db, of pb pi pg] 1 assms(2,4) db pos
    by (auto simp: install_page_def Let_def sb1_def [symmetric] sb_filled_def)
  from sb_filled_trans [OF 1 this] show ?thesis using pos by simp
qed

lemma install_pages_filled:
  assumes "sb_wf pb sb" "distinct ps" "\<And>pos. pos \<in> set ps \<Longrightarrow> valid_pos pos \<and> \<not> has_page sb pos"
    "length pgs = length ps" "\<And>pg. pg \<in> set pgs \<Longrightarrow> pb pg = zeros PAGE_SIZE"
  shows "sb_filled pb (set ps) sb (fold install_page (zip ps pgs) sb)"
  using assms
proof (induction ps arbitrary: sb pgs)
  case (Cons pos ps)
  then obtain pg pgs' where pgs: "pgs = pg # pgs'" by (cases pgs) auto
  have 1: "sb_filled pb {pos} sb (install_page (pos, pg) sb)"
    by (rule install_page_filled) (use Cons.prems pgs in auto)
  have 2: "sb_filled pb (set ps) (install_page (pos, pg) sb) (fold install_page (zip ps pgs') (install_page (pos, pg) sb))"
    by (rule Cons.IH) (use Cons.prems pgs 1 in \<open>auto simp: sb_filled_def\<close>)
  show ?case using sb_filled_trans [OF 1 2] Cons.prems(2) pgs by simp
qed (simp add: sb_filled_refl)

text \<open>The positions a write touches.\<close>

lemma page_pos_global:
  "page_pos i = (i div PAGE_SIZE div (BLOCK_SIZE div PAGE_SIZE), i div PAGE_SIZE mod (BLOCK_SIZE div PAGE_SIZE))"
proof -
  have "i div 4194304 = i div 131072 div 32" by (simp flip: div_mult2_eq)
  moreover have "i mod 4194304 = 131072 * (i div 131072 mod 32) + i mod 131072"
    using mod_mult2_eq [of i 131072 32] by simp
  then have "i mod 4194304 div 131072 = i div 131072 mod 32" by simp
  ultimately show ?thesis by (simp add: page_pos_def sizes)
qed

lemma missing_pages_props:
  assumes "write_end \<le> CHUNK_SIZE" "0 < write_end"
  shows "distinct (missing_pages offset write_end sb)"
    and "pos \<in> set (missing_pages offset write_end sb) \<Longrightarrow> valid_pos pos \<and> \<not> has_page sb pos"
    and "offset \<le> i \<Longrightarrow> i < write_end \<Longrightarrow> has_page sb (page_pos i) \<or> page_pos i \<in> set (missing_pages offset write_end sb)"
proof -
  have "inj_on (\<lambda>g. (g div k, g mod k)) X" for k :: nat and X by (rule inj_onI) (metis div_mult_mod_eq prod.inject)
  then show "distinct (missing_pages offset write_end sb)"
    by (simp add: missing_pages_def Let_def distinct_map del: upt_Suc)
  show "valid_pos pos \<and> \<not> has_page sb pos" if p: "pos \<in> set (missing_pages offset write_end sb)"
  proof -
    obtain g where g: "pos = (g div (BLOCK_SIZE div PAGE_SIZE), g mod (BLOCK_SIZE div PAGE_SIZE))"
        "g \<le> (write_end - 1) div PAGE_SIZE" "needs_page sb pos"
      using p by (auto simp: missing_pages_def Let_def simp del: upt_Suc)
    have "(write_end - 1) div PAGE_SIZE < 512"
      using assms by (simp add: sizes less_mult_imp_div_less)
    then have "g div 32 < 16" using g(2) by (simp add: less_mult_imp_div_less)
    then show ?thesis using g by (simp add: valid_pos_def sizes has_page_def)
  qed
  show "has_page sb (page_pos i) \<or> page_pos i \<in> set (missing_pages offset write_end sb)"
    if "offset \<le> i" "i < write_end"
  proof -
    have "offset div PAGE_SIZE \<le> i div PAGE_SIZE" "i div PAGE_SIZE \<le> (write_end - 1) div PAGE_SIZE"
      using that by (auto intro: div_le_mono)
    then show ?thesis unfolding page_pos_global
      by (auto simp: missing_pages_def Let_def has_page_def image_iff simp del: upt_Suc)
  qed
qed

section \<open>The operation\<close>

lemma sb_filled_written:
  assumes "sb_filled pb S sb sb1" "sb_written pb off d sb1 sb2"
  shows "sb_wf pb sb2" "page_count sb2 = page_count sb + card S" "sb_total_page_cnt sb2 = sb_total_page_cnt sb"
    "sb_length sb2 = sb_length sb" "sb_flushed_length sb2 = sb_flushed_length sb"
    "i < CHUNK_SIZE \<Longrightarrow> sb_byte pb sb2 i = (if off \<le> i \<and> i < off + length d then d ! (i - off) else sb_byte pb sb i)"
    "bi < CHUNK_SIZE div BLOCK_SIZE \<Longrightarrow>
       block_len (sb_block_slots sb2 ! bi) = max (block_len (sb_block_slots sb ! bi)) (reach off (length d) bi)"
  using assms unfolding sb_filled_def sb_written_def by auto

text \<open>The page counter is not part of what a buffer holds.\<close>

lemma counter_irrelevant:
  "sb_byte pb (sb\<lparr>sb_total_page_cnt := n\<rparr>) i = sb_byte pb sb i"
  "has_page (sb\<lparr>sb_total_page_cnt := n\<rparr>) q = has_page sb q"
  "sb_wf pb (sb\<lparr>sb_total_page_cnt := n\<rparr>) = sb_wf pb sb"
  "page_count (sb\<lparr>sb_total_page_cnt := n\<rparr>) = page_count sb"
  "sb_block_slots (sb\<lparr>sb_total_page_cnt := n\<rparr>) = sb_block_slots sb"
  "sb_length (sb\<lparr>sb_total_page_cnt := n\<rparr>) = sb_length sb"
  "sb_flushed_length (sb\<lparr>sb_total_page_cnt := n\<rparr>) = sb_flushed_length sb"
  by (simp_all add: sb_byte_def has_page_def needs_page_def sb_wf_def page_count_def)

lemma sb_filled_cnt:
  "sb_filled pb S sb sb' \<Longrightarrow> sb_filled pb S (sb\<lparr>sb_total_page_cnt := n\<rparr>) (sb'\<lparr>sb_total_page_cnt := n\<rparr>)"
  by (simp add: sb_filled_def counter_irrelevant)

text \<open>The pages of a buffer are counted, and the pool has room for them all.\<close>

definition buffer_inv ::
  "('pg \<Rightarrow> bytes) \<Rightarrow> ('p \<Rightarrow> bool) \<Rightarrow> ('p \<Rightarrow> nat) \<Rightarrow> ('p \<Rightarrow> nat) \<Rightarrow> ('p, 'pg, 's) sb_world \<Rightarrow> bool" where
  "buffer_inv pb pool_ok free all w \<longleftrightarrow> pool_ok (sw_pool w) \<and> sb_wf pb (sw_buf w) \<and>
     sb_total_page_cnt (sw_buf w) = page_count (sw_buf w) \<and>
     page_count (sw_buf w) + free (sw_pool w) \<le> all (sw_pool w)"

context owned_pages
begin

abbreviation "buf_inv \<equiv> buffer_inv page_bytes pool_ok free total"

lemma reserve_ok:
  assumes inv: "buf_inv w" and e: "0 < write_end" "write_end \<le> CHUNK_SIZE"
    and room: "length (missing_pages offset write_end (sw_buf w)) \<le> free (sw_pool w)"
  shows "\<exists>sb1 p' n. reserve_pages_for_write po offset write_end w = (Inr (), w\<lparr>sw_pool := p', sw_buf := sb1\<rparr>) \<and>
    sb_filled page_bytes (set (missing_pages offset write_end (sw_buf w))) ((sw_buf w)\<lparr>sb_total_page_cnt := n\<rparr>) sb1 \<and>
    sb_total_page_cnt sb1 = page_count sb1 \<and> pool_ok p' \<and> total p' = total (sw_pool w) \<and>
    page_count sb1 + free p' = page_count (sw_buf w) + free (sw_pool w)"
proof -
  let ?miss = "missing_pages offset write_end (sw_buf w)"
  note miss = missing_pages_props [OF e(2,1), where offset = offset and sb = "sw_buf w"]
  obtain pgs p' where acq: "acquire_pages po (length ?miss) [] (sw_pool w) = (Inr pgs, p')" "length pgs = length ?miss"
      "\<forall>pg \<in> set pgs. page_bytes pg = zeros PAGE_SIZE" "pool_ok p'" "free p' + length ?miss = free (sw_pool w)"
      "total p' = total (sw_pool w)"
    using acquire_pages_effect [of "sw_pool w" "length ?miss" "[]"] inv room by (auto simp: buffer_inv_def)
  define sb1 where "sb1 = fold install_page (zip ?miss pgs) (sw_buf w)"
  define n where "n = sb_total_page_cnt sb1 + length pgs"
  have fill: "sb_filled page_bytes (set ?miss) (sw_buf w) sb1" unfolding sb1_def
    by (rule install_pages_filled) (use inv miss acq in \<open>auto simp: buffer_inv_def\<close>)
  have "reserve_pages_for_write po offset write_end w = (Inr (), w\<lparr>sw_pool := p', sw_buf := sb1\<lparr>sb_total_page_cnt := n\<rparr>\<rparr>)"
    using acq(1) by (simp add: reserve_pages_for_write_def n_def sb1_def upd_buf_def Let_def)
  moreover have "page_count sb1 = page_count (sw_buf w) + length ?miss"
    using fill miss(1) by (simp add: sb_filled_def distinct_card)
  moreover have "sb_total_page_cnt sb1 = page_count (sw_buf w)" using fill inv by (simp add: sb_filled_def buffer_inv_def)
  ultimately show ?thesis using fill [THEN sb_filled_cnt, of n] acq
    by (intro exI [of _ "sb1\<lparr>sb_total_page_cnt := n\<rparr>"] exI [of _ p'] exI [of _ n])
      (simp add: n_def counter_irrelevant)
qed

lemma reserve_exhausted:
  assumes "buf_inv w" "free (sw_pool w) < length (missing_pages offset write_end (sw_buf w))"
  shows "\<exists>p'. reserve_pages_for_write po offset write_end w = (Inl PagePoolExhausted, w\<lparr>sw_pool := p'\<rparr>) \<and>
    pool_ok p' \<and> free p' = free (sw_pool w) \<and> total p' = total (sw_pool w)"
proof -
  have "\<exists>p'. acquire_pages po (length (missing_pages offset write_end (sw_buf w))) [] (sw_pool w) = (Inl PagePoolExhausted, p') \<and>
      pool_ok p' \<and> free p' = free (sw_pool w) + length ([] :: 'pg list) \<and> total p' = total (sw_pool w)"
    by (rule acquire_pages_exhausted) (use assms in \<open>auto simp: buffer_inv_def\<close>)
  then show ?thesis by (auto simp: reserve_pages_for_write_def Let_def)
qed

lemma write_at_ok:
  assumes inv: "buf_inv w" and d: "d \<noteq> []" "offset + length d \<le> CHUNK_SIZE"
    and fl: "sb_flushed_length (sw_buf w) \<le> offset"
    and room: "length (missing_pages offset (offset + length d) (sw_buf w)) \<le> free (sw_pool w)"
  shows "\<exists>w'. sb_write_at po offset d w = (Inr (length d), w') \<and> buf_inv w' \<and> sw_sink w' = sw_sink w \<and>
    sb_length (sw_buf w') = max (sb_length (sw_buf w)) (offset + length d) \<and>
    sb_flushed_length (sw_buf w') = sb_flushed_length (sw_buf w) \<and> total (sw_pool w') = total (sw_pool w) \<and>
    page_count (sw_buf w') + free (sw_pool w') = page_count (sw_buf w) + free (sw_pool w) \<and>
    (\<forall>i < CHUNK_SIZE. sb_byte page_bytes (sw_buf w') i =
       (if offset \<le> i \<and> i < offset + length d then d ! (i - offset) else sb_byte page_bytes (sw_buf w) i)) \<and>
    (\<forall>bi < CHUNK_SIZE div BLOCK_SIZE. block_len (sb_block_slots (sw_buf w') ! bi) =
       max (block_len (sb_block_slots (sw_buf w) ! bi)) (reach offset (length d) bi))"
proof -
  have pos: "0 < offset + length d" using d by simp
  obtain sb1 p' n where res: "reserve_pages_for_write po offset (offset + length d) w = (Inr (), w\<lparr>sw_pool := p', sw_buf := sb1\<rparr>)"
      and fill: "sb_filled page_bytes (set (missing_pages offset (offset + length d) (sw_buf w))) ((sw_buf w)\<lparr>sb_total_page_cnt := n\<rparr>) sb1"
      and cnt: "sb_total_page_cnt sb1 = page_count sb1" "pool_ok p'" "total p' = total (sw_pool w)"
        "page_count sb1 + free p' = page_count (sw_buf w) + free (sw_pool w)"
    using reserve_ok [OF inv pos d(2) room] by blast
  let ?w1 = "w\<lparr>sw_pool := p', sw_buf := sb1\<rparr>"
  have pages: "has_page sb1 (page_pos i)" if "offset \<le> i" "i < offset + length d" for i
  proof -
    have "valid_pos (page_pos i)"
      using that d(2) block_idx_bound [of i] page_idx_bound [of "i mod BLOCK_SIZE"] sizes_pos by (simp add: page_pos_def valid_pos_def)
    then show ?thesis using fill missing_pages_props(3) [OF d(2) pos that, of "sw_buf w"]
      unfolding sb_filled_def counter_irrelevant by blast
  qed
  have "\<exists>sb2. write_blocks po offset (length d) d 0 ?w1 = (Inr (), upd_buf (\<lambda>_. sb2) ?w1) \<and>
      sb_written page_bytes (offset + 0) (sub_bytes 0 (length d - 0) d) (sw_buf ?w1) sb2"
    by (rule write_blocks_effect) (use cnt fill d pages in \<open>auto simp: sb_filled_def\<close>)
  then obtain sb2 where sb2: "write_blocks po offset (length d) d 0 ?w1 = (Inr (), upd_buf (\<lambda>_. sb2) ?w1)"
      "sb_written page_bytes offset d sb1 sb2" by (auto simp: sub_bytes_def)
  note eff = sb_filled_written [OF fill sb2(2), unfolded counter_irrelevant]
  let ?w' = "upd_buf (\<lambda>sb. sb2\<lparr>sb_length := max (sb_length sb2) (offset + length d)\<rparr>) ?w1"
  have "checked_end ''slice buffer write'' offset (length d) CHUNK_SIZE = Inr (offset + length d)"
    by (rule checked_end_ok) (use d(2) in \<open>simp_all add: sizes\<close>)
  then have "sb_write_at po offset d w = (Inr (length d), ?w')"
    using d fl res sb2(1) by (simp add: sb_write_at_def Let_def sbind_def upd_buf_def)
  moreover have "buf_inv ?w'" using eff(1) cnt inv sb2(2) d(2)
    by (auto simp: buffer_inv_def sb_wf_def sb_written_def page_count_def)
  moreover have "page_count sb2 = page_count sb1" using sb2(2) by (simp add: sb_written_def)
  ultimately show ?thesis using eff cnt
    by (intro exI [of _ ?w']) (simp add: sb_byte_def page_count_def)
qed

end

section \<open>A buffer is an array of bytes\<close>

text \<open>A sequence of writes with their results, and the array that the successful ones make.\<close>

fun sb_run ::
  "('p, 'pg) page_ops \<Rightarrow> (nat \<times> bytes) list \<Rightarrow> ('p, 'pg, 's) sb_world \<Rightarrow> nat sresult list \<times> ('p, 'pg, 's) sb_world" where
  "sb_run po [] w = ([], w)"
| "sb_run po ((offset, d) # ws) w =
     (case sb_write_at po offset d w of
        (r, w1) \<Rightarrow> (case sb_run po ws w1 of (rs, w2) \<Rightarrow> (r # rs, w2)))"

fun array_run :: "(nat \<times> bytes) list \<Rightarrow> nat sresult list \<Rightarrow> (nat \<Rightarrow> char) \<times> nat \<Rightarrow> (nat \<Rightarrow> char) \<times> nat" where
  "array_run ((offset, d) # ws) (r # rs) (f, len) =
     array_run ws rs
       (if is_ok r \<and> d \<noteq> []
        then (\<lambda>i. if offset \<le> i \<and> i < offset + length d then d ! (i - offset) else f i, max len (offset + length d))
        else (f, len))"
| "array_run _ _ a = a"

text \<open>The outcome of a write on a buffer of which nothing was flushed.\<close>

definition write_outcome :: "nat \<Rightarrow> bytes \<Rightarrow> nat sresult \<Rightarrow> bool" where
  "write_outcome offset d r \<longleftrightarrow>
     r = Inr (length d) \<and> (d = [] \<or> offset + length d \<le> CHUNK_SIZE) \<or>
     r = Inl PagePoolExhausted \<and> offset + length d \<le> CHUNK_SIZE \<or>
     r = Inl (InvalidRange ''slice buffer write'' offset (length d) CHUNK_SIZE) \<and> CHUNK_SIZE < offset + length d"

lemma checked_end_error:
  "bound < offset + n \<Longrightarrow> checked_end subject offset n bound = Inl (InvalidRange subject offset n bound)"
  by (auto simp: checked_end_def checked_add64_def split: option.splits)

definition buffer_shows :: "('pg \<Rightarrow> bytes) \<Rightarrow> 'pg slice_buffer \<Rightarrow> (nat \<Rightarrow> char) \<times> nat \<Rightarrow> bool" where
  "buffer_shows pb sb a \<longleftrightarrow> sb_length sb = snd a \<and> (\<forall>i < CHUNK_SIZE. sb_byte pb sb i = fst a i)"

context owned_pages
begin

lemma write_at_cases:
  assumes "buf_inv w" "sb_flushed_length (sw_buf w) = 0" "buffer_shows page_bytes (sw_buf w) (f, len)"
    "sb_write_at po offset d w = (r, w')"
  shows "buf_inv w' \<and> sb_flushed_length (sw_buf w') = 0 \<and> sw_sink w' = sw_sink w \<and> write_outcome offset d r \<and>
    total (sw_pool w') = total (sw_pool w) \<and>
    page_count (sw_buf w') + free (sw_pool w') = page_count (sw_buf w) + free (sw_pool w) \<and>
    buffer_shows page_bytes (sw_buf w') (array_run [(offset, d)] [r] (f, len))"
proof (cases "d = []")
  case True
  then show ?thesis using assms by (auto simp: sb_write_at_def write_outcome_def)
next
  case False
  show ?thesis
  proof (cases "offset + length d \<le> CHUNK_SIZE")
    case True
    show ?thesis
    proof (cases "length (missing_pages offset (offset + length d) (sw_buf w)) \<le> free (sw_pool w)")
      case room: True
      show ?thesis using write_at_ok [OF assms(1) False True _ room] assms(2-4) False True
        by (auto simp: write_outcome_def buffer_shows_def)
    next
      case no_room: False
      have "checked_end ''slice buffer write'' offset (length d) CHUNK_SIZE = Inr (offset + length d)"
        by (rule checked_end_ok [OF True]) (simp add: sizes)
      then show ?thesis using reserve_exhausted [OF assms(1), of offset "offset + length d"] no_room assms False True
        by (auto simp: sb_write_at_def Let_def sbind_def write_outcome_def buffer_inv_def)
    qed
  next
    case out: False
    then have "r = Inl (InvalidRange ''slice buffer write'' offset (length d) CHUNK_SIZE)" "w' = w"
      using assms(4) False by (simp_all add: sb_write_at_def Let_def checked_end_error)
    then show ?thesis using assms(1-3) out by (simp add: write_outcome_def)
  qed
qed

lemma run_shows:
  assumes "buf_inv w" "sb_flushed_length (sw_buf w) = 0" "buffer_shows page_bytes (sw_buf w) a"
    "sb_run po ws w = (rs, w')"
  shows "buf_inv w' \<and> sb_flushed_length (sw_buf w') = 0 \<and> sw_sink w' = sw_sink w \<and> length rs = length ws \<and>
    (\<forall>k < length ws. write_outcome (fst (ws ! k)) (snd (ws ! k)) (rs ! k)) \<and>
    page_count (sw_buf w') + free (sw_pool w') = page_count (sw_buf w) + free (sw_pool w) \<and>
    buffer_shows page_bytes (sw_buf w') (array_run ws rs a)"
  using assms
proof (induction ws arbitrary: w rs a)
  case (Cons x ws)
  obtain offset d where x: "x = (offset, d)" by (cases x)
  obtain f len where a: "a = (f, len)" by (cases a)
  obtain r w1 where 1: "sb_write_at po offset d w = (r, w1)" by fastforce
  obtain rs' where 2: "sb_run po ws w1 = (rs', w')" "rs = r # rs'"
    using Cons.prems(4) x 1 by (auto split: prod.splits)
  note one = write_at_cases [OF Cons.prems(1,2) _ 1, of f len]
  have step: "array_run (x # ws) (r # rs') a = array_run ws rs' (array_run [(offset, d)] [r] a)" by (simp add: x a)
  have "buf_inv w' \<and> sb_flushed_length (sw_buf w') = 0 \<and> sw_sink w' = sw_sink w1 \<and> length rs' = length ws \<and>
      (\<forall>k < length ws. write_outcome (fst (ws ! k)) (snd (ws ! k)) (rs' ! k)) \<and>
      page_count (sw_buf w') + free (sw_pool w') = page_count (sw_buf w1) + free (sw_pool w1) \<and>
      buffer_shows page_bytes (sw_buf w') (array_run ws rs' (array_run [(offset, d)] [r] a))"
    by (rule Cons.IH) (use one Cons.prems(3) 2 a in auto)
  then show ?case using one Cons.prems(3) 2 a x step by (auto simp: nth_Cons split: nat.splits)
qed simp

lemma new_buffer:
  assumes "pool_ok (sw_pool w)" "sw_buf w = slice_buffer_new" "free (sw_pool w) \<le> total (sw_pool w)"
  shows "buf_inv w" "sb_flushed_length (sw_buf w) = 0"
    "buffer_shows page_bytes (sw_buf w) (\<lambda>_. zero_byte, 0)" "page_count (sw_buf w) = 0"
proof -
  have "sum_list (map block_pages (replicate n BEmpty)) = 0" for n by (simp add: block_pages_def)
  then show cnt: "page_count (sw_buf w) = 0" using assms(2) by (simp add: page_count_def slice_buffer_new_def)
  have "sb_wf page_bytes slice_buffer_new" by (auto simp: sb_wf_def slice_buffer_new_def block_wf_def)
  then show "buf_inv w" using assms cnt by (simp add: buffer_inv_def slice_buffer_new_def)
  show "sb_flushed_length (sw_buf w) = 0" using assms(2) by (simp add: slice_buffer_new_def)
  show "buffer_shows page_bytes (sw_buf w) (\<lambda>_. zero_byte, 0)"
    using assms(2) block_idx_bound by (simp add: buffer_shows_def slice_buffer_new_def sb_byte_def block_byte_def)
qed

end

end
