(* ===== verification/Buffer_Flush.thy ===== *)
theory Buffer_Flush
  imports Buffer_Ops
begin

text \<open>
  Staging a slice buffer: when the slice was written without gaps, the blocks of the buffer get
  exactly the names a reader derives from the length of the slice, and every block staged is an
  acknowledged block of the cache.
\<close>

section \<open>Blocks as they are stored\<close>

context owned_pages
begin

lemma gather_block_bytes:
  assumes "pool_ok p" "block_wf page_bytes (BData db)" "n \<le> BLOCK_SIZE"
  shows "gather_block po p n (db_pages db) = Inr (map (block_byte page_bytes (BData db)) [0..<n])"
proof -
  have "gather_loop po p (db_pages db) n c = Inr (map (block_byte page_bytes (BData db)) [c..<n])" if "c \<le> n" for c
    using that
  proof (induction "n - c" arbitrary: c rule: less_induct)
    case less
    show ?case
    proof (cases "c < n")
      case True
      define m where "m = min (PAGE_SIZE - c mod PAGE_SIZE) (n - c)"
      have m: "0 < m" "c + m \<le> n" "m \<le> PAGE_SIZE - c mod PAGE_SIZE" using True sizes_pos by (auto simp: m_def)
      have c: "c < BLOCK_SIZE" using True assms(3) by simp
      then have "\<not> length (db_pages db) \<le> c div PAGE_SIZE"
        using assms(2) page_idx_bound [OF c] by (simp add: block_wf_def)
      moreover have "gather_loop po p (db_pages db) n (c + m) = Inr (map (block_byte page_bytes (BData db)) [c + m..<n])"
        using less.hyps [of "c + m"] m True by simp
      ultimately show ?thesis
        using True m page_segment [OF assms(1,2) c m(3)] map_upt_append [of c "c + m" n]
        by (subst gather_loop.simps) (simp add: Let_def m_def [symmetric] split: option.splits)
    qed (use less.prems in \<open>simp add: gather_loop.simps\<close>)
  qed
  then show ?thesis by (simp add: gather_block_def)
qed

lemma held_pages:
  assumes "block_wf page_bytes (BData db)"
  shows "length (List.map_filter id (db_pages db)) = count_pages (db_pages db)"
    "pg \<in> set (List.map_filter id (db_pages db)) \<Longrightarrow> length (page_bytes pg) = PAGE_SIZE"
proof -
  have "length (List.map_filter id xs) = count_pages xs" for xs :: "'pg option list"
    by (induction xs) (auto simp: count_pages_def map_filter_simps split: option.splits)
  then show "length (List.map_filter id (db_pages db)) = count_pages (db_pages db)" .
  show "pg \<in> set (List.map_filter id (db_pages db)) \<Longrightarrow> length (page_bytes pg) = PAGE_SIZE"
    using assms by (auto simp: block_wf_def List.map_filter_def)
qed

text \<open>Emptying a slot gives its pages back.\<close>

lemma release_block_ok:
  assumes "pool_ok (sw_pool w)" "sb_wf page_bytes (sw_buf w)" "idx < CHUNK_SIZE div BLOCK_SIZE"
    "sb_block_slots (sw_buf w) ! idx = BData db" "page_count (sw_buf w) + free (sw_pool w) \<le> total (sw_pool w)"
  shows "\<exists>w'. release_block po idx db w = (Inr (), w') \<and> pool_ok (sw_pool w') \<and> sb_wf page_bytes (sw_buf w') \<and>
    sb_block_slots (sw_buf w') = (sb_block_slots (sw_buf w))[idx := BEmpty] \<and> sw_sink w' = sw_sink w \<and>
    page_count (sw_buf w') + count_pages (db_pages db) = page_count (sw_buf w) \<and>
    page_count (sw_buf w') + free (sw_pool w') = page_count (sw_buf w) + free (sw_pool w) \<and>
    total (sw_pool w') = total (sw_pool w) \<and> sb_length (sw_buf w') = sb_length (sw_buf w) \<and>
    sb_total_page_cnt (sw_buf w') = sb_total_page_cnt (sw_buf w) \<and>
    sb_flushed_length (sw_buf w') = max (sb_flushed_length (sw_buf w)) (idx * BLOCK_SIZE + db_length db)"
proof -
  have idx: "idx < length (sb_block_slots (sw_buf w))" using assms(2,3) by (simp add: sb_wf_def)
  then have wf: "block_wf page_bytes (BData db)" using assms(2,4) nth_mem [OF idx] by (simp add: sb_wf_def)
  have cnt: "page_count (set_slot idx BEmpty (sw_buf w)) + count_pages (db_pages db) = page_count (sw_buf w)"
    using page_count_change [OF idx, of BEmpty] assms(4) by (simp add: block_pages_def)
  then have "free (sw_pool w) + length (List.map_filter id (db_pages db)) \<le> total (sw_pool w)"
    using assms(5) held_pages(1) [OF wf] by linarith
  then obtain p' where p': "drop_pages po (List.map_filter id (db_pages db)) (sw_pool w) = Inr p'" "pool_ok p'"
      "free p' = free (sw_pool w) + count_pages (db_pages db)" "total p' = total (sw_pool w)"
    using drop_pages_effect [OF assms(1)] held_pages [OF wf] by metis
  let ?g = "\<lambda>sb. (set_slot idx BEmpty sb)\<lparr>sb_flushed_length := max (sb_flushed_length sb) (idx * BLOCK_SIZE + db_length db)\<rparr>"
  have "sb_wf page_bytes (?g (sw_buf w))"
    using sb_wf_set_slot [OF assms(2), of BEmpty idx] by (simp add: sb_wf_def block_wf_def)
  then show ?thesis using p' cnt
    by (intro exI [of _ "upd_buf ?g (w\<lparr>sw_pool := p'\<rparr>)"]) (simp add: release_block_def page_count_def)
qed

end

section \<open>Slices without gaps\<close>

definition gapless :: "'pg slice_buffer \<Rightarrow> bool" where
  "gapless sb \<longleftrightarrow> (\<forall>bi < CHUNK_SIZE div BLOCK_SIZE.
     block_len (sb_block_slots sb ! bi) = min BLOCK_SIZE (sb_length sb - bi * BLOCK_SIZE))"

lemma gapless_new: "gapless slice_buffer_new"
  by (auto simp: gapless_def slice_buffer_new_def block_len_def)

lemma gapless_reach:
  assumes "off \<le> len" "0 < n"
  shows "max (min BLOCK_SIZE (len - bi * BLOCK_SIZE)) (reach off n bi) =
    min BLOCK_SIZE (max len (off + n) - bi * BLOCK_SIZE)"
  using assms by (auto simp: reach_def algebra_simps)

text \<open>The name of a block of a slice of a given length.\<close>

definition block_key :: "nat \<Rightarrow> nat \<Rightarrow> nat \<Rightarrow> slice_key" where
  "block_key sid len bi = slice_key_new sid bi (min BLOCK_SIZE (len - bi * BLOCK_SIZE))"

lemma pending_gapless:
  assumes "gapless sb" "sb_wf pb sb" "0 < sb_length sb"
  shows "pending_blocks (((sb_length sb - 1) div BLOCK_SIZE + 1) * BLOCK_SIZE) sb = [0..<(sb_length sb - 1) div BLOCK_SIZE + 1]"
proof -
  let ?k = "(sb_length sb - 1) div BLOCK_SIZE + 1"
  have k: "?k \<le> CHUNK_SIZE div BLOCK_SIZE"
  proof -
    have "sb_length sb \<le> CHUNK_SIZE" using assms(2) by (simp add: sb_wf_def)
    then have "sb_length sb - 1 < CHUNK_SIZE" using assms(3) by linarith
    from block_idx_bound [OF this] show ?thesis by linarith
  qed
  have len: "length (sb_block_slots sb) = CHUNK_SIZE div BLOCK_SIZE" using assms(2) by (simp add: sb_wf_def)
  have data: "sb_block_slots sb ! i \<noteq> BEmpty" if "i < ?k" for i
  proof -
    have "i * BLOCK_SIZE \<le> (sb_length sb - 1) div BLOCK_SIZE * BLOCK_SIZE" using that by (intro mult_le_mono1) simp
    also have "\<dots> \<le> sb_length sb - 1" by (rule div_times_less_eq_dividend)
    finally have "i * BLOCK_SIZE < sb_length sb" using assms(3) by linarith
    then have "0 < block_len (sb_block_slots sb ! i)" using assms(1,3) that k sizes_pos by (simp add: gapless_def)
    then show ?thesis by (auto simp: block_len_def)
  qed
  have "pending_blocks (?k * BLOCK_SIZE) sb = filter (\<lambda>i. i < ?k) [0..<CHUNK_SIZE div BLOCK_SIZE]"
    unfolding pending_blocks_def len
  proof (rule filter_cong [OF refl])
    fix i
    have "(i + 1) * BLOCK_SIZE \<le> ?k * BLOCK_SIZE \<longleftrightarrow> i < ?k" using sizes_pos by (simp only: mult_le_cancel2) auto
    then show "(case sb_block_slots sb ! i of BEmpty \<Rightarrow> False | BData _ \<Rightarrow> (i + 1) * BLOCK_SIZE \<le> ?k * BLOCK_SIZE) = (i < ?k)"
      using data [of i] by (auto split: block.splits)
  qed
  also have "\<dots> = [0..<?k]"
  proof -
    have "[0..<CHUNK_SIZE div BLOCK_SIZE] = [0..<?k] @ [?k..<CHUNK_SIZE div BLOCK_SIZE]"
      using k by (metis le_add_diff_inverse upt_add_eq_append zero_le)
    moreover have "filter (\<lambda>i. i < ?k) [0..<?k] = [0..<?k]" by (rule filter_True) simp
    moreover have "filter (\<lambda>i. i < ?k) [?k..<CHUNK_SIZE div BLOCK_SIZE] = []" by (rule filter_False) simp
    ultimately show ?thesis by (simp only: filter_append append_Nil2)
  qed
  finally show ?thesis .
qed

section \<open>Staging\<close>

locale stage_world = owned_pages po page_bytes pool_ok free total + cache_world env files objects content
  for po :: "('p, 'pg) page_ops" and page_bytes pool_ok free total
    and env :: "('f, 'o, 'c) cache_env" and files objects content
begin

text \<open>The state between two blocks: some slots are emptied, and their blocks acknowledged.\<close>

definition staging :: "nat \<Rightarrow> 'pg slice_buffer \<Rightarrow> slice_key set \<Rightarrow> nat set \<Rightarrow> nat \<Rightarrow> ('p, 'pg, ('f, 'o, 'c) file_cache) sb_world \<Rightarrow> bool" where
  "staging sid sb A flushed released w \<longleftrightarrow>
     pool_ok (sw_pool w) \<and> sb_wf page_bytes (sw_buf w) \<and>
     (\<forall>bi < CHUNK_SIZE div BLOCK_SIZE. sb_block_slots (sw_buf w) ! bi =
        (if bi \<in> flushed then BEmpty else sb_block_slots sb ! bi)) \<and>
     okc (A \<union> block_key sid (sb_length sb) ` flushed) (sw_sink w) \<and>
     page_count (sw_buf w) + released = page_count sb \<and>
     page_count (sw_buf w) + free (sw_pool w) \<le> total (sw_pool w) \<and>
     sb_total_page_cnt (sw_buf w) = sb_total_page_cnt sb \<and> sb_length (sw_buf w) = sb_length sb"

lemma stage_one:
  assumes st: "staging sid sb A fl released w" and sb: "gapless sb" "sb_wf page_bytes sb"
    and idx: "idx < CHUNK_SIZE div BLOCK_SIZE" "idx \<notin> fl" "sb_block_slots sb ! idx = BData db"
    and content: "content (object_path (block_key sid (sb_length sb) idx)) = map (block_byte page_bytes (BData db)) [0..<db_length db]"
    and run: "fc_stage env po (sw_pool w) sid idx (db_length db) (db_pages db) (sw_sink w) = (r, c)"
  shows "(is_ok r \<longrightarrow> r = Inr (db_length db, count_pages (db_pages db)) \<and>
            (\<exists>w'. release_block po idx db (w\<lparr>sw_sink := c\<rparr>) = (Inr (), w') \<and>
                  staging sid sb A (insert idx fl) (released + count_pages (db_pages db)) w')) \<and>
         (\<not> is_ok r \<longrightarrow> staging sid sb A fl released (w\<lparr>sw_sink := c\<rparr>))"
proof -
  have slot: "sb_block_slots (sw_buf w) ! idx = BData db" using st idx by (simp add: staging_def)
  have wf: "block_wf page_bytes (BData db)"
    using sb(2) idx nth_mem [of idx "sb_block_slots sb"] by (simp add: sb_wf_def)
  have key: "slice_key_new sid idx (db_length db) = block_key sid (sb_length sb) idx"
  proof -
    have "block_len (sb_block_slots sb ! idx) = min BLOCK_SIZE (sb_length sb - idx * BLOCK_SIZE)"
      using sb(1) idx(1) by (simp add: gapless_def)
    then show ?thesis using idx(3) by (simp add: block_key_def block_len_def)
  qed
  have gather: "gather_block po (sw_pool w) (db_length db) (db_pages db) = Inr (map (block_byte page_bytes (BData db)) [0..<db_length db])"
    using gather_block_bytes [OF _ wf] wf st by (simp add: block_wf_def staging_def)
  have okc: "okc (A \<union> block_key sid (sb_length sb) ` fl) (sw_sink w)" using st by (simp add: staging_def)
  have res: "okc (if is_ok r then insert (block_key sid (sb_length sb) idx) (A \<union> block_key sid (sb_length sb) ` fl)
                  else A \<union> block_key sid (sb_length sb) ` fl) c \<and> (is_ok r \<longrightarrow> r = Inr (db_length db, count_pages (db_pages db)))"
    using stage_inv [OF okc run] gather content unfolding key by simp
  show ?thesis
  proof (cases "is_ok r")
    case True
    obtain w' where w': "release_block po idx db (w\<lparr>sw_sink := c\<rparr>) = (Inr (), w')" "pool_ok (sw_pool w')"
        "sb_wf page_bytes (sw_buf w')" "sb_block_slots (sw_buf w') = (sb_block_slots (sw_buf w))[idx := BEmpty]"
        "sw_sink w' = c" "page_count (sw_buf w') + count_pages (db_pages db) = page_count (sw_buf w)"
        "page_count (sw_buf w') + free (sw_pool w') = page_count (sw_buf w) + free (sw_pool w)"
        "total (sw_pool w') = total (sw_pool w)" "sb_length (sw_buf w') = sb_length (sw_buf w)"
        "sb_total_page_cnt (sw_buf w') = sb_total_page_cnt (sw_buf w)"
      using release_block_ok [of "w\<lparr>sw_sink := c\<rparr>" idx db] st idx(1) slot by (auto simp: staging_def)
    have "staging sid sb A (insert idx fl) (released + count_pages (db_pages db)) w'"
      using st w' res True idx(1) by (auto simp: staging_def nth_list_update sb_wf_def)
    then show ?thesis using True res w'(1) by blast
  next
    case False
    then show ?thesis using st res by (simp add: staging_def)
  qed
qed

end

text \<open>The bytes of a block of the slice, by position in the slice.\<close>

definition slice_block :: "(nat \<Rightarrow> char) \<Rightarrow> nat \<Rightarrow> nat \<Rightarrow> bytes" where
  "slice_block f len bi = map f [bi * BLOCK_SIZE..<min ((bi + 1) * BLOCK_SIZE) len]"

lemma slice_block_data:
  assumes "gapless sb" "bi < CHUNK_SIZE div BLOCK_SIZE" "sb_block_slots sb ! bi = BData db"
  shows "slice_block (sb_byte pb sb) (sb_length sb) bi = map (block_byte pb (BData db)) [0..<db_length db]"
proof -
  have "block_len (sb_block_slots sb ! bi) = min BLOCK_SIZE (sb_length sb - bi * BLOCK_SIZE)"
    using assms(1,2) by (simp add: gapless_def)
  then have len: "db_length db = min BLOCK_SIZE (sb_length sb - bi * BLOCK_SIZE)" using assms(3) by (simp add: block_len_def)
  show ?thesis
  proof (rule nth_equalityI)
    show "length (slice_block (sb_byte pb sb) (sb_length sb) bi) = length (map (block_byte pb (BData db)) [0..<db_length db])"
      using len sizes_pos by (auto simp: slice_block_def min_def)
    fix i assume "i < length (slice_block (sb_byte pb sb) (sb_length sb) bi)"
    then have i: "i < BLOCK_SIZE" "bi * BLOCK_SIZE + i < min ((bi + 1) * BLOCK_SIZE) (sb_length sb)"
      by (auto simp: slice_block_def)
    then have "(bi * BLOCK_SIZE + i) div BLOCK_SIZE = bi" "(bi * BLOCK_SIZE + i) mod BLOCK_SIZE = i" by simp_all
    then show "slice_block (sb_byte pb sb) (sb_length sb) bi ! i = map (block_byte pb (BData db)) [0..<db_length db] ! i"
      using i len assms(3) by (simp add: slice_block_def sb_byte_def)
  qed
qed

context stage_world
begin

lemma stage_blocks_effect:
  assumes "staging sid sb A fl released w" "gapless sb" "sb_wf page_bytes sb"
    "distinct idxs" "\<And>i. i \<in> set idxs \<Longrightarrow> i < CHUNK_SIZE div BLOCK_SIZE \<and> i \<notin> fl \<and> sb_block_slots sb ! i \<noteq> BEmpty \<and>
       content (object_path (block_key sid (sb_length sb) i)) = slice_block (sb_byte page_bytes sb) (sb_length sb) i"
    "stage_blocks env po sid idxs released w = (r, w')"
  shows "(\<forall>n. r = Inr n \<longrightarrow> staging sid sb A (fl \<union> set idxs) n w') \<and>
         (\<not> is_ok r \<longrightarrow> (\<exists>fl' n. staging sid sb A fl' n w'))"
  using assms
proof (induction idxs arbitrary: fl released w)
  case (Cons i rest)
  obtain db where db: "sb_block_slots sb ! i = BData db" using Cons.prems(5) [of i] by (cases "sb_block_slots sb ! i") auto
  have i: "i < CHUNK_SIZE div BLOCK_SIZE" "i \<notin> fl" using Cons.prems(5) [of i] by auto
  have slot: "sb_block_slots (sw_buf w) ! i = BData db" using Cons.prems(1) i db by (simp add: staging_def)
  obtain r1 c where run: "fc_stage env po (sw_pool w) sid i (db_length db) (db_pages db) (sw_sink w) = (r1, c)" by fastforce
  have content: "content (object_path (block_key sid (sb_length sb) i)) = map (block_byte page_bytes (BData db)) [0..<db_length db]"
    using Cons.prems(5) [of i] slice_block_data [OF Cons.prems(2) i(1) db] by simp
  note one = stage_one [OF Cons.prems(1-3) i db content run]
  show ?case
  proof (cases r1)
    case (Inl e)
    then show ?thesis using Cons.prems(6) one slot run by auto
  next
    case (Inr v)
    then obtain w1 where w1: "release_block po i db (w\<lparr>sw_sink := c\<rparr>) = (Inr (), w1)"
        "staging sid sb A (insert i fl) (released + count_pages (db_pages db)) w1" and v: "v = (db_length db, count_pages (db_pages db))"
      using one by auto
    have "stage_blocks env po sid rest (released + count_pages (db_pages db)) w1 = (r, w')"
      using Cons.prems(6) slot run Inr v w1(1) by (simp add: sbind_def)
    from Cons.IH [OF w1(2) Cons.prems(2,3) _ _ this] show ?thesis using Cons.prems(4,5) by auto
  qed
qed auto

lemma flush_v2_effect:
  assumes inv: "buf_inv w" and gap: "gapless (sw_buf w)" and fl: "sb_flushed_length (sw_buf w) = 0"
    and okc: "okc A (sw_sink w)" and small: "page_count (sw_buf w) < 2 ^ 64"
    and content: "\<And>bi. bi * BLOCK_SIZE < sb_length (sw_buf w) \<Longrightarrow>
      content (object_path (block_key sid (sb_length (sw_buf w)) bi)) = slice_block (sb_byte page_bytes (sw_buf w)) (sb_length (sw_buf w)) bi"
    and run: "flush_v2 env po sid w = (Inr n, w')"
  shows "okc (A \<union> block_key sid (sb_length (sw_buf w)) ` {bi. bi * BLOCK_SIZE < sb_length (sw_buf w)}) (sw_sink w') \<and> buf_inv w'"
proof (cases "sb_length (sw_buf w) = 0")
  case True
  then show ?thesis using run inv okc by (simp add: flush_v2_def)
next
  case False
  let ?sb = "sw_buf w" let ?k = "(sb_length ?sb - 1) div BLOCK_SIZE + 1"
  have wf: "sb_wf page_bytes ?sb" using inv by (simp add: buffer_inv_def)
  have pend: "pending_blocks (?k * BLOCK_SIZE) ?sb = [0..<?k]" using pending_gapless [OF gap wf] False by simp
  have k: "bi < ?k \<longleftrightarrow> bi * BLOCK_SIZE < sb_length ?sb" for bi
  proof -
    have "bi < ?k \<longleftrightarrow> bi \<le> (sb_length ?sb - 1) div BLOCK_SIZE" by linarith
    also have "\<dots> \<longleftrightarrow> bi * BLOCK_SIZE \<le> sb_length ?sb - 1"
      by (rule less_eq_div_iff_mult_less_eq [OF sizes_pos(2)])
    also have "\<dots> \<longleftrightarrow> bi * BLOCK_SIZE < sb_length ?sb" using False by linarith
    finally show ?thesis .
  qed
  have st: "staging sid ?sb A {} 0 w" using inv okc by (simp add: staging_def buffer_inv_def)
  have blocks: "bi < CHUNK_SIZE div BLOCK_SIZE \<and> sb_block_slots ?sb ! bi \<noteq> BEmpty" if "bi \<in> set [0..<?k]" for bi
    using that unfolding pend [symmetric] pending_blocks_def using wf by (auto simp: sb_wf_def split: block.splits)
  have kle: "?k * BLOCK_SIZE \<le> CHUNK_SIZE"
  proof -
    have "?k \<le> CHUNK_SIZE div BLOCK_SIZE" using blocks [of "?k - 1"] by auto
    then show ?thesis by (simp add: sizes)
  qed
  obtain r1 w1 where sb1: "stage_blocks env po sid [0..<?k] 0 w = (r1, w1)" by fastforce
  have run': "r1 = Inr n" "w' = upd_buf (\<lambda>sb. sb\<lparr>sb_total_page_cnt := wrap_sub64 (sb_total_page_cnt sb) n\<rparr>) w1"
    using run False fl kle pend sb1
    by (auto simp: flush_v2_def sb_stage_def check_flush_offset_def sbind_def split: sum.splits)
  have ok: "i < CHUNK_SIZE div BLOCK_SIZE \<and> i \<notin> {} \<and> sb_block_slots ?sb ! i \<noteq> BEmpty \<and>
      content (object_path (block_key sid (sb_length ?sb) i)) = slice_block (sb_byte page_bytes ?sb) (sb_length ?sb) i"
    if i: "i \<in> set [0..<?k]" for i
  proof -
    have "i < ?k" using i by (simp only: set_upt atLeastLessThan_iff)
    then show ?thesis using blocks [OF i] content [of i] k [of i] by blast
  qed
  have st1: "staging sid ?sb A ({} \<union> set [0..<?k]) n w1"
    using stage_blocks_effect [OF st gap wf distinct_upt ok sb1] run'(1) by blast
  have keys: "{} \<union> set [0..<?k] = {bi. bi * BLOCK_SIZE < sb_length ?sb}"
    by (rule set_eqI) (simp only: k Un_iff empty_iff set_upt atLeastLessThan_iff mem_Collect_eq le0 simp_thms)
  have cnt: "wrap_sub64 (sb_total_page_cnt (sw_buf w1)) n = page_count (sw_buf w1)"
    using st1 inv small by (auto simp: staging_def buffer_inv_def)
  have "buf_inv w'" using st1 cnt unfolding run'(2)
    by (simp add: staging_def buffer_inv_def counter_irrelevant)
  then show ?thesis using st1 unfolding keys run'(2) by (simp add: staging_def)
qed

end

end
