(* ===== verification/Cache_Live.thy ===== *)
theory Cache_Live
  imports Cache_Safety
begin

text \<open>
  The stage cache over a stage directory and a remote store that do not fail: every block that the
  index lists is readable, and the durability barriers \<^verbatim>\<open>flush_slice\<close> and \<^verbatim>\<open>flush_all\<close> return.
\<close>

locale reliable_stage_fs = stage_fs +
  assumes fs_get_total: "fs_get fs f n = (case files f n of None \<Rightarrow> Inl ObjNotFound | Some d \<Rightarrow> Inr d)"
    and fs_open_total: "fs_open fs n f = (case files f n of None \<Rightarrow> Inl IoNotFound | Some d \<Rightarrow> Inr ())"
    and fs_read_total: "files f n = Some data \<Longrightarrow>
          \<exists>d. fs_read_at fs n off want f = Inr d \<and> (off < length data \<and> 0 < want \<longrightarrow> d \<noteq> [])"
    and fs_delete_total: "files f n = Some data \<Longrightarrow> \<exists>f'. fs_delete fs n f = Inr f'"

context reliable_stage_fs
begin

text \<open>The read loop gets every byte the file has.\<close>

lemma read_exact_loop_total:
  assumes "files f n = Some data" "pos + (len - length out) \<le> length data"
  shows "\<exists>d. read_exact_loop fs n f len pos out = Inr d \<and> len \<le> length d"
  using assms(2)
proof (induction "len - length out" arbitrary: pos out rule: less_induct)
  case less
  define want where "want = min (len - length out) READ_CHUNK"
  show ?case
  proof (cases "length out < len")
    case True
    then have "pos < length data" "0 < want" using less.prems by (auto simp: want_def READ_CHUNK_def)
    then obtain buf where buf: "fs_read_at fs n pos want f = Inr buf" "take want buf \<noteq> []"
      using fs_read_total [OF assms(1), of pos want] by auto
    define got where "got = take want buf"
    have g: "length got \<le> len - length out" "0 < length got" using buf(2) by (auto simp: got_def want_def)
    have "\<exists>d. read_exact_loop fs n f len (pos + length got) (out @ got) = Inr d \<and> len \<le> length d"
      by (rule less.hyps) (use True g less.prems in \<open>simp_all del: length_greater_0_conv\<close>)
    then show ?thesis using True buf
      by (subst read_exact_loop.simps) (simp add: want_def [symmetric] got_def Let_def)
  next
    case False
    then show ?thesis by (subst read_exact_loop.simps) simp
  qed
qed

lemma read_exact_at_total:
  assumes "files f n = Some data" "off + len \<le> length data"
  shows "read_exact_at fs n off len f = Inr (sub_bytes off len data)"
proof -
  obtain d where "read_exact_at fs n off len f = Inr d"
    using read_exact_loop_total [OF assms(1), of off len "[]"] assms
    by (auto simp: read_exact_at_def fs_open_total)
  then show ?thesis using read_exact_at_files [of n off len f d data] assms(1) by simp
qed

end

interpretation afs: reliable_stage_fs alist_fs map_of
  by unfold_locales (auto simp: alist_fs_def sub_bytes_def split: option.splits)

definition key_bounded :: "slice_key \<Rightarrow> bool" where
  "key_bounded k \<longleftrightarrow> sk_slice_id k < 2 ^ 64 \<and> sk_block_idx k < 2 ^ 64 \<and> sk_block_size k < 2 ^ 64"

lemma object_path_inj: "key_bounded k \<Longrightarrow> key_bounded q \<Longrightarrow> object_path k = object_path q \<Longrightarrow> k = q"
  unfolding key_bounded_def object_path_def by (metis slice_key_from_str_path sum.inject(2))

text \<open>Every entry of the index has its stage file.\<close>

definition staged_files where
  "staged_files files c \<longleftrightarrow>
     (\<forall>k e. map_of (fc_staged_index c) k = Some e \<longrightarrow>
        key_bounded k \<and> ci_slice_key e = k \<and>
        (\<exists>d. files (fc_local c) (object_path k) = Some d \<and> length d = sk_block_size k))"

locale reliable_cache = reliable_stage_fs "ce_fs env" files + reliable_object_store "ce_remote env" objects
  for env :: "('f, 'o, 'c) cache_env" and files objects
begin

lemma migrate_copy_succeeds:
  assumes "files (fc_local c) (object_path k) = Some d" "length d = n"
  obtains c' where "migrate_from_local_to_remote env n k c = (Inr (), c')"
    "fc_staged_index c' = fc_staged_index c" "files (fc_local c') = (files (fc_local c))(object_path k := None)"
proof -
  obtain o' where w: "os_write (ce_remote env) (object_path k) d (fc_remote c) = Some o'" using write_total by blast
  have g: "os_get (ce_remote env) o' (object_path k) = Inr d" using write_Some [OF w] get_total by simp
  obtain f' where del: "fs_delete (ce_fs env) (object_path k) (fc_local c) = Inr f'"
    using fs_delete_total [OF assms(1)] by blast
  show ?thesis
    by (rule that [of "c\<lparr>fc_remote := o', fc_local := f'\<rparr>"])
      (use assms w g del delete_files [OF del] in
        \<open>simp_all add: migrate_from_local_to_remote_def Let_def sbind_def obj_context_def fs_get_total\<close>)
qed

lemma flush_key_succeeds:
  assumes "staged_files files c"
  obtains c' where "flush_key env k c = (Inr (), c')" "staged_files files c'"
    "map_of (fc_staged_index c') = (map_of (fc_staged_index c))(k := None)"
proof (cases "map_of (fc_staged_index c) k")
  case None
  have "fc_staged_index (index_invalidate env k c) = fc_staged_index c \<and> fc_local (index_invalidate env k c) = fc_local c"
    by (auto simp: index_invalidate_def eviction_listener_def spawn_migration_def split: option.splits prod.splits)
  then show ?thesis using that [of "index_invalidate env k c"] None assms
    by (auto simp: flush_key_def staged_files_def fun_eq_iff)
next
  case (Some e)
  obtain d where d: "files (fc_local c) (object_path k) = Some d" "length d = sk_block_size k"
      and e: "ci_slice_key e = k" "key_bounded k"
    using assms Some by (auto simp: staged_files_def)
  obtain c1 where c1: "migrate_from_local_to_remote env (sk_block_size k) k c = (Inr (), c1)"
      "fc_staged_index c1 = fc_staged_index c" "files (fc_local c1) = (files (fc_local c))(object_path k := None)"
    using migrate_copy_succeeds [OF d] by blast
  let ?c2 = "release_stage_bytes (sk_block_size k) (c1\<lparr>fc_staged_index := index_del k (fc_staged_index c1)\<rparr>)"
  have cur: "is_current e c" "is_current e c1" using Some e c1(2) by (simp_all add: is_current_def same_generation_def)
  then have m: "migrate_once env e c = (Inr (), ?c2)" using c1(1) e by (simp add: migrate_once_def sbind_def)
  have same: "fc_staged_index (index_invalidate env k ?c2) = index_del k (fc_staged_index c)"
      "fc_local (index_invalidate env k ?c2) = fc_local c1"
    using c1(2) by (auto simp: index_invalidate_def eviction_listener_def spawn_migration_def release_stage_bytes_def
      split: option.splits prod.splits)
  have other: "object_path q \<noteq> object_path k" if "q \<noteq> k" "map_of (fc_staged_index c) q = Some v" for q v
    using assms that object_path_inj [OF _ e(2)] by (auto simp: staged_files_def)
  have "staged_files files (index_invalidate env k ?c2)"
    using assms same(1) unfolding staged_files_def same(2) c1(3) by (auto simp: other)
  then show ?thesis using that [of "index_invalidate env k ?c2"] Some m same(1)
    by (simp add: flush_key_def sbind_def index_del_def map_of_filter_neq)
qed

lemma flush_keys_succeeds:
  assumes "staged_files files c"
  shows "\<exists>c'. flush_keys env ks c = (Inr (), c') \<and> staged_files files c' \<and>
    map_of (fc_staged_index c') = map_of (fc_staged_index c) |` (- set ks)"
  using assms
proof (induction ks arbitrary: c)
  case (Cons k ks)
  obtain c1 where "flush_key env k c = (Inr (), c1)" "staged_files files c1"
      "map_of (fc_staged_index c1) = (map_of (fc_staged_index c))(k := None)"
    using flush_key_succeeds [OF Cons.prems] by blast
  then show ?case using Cons.IH [of c1]
    by (fastforce simp: sbind_def restrict_map_def fun_eq_iff)
qed (simp add: restrict_map_def)

lemma flush_all_succeeds:
  assumes "staged_files files c"
  shows "\<exists>c'. flush_all env c = (Inr 0, c') \<and> fc_staged_index c' = []"
proof -
  obtain c' where c': "flush_keys env (sort_key sk_slice_id (sort_key sk_block_idx (map fst (fc_staged_index c)))) c = (Inr (), c')"
      "map_of (fc_staged_index c') = map_of (fc_staged_index c) |` (- fst ` set (fc_staged_index c))"
    using flush_keys_succeeds [OF assms, of "sort_key sk_slice_id (sort_key sk_block_idx (map fst (fc_staged_index c)))"]
    by auto
  have "map_of (fc_staged_index c') = Map.empty"
    unfolding c'(2) by (auto simp: fun_eq_iff restrict_map_def map_of_eq_None_iff)
  then show ?thesis using c'(1) by (simp add: flush_all_def sbind_def pending_count_def)
qed

lemma flush_slice_succeeds:
  assumes "staged_files files c"
  shows "\<exists>c'. flush_slice env sid c = (Inr (), c') \<and> staged_files files c' \<and>
    map_of (fc_staged_index c') = map_of (fc_staged_index c) |` {k. sk_slice_id k \<noteq> sid}"
proof -
  let ?ks = "sort_key sk_block_idx (filter (\<lambda>k. sk_slice_id k = sid) (map fst (fc_staged_index c)))"
  obtain c' where c': "flush_keys env ?ks c = (Inr (), c')" "staged_files files c'"
      "map_of (fc_staged_index c') = map_of (fc_staged_index c) |` (- set ?ks)"
    using flush_keys_succeeds [OF assms] by blast
  have "map_of (fc_staged_index c) |` (- set ?ks) = map_of (fc_staged_index c) |` {k. sk_slice_id k \<noteq> sid}"
    by (force simp: fun_eq_iff restrict_map_def map_of_eq_None_iff)
  then show ?thesis using c' by (simp add: flush_slice_def)
qed

end

interpretation demo_live: reliable_cache demo_cache_env map_of map_of
  by (simp add: reliable_cache_def demo_cache_env_def afs.reliable_stage_fs_axioms
    alist_sto.reliable_object_store_axioms)

section \<open>Leftovers of an interrupted write\<close>

lemma take1_object_path: "take 1 (object_path k) \<noteq> ''.'' \<and> object_path k \<noteq> []"
  using object_path_no_dot [of k] by (cases "object_path k")
    (auto simp: object_path_def gen_path_for_object_sto_def slice_key_fmt_def)

lemma tmp_not_incomplete: "\<not> is_incomplete_stage_file (tmp_path (object_path k))"
  using take1_object_path [of k]
  by (cases "object_path k") (auto simp: is_incomplete_stage_file_def tmp_path_def strip_prefix_def)

lemma tmp_not_key: "slice_key_from_str (tmp_path (object_path k)) \<noteq> Inr q"
  using slice_key_from_str_path_eq tmp_not_block by metis

lemma recover_entries_leftover:
  assumes "Some e \<in> set es" "fde_name e = Some (tmp_path (object_path k))"
  shows "\<not> is_ok (fst (recover_entries fs es lk acc f))"
  using assms(1)
proof (induction es arbitrary: lk acc f)
  case (Cons x es)
  show ?case
  proof (cases "x = Some e")
    case True
    then show ?thesis using assms(2) tmp_not_incomplete tmp_not_key
      by (auto split: sum.splits)
  next
    case False
    then have "Some e \<in> set es" using Cons.prems by auto
    then show ?thesis using Cons.IH
      by (cases x) (auto split: option.splits sum.splits)
  qed
qed simp

end
