(* ===== verification/Storage_Theorems.thy ===== *)
theory Storage_Theorems
  imports Buffer_Flush Cache_Live
begin

text \<open>What the storage crate guarantees: pages, slice buffers, the stage cache and its tasks.\<close>

section \<open>Page pools\<close>

context pool_queues
begin

lemma run_inv:
  assumes "pe_mem env = mqo" "pe_disk env = dqo"
    "(pool_step env)\<^sup>*\<^sup>* s s'" "pool_inv mi mc di dc (fst s) (snd s)"
  shows "pool_inv mi mc di dc (fst s') (snd s')"
  using assms(3,4) by (induction rule: rtranclp_induct) (auto intro: step_inv [OF assms(1,2)])

lemma inv_counts:
  assumes "pool_inv mi mc di dc p ps" "pe_mem env = mqo" "pe_disk env = dqo"
  shows "pool_remain env p + length ps = hp_total_page_cnt p"
proof -
  have "mem_remain mqo (hp_memory p) + length (mem_pages ps) = mem_total_page_cnt (hp_memory p)"
    using assms(1) by (simp add: pool_inv_def mem_inv_def mem_remain_def mq.len_items)
  moreover have "(case hp_disk p of None \<Rightarrow> 0 | Some d \<Rightarrow> disk_remain dqo d) + length (disk_pages ps) =
      (case hp_disk p of None \<Rightarrow> 0 | Some d \<Rightarrow> disk_total_page_cnt d)"
    using assms(1) disk_inv_length [of di dc]
    by (cases "hp_disk p") (auto simp: pool_inv_def disk_remain_def dq.len_items)
  ultimately show ?thesis using assms length_pages [of ps]
    by (auto simp: pool_remain_def pool_inv_def)
qed

lemma acquire_iff:
  assumes "pool_inv mi mc di dc p ps" "pe_mem env = mqo" "pe_disk env = dqo"
  shows "try_acquire_page env p \<noteq> None \<longleftrightarrow> length ps < hp_total_page_cnt p"
proof -
  have "try_acquire_page env p = None \<longleftrightarrow> pool_remain env p = 0"
  proof (cases "mi (mp_queue (hp_memory p))")
    case Nil
    then have m: "mem_try_acquire mqo (hp_memory p) = None" "mem_remain mqo (hp_memory p) = 0"
      by (simp_all add: mem_acquire_None mem_remain_def mq.len_items)
    show ?thesis
    proof (cases "hp_disk p")
      case (Some d)
      then have "disk_inv di dc d (disk_pages ps)" "disk_total_page_cnt d < 2 ^ 64"
        using assms(1) by (auto simp: pool_inv_def)
      then have "disk_remain dqo d < 2 ^ 64" "disk_try_acquire dqo d = None \<longleftrightarrow> disk_remain dqo d = 0"
        using disk_inv_length [of di dc d "disk_pages ps"] disk_acquire_None [of d]
        by (auto simp: disk_remain_def dq.len_items)
      then show ?thesis using m Some assms(2,3)
        by (auto simp: try_acquire_page_def pool_remain_def split: option.splits)
    qed (use m assms(2) in \<open>simp add: try_acquire_page_def pool_remain_def\<close>)
  next
    case (Cons b bs)
    then have "mem_try_acquire mqo (hp_memory p) \<noteq> None" by (simp add: mem_acquire_None)
    then have some: "try_acquire_page env p \<noteq> None" using assms(2) by (auto simp: try_acquire_page_def)
    have "pool_remain env p \<noteq> 0"
    proof
      assume "pool_remain env p = 0"
      then have full: "length ps = hp_total_page_cnt p" using inv_counts [OF assms] by simp
      have "length (mem_pages ps) < mem_total_page_cnt (hp_memory p)"
        using assms(1) Cons by (auto simp: pool_inv_def mem_inv_def)
      moreover have "length (disk_pages ps) \<le> (case hp_disk p of None \<Rightarrow> 0 | Some d \<Rightarrow> disk_total_page_cnt d)"
        using assms(1) disk_inv_length [of di dc] by (cases "hp_disk p") (fastforce simp: pool_inv_def)+
      ultimately show False using full assms(1) length_pages [of ps] by (simp add: pool_inv_def)
    qed
    then show ?thesis using some by simp
  qed
  then show ?thesis using inv_counts [OF assms] by linarith
qed

end

text \<open>C16. A page pool that was built and used - pages acquired, written and dropped in any order -
  loses and invents no page: the free pages and the pages handed out are always the configured
  total, a page can be acquired exactly while one is free, every page handed out can be dropped
  (the \<^verbatim>\<open>unwrap\<close> of the disk pool's push never panics), no two holders share a disk page, and a
  memory page comes zeroed.\<close>

theorem page_pool_conserves_pages:
  assumes "array_queue (pe_mem env) mi mc" and "array_queue (pe_disk env) di dc"
    and "pool_build env b = Inr p0"
    and "pb_memory_capacity b + (case pb_disk_capacity b of None \<Rightarrow> 0 | Some c \<Rightarrow> c) < 2 ^ 64"
    and "(pool_step env)\<^sup>*\<^sup>* (p0, []) (p, ps)"
  shows "pool_remain env p + length ps = hp_total_page_cnt p
    \<and> (try_acquire_page env p \<noteq> None \<longleftrightarrow> length ps < hp_total_page_cnt p)
    \<and> (\<forall>pg p'. try_acquire_page env p = Some (pg, p') \<longrightarrow>
         pg \<notin> set (filter (\<lambda>q. case q of DiskPage _ \<Rightarrow> True | MemoryPage _ \<Rightarrow> False) ps)
         \<and> (\<forall>d. pg = MemoryPage d \<longrightarrow> d = zeros (mp_page_size (hp_memory p))))
    \<and> (\<forall>pg \<in> set ps. \<exists>p'. page_drop env pg p = Inr p')"
proof -
  have q: "pool_queues (pe_mem env) mi mc (pe_disk env) di dc" by (simp add: pool_queues_def assms(1,2))
  have inv: "pool_inv mi mc di dc p ps"
    using pool_queues.run_inv [OF q refl refl assms(5)] pool_queues.pool_build_inv [OF q refl refl assms(3,4)] by simp
  have "pg \<notin> set (filter (\<lambda>q. case q of DiskPage _ \<Rightarrow> True | MemoryPage _ \<Rightarrow> False) ps) \<and>
      (\<forall>d. pg = MemoryPage d \<longrightarrow> d = zeros (mp_page_size (hp_memory p)))"
    if acq: "try_acquire_page env p = Some (pg, p')" for pg p'
  proof (cases pg)
    case (MemoryPage d)
    then show ?thesis using acq inv pool_queues.mem_acquire_inv [OF q, of "hp_memory p" "mem_pages ps"]
      by (auto simp: try_acquire_page_def pool_inv_def split: option.splits)
  next
    case (DiskPage i)
    then have "pool_inv mi mc di dc p' (ps @ [DiskPage i])"
      using pool_queues.acquire_inv [OF q refl refl inv acq] by simp
    then have "i \<notin> set (disk_pages ps)" by (auto simp: pool_inv_def disk_inv_def split: option.splits)
    then show ?thesis using DiskPage by simp
  qed
  moreover have "\<exists>p'. page_drop env pg p = Inr p'" if pg: "pg \<in> set ps" for pg
  proof -
    obtain xs ys where "ps = xs @ pg # ys" using split_list [OF pg] by blast
    then show ?thesis using pool_queues.drop_inv [OF q refl refl, of p xs pg ys] inv by blast
  qed
  ultimately show ?thesis
    using pool_queues.inv_counts [OF q inv refl refl] pool_queues.acquire_iff [OF q inv refl refl] by blast
qed

definition demo_pool_env :: "(bytes list \<times> nat, nat list \<times> nat, bytes) pool_env" where
  "demo_pool_env = \<lparr> pe_mem = list_queue, pe_disk = list_queue, pe_file = buffer_file \<rparr>"

definition demo_pool :: "(bytes list \<times> nat, nat list \<times> nat, bytes) hybrid_pool" where
  "demo_pool = \<lparr> hp_page_size = 2, hp_memory_capacity = 2, hp_disk_capacity = 4,
     hp_disk_pool_path = Some ''/pool'', hp_total_page_cnt = 3,
     hp_memory = \<lparr> mp_page_size = 2, mp_capacity = 2, mp_queue = ([zeros 2], 1) \<rparr>,
     hp_disk = Some \<lparr> dp_page_size = 2, dp_capacity = 4, dp_queue = ([0, 1], 2), dp_file = zeros 4 \<rparr> \<rparr>"

lemma demo_pool_built:
  "pool_build demo_pool_env (with_disk_capacity_and_path 4 ''/pool'' (with_memory_capacity 2 (with_page_size 2 pool_builder_default))) =
     Inr demo_pool"
  by (simp add: pool_build_def demo_pool_env_def demo_pool_def with_disk_capacity_and_path_def with_memory_capacity_def
    with_page_size_def pool_builder_default_def validate_page_pool_config_def mem_new_def disk_new_def list_queue_def
    buffer_file_def Let_def upt_rec wrap64_def)

theorem page_pool_conserves_pages_witness:
  "\<exists>p ps. (pool_step demo_pool_env)\<^sup>*\<^sup>* (demo_pool, []) (p, ps) \<and> length ps = 1
     \<and> pool_remain demo_pool_env p = 2 \<and> (\<forall>pg \<in> set ps. \<exists>p'. page_drop demo_pool_env pg p = Inr p')"
proof -
  let ?p = "demo_pool\<lparr>hp_memory := (hp_memory demo_pool)\<lparr>mp_queue := ([], 1)\<rparr>\<rparr>"
  have "try_acquire_page demo_pool_env demo_pool = Some (MemoryPage (zeros 2), ?p)"
    by (simp add: try_acquire_page_def mem_try_acquire_def demo_pool_env_def demo_pool_def list_queue_def)
  then have "pool_step demo_pool_env (demo_pool, []) (?p, [] @ [MemoryPage (zeros 2)])" by (rule step_acquire)
  then have run: "(pool_step demo_pool_env)\<^sup>*\<^sup>* (demo_pool, []) (?p, [MemoryPage (zeros 2)])" by simp
  have "array_queue (pe_mem demo_pool_env) fst snd" "array_queue (pe_disk demo_pool_env) fst snd"
    by (simp_all add: demo_pool_env_def lq.array_queue_axioms)
  from page_pool_conserves_pages [OF this demo_pool_built _ run]
  show ?thesis using run
    by (intro exI [of _ ?p] exI [of _ "[MemoryPage (zeros 2)]"])
      (auto simp: demo_pool_def with_disk_capacity_and_path_def with_memory_capacity_def
        with_page_size_def pool_builder_default_def)
qed

text \<open>C24. The pages of the disk pool are not cleared when they are recycled: with memory exhausted, the
  next holder of a disk page reads what the previous holder wrote. The memory pool clears its
  pages; slice buffers rely on zeroed pages for the holes they read and flush.\<close>

theorem recycled_disk_page_keeps_data:
  assumes "array_queue (pe_mem env) mi mc" and "array_queue (pe_disk env) di dc"
    and "mmap_file (pe_file env) contents"
    and "mi (mp_queue (hp_memory p)) = []" and "hp_disk p = Some d"
    and "di (dp_queue d) = []" and "i < dc (dp_queue d)" and "length x \<le> dp_page_size d"
    and "length (contents (dp_file d)) = dc (dp_queue d) * dp_page_size d"
    and "dc (dp_queue d) * dp_page_size d < 2 ^ 64"
  shows "\<exists>p1 p2 p3. page_copy_from_reader env (DiskPage i) 0 (length x) x p = (Inr (), DiskPage i, p1)
    \<and> page_drop env (DiskPage i) p1 = Inr p2
    \<and> try_acquire_page env p2 = Some (DiskPage i, p3)
    \<and> page_copy_to_writer env p3 (DiskPage i) 0 (length x) = Inr x"
proof -
  have "(i + 1) * dp_page_size d \<le> dc (dp_queue d) * dp_page_size d" using assms(7) by (intro mult_le_mono1) simp
  then have fits: "i * dp_page_size d + length x \<le> length (contents (dp_file d))"
      "i * dp_page_size d + length x < 2 ^ 64"
    using assms(8-10) by simp_all
  then have off: "wrap64 (cal_offset d i + 0) = i * dp_page_size d" by (simp add: cal_offset_def)
  have small: "dp_page_size d < 2 ^ 64" using assms(7,10) by (cases "dc (dp_queue d)") auto
  have range: "disk_checked_range d' 0 (length x) = Inr (0, length x)" if "dp_page_size d' = dp_page_size d" for d' :: "('b, 'c) disk_pool"
    using checked_end_ok [of 0 "length x" "dp_page_size d"] assms(8) small that by (simp add: disk_checked_range_def)
  obtain f where f: "mm_write (pe_file env) (i * dp_page_size d) x (dp_file d) = Some f"
      "contents f = overwrite (i * dp_page_size d) x (contents (dp_file d))"
    using mmap_file.write_range [OF assms(3) fits(1)] by blast
  obtain q where q: "aq_push (pe_disk env) i (dp_queue d) = Some q" "di q = [i]"
    using array_queue.push_items [OF assms(2), of "dp_queue d" i] assms(6,7) by auto
  obtain q' where q': "aq_pop (pe_disk env) q = Some (i, q')"
    using array_queue.pop_items [OF assms(2) q(2)] by blast
  define d1 where "d1 = d\<lparr>dp_file := f\<rparr>"
  let ?p1 = "p\<lparr>hp_disk := Some d1\<rparr>" let ?p2 = "p\<lparr>hp_disk := Some (d1\<lparr>dp_queue := q\<rparr>)\<rparr>"
  let ?d3 = "d1\<lparr>dp_queue := q'\<rparr>"
  have "page_copy_from_reader env (DiskPage i) 0 (length x) x p = (Inr (), DiskPage i, ?p1)"
    using assms(5) f(1) off range [of d] by (simp add: page_copy_from_reader_def disk_copy_from_reader_def d1_def)
  moreover have "page_drop env (DiskPage i) ?p1 = Inr ?p2"
    using q(1) by (simp add: page_drop_def disk_page_drop_def d1_def)
  moreover have "try_acquire_page env ?p2 = Some (DiskPage i, p\<lparr>hp_disk := Some ?d3\<rparr>)"
    using q' array_queue.pop_empty [OF assms(1,4)]
    by (simp add: try_acquire_page_def mem_try_acquire_def disk_try_acquire_def)
  moreover have "mm_read (pe_file env) (i * dp_page_size d) (length x) f = Some x"
    using mmap_file.read_range [OF assms(3), of "i * dp_page_size d" "length x" f] fits(1) f(2)
    by (simp add: overwrite_def sub_bytes_def)
  then have "page_copy_to_writer env (p\<lparr>hp_disk := Some ?d3\<rparr>) (DiskPage i) 0 (length x) = Inr x"
    using off range [of ?d3] by (simp add: page_copy_to_writer_def disk_copy_to_writer_def d1_def cal_offset_def)
  ultimately show ?thesis by blast
qed

theorem recycled_disk_page_keeps_data_witness:
  "\<exists>p p1 p2 p3. hp_disk p \<noteq> None
    \<and> page_copy_from_reader demo_pool_env (DiskPage 1) 0 2 ''hi'' p = (Inr (), DiskPage 1, p1)
    \<and> page_drop demo_pool_env (DiskPage 1) p1 = Inr p2
    \<and> try_acquire_page demo_pool_env p2 = Some (DiskPage 1, p3)
    \<and> page_copy_to_writer demo_pool_env p3 (DiskPage 1) 0 2 = Inr ''hi''"
proof -
  define d :: "(nat list \<times> nat, bytes) disk_pool" where
    "d = \<lparr> dp_page_size = 2, dp_capacity = 4, dp_queue = ([], 2), dp_file = zeros 4 \<rparr>"
  let ?p = "demo_pool\<lparr>hp_memory := \<lparr>mp_page_size = 2, mp_capacity = 2, mp_queue = ([], 1)\<rparr>, hp_disk := Some d\<rparr>"
  have laws: "array_queue (pe_mem demo_pool_env) fst snd" "array_queue (pe_disk demo_pool_env) fst snd"
      "mmap_file (pe_file demo_pool_env) id"
    by (simp_all add: demo_pool_env_def lq.array_queue_axioms bf.mmap_file_axioms)
  have len: "length ''hi'' = 2" by simp
  from recycled_disk_page_keeps_data [OF laws, of ?p d 1 "''hi''", unfolded len]
  obtain p1 p2 p3 where "page_copy_from_reader demo_pool_env (DiskPage 1) 0 2 ''hi'' ?p = (Inr (), DiskPage 1, p1)"
      "page_drop demo_pool_env (DiskPage 1) p1 = Inr p2" "try_acquire_page demo_pool_env p2 = Some (DiskPage 1, p3)"
      "page_copy_to_writer demo_pool_env p3 (DiskPage 1) 0 2 = Inr ''hi''"
    by (auto simp: d_def simp del: One_nat_def)
  moreover have "hp_disk ?p \<noteq> None" by simp
  ultimately show ?thesis by blast
qed

section \<open>Slice buffers\<close>

context pool_queues
begin

lemma slice_buffer_pages:
  "owned_pages (hybrid_ops \<lparr>pe_mem = mqo, pe_disk = dqo, pe_file = fo\<rparr>) memory_bytes (memory_only mi mc)
     (\<lambda>p. length (mi (mp_queue (hp_memory p)))) (\<lambda>p. mc (mp_queue (hp_memory p)))"
  by (rule hybrid.owned_pages_axioms)

end


definition big_pool :: "(bytes list \<times> nat, nat list \<times> nat, bytes) hybrid_pool" where
  "big_pool = \<lparr> hp_page_size = PAGE_SIZE, hp_memory_capacity = PAGE_SIZE, hp_disk_capacity = 0,
     hp_disk_pool_path = None, hp_total_page_cnt = 1,
     hp_memory = \<lparr> mp_page_size = PAGE_SIZE, mp_capacity = PAGE_SIZE, mp_queue = ([zeros PAGE_SIZE], 1) \<rparr>,
     hp_disk = None \<rparr>"

lemma big_pool_built:
  "pool_build demo_pool_env (with_memory_capacity PAGE_SIZE (with_page_size PAGE_SIZE pool_builder_default)) = Inr big_pool"
  using PAGE_SIZE_small
  by (simp add: pool_build_def demo_pool_env_def big_pool_def with_memory_capacity_def
    with_page_size_def pool_builder_default_def validate_page_pool_config_def mem_new_def list_queue_def)


section \<open>The stage cache\<close>

text \<open>C13. No block is lost. From the start of the cache, over any run of its operations, evictions,
  background migrations, failures of any call and shutdown steps, every block whose staging was
  acknowledged is in the remote store, or listed in the index with its stage file in place, with
  the bytes it was staged with; and a range read from the stage cache returns those bytes.\<close>

theorem staged_blocks_survive:
  assumes "stage_fs (ce_fs env) files" and "object_store (ce_remote env) objects" and "moka_cache (ce_moka env)"
    and "file_cache_new env config f0 i0 remote tasks = Inr c0" and "\<And>k. mk_get (ce_moka env) k i0 = None"
    and "\<And>k d. files f0 (object_path k) = Some d \<Longrightarrow> d = content (object_path k)"
    and "\<And>k d. objects remote (object_path k) = Some d \<Longrightarrow> d = content (object_path k)"
    and "(cache_step env po content)\<^sup>*\<^sup>* (c0, {}) (c, acked)"
  shows "(\<forall>k \<in> acked. block_safe files objects content c k)
    \<and> (\<forall>k off n d c'. fc_get_range env k off n c = (Inr (Some d), c') \<longrightarrow>
         d = sub_bytes off n (content (object_path k)) \<and> length d = n)"
proof -
  have cw: "cache_world env files objects" by (simp add: cache_world_def assms(1-3))
  have "fc_inv env files objects content {} c0"
    using cache_world.file_cache_new_inv [OF cw, where content = content, OF assms(4,5)] assms(6,7) by blast
  then have inv: "fc_inv env files objects content acked c"
    using cache_world.cache_run_inv [OF cw assms(8)] by simp
  then have "\<forall>k \<in> acked. block_safe files objects content c k" unfolding fc_inv_def by blast
  then show ?thesis using cache_world.get_range_inv [OF cw inv] by blast
qed

text \<open>A small run: the cache is started on an empty directory, and one block is staged.\<close>

definition demo_config :: file_cache_config where
  "demo_config = file_cache_config_default\<lparr>fcc_stage_cache_dir := ''/stage''\<rparr>"

definition demo_cache ::
  "((string \<times> bytes) list, (string \<times> bytes) list, (slice_key \<times> cache_index) list) file_cache" where
  "demo_cache = \<lparr> fc_staged_index = [], fc_index = [], fc_remote = [], fc_local = [], fc_tasks = registry_new,
     fc_staged_bytes = 0, fc_pressure_active = False, fc_max_stage_size = DEFAULT_STAGE_CACHE_SIZE,
     fc_stage_dir = ''/stage'', fc_next_lock = 0 \<rparr>"

lemma demo_cache_new: "file_cache_new demo_cache_env demo_config [] [] [] registry_new = Inr demo_cache"
  by (simp add: file_cache_new_def demo_cache_env_def alist_fs_def demo_config_def file_cache_config_default_def
    recover_stage_index_def demo_cache_def sbind_def wrap64_def)

definition demo_page_ops :: "(unit, bytes) page_ops" where
  "demo_page_ops = \<lparr> po_acquire = (\<lambda>_. None), po_read = (\<lambda>_ pg off n. Inr (sub_bytes off n pg)),
     po_write = (\<lambda>pg _ _ _ p. (Inr (), pg, p)), po_drop = (\<lambda>_ p. Inr p) \<rparr>"

lemma demo_gather: "gather_block demo_page_ops () 2 [Some ''hi''] = Inr ''hi''"
  by (simp add: gather_block_def gather_loop.simps demo_page_ops_def PAGE_SIZE_def sub_bytes_def)

lemma demo_stage:
  "\<exists>c. fc_stage demo_cache_env demo_page_ops () 7 0 2 [Some ''hi''] demo_cache = (Inr (2, 1), c)"
  using demo_gather
  by (simp add: fc_stage_def Let_def sbind_def demo_cache_def reserve_stage_bytes_def checked_add64_def
    DEFAULT_STAGE_CACHE_SIZE_def index_try_get_with_def stage_block_def slice_key_new_def write_atomic_def
    demo_cache_env_def alist_fs_def list_moka_def count_pages_def)

lemma demo_env_laws:
  "stage_fs (ce_fs demo_cache_env) map_of" "object_store (ce_remote demo_cache_env) map_of"
  "moka_cache (ce_moka demo_cache_env)"
  by (simp_all add: demo_cache_env_def afs.stage_fs_axioms alist_sto.object_store_axioms list_moka_cache)

theorem staged_blocks_survive_witness:
  "\<exists>c. (cache_step demo_cache_env demo_page_ops (\<lambda>_. ''hi''))\<^sup>*\<^sup>* (demo_cache, {}) (c, {slice_key_new 7 0 2})
     \<and> block_safe map_of map_of (\<lambda>_. ''hi'') c (slice_key_new 7 0 2)"
proof -
  obtain c where c: "fc_stage demo_cache_env demo_page_ops () 7 0 2 [Some ''hi''] demo_cache = (Inr (2, 1), c)"
    using demo_stage by blast
  have "cache_step demo_cache_env demo_page_ops (\<lambda>_. ''hi'') (demo_cache, {})
      (c, if is_ok (Inr (2, 1) :: (nat \<times> nat) sresult) then insert (slice_key_new 7 0 2) {} else {})"
    by (rule cs_stage [OF c]) (simp add: demo_gather)
  then have run: "(cache_step demo_cache_env demo_page_ops (\<lambda>_. ''hi''))\<^sup>*\<^sup>* (demo_cache, {}) (c, {slice_key_new 7 0 2})"
    by simp
  from staged_blocks_survive [OF demo_env_laws demo_cache_new _ _ _ run]
  have "block_safe map_of map_of (\<lambda>_. ''hi'') c (slice_key_new 7 0 2)"
    by (simp add: demo_cache_env_def list_moka_def)
  with run show ?thesis by blast
qed

text \<open>C14. The durability barrier used before slice metadata is published: when \<open>flush_slice\<close> returns
  without an error, every block of the slice whose staging was acknowledged earlier in the run is in
  the remote store, with its bytes; this holds after any run of the cache, whatever failed in it.\<close>

theorem flush_slice_is_durable:
  assumes "stage_fs (ce_fs env) files" and "object_store (ce_remote env) objects" and "moka_cache (ce_moka env)"
    and "file_cache_new env config f0 i0 remote tasks = Inr c0" and "\<And>k. mk_get (ce_moka env) k i0 = None"
    and "\<And>k d. files f0 (object_path k) = Some d \<Longrightarrow> d = content (object_path k)"
    and "\<And>k d. objects remote (object_path k) = Some d \<Longrightarrow> d = content (object_path k)"
    and "(cache_step env po content)\<^sup>*\<^sup>* (c0, {}) (c, acked)"
    and "flush_slice env sid c = (Inr (), c')" and "k \<in> acked" and "sk_slice_id k = sid"
  shows "objects (fc_remote c') (object_path k) = Some (content (object_path k))"
proof -
  have cw: "cache_world env files objects" by (simp add: cache_world_def assms(1-3))
  have "fc_inv env files objects content {} c0"
    using cache_world.file_cache_new_inv [OF cw, where content = content, OF assms(4,5)] assms(6,7) by blast
  then have "fc_inv env files objects content acked c"
    using cache_world.cache_run_inv [OF cw assms(8)] by simp
  then show ?thesis using cache_world.flush_slice_inv [OF cw _ assms(9-11)] by blast
qed

lemma demo_staged:
  assumes "fc_stage demo_cache_env demo_page_ops () 7 0 2 [Some ''hi''] demo_cache = (Inr (2, 1), c)"
  shows "staged_files map_of c" and "(cache_step demo_cache_env demo_page_ops (\<lambda>_. ''hi''))\<^sup>*\<^sup>* (demo_cache, {}) (c, {slice_key_new 7 0 2})"
proof -
  have "c = demo_cache\<lparr>fc_staged_bytes := 2, fc_next_lock := 1,
      fc_local := [(object_path (slice_key_new 7 0 2), ''hi'')],
      fc_index := [(slice_key_new 7 0 2, \<lparr>ci_slice_key = slice_key_new 7 0 2, ci_migration_lock = 0\<rparr>)],
      fc_staged_index := [(slice_key_new 7 0 2, \<lparr>ci_slice_key = slice_key_new 7 0 2, ci_migration_lock = 0\<rparr>)]\<rparr>"
    using assms demo_gather tmp_not_block
    by (auto simp: fc_stage_def Let_def sbind_def demo_cache_def reserve_stage_bytes_def checked_add64_def
      DEFAULT_STAGE_CACHE_SIZE_def index_try_get_with_def stage_block_def slice_key_new_def write_atomic_def
      demo_cache_env_def alist_fs_def list_moka_def count_pages_def index_put_def)
  then show "staged_files map_of c" by (simp add: staged_files_def key_bounded_def slice_key_new_def)
  have "cache_step demo_cache_env demo_page_ops (\<lambda>_. ''hi'') (demo_cache, {})
      (c, if is_ok (Inr (2, 1) :: (nat \<times> nat) sresult) then insert (slice_key_new 7 0 2) {} else {})"
    by (rule cs_stage [OF assms]) (simp add: demo_gather)
  then show "(cache_step demo_cache_env demo_page_ops (\<lambda>_. ''hi''))\<^sup>*\<^sup>* (demo_cache, {}) (c, {slice_key_new 7 0 2})"
    by simp
qed

theorem flush_slice_is_durable_witness:
  "\<exists>c c'. flush_slice demo_cache_env 7 c = (Inr (), c') \<and>
     map_of (fc_remote c') (object_path (slice_key_new 7 0 2)) = Some ''hi''"
proof -
  obtain c where c: "fc_stage demo_cache_env demo_page_ops () 7 0 2 [Some ''hi''] demo_cache = (Inr (2, 1), c)"
    using demo_stage by blast
  obtain c' where c': "flush_slice demo_cache_env 7 c = (Inr (), c')"
    using demo_live.flush_slice_succeeds [OF demo_staged(1) [OF c]] by blast
  have "map_of (fc_remote c') (object_path (slice_key_new 7 0 2)) = Some ''hi''"
    using flush_slice_is_durable [OF demo_env_laws demo_cache_new _ _ _ demo_staged(2) [OF c] c', of "slice_key_new 7 0 2"]
    by (simp add: demo_cache_env_def list_moka_def slice_key_new_def)
  with c' show ?thesis by blast
qed

text \<open>C17. The barriers return: over a stage directory and a remote store whose calls do not fail, and
  with a stage file for every entry of the index, \<open>flush_slice\<close> succeeds and removes exactly the
  entries of its slice, and \<open>flush_all\<close> succeeds with no block pending.\<close>

theorem flush_returns:
  assumes "reliable_stage_fs (ce_fs env) files" and "reliable_object_store (ce_remote env) objects"
    and "staged_files files c"
  shows "(\<exists>c'. flush_slice env sid c = (Inr (), c') \<and> staged_files files c' \<and>
            map_of (fc_staged_index c') = map_of (fc_staged_index c) |` {k. sk_slice_id k \<noteq> sid})
       \<and> (\<exists>c'. flush_all env c = (Inr 0, c') \<and> fc_staged_index c' = [])"
proof -
  have "reliable_cache env files objects" by (simp add: reliable_cache_def assms(1,2))
  then show ?thesis
    using reliable_cache.flush_slice_succeeds [OF _ assms(3)] reliable_cache.flush_all_succeeds [OF _ assms(3)] by blast
qed

theorem flush_returns_witness:
  "\<exists>c c'. fc_stage demo_cache_env demo_page_ops () 7 0 2 [Some ''hi''] demo_cache = (Inr (2, 1), c) \<and>
     flush_all demo_cache_env c = (Inr 0, c')"
proof -
  obtain c where c: "fc_stage demo_cache_env demo_page_ops () 7 0 2 [Some ''hi''] demo_cache = (Inr (2, 1), c)"
    using demo_stage by blast
  have "reliable_stage_fs (ce_fs demo_cache_env) map_of" "reliable_object_store (ce_remote demo_cache_env) map_of"
    by (simp_all add: demo_cache_env_def afs.reliable_stage_fs_axioms alist_sto.reliable_object_store_axioms)
  from flush_returns [OF this demo_staged(1) [OF c]] c show ?thesis by blast
qed

text \<open>C23. A crash between the creation of a temporary file by \<open>write_atomic\<close> and its rename leaves a file
  whose name recovery neither recognises as incomplete nor parses as a block: with such an entry in
  the stage directory the cache cannot be started.\<close>

theorem leftover_blocks_start:
  assumes "fs_create_dir_all (ce_fs env) f = Some f'" and "fs_read_dir (ce_fs env) f' = Some es"
    and "Some e \<in> set es" and "fde_name e = Some (tmp_path (object_path k))"
  shows "\<exists>err. file_cache_new env config f i0 remote tasks = Inl err"
proof -
  obtain r f2 where r: "recover_entries (ce_fs env) es 0 [] f' = (r, f2)" by fastforce
  with recover_entries_leftover [OF assms(3,4), of "ce_fs env" 0 "[]" f'] obtain err where "r = Inl err"
    by (cases r) auto
  then show ?thesis using assms(1,2) r by (simp add: file_cache_new_def recover_stage_index_def)
qed

theorem leftover_blocks_start_witness:
  "\<exists>err. file_cache_new demo_cache_env demo_config [(tmp_path (object_path (slice_key_new 7 0 2)), ''h'')] [] [] registry_new
     = Inl err"
  by (rule leftover_blocks_start [where k = "slice_key_new 7 0 2" and
        f' = "[(tmp_path (object_path (slice_key_new 7 0 2)), ''h'')]" and
        es = "[Some \<lparr>fde_name = Some (tmp_path (object_path (slice_key_new 7 0 2))), fde_is_file = True, fde_len = 1\<rparr>]" and
        e = "\<lparr>fde_name = Some (tmp_path (object_path (slice_key_new 7 0 2))), fde_is_file = True, fde_len = 1\<rparr>"])
    (simp_all add: demo_cache_env_def alist_fs_def)

text \<open>The tasks that run end one after the other.\<close>

definition end_all :: "'j task_registry \<Rightarrow> 'j task_registry" where
  "end_all r = fold (\<lambda>(i, _). task_complete i False) (tr_running r) r"

lemma fold_complete:
  "set xs \<subseteq> set (tr_running r) \<Longrightarrow> distinct (map fst xs) \<Longrightarrow> distinct (map fst (tr_running r)) \<Longrightarrow>
   registry_run n r \<Longrightarrow>
   registry_run (n + length xs) (fold (\<lambda>(i, _). task_complete i False) xs r) \<and>
   set (tr_running (fold (\<lambda>(i, _). task_complete i False) xs r)) = set (tr_running r) - {(i, j). i \<in> fst ` set xs} \<and>
   tr_closed (fold (\<lambda>(i, _). task_complete i False) xs r) = tr_closed r"
proof (induction xs arbitrary: r n)
  case (Cons x xs)
  obtain i j where x: "x = (i, j)" by fastforce
  let ?r = "task_complete i False r"
  have "registry_run (Suc n) ?r" using Cons.prems(1) x by (auto intro: run_step [OF Cons.prems(4) r_end])
  moreover have "set xs \<subseteq> set (tr_running ?r)" "distinct (map fst (tr_running ?r))"
    using Cons.prems x by (force simp: task_complete_def, simp add: task_complete_def distinct_filter_fst)
  ultimately have "registry_run (Suc n + length xs) (fold (\<lambda>(i, _). task_complete i False) xs ?r) \<and>
      set (tr_running (fold (\<lambda>(i, _). task_complete i False) xs ?r)) = set (tr_running ?r) - {(i, j). i \<in> fst ` set xs} \<and>
      tr_closed (fold (\<lambda>(i, _). task_complete i False) xs ?r) = tr_closed ?r"
    using Cons.IH [of ?r "Suc n"] Cons.prems(2) by simp
  moreover have "set (tr_running ?r) = set (tr_running r) - {(a, b). a = i}" "tr_closed ?r = tr_closed r"
    by (auto simp: task_complete_def)
  ultimately show ?case using x by auto
qed simp

text \<open>C18. The registry of a mount: after any run of calls its snapshot counts the tasks exactly
  (active ones run, every spawned one is active or completed, panics are completions); once draining
  began no call admits a task or lets a finished one return; and when the tasks that run have ended,
  \<^verbatim>\<open>wait\<close> returns, with none active and all spawned tasks completed.\<close>

theorem mount_tasks_drain:
  assumes "registry_run n r" and "n + length (tr_running r) < 2 ^ 64"
  shows "ts_active (snapshot r) = length (tr_running r)
    \<and> ts_spawned (snapshot r) = ts_active (snapshot r) + ts_completed (snapshot r)
    \<and> ts_panicked (snapshot r) \<le> ts_completed (snapshot r)
    \<and> (\<forall>r'. \<not> tr_accepting r \<and> registry_step r r' \<longrightarrow>
         \<not> tr_accepting r' \<and> set (tr_running r') \<subseteq> set (tr_running r))
    \<and> (\<not> tr_accepting r \<longrightarrow> wait_ready (end_all r) \<and> ts_active (snapshot (end_all r)) = 0 \<and>
         ts_completed (snapshot (end_all r)) = ts_spawned (snapshot (end_all r)))"
proof -
  have inv: "registry_inv r" using registry_run_inv [OF assms(1)] assms(2) by simp
  then have d: "distinct (map fst (tr_running r))" by (simp add: registry_inv_def)
  have "set xs - {(i, j). i \<in> fst ` set xs} = {}" for xs :: "(nat \<times> 'a) list" by force
  then have e: "registry_run (n + length (tr_running r)) (end_all r)" "tr_running (end_all r) = []"
      "tr_closed (end_all r) = tr_closed r"
    using fold_complete [OF subset_refl d d assms(1)] unfolding end_all_def by (blast, metis set_empty, blast)
  have "registry_inv (end_all r)" using registry_run_inv [OF e(1)] assms(2) by simp
  then show ?thesis using inv e(2,3) drained_step [of r] by (auto simp: registry_inv_def snapshot_def wait_ready_def)
qed

theorem mount_tasks_drain_witness:
  "\<exists>r. registry_run 2 (r :: nat task_registry) \<and> \<not> tr_accepting r \<and> tr_running r \<noteq> [] \<and> wait_ready (end_all r)"
proof -
  define r1 where "r1 = snd (registry_spawn (5::nat) registry_new)"
  define r2 where "r2 = snd (begin_draining r1)"
  have run: "registry_run (Suc (Suc 0)) r2" unfolding r2_def r1_def
    by (rule run_step [OF run_step [OF run_new r_spawn] r_drain])
  have r2: "\<not> tr_accepting r2" "tr_running r2 = [(0, 5)]"
    by (simp_all add: r1_def r2_def registry_spawn_def begin_draining_def registry_new_def)
  have "wait_ready (end_all r2)" using mount_tasks_drain [OF run] r2 by simp
  then show ?thesis using run r2 by (intro exI [of _ r2]) (simp add: numeral_2_eq_2)
qed

end
