(* ===== verification/Vfs_Base.thy ===== *)
theory Vfs_Base
  imports Engine Cache_Live Buffer_Flush
begin

text \<open>
  Shared ground of the VFS crate (\<^verbatim>\<open>src/components/vfs\<close>): its errors with their errno
  (\<^verbatim>\<open>err.rs\<close>), and the world its data path works on, the metadata engine, the stage cache
  with the remote store, and the memory cache. The third-party parts are collected in
  \<open>data_env\<close>.
\<close>

section \<open>Errors (\<^verbatim>\<open>vfs/src/err.rs\<close>)\<close>

datatype vfs_error =
  VJoinErr
| VObjectStorage object_error
| VObjectStorageConfig
| VInvalidConfig string
| VMountDraining
| VCacheRoot
| VObjectBlockNotFound slice_key
| VInvalidRange string nat nat nat
| VUnexpectedLength string nat nat
| VStorage storage_error
| VMeta meta_error
| VLibc errno
| VPanicked \<comment> \<open>a panic of the code itself\<close>

type_synonym 'a vresult = "vfs_error + 'a"

text \<open>A panic has no errno: it aborts the request's task.\<close>

fun vfs_to_errno :: "vfs_error \<Rightarrow> errno option" where
  "vfs_to_errno (VLibc e) = Some e"
| "vfs_to_errno (VMeta source) = to_errno source"
| "vfs_to_errno (VStorage source) =
     (if source = StoragePanicked then None else if is_no_space source then Some ENOSPC else Some EIO)"
| "vfs_to_errno VPanicked = None"
| "vfs_to_errno _ = Some EIO"

definition vensure :: "bool \<Rightarrow> errno \<Rightarrow> unit vresult" where
  "vensure b e = (if b then Inr () else Inl (VLibc e))"

lemma vensure_simps [simp]: "vensure True e = Inr ()" "vensure False e = Inl (VLibc e)"
  by (simp_all add: vensure_def)

lemma vensure_eq_Inr [simp]: "vensure b e = Inr u \<longleftrightarrow> b"
  by (simp add: vensure_def)

section \<open>Calls into the other crates\<close>

text \<open>The \<^verbatim>\<open>From\<close> conversions of \<^verbatim>\<open>?\<close>.\<close>

definition smap_err :: "('e \<Rightarrow> 'g) \<Rightarrow> ('s, 'e, 'a) comp \<Rightarrow> ('s, 'g, 'a) comp" where
  "smap_err f m s = (case m s of (Inl e, s') \<Rightarrow> (Inl (f e), s') | (Inr x, s') \<Rightarrow> (Inr x, s'))"

lemma smap_err_Inr [simp]: "smap_err f m s = (Inr x, s') \<longleftrightarrow> m s = (Inr x, s')"
  by (auto simp: smap_err_def split: prod.splits sum.splits)

lemma smap_err_eq:
  "smap_err f m s = (r, s') \<longleftrightarrow>
     (\<exists>e. m s = (Inl e, s') \<and> r = Inl (f e)) \<or> (\<exists>x. m s = (Inr x, s') \<and> r = Inr x)"
  by (auto simp: smap_err_def split: prod.splits sum.splits)

datatype virtual_slice = Hole | VSlice slice

record ('db, 'f, 'o, 'c, 'm, 'rm, 'vm) data_env =
  dv_kv :: "'db kv"
  dv_codec :: codec
  dv_cache :: "('f, 'o, 'c) cache_env"
  dv_mem :: "('m, slice_key, bytes) moka_ops"
  dv_overlook :: "('rm, slice) range_map_ops"
  dv_virtual :: "('vm, virtual_slice) range_map_ops"
  dv_chunk_size :: nat

record ('db, 'f, 'o, 'c, 'm) data_world =
  dw_meta :: "'db meta_engine"
  dw_cache :: "('f, 'o, 'c) file_cache"
  dw_mem :: 'm

type_synonym ('db, 'f, 'o, 'c, 'm, 'a) dcomp = "(('db, 'f, 'o, 'c, 'm) data_world, vfs_error, 'a) comp"

definition in_meta :: "('db, 'a) eng \<Rightarrow> ('db, 'f, 'o, 'c, 'm, 'a) dcomp" where
  "in_meta m = szoom dw_meta (\<lambda>t w. w\<lparr>dw_meta := t\<rparr>) (smap_err VMeta m)"

definition in_cache :: "('f, 'o, 'c, 'a) fc_comp \<Rightarrow> ('db, 'f, 'o, 'c, 'm, 'a) dcomp" where
  "in_cache m = szoom dw_cache (\<lambda>t w. w\<lparr>dw_cache := t\<rparr>) (smap_err VStorage m)"

definition in_mem ::
  "('db, 'f, 'o, 'c, 'm, 'rm, 'vm) data_env \<Rightarrow> slice_key \<Rightarrow> ('db, 'f, 'o, 'c, 'm, bytes option) dcomp" where
  "in_mem env key w =
     (case mem_cache_get (dv_mem env) (ce_remote (dv_cache env)) (fc_remote (dw_cache w)) key (dw_mem w) of
        (Inl e, m) \<Rightarrow> (Inl (VStorage e), w\<lparr>dw_mem := m\<rparr>)
      | (Inr x, m) \<Rightarrow> (Inr x, w\<lparr>dw_mem := m\<rparr>))"

lemma in_meta_eq:
  "in_meta m w = (r, w') \<longleftrightarrow>
     (\<exists>e t. m (dw_meta w) = (Inl e, t) \<and> r = Inl (VMeta e) \<and> w' = w\<lparr>dw_meta := t\<rparr>) \<or>
     (\<exists>x t. m (dw_meta w) = (Inr x, t) \<and> r = Inr x \<and> w' = w\<lparr>dw_meta := t\<rparr>)"
  by (auto simp: in_meta_def szoom_eq smap_err_eq)

lemma in_cache_eq:
  "in_cache m w = (r, w') \<longleftrightarrow>
     (\<exists>e t. m (dw_cache w) = (Inl e, t) \<and> r = Inl (VStorage e) \<and> w' = w\<lparr>dw_cache := t\<rparr>) \<or>
     (\<exists>x t. m (dw_cache w) = (Inr x, t) \<and> r = Inr x \<and> w' = w\<lparr>dw_cache := t\<rparr>)"
  by (auto simp: in_cache_def szoom_eq smap_err_eq)

end
