(* ===== verification/File_Reader.thy ===== *)
theory File_Reader
  imports Vfs_Base
begin

text \<open>
  The read path (\<^verbatim>\<open>vfs/src/reader.rs\<close>): the table of file readers, and \<open>FileReader::read\<close>,
  which cuts a request along chunks, looks the slices of each chunk up in the metadata engine,
  turns them into runs of holes and slices, and fetches the blocks of the slices from the stage
  cache, the memory cache or the remote store. Locks of the table are held over whole operations,
  so each is one step.
\<close>

section \<open>Blocks of a slice\<close>

text \<open>The reader's copy of the block length computation.\<close>

definition cal_cached_block_size :: "nat \<Rightarrow> nat \<Rightarrow> nat \<Rightarrow> nat" where
  "cal_cached_block_size len block_idx block_size = min (wrap_sub64 len (block_idx * block_size)) block_size"

text \<open>One block: the stage cache first, then the memory cache, which reads through.\<close>

definition read_cached_block ::
  "('db, 'f, 'o, 'c, 'm, 'rm, 'vm) data_env \<Rightarrow> slice_key \<Rightarrow> nat \<Rightarrow> nat \<Rightarrow> ('db, 'f, 'o, 'c, 'm, bytes) dcomp" where
  "read_cached_block env key block_offset n =
     sbind (in_cache (fc_get_range (dv_cache env) key block_offset n)) (\<lambda>staged.
     case staged of
       Some d \<Rightarrow> if length d \<noteq> n then sfail (VUnexpectedLength ''file cache block'' n (length d)) else sret d
     | None \<Rightarrow>
         sbind (in_mem env key) (\<lambda>cached.
         case cached of
           Some block \<Rightarrow>
             (case checked_add64 block_offset n of
                None \<Rightarrow> sfail (VInvalidRange ''memory cache block'' block_offset n (length block))
              | Some block_end \<Rightarrow>
                  if block_end \<le> length block then sret (sub_bytes block_offset n block)
                  else sfail (VInvalidRange ''memory cache block'' block_offset n (length block)))
         | None \<Rightarrow> sfail (VObjectBlockNotFound key)))"

text \<open>The reads of the blocks, in order: the code joins them and reports an error of any.\<close>

function read_cached_blocks ::
  "('db, 'f, 'o, 'c, 'm, 'rm, 'vm) data_env \<Rightarrow> nat \<Rightarrow> nat \<Rightarrow> nat \<Rightarrow> nat \<Rightarrow> nat \<Rightarrow> ('db, 'f, 'o, 'c, 'm, bytes) dcomp" where
  "read_cached_blocks env sid len offset n got =
     (if got < n
      then (let new_pos = got + offset;
                block_idx = new_pos div BLOCK_SIZE;
                block_offset = new_pos mod BLOCK_SIZE;
                obj_block_size = cal_cached_block_size len block_idx BLOCK_SIZE;
                m = min (n - got) (obj_block_size - block_offset) in
            if m = 0 then sfail VPanicked \<comment> \<open>the code would loop; excluded by its guards\<close>
            else sbind (read_cached_block env (slice_key_new sid block_idx obj_block_size) block_offset m) (\<lambda>d.
                 sbind (read_cached_blocks env sid len offset n (got + m)) (\<lambda>rest. sret (d @ rest))))
      else sret [])"
  by auto
termination
  by (relation "measure (\<lambda>(env, sid, len, offset, n, got). n - got)") auto

declare read_cached_blocks.simps [simp del]

text \<open>The bytes that go to the front of \<^verbatim>\<open>dst\<close>, whose length is \<open>dst_len\<close>.\<close>

definition read_slice_from_cache ::
  "('db, 'f, 'o, 'c, 'm, 'rm, 'vm) data_env \<Rightarrow> nat \<Rightarrow> nat \<Rightarrow> nat \<Rightarrow> nat \<Rightarrow> ('db, 'f, 'o, 'c, 'm, bytes) dcomp" where
  "read_slice_from_cache env sid len offset dst_len =
     (if len > CHUNK_SIZE then sfail (VInvalidRange ''cached slice'' 0 len CHUNK_SIZE)
      else if dst_len = 0 \<or> offset \<ge> len then sret []
      else read_cached_blocks env sid len offset (min (len - offset) dst_len) 0)"

section \<open>Runs of a chunk\<close>

text \<open>\<open>None\<close> is the panic of inserting an empty range.\<close>

fun insert_runs :: "('vm, 'v) range_map_ops \<Rightarrow> 'v segment list \<Rightarrow> 'vm \<Rightarrow> 'vm option" where
  "insert_runs ops [] m = Some m"
| "insert_runs ops (((s, e), v) # rs) m = (if s < e then insert_runs ops rs (rm_insert ops s e v m) else None)"

definition virtual_of :: "slice \<Rightarrow> virtual_slice" where
  "virtual_of s = (if get_id s = EMPTY_SLICE_ID then Hole else VSlice s)"

definition virtual_runs ::
  "('db, 'f, 'o, 'c, 'm, 'rm, 'vm) data_env \<Rightarrow> slice list \<Rightarrow> nat \<Rightarrow> nat \<Rightarrow> virtual_slice segment list option" where
  "virtual_runs env raw_slices s e =
     (case overlook (dv_overlook env) raw_slices of
        None \<Rightarrow> None
      | Some rm \<Rightarrow>
          map_option (rm_iter (dv_virtual env))
            (insert_runs (dv_virtual env)
               (map (\<lambda>r. (r, Hole)) (rm_gaps (dv_overlook env) rm s e) @
                map (\<lambda>((a, b), sl). ((max a s, min b e), virtual_of sl)) (rm_overlapping (dv_overlook env) rm s e))
               (rm_new (dv_virtual env))))"

text \<open>The loop over the runs: the counters, and the buffer written so far. An index outside the
  buffer panics.\<close>

fun read_runs ::
  "('db, 'f, 'o, 'c, 'm, 'rm, 'vm) data_env \<Rightarrow> virtual_slice segment list \<Rightarrow> nat \<times> nat \<times> nat \<times> bytes \<Rightarrow>
   ('db, 'f, 'o, 'c, 'm, nat \<times> nat \<times> nat \<times> bytes) dcomp" where
  "read_runs env [] st = sret st"
| "read_runs env (((a, b), vs) # runs) (total_read_len, left_to_read, chunk_pos, dst) =
     (let start = wrap_sub64 (total_read_len + a) chunk_pos;
          stop = wrap_sub64 (total_read_len + b) chunk_pos;
          len = stop - start in
      if stop < start \<or> length dst < stop then sfail VPanicked
      else sbind (case vs of
                    Hole \<Rightarrow> sret (overwrite start (zeros len) dst)
                  | VSlice s \<Rightarrow>
                      sbind (read_slice_from_cache env (get_id s) (get_underlying_size s)
                               (get_underlying_offset s + (a - get_chunk_pos s)) len) (\<lambda>d.
                      sret (overwrite start d dst))) (\<lambda>dst.
           read_runs env runs (total_read_len + len, left_to_read - len, chunk_pos + len, dst)))"

definition read_chunk ::
  "('db, 'f, 'o, 'c, 'm, 'rm, 'vm) data_env \<Rightarrow> clock \<Rightarrow> ino \<Rightarrow> nat \<Rightarrow> nat \<Rightarrow> nat \<times> nat \<times> bytes \<Rightarrow>
   ('db, 'f, 'o, 'c, 'm, (nat \<times> nat \<times> bytes) option) dcomp" where
  "read_chunk env clk i offset chunk_idx st =
     (case st of (total_read_len, left_to_read, dst) \<Rightarrow>
      let chunk_pos = (offset + total_read_len) mod dv_chunk_size env;
          max_can_read = min (dv_chunk_size env - chunk_pos) left_to_read in
      sbind (in_meta (read_slice (dv_kv env) (dv_codec env) clk i chunk_idx)) (\<lambda>raw_slices.
      case raw_slices of
        None \<Rightarrow> sret None
      | Some raw_slices \<Rightarrow>
          (case virtual_runs env raw_slices chunk_pos (chunk_pos + max_can_read) of
             None \<Rightarrow> sfail VPanicked
           | Some runs \<Rightarrow>
               sbind (read_runs env runs (total_read_len, left_to_read, chunk_pos, dst))
                 (\<lambda>(total_read_len, left_to_read, _, dst). sret (Some (total_read_len, left_to_read, dst))))))"

text \<open>A chunk without slices ends the whole read with \<^verbatim>\<open>Ok(0)\<close>.\<close>

fun read_chunks ::
  "('db, 'f, 'o, 'c, 'm, 'rm, 'vm) data_env \<Rightarrow> (nat \<Rightarrow> clock) \<Rightarrow> ino \<Rightarrow> nat \<Rightarrow> nat list \<Rightarrow> nat \<times> nat \<times> bytes \<Rightarrow>
   ('db, 'f, 'o, 'c, 'm, nat \<times> bytes) dcomp" where
  "read_chunks env clk i offset [] (total_read_len, left_to_read, dst) = sret (total_read_len, dst)"
| "read_chunks env clk i offset (chunk_idx # rest) (total_read_len, left_to_read, dst) =
     sbind (read_chunk env (clk chunk_idx) i offset chunk_idx (total_read_len, left_to_read, dst)) (\<lambda>st.
     case st of
       None \<Rightarrow> sret (0, dst)
     | Some st \<Rightarrow> read_chunks env clk i offset rest st)"

section \<open>File readers\<close>

record file_reader =
  fr_ino :: ino
  fr_fh :: nat
  fr_length :: nat
  fr_closing :: bool

definition file_reader_read ::
  "('db, 'f, 'o, 'c, 'm, 'rm, 'vm) data_env \<Rightarrow> (nat \<Rightarrow> clock) \<Rightarrow> file_reader \<Rightarrow> nat \<Rightarrow> bytes \<Rightarrow>
   ('db, 'f, 'o, 'c, 'm, nat \<times> bytes) dcomp" where
  "file_reader_read env clk fr offset dst =
     (if offset \<ge> fr_length fr \<or> length dst = 0 then sret (0, dst)
      else let expected_read_len = min (length dst) (fr_length fr - offset) in
        if dv_chunk_size env = 0 then sfail VPanicked
        else
          let start_chunk_idx = offset div dv_chunk_size env;
              end_chunk_idx = (offset + expected_read_len - 1) div dv_chunk_size env in
          read_chunks env clk (fr_ino fr) offset [start_chunk_idx..<Suc end_chunk_idx] (0, expected_read_len, dst))"

type_synonym reader_table = "ino \<Rightarrow> (nat \<Rightarrow> file_reader option) option"

definition open_file_reader :: "ino \<Rightarrow> nat \<Rightarrow> nat \<Rightarrow> reader_table \<Rightarrow> file_reader \<times> reader_table" where
  "open_file_reader inode fh len tbl =
     (let inner = (case tbl inode of Some m \<Rightarrow> m | None \<Rightarrow> Map.empty) in
      case inner fh of
        Some fr \<Rightarrow> (fr, tbl(inode \<mapsto> inner))
      | None \<Rightarrow>
          let fr = \<lparr> fr_ino = inode, fr_fh = fh, fr_length = len, fr_closing = False \<rparr> in
          (fr, tbl(inode \<mapsto> inner(fh \<mapsto> fr))))"

definition truncate_reader :: "ino \<Rightarrow> nat \<Rightarrow> reader_table \<Rightarrow> reader_table" where
  "truncate_reader inode len tbl =
     (case tbl inode of
        None \<Rightarrow> tbl
      | Some inner \<Rightarrow> tbl(inode \<mapsto> (\<lambda>fh. map_option (\<lambda>fr. fr\<lparr>fr_length := len\<rparr>) (inner fh))))"

text \<open>The first close of a reader takes it out of the table.\<close>

definition reader_close :: "file_reader \<Rightarrow> reader_table \<Rightarrow> file_reader \<times> reader_table" where
  "reader_close fr tbl =
     (if fr_closing fr then (fr, tbl)
      else (fr\<lparr>fr_closing := True\<rparr>,
            case tbl (fr_ino fr) of
              None \<Rightarrow> tbl
            | Some inner \<Rightarrow> tbl(fr_ino fr \<mapsto> inner(fr_fh fr := None))))"

end
