(* ===== verification/Reader_Spec.thy ===== *)
theory Reader_Spec
  imports File_Reader
begin

text \<open>
  What a read returns: at every position the byte of the last slice that covers it, zero in holes.
  \<open>content\<close> gives the bytes of a block by its path, as for the stage cache.
\<close>

definition slice_byte :: "(string \<Rightarrow> bytes) \<Rightarrow> nat \<Rightarrow> nat \<Rightarrow> nat \<Rightarrow> char" where
  "slice_byte content sid len off =
     content (object_path (slice_key_new sid (off div BLOCK_SIZE)
       (cal_cached_block_size len (off div BLOCK_SIZE) BLOCK_SIZE))) ! (off mod BLOCK_SIZE)"

definition virtual_byte :: "(string \<Rightarrow> bytes) \<Rightarrow> virtual_slice \<Rightarrow> nat \<Rightarrow> char" where
  "virtual_byte content vs p =
     (case vs of
        Hole \<Rightarrow> zero_byte
      | VSlice s \<Rightarrow> slice_byte content (get_id s) (get_underlying_size s)
                     (get_underlying_offset s + (p - get_chunk_pos s)))"

definition chunk_byte :: "(string \<Rightarrow> bytes) \<Rightarrow> slice list \<Rightarrow> nat \<Rightarrow> char" where
  "chunk_byte content ss p =
     (case visible_slice ss p of None \<Rightarrow> zero_byte | Some s \<Rightarrow> virtual_byte content (virtual_of s) p)"

text \<open>A slice whose visible part lies within its data: always so for the owned slices a write
  commits.\<close>

definition slice_fits :: "slice \<Rightarrow> bool" where
  "slice_fits s \<longleftrightarrow> get_underlying_offset s + get_size s \<le> get_underlying_size s"

lemma owned_fits [simp]: "slice_fits (Owned p i sz pad)"
  by (simp add: slice_fits_def)

lemma BLOCK_SIZE_pos: "0 < BLOCK_SIZE"
  by (simp add: BLOCK_SIZE_def)

lemma cal_cached_block_size_eq:
  assumes "block_idx * BLOCK_SIZE \<le> len" "len < 2 ^ 64"
  shows "cal_cached_block_size len block_idx BLOCK_SIZE = min (len - block_idx * BLOCK_SIZE) BLOCK_SIZE"
  using assms by (simp add: cal_cached_block_size_def)

text \<open>The bytes of a block, by their position in the slice.\<close>

lemma cached_block_byte:
  assumes "len < 2 ^ 64" "pos < len" "i < m"
    "pos mod BLOCK_SIZE + m \<le> cal_cached_block_size len (pos div BLOCK_SIZE) BLOCK_SIZE"
    "d = sub_bytes (pos mod BLOCK_SIZE) m (content (object_path (slice_key_new sid (pos div BLOCK_SIZE)
           (cal_cached_block_size len (pos div BLOCK_SIZE) BLOCK_SIZE))))" "length d = m"
  shows "d ! i = slice_byte content sid len (pos + i)"
proof -
  let ?c = "content (object_path (slice_key_new sid (pos div BLOCK_SIZE)
             (cal_cached_block_size len (pos div BLOCK_SIZE) BLOCK_SIZE)))"
  have lt: "pos mod BLOCK_SIZE + i < BLOCK_SIZE" using assms(3,4) by (simp add: cal_cached_block_size_def)
  have eq: "pos + i = pos div BLOCK_SIZE * BLOCK_SIZE + (pos mod BLOCK_SIZE + i)" by simp
  have "(pos div BLOCK_SIZE * BLOCK_SIZE + r) div BLOCK_SIZE = pos div BLOCK_SIZE"
      "(pos div BLOCK_SIZE * BLOCK_SIZE + r) mod BLOCK_SIZE = r" if "r < BLOCK_SIZE" for r
    using that by simp_all
  then have di: "(pos + i) div BLOCK_SIZE = pos div BLOCK_SIZE" "(pos + i) mod BLOCK_SIZE = pos mod BLOCK_SIZE + i"
    unfolding eq using lt by blast+
  have "m \<le> length (drop (pos mod BLOCK_SIZE) ?c)" using assms(5,6) by (simp add: sub_bytes_def)
  then have "d ! i = ?c ! (pos mod BLOCK_SIZE + i)" using assms(3) unfolding assms(5) sub_bytes_def by simp
  then show ?thesis unfolding slice_byte_def di by simp
qed

locale read_world =
  cache_world "dv_cache env" files objects content + mem: moka_cache "dv_mem env" +
  orm: range_map "dv_overlook env" rvalid + vrm: range_map "dv_virtual env" vvalid
  for env :: "('db, 'f, 'o, 'c, 'm, 'rm, 'vm) data_env" and files objects content rvalid vvalid
begin

definition good where
  "good A w \<longleftrightarrow> fc_inv (dv_cache env) files objects content A (dw_cache w) \<and>
     mem_coherent (dv_mem env) content (dw_mem w)"

lemma in_mem_ok:
  assumes "good A w" "in_mem env k w = (r, w')"
  shows "good A w' \<and> dw_meta w' = dw_meta w \<and> (\<forall>d. r = Inr (Some d) \<longrightarrow> d = content (object_path k))"
proof -
  obtain r1 m1 where g: "mem_cache_get (dv_mem env) (ce_remote (dv_cache env)) (fc_remote (dw_cache w)) k (dw_mem w) = (r1, m1)"
    by fastforce
  have "mem_coherent (dv_mem env) content m1 \<and> (\<forall>d. r1 = Inr (Some d) \<longrightarrow> d = content (object_path k))"
    by (rule mem_cache_get_coherent [OF mem.moka_cache_axioms object_store_axioms _ _ g])
      (use assms(1) inv_remote in \<open>auto simp: good_def\<close>)
  then show ?thesis using assms g by (cases r1) (auto simp: in_mem_def good_def)
qed

lemma get_range_ok:
  assumes "good A w" "in_cache (fc_get_range (dv_cache env) k off n) w = (r, w')"
  shows "good A w' \<and> dw_meta w' = dw_meta w \<and>
    (\<forall>d. r = Inr (Some d) \<longrightarrow> d = sub_bytes off n (content (object_path k)) \<and> length d = n)"
proof -
  obtain r1 c1 where g: "fc_get_range (dv_cache env) k off n (dw_cache w) = (r1, c1)" by fastforce
  have "okc A c1 \<and> (\<forall>d. r1 = Inr (Some d) \<longrightarrow> d = sub_bytes off n (content (object_path k)) \<and> length d = n)"
    by (rule get_range_inv [OF _ g]) (use assms(1) in \<open>simp add: good_def\<close>)
  then show ?thesis using assms g by (auto simp: in_cache_eq good_def)
qed

lemma read_cached_block_ok:
  assumes "good A w" "read_cached_block env k off n w = (r, w')"
  shows "good A w' \<and> dw_meta w' = dw_meta w \<and>
    (\<forall>d. r = Inr d \<longrightarrow> d = sub_bytes off n (content (object_path k)) \<and> length d = n)"
proof -
  obtain r1 w1 where g: "in_cache (fc_get_range (dv_cache env) k off n) w = (r1, w1)" by fastforce
  note w1 = get_range_ok [OF assms(1) g]
  obtain r2 w2 where m: "in_mem env k w1 = (r2, w2)" by fastforce
  note w2 = in_mem_ok [OF _ m]
  show ?thesis using assms(2) g w1 m w2
    by (auto simp: read_cached_block_def sbind_def split: sum.splits option.splits if_splits)
qed

text \<open>A run of blocks.\<close>

lemma read_cached_blocks_ok:
  assumes "good A w" "read_cached_blocks env sid len offset n got w = (r, w')"
    "n + offset \<le> len" "len < 2 ^ 64"
  shows "good A w' \<and> dw_meta w' = dw_meta w \<and>
    (\<forall>d. r = Inr d \<longrightarrow> length d = n - got \<and> (\<forall>i < n - got. d ! i = slice_byte content sid len (offset + got + i)))"
  using assms(1,2)
proof (induction "n - got" arbitrary: got w r w' rule: less_induct)
  case less
  show ?case
  proof (cases "got < n")
    case False
    then show ?thesis using less.prems by (subst (asm) read_cached_blocks.simps) auto
  next
    case True
    define pos where "pos = got + offset"
    define idx where "idx = pos div BLOCK_SIZE"
    define osz where "osz = cal_cached_block_size len idx BLOCK_SIZE"
    define m where "m = min (n - got) (osz - pos mod BLOCK_SIZE)"
    have pos: "pos < len" "pos = idx * BLOCK_SIZE + pos mod BLOCK_SIZE"
      using True assms(3) by (simp_all add: pos_def idx_def)
    then have osz: "osz = min (len - idx * BLOCK_SIZE) BLOCK_SIZE"
      using cal_cached_block_size_eq [of idx len] assms(4) by (simp add: osz_def)
    have m: "0 < m" "m \<le> n - got" "pos mod BLOCK_SIZE + m \<le> osz"
      using True pos osz BLOCK_SIZE_pos mod_less_divisor [OF BLOCK_SIZE_pos, of pos] by (auto simp: m_def)
    obtain r1 w1 where b: "read_cached_block env (slice_key_new sid idx osz) (pos mod BLOCK_SIZE) m w = (r1, w1)" by fastforce
    note w1 = read_cached_block_ok [OF less.prems(1) b]
    have run: "read_cached_blocks env sid len offset n got w =
        sbind (read_cached_block env (slice_key_new sid idx osz) (pos mod BLOCK_SIZE) m) (\<lambda>d.
        sbind (read_cached_blocks env sid len offset n (got + m)) (\<lambda>rest. sret (d @ rest))) w"
      using True m(1) by (subst read_cached_blocks.simps)
        (simp add: Let_def pos_def [symmetric] idx_def [symmetric] osz_def [symmetric] m_def [symmetric])
    show ?thesis
    proof (cases r1)
      case (Inl e)
      then show ?thesis using less.prems(2) run b w1 by (auto simp: sbind_def)
    next
      case (Inr d)
      obtain r2 w2 where rest: "read_cached_blocks env sid len offset n (got + m) w1 = (r2, w2)" by fastforce
      have IH: "good A w2 \<and> dw_meta w2 = dw_meta w1 \<and> (\<forall>d. r2 = Inr d \<longrightarrow> length d = n - (got + m) \<and>
          (\<forall>i < n - (got + m). d ! i = slice_byte content sid len (offset + (got + m) + i)))"
        by (rule less.hyps [OF _ _ rest]) (use True m(1) w1 in auto)
      have d: "d = sub_bytes (pos mod BLOCK_SIZE) m (content (object_path (slice_key_new sid idx osz)))" "length d = m"
        using w1 Inr by auto
      have byte: "d ! i = slice_byte content sid len (offset + got + i)" if "i < m" for i
        using cached_block_byte [where content = content and sid = sid, OF assms(4) pos(1) that m(3) [unfolded osz_def idx_def]
            d(1) [unfolded osz_def idx_def] d(2)] by (simp add: pos_def add_ac)
      show ?thesis
      proof (cases r2)
        case (Inl e)
        then show ?thesis using less.prems(2) run b Inr rest IH w1 by (auto simp: sbind_def)
      next
        case inr2: (Inr rd)
        then have r: "r = Inr (d @ rd)" "w' = w2" using less.prems(2) run b Inr rest by (auto simp: sbind_def)
        have "(d @ rd) ! i = slice_byte content sid len (offset + got + i)" if i: "i < n - got" for i
        proof (cases "i < m")
          case True
          then show ?thesis using byte d(2) by (simp add: nth_append)
        next
          case False
          then have "rd ! (i - m) = slice_byte content sid len (offset + (got + m) + (i - m))" using IH inr2 i by simp
          then show ?thesis using False d(2) by (simp add: nth_append add.assoc)
        qed
        then show ?thesis using r IH inr2 w1 d(2) m(2) by auto
      qed
    qed
  qed
qed

lemma read_slice_from_cache_ok:
  assumes "good A w" "read_slice_from_cache env sid len offset n w = (r, w')"
  shows "good A w' \<and> dw_meta w' = dw_meta w \<and>
    (\<forall>d. r = Inr d \<longrightarrow> length d = min (len - offset) n \<and> (\<forall>i < length d. d ! i = slice_byte content sid len (offset + i)))"
proof (cases "len > CHUNK_SIZE \<or> n = 0 \<or> offset \<ge> len")
  case True
  then show ?thesis using assms by (auto simp: read_slice_from_cache_def split: if_splits)
next
  case False
  then have "len < 2 ^ 64" by (simp add: CHUNK_SIZE_def)
  moreover have "read_cached_blocks env sid len offset (min (len - offset) n) 0 w = (r, w')"
    using assms(2) False by (simp add: read_slice_from_cache_def)
  ultimately show ?thesis using read_cached_blocks_ok [OF assms(1), of sid len offset "min (len - offset) n" 0 r w'] False
    by auto
qed

end

section \<open>Runs\<close>

lemma bex_map_fst: "(\<exists>r \<in> set (map fst xs). P r) \<longleftrightarrow> (\<exists>v r. (r, v) \<in> set xs \<and> P r)"
  by force

lemma find_Some_set: "List.find P xs = Some x \<Longrightarrow> x \<in> set xs \<and> P x"
  by (auto simp: find_Some_iff)

context range_map
begin

lemma insert_runs_eq:
  "insert_runs ops segs m = Some m' \<longleftrightarrow> list_all (\<lambda>(r, v). fst r < snd r) segs \<and> m' = insert_all segs m"
  by (induction segs arbitrary: m) (auto split: if_splits)

text \<open>Ranges that agree where they overlap: the map shows that value.\<close>

lemma get_insert_runs:
  assumes "insert_runs ops segs (rm_new ops) = Some m"
    "\<And>r v p. (r, v) \<in> set segs \<Longrightarrow> in_range p r \<Longrightarrow> v = f p"
  shows "valid m" and "rm_get ops m p = (if \<exists>x \<in> set segs. in_range p (fst x) then Some (f p) else None)"
proof -
  have segs: "list_all (\<lambda>(r, v). fst r < snd r) segs" and m: "m = insert_all segs (rm_new ops)"
    using assms(1) by (simp_all add: insert_runs_eq)
  show "valid m" unfolding m by (rule valid_insert_all [OF valid_new segs])
  show "rm_get ops m p = (if \<exists>x \<in> set segs. in_range p (fst x) then Some (f p) else None)"
  proof (cases "List.find (\<lambda>(r, v). in_range p r) (rev segs)")
    case None
    then have "\<not> (\<exists>x \<in> set segs. in_range p (fst x))" by (fastforce simp: find_None_iff)
    then show ?thesis using None get_insert_all [OF valid_new segs, of p] by (simp add: m get_new)
  next
    case (Some x)
    obtain r v where x: "x = (r, v)" by fastforce
    then have rv: "(r, v) \<in> set segs" "in_range p r" using find_Some_set [OF Some] by auto
    have ex: "\<exists>x \<in> set segs. in_range p (fst x)" by (rule bexI [OF _ rv(1)]) (use rv(2) in simp)
    have "rm_get ops m p = Some v" using Some x get_insert_all [OF valid_new segs, of p] by (simp add: m)
    then show ?thesis unfolding if_P [OF ex] using assms(2) [OF rv] by simp
  qed
qed

end

text \<open>Runs that cover an interval follow one another.\<close>

definition runs_cover :: "nat \<Rightarrow> nat \<Rightarrow> (nat \<times> nat) list \<Rightarrow> bool" where
  "runs_cover s e rs \<longleftrightarrow> ranges_ok s rs \<and> (\<forall>p. (\<exists>r \<in> set rs. in_range p r) \<longleftrightarrow> s \<le> p \<and> p < e)"

lemma runs_cover_Nil: "runs_cover s e [] \<Longrightarrow> e \<le> s"
  by (auto simp: runs_cover_def)

lemma runs_cover_Cons:
  assumes "runs_cover s e ((a, b) # rs)"
  shows "a = s" "s < b" "b \<le> e" "runs_cover b e rs"
proof -
  have ok: "s \<le> a" "a < b" "ranges_ok b rs" using assms by (auto simp: runs_cover_def)
  have cov: "(in_range p (a, b) \<or> (\<exists>r \<in> set rs. in_range p r)) \<longleftrightarrow> s \<le> p \<and> p < e" for p
    using assms by (simp add: runs_cover_def)
  have later: "r \<in> set rs \<Longrightarrow> in_range p r \<Longrightarrow> b \<le> p" for r p using ranges_ok_bounds [OF ok(3), of r] by auto
  have "a < e" using cov [of a] ok by auto
  then show "a = s" using cov [of s] ok later [of _ s] by fastforce
  then show "s < b" using ok by simp
  show "b \<le> e" using cov [of "b - 1"] ok by auto
  show "runs_cover b e rs" unfolding runs_cover_def
    using ok cov later by (metis (no_types, lifting) fst_conv le_trans less_imp_le linorder_not_less snd_conv)
qed

lemma visible_slice_covers: "visible_slice ss p = Some s \<Longrightarrow> s \<in> set ss \<and> slice_covers p s"
  unfolding visible_slice_def by (drule find_Some_set) simp

definition virtual_at :: "slice list \<Rightarrow> nat \<Rightarrow> virtual_slice" where
  "virtual_at ss p = (case visible_slice ss p of None \<Rightarrow> Hole | Some s \<Rightarrow> virtual_of s)"

lemma chunk_byte_virtual: "chunk_byte content ss p = virtual_byte content (virtual_at ss p) p"
  by (simp add: chunk_byte_def virtual_at_def virtual_byte_def split: option.split)

context read_world
begin

lemma virtual_runs_ok:
  assumes "virtual_runs env ss s e = Some runs" "s \<le> e"
  shows "runs_cover s e (map fst runs)" and "((a, b), v) \<in> set runs \<Longrightarrow> a \<le> p \<Longrightarrow> p < b \<Longrightarrow> v = virtual_at ss p"
proof -
  obtain rm where rm: "overlook (dv_overlook env) ss = Some rm"
    using assms(1) by (auto simp: virtual_runs_def split: option.splits)
  note get = overlook_get [OF orm.range_map_axioms rm]
  let ?gaps = "map (\<lambda>r. (r, Hole)) (rm_gaps (dv_overlook env) rm s e)"
  let ?over = "map (\<lambda>((a, b), sl). ((max a s, min b e), virtual_of sl)) (rm_overlapping (dv_overlook env) rm s e)"
  obtain vm where vm: "insert_runs (dv_virtual env) (?gaps @ ?over) (rm_new (dv_virtual env)) = Some vm"
      and runs: "runs = rm_iter (dv_virtual env) vm"
    using assms(1) rm by (auto simp: virtual_runs_def)
  have gap: "v = virtual_at ss p" if "(r, v) \<in> set ?gaps" "in_range p r" for r v p
    using that orm.gaps_get [OF get(1) assms(2), of p] get(2) [of p] by (auto simp: virtual_at_def)
  have shown: "visible_slice ss p = Some sl" if "((a, b), sl) \<in> set (rm_iter (dv_overlook env) rm)" "a \<le> p" "p < b" for a b sl p
    using that orm.iter_get [OF get(1), of p sl] get(2) [of p] by force
  have over: "v = virtual_at ss p" if "(r, v) \<in> set ?over" "in_range p r" for r v p
    using that shown [of _ _ _ p] by (fastforce simp: orm.overlapping_iter [OF get(1)] virtual_at_def)
  have val: "v = virtual_at ss p" if "(r, v) \<in> set (?gaps @ ?over)" "in_range p r" for r v p
    using that(1) gap [OF _ that(2)] over [OF _ that(2)] unfolding set_append by blast
  have vget: "vvalid vm"
      "rm_get (dv_virtual env) vm p =
         (if \<exists>x \<in> set (?gaps @ ?over). in_range p (fst x) then Some (virtual_at ss p) else None)" for p
    by (rule vrm.get_insert_runs [OF vm, of "virtual_at ss"], erule (1) val)+
  have gapex: "(\<exists>x \<in> set ?gaps. in_range p (fst x)) \<longleftrightarrow> s \<le> p \<and> p < e \<and> rm_get (dv_overlook env) rm p = None" for p
    using orm.gaps_get [OF get(1) assms(2), of p] by simp
  have overex: "(\<exists>x \<in> set ?over. in_range p (fst x)) \<longleftrightarrow> s \<le> p \<and> p < e \<and> rm_get (dv_overlook env) rm p \<noteq> None" for p
    using orm.iter_get [OF get(1), of p] by (fastforce simp: orm.overlapping_iter [OF get(1)])
  have cov: "(\<exists>x \<in> set (?gaps @ ?over). in_range p (fst x)) \<longleftrightarrow> s \<le> p \<and> p < e" for p
    unfolding set_append bex_Un gapex overex by blast
  have iter: "(\<exists>r. (r, v) \<in> set runs \<and> in_range p r) \<longleftrightarrow> s \<le> p \<and> p < e \<and> v = virtual_at ss p" for p v
    using vrm.iter_get [OF vget(1), of p v] vget(2) [of p] cov [of p] runs by auto
  show "((a, b), v) \<in> set runs \<Longrightarrow> a \<le> p \<Longrightarrow> p < b \<Longrightarrow> v = virtual_at ss p" using iter [of v p] by force
  have ok: "ranges_ok 0 (map fst runs)" using vrm.iter_ok [OF vget(1)] runs by simp
  have ex: "(\<exists>r \<in> set (map fst runs). in_range p r) \<longleftrightarrow> s \<le> p \<and> p < e" for p
    unfolding bex_map_fst iter by simp
  have "ranges_ok s (map fst runs)"
  proof (cases "map fst runs")
    case (Cons r rs)
    have "s \<le> fst r" using ex [of "fst r"] ok Cons by (cases r) auto
    then show ?thesis using ok Cons by (cases r) auto
  qed simp
  then show "runs_cover s e (map fst runs)" using ex by (simp add: runs_cover_def)
qed

end

end
