(* ===== verification/Reader_Correct.thy ===== *)
theory Reader_Correct
  imports Reader_Spec
begin

text \<open>
  \<open>FileReader::read\<close> meets its specification: run by run, chunk by chunk, and for the whole
  request.
\<close>

text \<open>A buffer whose part \<open>[t, t + n)\<close> was filled from position \<open>p\<close> on.\<close>

definition filled :: "bytes \<Rightarrow> nat \<Rightarrow> nat \<Rightarrow> (nat \<Rightarrow> char) \<Rightarrow> bytes \<Rightarrow> bool" where
  "filled dst t n g dst' \<longleftrightarrow>
     length dst' = length dst \<and>
     (\<forall>i < length dst. dst' ! i = (if t \<le> i \<and> i < t + n then g (i - t) else dst ! i))"

lemma filled_overwrite:
  assumes "t + length d \<le> length dst" "\<And>i. i < length d \<Longrightarrow> d ! i = g i"
  shows "filled dst t (length d) g (overwrite t d dst)"
  using assms by (auto simp: filled_def nth_overwrite)

lemma filled_trans:
  assumes "filled dst t n g dst'" "filled dst' (t + n) m h dst''" "\<And>i. i < m \<Longrightarrow> h i = g (n + i)"
  shows "filled dst t (n + m) g dst''"
  using assms by (auto simp: filled_def)

lemma filled_cong:
  assumes "filled dst t n g dst'" "\<And>i. i < n \<Longrightarrow> g i = h i"
  shows "filled dst t n h dst'"
proof -
  have "g (i - t) = h (i - t)" if "t \<le> i" "i < t + n" for i using assms(2) [of "i - t"] that by simp
  then show ?thesis using assms(1) by (simp add: filled_def)
qed

lemma filled_0 [simp]: "filled dst t 0 g dst"
  by (auto simp: filled_def)

lemma run_within_slice:
  assumes "\<And>p. a \<le> p \<Longrightarrow> p < b \<Longrightarrow> VSlice s = virtual_at ss p" "a < b"
  shows "s \<in> set ss" "get_chunk_pos s \<le> a" "b \<le> get_chunk_pos s + get_size s"
proof -
  have vis: "visible_slice ss p = Some s" if "a \<le> p" "p < b" for p
    using assms(1) [OF that] by (auto simp: virtual_at_def virtual_of_def split: option.splits if_splits)
  show "s \<in> set ss" "get_chunk_pos s \<le> a" using visible_slice_covers [OF vis [of a]] assms(2) by (auto simp: slice_covers_def)
  show "b \<le> get_chunk_pos s + get_size s"
    using visible_slice_covers [OF vis [of "b - 1"]] assms(2) unfolding slice_covers_def by linarith
qed

text \<open>One turn of the loop over the runs.\<close>

definition read_run where
  "read_run env v a b t dst = (case v of
      Hole \<Rightarrow> sret (overwrite t (zeros (b - a)) dst)
    | VSlice s \<Rightarrow> sbind (read_slice_from_cache env (get_id s) (get_underlying_size s)
               (get_underlying_offset s + (a - get_chunk_pos s)) (b - a)) (\<lambda>d. sret (overwrite t d dst)))"

lemma read_runs_Cons:
  assumes "cp < b" "t + (b - cp) \<le> length dst" "length dst + b < 2 ^ 64"
  shows "read_runs env (((cp, b), v) # runs) (t, l, cp, dst) =
      sbind (read_run env v cp b t dst) (\<lambda>dst. read_runs env runs (t + (b - cp), l - (b - cp), b, dst))"
proof -
  have "wrap_sub64 (t + cp) cp = t" "wrap_sub64 (t + b) cp = t + (b - cp)" using assms by simp_all
  moreover have "(t + (b - cp) < t \<or> length dst < t + (b - cp)) = False" "t + (b - cp) - t = b - cp" "cp + (b - cp) = b"
    using assms by auto
  ultimately show ?thesis by (simp only: read_runs.simps Let_def if_False read_run_def)
qed

context read_world
begin

lemma read_run_slice_ok:
  assumes "good A w" "read_slice_from_cache env (get_id s) (get_underlying_size s)
      (get_underlying_offset s + (a - get_chunk_pos s)) (b - a) w = (Inr d, w')"
    "\<And>p. a \<le> p \<Longrightarrow> p < b \<Longrightarrow> VSlice s = virtual_at ss p" "a < b" "\<forall>s \<in> set ss. slice_fits s"
  shows "length d = b - a" and "i < b - a \<Longrightarrow> d ! i = chunk_byte content ss (a + i)"
proof -
  note s = run_within_slice [OF assms(3,4)]
  have "slice_fits s" using assms(5) s(1) by blast
  then have fit: "get_underlying_offset s + (b - get_chunk_pos s) \<le> get_underlying_size s"
    using s(3) by (simp add: slice_fits_def)
  have rd: "length d = min (get_underlying_size s - (get_underlying_offset s + (a - get_chunk_pos s))) (b - a)"
      "\<And>i. i < length d \<Longrightarrow> d ! i = slice_byte content (get_id s) (get_underlying_size s)
        (get_underlying_offset s + (a - get_chunk_pos s) + i)"
    using read_slice_from_cache_ok [OF assms(1,2)] by blast+
  show len: "length d = b - a" using rd(1) fit s(2) assms(4) by simp
  assume i: "i < b - a"
  have "virtual_at ss (a + i) = VSlice s" using assms(3) [of "a + i"] i by simp
  moreover have "get_underlying_offset s + (a - get_chunk_pos s) + i = get_underlying_offset s + (a + i - get_chunk_pos s)"
    using s(2) by simp
  ultimately show "d ! i = chunk_byte content ss (a + i)"
    using rd(2) [of i] i len by (simp add: chunk_byte_virtual virtual_byte_def add.assoc)
qed

lemma read_run_ok:
  assumes "good A w" "read_run env v a b t dst w = (r, w')" "\<And>p. a \<le> p \<Longrightarrow> p < b \<Longrightarrow> v = virtual_at ss p"
    "a < b" "t + (b - a) \<le> length dst" "\<forall>s \<in> set ss. slice_fits s"
  shows "good A w' \<and> dw_meta w' = dw_meta w \<and>
    (\<forall>dst'. r = Inr dst' \<longrightarrow> filled dst t (b - a) (\<lambda>i. chunk_byte content ss (a + i)) dst')"
proof (cases v)
  case Hole
  have "chunk_byte content ss (a + i) = zero_byte" if "i < b - a" for i
    using assms(3) [of "a + i"] that Hole by (simp add: chunk_byte_virtual virtual_byte_def)
  then have "filled dst t (length (zeros (b - a))) (\<lambda>i. chunk_byte content ss (a + i)) (overwrite t (zeros (b - a)) dst)"
    by (intro filled_overwrite) (use assms(5) in simp_all)
  then show ?thesis using assms(1,2) Hole by (auto simp: read_run_def)
next
  case (VSlice s)
  obtain r2 w2 where rd: "read_slice_from_cache env (get_id s) (get_underlying_size s)
      (get_underlying_offset s + (a - get_chunk_pos s)) (b - a) w = (r2, w2)" by fastforce
  note ok = read_slice_from_cache_ok [OF assms(1) rd]
  show ?thesis
  proof (cases r2)
    case (Inl e)
    then show ?thesis using assms(2) rd ok VSlice by (auto simp: read_run_def sbind_def)
  next
    case (Inr d)
    have d: "length d = b - a" "\<And>i. i < b - a \<Longrightarrow> d ! i = chunk_byte content ss (a + i)"
      using read_run_slice_ok [OF assms(1) rd [unfolded Inr] _ assms(4,6)] assms(3) VSlice by simp_all
    have "filled dst t (length d) (\<lambda>i. chunk_byte content ss (a + i)) (overwrite t d dst)"
      by (intro filled_overwrite) (use assms(5) d in simp_all)
    then show ?thesis using assms(2) rd ok VSlice Inr d(1) by (auto simp: read_run_def sbind_def)
  qed
qed

lemma read_runs_ok:
  assumes "good A w" "read_runs env runs (t, l, cp, dst) w = (r, w')" "runs_cover cp e (map fst runs)"
    "\<And>a b v p. ((a, b), v) \<in> set runs \<Longrightarrow> a \<le> p \<Longrightarrow> p < b \<Longrightarrow> v = virtual_at ss p"
    "cp \<le> e" "t + (e - cp) \<le> length dst" "length dst + e < 2 ^ 64" "\<forall>s \<in> set ss. slice_fits s"
  shows "good A w' \<and> dw_meta w' = dw_meta w \<and>
    (\<forall>t' l' cp' dst'. r = Inr (t', l', cp', dst') \<longrightarrow> t' = t + (e - cp) \<and> l' = l - (e - cp) \<and>
       filled dst t (e - cp) (\<lambda>i. chunk_byte content ss (cp + i)) dst')"
  using assms(1-7)
proof (induction runs arbitrary: t l cp dst w)
  case Nil
  then show ?case using runs_cover_Nil [of cp e] by auto
next
  case (Cons x runs)
  obtain a b v where x: "x = ((a, b), v)" by (metis prod.exhaust)
  have cov: "a = cp" "cp < b" "b \<le> e" "runs_cover b e (map fst runs)"
    using runs_cover_Cons [of cp e a b "map fst runs"] Cons.prems(3) x by simp_all
  have fits: "t + (b - cp) \<le> length dst" using cov Cons.prems(6) by simp
  have run: "read_runs env (x # runs) (t, l, cp, dst) w =
      sbind (read_run env v cp b t dst) (\<lambda>dst. read_runs env runs (t + (b - cp), l - (b - cp), b, dst)) w"
    unfolding x cov(1) by (rule read_runs_Cons [THEN fun_cong, OF cov(2) fits]) (use cov(3) Cons.prems(7) in simp)
  obtain r1 w1 where st: "read_run env v cp b t dst w = (r1, w1)" by fastforce
  have step_ok: "good A w1 \<and> dw_meta w1 = dw_meta w \<and>
      (\<forall>dst1. r1 = Inr dst1 \<longrightarrow> filled dst t (b - cp) (\<lambda>i. chunk_byte content ss (cp + i)) dst1)"
    by (rule read_run_ok [OF Cons.prems(1) st _ cov(2) fits assms(8)]) (use Cons.prems(4) x cov(1) in auto)
  show ?case
  proof (cases r1)
    case (Inl e)
    then show ?thesis using Cons.prems(2) run st step_ok by (auto simp: sbind_def)
  next
    case (Inr dst1)
    have run2: "read_runs env runs (t + (b - cp), l - (b - cp), b, dst1) w1 = (r, w')"
      using Cons.prems(2) run st Inr by (simp add: sbind_def)
    have f1: "filled dst t (b - cp) (\<lambda>i. chunk_byte content ss (cp + i)) dst1" using step_ok Inr by blast
    then have len: "length dst1 = length dst" by (simp add: filled_def)
    have IH: "good A w' \<and> dw_meta w' = dw_meta w1 \<and>
      (\<forall>t' l' cp' dst'. r = Inr (t', l', cp', dst') \<longrightarrow> t' = t + (b - cp) + (e - b) \<and> l' = l - (b - cp) - (e - b) \<and>
         filled dst1 (t + (b - cp)) (e - b) (\<lambda>i. chunk_byte content ss (b + i)) dst')"
      by (rule Cons.IH [OF _ run2 cov(4)]) (use step_ok cov Cons.prems len x in auto)
    have "filled dst t (e - cp) (\<lambda>i. chunk_byte content ss (cp + i)) dst'"
      if "filled dst1 (t + (b - cp)) (e - b) (\<lambda>i. chunk_byte content ss (b + i)) dst'" for dst'
      using filled_trans [OF f1 that] cov by (simp add: add.assoc [symmetric])
    then show ?thesis using IH step_ok cov by auto
  qed
qed

end

section \<open>Slices of a chunk\<close>

text \<open>The slices cached with an open file are those of the store.\<close>

definition slices_coherent :: "'db kv \<Rightarrow> codec \<Rightarrow> 'db meta_engine \<Rightarrow> bool" where
  "slices_coherent kv cd s \<longleftrightarrow>
     (\<forall>i f c ss. ofs_files (me_open_files s) i = Some f \<longrightarrow> of_chunks f c = Some ss \<longrightarrow>
        get_chunk_slices kv cd i c (me_backend s) = Inr ss)"

lemma ofs_load_slices_Some:
  "ofs_load_slices now i c fs = Inr (Some ss) \<Longrightarrow> \<exists>f. ofs_files fs i = Some f \<and> of_chunks f c = Some ss"
  by (auto simp: ofs_load_slices_def rbind_eq_Inr split: option.splits if_splits)

lemma refresh_slices_coherent:
  assumes "slices_coherent kv cd s" "get_chunk_slices kv cd i c (me_backend s) = Inr ss"
  shows "slices_coherent kv cd (s\<lparr>me_open_files := ofs_refresh_slices i c ss (me_open_files s)\<rparr>)"
  using assms by (auto simp: slices_coherent_def ofs_refresh_slices_def ofs_update_def of_refresh_slices_def split: if_splits)

lemma read_slice_coherent:
  assumes "read_slice kv cd clk i c s = (r, s')" "slices_coherent kv cd s"
  shows "slices_coherent kv cd s' \<and> me_backend s' = me_backend s \<and>
    (\<forall>v. r = Inr v \<longrightarrow> (\<exists>ss. v = Some ss \<and> get_chunk_slices kv cd i c (me_backend s) = Inr ss))"
proof (cases "ofs_load_slices (clk 0) i c (me_open_files s)")
  case (Inl e)
  then show ?thesis using assms by (auto simp: read_slice_def sbind_def)
next
  case (Inr v)
  show ?thesis
  proof (cases v)
    case None
    then show ?thesis using assms Inr refresh_slices_coherent [OF assms(2), of i c]
      by (cases "get_chunk_slices kv cd i c (me_backend s)")
        (auto simp: read_slice_def sbind_def backend_read_def open_files_set_def)
  next
    case (Some ss)
    then have "get_chunk_slices kv cd i c (me_backend s) = Inr ss"
      using ofs_load_slices_Some [of "clk 0" i c "me_open_files s" ss] Inr assms(2) by (auto simp: slices_coherent_def)
    then show ?thesis using assms Inr Some by (auto simp: read_slice_def sbind_def)
  qed
qed

section \<open>The bytes of a file\<close>

definition file_byte :: "'db kv \<Rightarrow> codec \<Rightarrow> (string \<Rightarrow> bytes) \<Rightarrow> nat \<Rightarrow> 'db \<Rightarrow> ino \<Rightarrow> nat \<Rightarrow> char" where
  "file_byte kv cd content cs db i p =
     (case get_chunk_slices kv cd i (p div cs) db of
        Inl _ \<Rightarrow> zero_byte
      | Inr ss \<Rightarrow> chunk_byte content ss (p mod cs))"

definition file_fits :: "'db kv \<Rightarrow> codec \<Rightarrow> 'db \<Rightarrow> ino \<Rightarrow> bool" where
  "file_fits kv cd db i \<longleftrightarrow> (\<forall>c ss. get_chunk_slices kv cd i c db = Inr ss \<longrightarrow> (\<forall>s \<in> set ss. slice_fits s))"

lemma chunk_offset_split:
  assumes "(x :: nat) mod cs + i < cs"
  shows "(x + i) div cs = x div cs" "(x + i) mod cs = x mod cs + i"
proof -
  have eq: "x + i = x div cs * cs + (x mod cs + i)" by simp
  show "(x + i) div cs = x div cs" unfolding eq using assms by (simp only: div_mult_self3) simp
  show "(x + i) mod cs = x mod cs + i" unfolding eq using assms by (simp only: mod_mult_self3) simp
qed

context read_world
begin

abbreviation "coherent w \<equiv> slices_coherent (dv_kv env) (dv_codec env) (dw_meta w)"

definition chunk_step where
  "chunk_step offset l t = min (dv_chunk_size env - (offset + t) mod dv_chunk_size env) l"

lemma read_chunk_ok:
  assumes "good A w" "coherent w" "file_fits (dv_kv env) (dv_codec env) (me_backend (dw_meta w)) i"
    "0 < dv_chunk_size env" "c = (offset + t) div dv_chunk_size env"
    "read_chunk env clk i offset c (t, l, dst) w = (r, w')" "t + l \<le> length dst" "length dst + dv_chunk_size env < 2 ^ 64"
  defines "n \<equiv> chunk_step offset l t"
  shows "good A w' \<and> coherent w' \<and> me_backend (dw_meta w') = me_backend (dw_meta w) \<and> r \<noteq> Inr None \<and>
    (\<forall>t' l' dst'. r = Inr (Some (t', l', dst')) \<longrightarrow> t' = t + n \<and> l' = l - n \<and>
      filled dst t n (\<lambda>j. file_byte (dv_kv env) (dv_codec env) content (dv_chunk_size env) (me_backend (dw_meta w)) i
        (offset + t + j)) dst')"
proof -
  let ?cs = "dv_chunk_size env" and ?db = "me_backend (dw_meta w)"
  let ?cp = "(offset + t) mod ?cs"
  obtain q s1 where m: "read_slice (dv_kv env) (dv_codec env) clk i c (dw_meta w) = (q, s1)" by fastforce
  note rs = read_slice_coherent [OF m assms(2)]
  define w1 where "w1 = w\<lparr>dw_meta := s1\<rparr>"
  have w1: "good A w1" "coherent w1" "me_backend (dw_meta w1) = ?db" using assms(1) rs by (simp_all add: w1_def good_def)
  show ?thesis
  proof (cases q)
    case (Inl e)
    then show ?thesis using assms(6) m w1
      by (auto simp: read_chunk_def Let_def sbind_def in_meta_def szoom_def smap_err_def w1_def)
  next
    case (Inr v)
    then obtain ss where v: "v = Some ss" and ss: "get_chunk_slices (dv_kv env) (dv_codec env) i c ?db = Inr ss" using rs by auto
    have run: "read_chunk env clk i offset c (t, l, dst) w =
        (case virtual_runs env ss ?cp (?cp + n) of
           None \<Rightarrow> sfail VPanicked
         | Some runs \<Rightarrow> sbind (read_runs env runs (t, l, ?cp, dst))
             (\<lambda>(total_read_len, left_to_read, _, dst). sret (Some (total_read_len, left_to_read, dst)))) w1"
      using m Inr v by (simp add: read_chunk_def Let_def sbind_def in_meta_def szoom_def smap_err_def w1_def n_def chunk_step_def)
    show ?thesis
    proof (cases "virtual_runs env ss ?cp (?cp + n)")
      case None
      then show ?thesis using run w1 assms(6) by auto
    next
      case (Some runs)
      have lt: "?cp + n \<le> ?cs" "n \<le> l" using mod_less_divisor [OF assms(4), of "offset + t"] by (simp_all add: n_def chunk_step_def)
      obtain r2 w2 where rr: "read_runs env runs (t, l, ?cp, dst) w1 = (r2, w2)" by fastforce
      have fit: "\<forall>s \<in> set ss. slice_fits s" using assms(3) ss by (auto simp: file_fits_def)
      note cover = virtual_runs_ok [OF Some le_add1]
      have ok: "good A w2 \<and> dw_meta w2 = dw_meta w1 \<and>
        (\<forall>t' l' cp' dst'. r2 = Inr (t', l', cp', dst') \<longrightarrow> t' = t + (?cp + n - ?cp) \<and> l' = l - (?cp + n - ?cp) \<and>
          filled dst t (?cp + n - ?cp) (\<lambda>j. chunk_byte content ss (?cp + j)) dst')"
        by (rule read_runs_ok [OF w1(1) rr cover(1) _ _ _ _ fit]) (use cover(2) lt assms(7,8) in auto)
      have byte: "chunk_byte content ss (?cp + j) = file_byte (dv_kv env) (dv_codec env) content ?cs ?db i (offset + t + j)"
        if "j < n" for j
        using chunk_offset_split [of "offset + t" ?cs j] that lt(1) ss assms(5) by (simp add: file_byte_def)
      have "filled dst t n (\<lambda>j. file_byte (dv_kv env) (dv_codec env) content ?cs ?db i (offset + t + j)) dst'"
        if "filled dst t n (\<lambda>j. chunk_byte content ss (?cp + j)) dst'" for dst'
        by (rule filled_cong [OF that byte])
      then show ?thesis using ok run Some rr w1 assms(6) by (cases r2) (auto simp: sbind_def)
    qed
  qed
qed

end

text \<open>The chunks a request touches: the first, and those of the rest.\<close>

definition chunk_list :: "nat \<Rightarrow> nat \<Rightarrow> nat \<Rightarrow> nat list" where
  "chunk_list cs x l = (if l = 0 then [] else [x div cs..<Suc ((x + l - 1) div cs)])"

lemma chunk_list_Cons:
  fixes x :: nat
  assumes "0 < cs" "0 < l"
  defines "n \<equiv> min (cs - x mod cs) l"
  shows "chunk_list cs x l = x div cs # chunk_list cs (x + n) (l - n)"
proof (cases "cs - x mod cs < l")
  case True
  then have n: "n = cs - x mod cs" "n < l" by (simp_all add: n_def)
  have lt: "x mod cs < cs" using assms(1) by simp
  have "x + n = Suc (x div cs) * cs" using div_mult_mod_eq [of x cs] lt n(1) unfolding mult_Suc by linarith
  then have xn: "(x + n) div cs = Suc (x div cs)" using assms(1) by (metis nonzero_mult_div_cancel_right not_gr_zero)
  have last: "x + n + (l - n) - 1 = x + l - 1" using n by simp
  have "Suc (x div cs) \<le> (x + l - 1) div cs" unfolding xn [symmetric] by (rule div_le_mono) (use n in simp)
  then show ?thesis using n(2) assms(2) unfolding chunk_list_def last xn by (simp add: upt_conv_Cons del: upt_Suc)
next
  case False
  then have "n = l" by (simp add: n_def)
  moreover have "x + l - 1 = x + (l - 1)" using assms(2) by simp
  moreover have "(x + (l - 1)) div cs = x div cs" by (rule chunk_offset_split) (use False assms(2) in simp)
  ultimately show ?thesis using assms(2) by (simp add: chunk_list_def)
qed

context read_world
begin

abbreviation "the_byte w i \<equiv> file_byte (dv_kv env) (dv_codec env) content (dv_chunk_size env) (me_backend (dw_meta w)) i"

lemma read_chunks_ok:
  assumes "good A w" "coherent w" "file_fits (dv_kv env) (dv_codec env) (me_backend (dw_meta w)) i"
    "0 < dv_chunk_size env" "read_chunks env clk i offset (chunk_list (dv_chunk_size env) (offset + t) l) (t, l, dst) w = (r, w')"
    "t + l \<le> length dst" "length dst + dv_chunk_size env < 2 ^ 64"
  shows "good A w' \<and> coherent w' \<and> me_backend (dw_meta w') = me_backend (dw_meta w) \<and>
    (\<forall>n dst'. r = Inr (n, dst') \<longrightarrow> n = t + l \<and> filled dst t l (\<lambda>j. the_byte w i (offset + t + j)) dst')"
  using assms
proof (induction l arbitrary: t dst w rule: less_induct)
  case (less l)
  let ?cs = "dv_chunk_size env"
  show ?case
  proof (cases "l = 0")
    case True
    then show ?thesis using less.prems by (auto simp: chunk_list_def)
  next
    case False
    define n where "n = chunk_step offset l t"
    have n: "0 < n" "n \<le> l" using False less.prems(4) by (simp_all add: n_def chunk_step_def)
    have cl: "chunk_list ?cs (offset + t) l = (offset + t) div ?cs # chunk_list ?cs (offset + (t + n)) (l - n)"
      using chunk_list_Cons [of ?cs l "offset + t"] False less.prems(4) by (simp add: n_def chunk_step_def add.assoc)
    obtain r1 w1 where c1: "read_chunk env (clk ((offset + t) div ?cs)) i offset ((offset + t) div ?cs) (t, l, dst) w = (r1, w1)"
      by fastforce
    note ok1 = read_chunk_ok [OF less.prems(1-4) refl c1 less.prems(6,7), folded n_def]
    show ?thesis
    proof (cases "\<exists>t' l' dst1. r1 = Inr (Some (t', l', dst1))")
      case False
      have "r1 \<noteq> Inr None" using ok1 by blast
      then obtain e where "r1 = Inl e" using False by (metis not_Some_eq prod_cases3 sum.exhaust)
      then show ?thesis using less.prems(5) c1 ok1 cl by (auto simp: sbind_def)
    next
      case True
      then obtain dst1 where r1: "r1 = Inr (Some (t + n, l - n, dst1))" using ok1 by auto
      have f1: "filled dst t n (\<lambda>j. the_byte w i (offset + t + j)) dst1" using ok1 r1 by blast
      then have len: "length dst1 = length dst" by (simp add: filled_def)
      have run: "read_chunks env clk i offset (chunk_list ?cs (offset + (t + n)) (l - n)) (t + n, l - n, dst1) w1 = (r, w')"
        using less.prems(5) cl c1 r1 by (simp add: sbind_def)
      have IH: "good A w' \<and> coherent w' \<and> me_backend (dw_meta w') = me_backend (dw_meta w1) \<and>
        (\<forall>m dst'. r = Inr (m, dst') \<longrightarrow> m = t + n + (l - n) \<and>
          filled dst1 (t + n) (l - n) (\<lambda>j. the_byte w1 i (offset + (t + n) + j)) dst')"
        by (rule less.IH [OF _ _ _ _ _ run]) (use n ok1 less.prems len in auto)
      have "filled dst t (n + (l - n)) (\<lambda>j. the_byte w i (offset + t + j)) dst'"
        if "filled dst1 (t + n) (l - n) (\<lambda>j. the_byte w1 i (offset + (t + n) + j)) dst'" for dst'
        by (rule filled_trans [OF f1 that]) (use ok1 in \<open>simp add: add.assoc\<close>)
      then show ?thesis using IH ok1 n by auto
    qed
  qed
qed

lemma file_reader_read_ok:
  assumes "good A w" "coherent w" "file_fits (dv_kv env) (dv_codec env) (me_backend (dw_meta w)) (fr_ino fr)"
    "0 < dv_chunk_size env" "file_reader_read env clk fr offset dst w = (r, w')" "length dst + dv_chunk_size env < 2 ^ 64"
  shows "good A w' \<and> coherent w' \<and> me_backend (dw_meta w') = me_backend (dw_meta w) \<and>
    (\<forall>n dst'. r = Inr (n, dst') \<longrightarrow> n = min (length dst) (fr_length fr - offset) \<and>
       filled dst 0 n (\<lambda>j. the_byte w (fr_ino fr) (offset + j)) dst')"
proof (cases "offset \<ge> fr_length fr \<or> length dst = 0")
  case True
  then show ?thesis using assms by (auto simp: file_reader_read_def)
next
  case False
  define l where "l = min (length dst) (fr_length fr - offset)"
  have "0 < l" using False by (auto simp: l_def)
  then have "file_reader_read env clk fr offset dst w =
      read_chunks env clk (fr_ino fr) offset (chunk_list (dv_chunk_size env) (offset + 0) l) (0, l, dst) w"
    using False assms(4) by (simp add: file_reader_read_def Let_def chunk_list_def l_def [symmetric] del: upt_Suc)
  then show ?thesis using read_chunks_ok [OF assms(1-4), of clk offset 0 l dst r w'] assms(5,6) by (auto simp: l_def)
qed

end

end
