(* ===== verification/Reader_Live.thy ===== *)
theory Reader_Live
  imports Reader_Correct
begin

text \<open>
  A read of blocks that the stage cache acknowledged succeeds when the stage directory and the
  remote store do not fail.
\<close>

text \<open>Every block of a slice was staged with its length.\<close>

definition slice_stored :: "(string \<Rightarrow> bytes) \<Rightarrow> slice_key set \<Rightarrow> nat \<Rightarrow> nat \<Rightarrow> bool" where
  "slice_stored content A sid len \<longleftrightarrow> len \<le> CHUNK_SIZE \<and>
     (\<forall>idx. idx * BLOCK_SIZE < len \<longrightarrow>
        (let k = slice_key_new sid idx (min (len - idx * BLOCK_SIZE) BLOCK_SIZE) in
         k \<in> A \<and> length (content (object_path k)) = sk_block_size k))"

definition slice_readable :: "(string \<Rightarrow> bytes) \<Rightarrow> slice_key set \<Rightarrow> slice \<Rightarrow> bool" where
  "slice_readable content A s \<longleftrightarrow> 0 < get_size s \<and> slice_fits s \<and>
     (get_id s \<noteq> EMPTY_SLICE_ID \<longrightarrow> slice_stored content A (get_id s) (get_underlying_size s))"

locale reliable_read_world =
  read_world env files objects content rvalid vvalid +
  rfs: reliable_stage_fs "ce_fs (dv_cache env)" files + ros: reliable_object_store "ce_remote (dv_cache env)" objects
  for env :: "('db, 'f, 'o, 'c, 'm, 'rm, 'vm) data_env" and files objects content rvalid vvalid
begin

lemma get_range_returns:
  assumes "good A w" "k \<in> A" "length (content (object_path k)) = sk_block_size k" "off + n \<le> sk_block_size k"
  shows "\<exists>v w'. in_cache (fc_get_range (dv_cache env) k off n) w = (Inr v, w') \<and>
    (v = None \<longrightarrow> objects (fc_remote (dw_cache w')) (object_path k) = Some (content (object_path k)))"
proof -
  let ?c = "dw_cache w" and ?p = "object_path k"
  have inv: "okc A ?c" using assms(1) by (simp add: good_def)
  then have safe: "safe ?c k" using assms(2) by (simp add: fc_inv_def)
  have "\<exists>v c'. fc_get_range (dv_cache env) k off n ?c = (Inr v, c') \<and>
      (v = None \<longrightarrow> objects (fc_remote c') ?p = Some (content ?p))"
  proof (cases "map_of (fc_staged_index ?c) k")
    case None
    then show ?thesis using safe by (auto simp: fc_get_range_def block_safe_def)
  next
    case (Some e)
    show ?thesis
    proof (cases "files (fc_local ?c) ?p")
      case None
      have rem: "objects (fc_remote ?c) ?p = Some (content ?p)" using None safe by (auto simp: block_safe_def)
      then obtain c' where lm: "local_missing (dv_cache env) k ?c = (Inr None, c')"
        using assms(3) by (auto simp: local_missing_def remote_block_is_confirmed_def ros.get_total sbind_def)
      have "read_exact_at (ce_fs (dv_cache env)) ?p off n (fc_local ?c) = Inl IoNotFound"
        using None by (simp add: read_exact_at_def rfs.fs_open_total)
      then show ?thesis using Some lm local_missing_inv [OF inv lm] by (auto simp: fc_get_range_def)
    next
      case inner: (Some d)
      then have "d = content ?p" using inv_local [OF inv] by blast
      then show ?thesis using Some rfs.read_exact_at_total [OF inner, of off n] assms(3,4) by (auto simp: fc_get_range_def)
    qed
  qed
  then obtain v c' where "fc_get_range (dv_cache env) k off n ?c = (Inr v, c')"
      "v = None \<longrightarrow> objects (fc_remote c') ?p = Some (content ?p)" by blast
  then show ?thesis by (auto simp: in_cache_eq)
qed

lemma in_mem_returns:
  assumes "good A w" "objects (fc_remote (dw_cache w)) (object_path k) = Some (content (object_path k))"
  shows "\<exists>w'. in_mem env k w = (Inr (Some (content (object_path k))), w')"
proof (cases "mk_get (dv_mem env) k (dw_mem w)")
  case None
  then show ?thesis using assms(2) by (simp add: in_mem_def mem_cache_get_def ros.get_total obj_context_def)
next
  case (Some v)
  then have "v = content (object_path k)" using assms(1) by (simp add: good_def mem_coherent_def)
  then show ?thesis using Some by (simp add: in_mem_def mem_cache_get_def)
qed

lemma read_cached_block_returns:
  assumes "good A w" "k \<in> A" "length (content (object_path k)) = sk_block_size k" "off + n \<le> sk_block_size k"
    "sk_block_size k < 2 ^ 64"
  shows "\<exists>d w'. read_cached_block env k off n w = (Inr d, w')"
proof -
  obtain v w1 where g: "in_cache (fc_get_range (dv_cache env) k off n) w = (Inr v, w1)"
      "v = None \<longrightarrow> objects (fc_remote (dw_cache w1)) (object_path k) = Some (content (object_path k))"
    using get_range_returns [OF assms(1-4)] by blast
  note ok = get_range_ok [OF assms(1) g(1)]
  show ?thesis
  proof (cases v)
    case None
    then obtain w2 where "in_mem env k w1 = (Inr (Some (content (object_path k))), w2)"
      using in_mem_returns [of A w1 k] g(2) ok by blast
    then show ?thesis using g(1) None assms(3-5) by (simp add: read_cached_block_def sbind_def checked_add64_def)
  next
    case (Some d)
    then have "length d = n" using ok by blast
    then show ?thesis using g(1) Some by (simp add: read_cached_block_def sbind_def)
  qed
qed

lemma read_cached_blocks_returns:
  assumes "good A w" "slice_stored content A sid len" "n + offset \<le> len"
  shows "\<exists>d w'. read_cached_blocks env sid len offset n got w = (Inr d, w')"
  using assms(1)
proof (induction "n - got" arbitrary: got w rule: less_induct)
  case less
  show ?case
  proof (cases "got < n")
    case False
    then show ?thesis by (subst read_cached_blocks.simps) simp
  next
    case True
    define pos where "pos = got + offset"
    define idx where "idx = pos div BLOCK_SIZE"
    define osz where "osz = cal_cached_block_size len idx BLOCK_SIZE"
    define m where "m = min (n - got) (osz - pos mod BLOCK_SIZE)"
    have len: "len < 2 ^ 64" using assms(2) by (simp add: slice_stored_def CHUNK_SIZE_def)
    have pos: "pos < len" "pos = idx * BLOCK_SIZE + pos mod BLOCK_SIZE"
      using True assms(3) by (simp_all add: pos_def idx_def)
    then have osz: "osz = min (len - idx * BLOCK_SIZE) BLOCK_SIZE"
      using cal_cached_block_size_eq [of idx len] len by (simp add: osz_def)
    have m: "0 < m" "pos mod BLOCK_SIZE + m \<le> osz"
      using True pos osz BLOCK_SIZE_pos mod_less_divisor [OF BLOCK_SIZE_pos, of pos] by (auto simp: m_def)
    let ?k = "slice_key_new sid idx osz"
    have "idx * BLOCK_SIZE < len" using pos by linarith
    then have k: "?k \<in> A" "length (content (object_path ?k)) = sk_block_size ?k"
      using assms(2) unfolding slice_stored_def Let_def osz by blast+
    have sz: "sk_block_size ?k = osz" "osz < 2 ^ 64" using osz len by (simp_all add: slice_key_new_def)
    obtain d w1 where b: "read_cached_block env ?k (pos mod BLOCK_SIZE) m w = (Inr d, w1)"
      using read_cached_block_returns [OF less.prems k] m(2) sz by metis
    have "good A w1" using read_cached_block_ok [OF less.prems b] by blast
    then obtain d2 w2 where "read_cached_blocks env sid len offset n (got + m) w1 = (Inr d2, w2)"
      using less.hyps [of "got + m" w1] True m(1) by (meson diff_less_mono2 less_add_same_cancel1)
    moreover have "read_cached_blocks env sid len offset n got w =
        sbind (read_cached_block env ?k (pos mod BLOCK_SIZE) m) (\<lambda>d.
        sbind (read_cached_blocks env sid len offset n (got + m)) (\<lambda>rest. sret (d @ rest))) w"
      using True m(1) by (subst read_cached_blocks.simps)
        (simp add: Let_def pos_def [symmetric] idx_def [symmetric] osz_def [symmetric] m_def [symmetric])
    ultimately show ?thesis using b by (simp add: sbind_def)
  qed
qed

lemma read_slice_from_cache_returns:
  assumes "good A w" "slice_stored content A sid len"
  shows "\<exists>d w'. read_slice_from_cache env sid len offset n w = (Inr d, w')"
  using read_cached_blocks_returns [OF assms, of "min (len - offset) n" offset 0] assms(2)
  by (auto simp: read_slice_from_cache_def slice_stored_def)

end

lemma overlook_loop_returns: "\<forall>s \<in> set ss. 0 < get_size s \<Longrightarrow> \<exists>rm'. overlook_loop ops rm ss = Some rm'"
  by (induction ss arbitrary: rm) auto

lemma overlook_returns: "\<forall>s \<in> set ss. 0 < get_size s \<Longrightarrow> \<exists>rm. overlook ops ss = Some rm"
  unfolding overlook_def by (rule overlook_loop_returns)

context reliable_read_world
begin

lemma virtual_runs_returns:
  assumes "\<forall>s \<in> set ss. 0 < get_size s" "s < e"
  shows "\<exists>runs. virtual_runs env ss s e = Some runs"
proof -
  obtain rm where rm: "overlook (dv_overlook env) ss = Some rm" using overlook_returns [OF assms(1), of "dv_overlook env"] by blast
  note v = overlook_get(1) [OF orm.range_map_axioms rm]
  have gaps: "fst r < snd r" if "r \<in> set (rm_gaps (dv_overlook env) rm s e)" for r
    using ranges_ok_bounds [OF orm.gaps_ok [OF v, of s e] that] assms(2) by simp
  have iter: "a < b" if "((a, b), sl) \<in> set (rm_iter (dv_overlook env) rm)" for a b sl
    using ranges_ok_bounds [OF orm.iter_ok [OF v], of "(a, b)"] that by force
  have over: "max a s < min b e" if "((a, b), sl) \<in> set (rm_overlapping (dv_overlook env) rm s e)" for a b sl
    using that iter [of a b sl] assms(2) by (simp add: orm.overlapping_iter [OF v])
  have "list_all (\<lambda>(r, v). fst r < snd r) (map (\<lambda>r. (r, Hole)) (rm_gaps (dv_overlook env) rm s e) @
      map (\<lambda>((a, b), sl). ((max a s, min b e), virtual_of sl)) (rm_overlapping (dv_overlook env) rm s e))"
    unfolding list_all_append list_all_iff set_map using gaps over by (force simp del: min_less_iff_conj max_less_iff_conj)
  then show ?thesis using rm unfolding virtual_runs_def by (simp add: vrm.insert_runs_eq del: list_all_append)
qed

lemma read_runs_returns:
  assumes "good A w" "runs_cover cp e (map fst runs)"
    "\<And>a b v p. ((a, b), v) \<in> set runs \<Longrightarrow> a \<le> p \<Longrightarrow> p < b \<Longrightarrow> v = virtual_at ss p"
    "cp \<le> e" "t + (e - cp) \<le> length dst" "length dst + e < 2 ^ 64" "\<forall>s \<in> set ss. slice_readable content A s"
  shows "\<exists>st w'. read_runs env runs (t, l, cp, dst) w = (Inr st, w')"
  using assms(1-6)
proof (induction runs arbitrary: t l cp dst w)
  case (Cons x runs)
  obtain a b v where x: "x = ((a, b), v)" by (metis prod.exhaust)
  have cov: "a = cp" "cp < b" "b \<le> e" "runs_cover b e (map fst runs)"
    using runs_cover_Cons [of cp e a b "map fst runs"] Cons.prems(2) x by simp_all
  have fits: "t + (b - cp) \<le> length dst" using cov Cons.prems(5) by simp
  have run: "read_runs env (x # runs) (t, l, cp, dst) w =
      sbind (read_run env v cp b t dst) (\<lambda>dst. read_runs env runs (t + (b - cp), l - (b - cp), b, dst)) w"
    unfolding x cov(1) by (rule read_runs_Cons [THEN fun_cong, OF cov(2) fits]) (use cov(3) Cons.prems(6) in simp)
  have "\<exists>dst1 w1. read_run env v cp b t dst w = (Inr dst1, w1) \<and> good A w1 \<and> length dst1 = length dst"
  proof (cases v)
    case Hole
    then show ?thesis using Cons.prems(1) fits by (simp add: read_run_def)
  next
    case (VSlice s)
    have vs: "VSlice s = virtual_at ss p" if "cp \<le> p" "p < b" for p using Cons.prems(3) [of a b v p] that x VSlice cov by simp
    have "s \<in> set ss" using run_within_slice(1) [OF vs cov(2)] by blast
    moreover have "get_id s \<noteq> EMPTY_SLICE_ID"
      using vs [of cp] cov by (auto simp: virtual_at_def virtual_of_def split: option.splits if_splits)
    ultimately have "slice_stored content A (get_id s) (get_underlying_size s)"
      using assms(7) by (auto simp: slice_readable_def)
    then obtain d w1 where rd: "read_slice_from_cache env (get_id s) (get_underlying_size s)
        (get_underlying_offset s + (cp - get_chunk_pos s)) (b - cp) w = (Inr d, w1)"
      using read_slice_from_cache_returns [OF Cons.prems(1)] by blast
    note ok = read_slice_from_cache_ok [OF Cons.prems(1) rd]
    then have "t + length d \<le> length dst" using fits by auto
    then show ?thesis using rd ok VSlice by (auto simp: read_run_def sbind_def)
  qed
  then obtain dst1 w1 where st: "read_run env v cp b t dst w = (Inr dst1, w1)" "good A w1" "length dst1 = length dst" by blast
  have "\<exists>st w'. read_runs env runs (t + (b - cp), l - (b - cp), b, dst1) w1 = (Inr st, w')"
    by (rule Cons.IH [OF st(2) cov(4)]) (use cov Cons.prems st(3) x in auto)
  then show ?case using run st(1) by (auto simp: sbind_def)
qed simp

end

section \<open>Whole requests\<close>

text \<open>The clock does not run behind the times recorded with the open file.\<close>

definition clocks_ok :: "(nat \<Rightarrow> clock) \<Rightarrow> ino \<Rightarrow> 'db meta_engine \<Rightarrow> bool" where
  "clocks_ok clk i s \<longleftrightarrow>
     (\<forall>c. UNIX_EPOCH \<le> clk c 0 \<and> (\<forall>f. ofs_files (me_open_files s) i = Some f \<longrightarrow> of_last_check f \<le> clk c 0))"

lemma read_slice_returns:
  assumes "get_chunk_slices kv cd i c (me_backend s) = Inr ss" "slices_coherent kv cd s" "clocks_ok clk i s"
  shows "\<exists>s'. read_slice kv cd (clk c) i c s = (Inr (Some ss), s') \<and> clocks_ok clk i s'"
proof -
  have "\<exists>v. ofs_load_slices (clk c 0) i c (me_open_files s) = Inr v"
    using assms(3) by (auto simp: ofs_load_slices_def of_fresh_def duration_since_def clocks_ok_def split: option.splits)
  then obtain v where v: "ofs_load_slices (clk c 0) i c (me_open_files s) = Inr v" by blast
  show ?thesis
  proof (cases v)
    case None
    have "clocks_ok clk i (s\<lparr>me_open_files := ofs_refresh_slices i c ss (me_open_files s)\<rparr>)"
      using assms(3) by (auto simp: clocks_ok_def ofs_refresh_slices_def ofs_update_def of_refresh_slices_def)
    then show ?thesis using None v assms(1) by (simp add: read_slice_def sbind_def backend_read_def open_files_set_def)
  next
    case (Some xs)
    then have "get_chunk_slices kv cd i c (me_backend s) = Inr xs"
      using ofs_load_slices_Some [of "clk c 0" i c "me_open_files s" xs] v assms(2) by (auto simp: slices_coherent_def)
    then show ?thesis using Some v assms(1,3) by (simp add: read_slice_def sbind_def)
  qed
qed

text \<open>Every chunk of the request has its record, and the blocks of its slices were staged.\<close>

definition chunks_readable where
  "chunks_readable kv cd content A db i cs \<longleftrightarrow>
     (\<forall>c \<in> set cs. \<exists>ss. get_chunk_slices kv cd i c db = Inr ss \<and> (\<forall>s \<in> set ss. slice_readable content A s))"

context reliable_read_world
begin

lemma read_chunk_returns:
  assumes "good A w" "coherent w" "clocks_ok clk i (dw_meta w)" "c = (offset + t) div dv_chunk_size env"
    "get_chunk_slices (dv_kv env) (dv_codec env) i c (me_backend (dw_meta w)) = Inr ss"
    "\<forall>s \<in> set ss. slice_readable content A s" "0 < dv_chunk_size env" "0 < l" "t + l \<le> length dst"
    "length dst + dv_chunk_size env < 2 ^ 64"
  shows "\<exists>st w'. read_chunk env (clk c) i offset c (t, l, dst) w = (Inr st, w') \<and> clocks_ok clk i (dw_meta w')"
proof -
  let ?cs = "dv_chunk_size env" and ?cp = "(offset + t) mod dv_chunk_size env"
  define n where "n = chunk_step offset l t"
  have lt: "0 < n" "?cp + n \<le> ?cs" "n \<le> l"
    using mod_less_divisor [OF assms(7), of "offset + t"] assms(8) by (simp_all add: n_def chunk_step_def)
  obtain s1 where rs: "read_slice (dv_kv env) (dv_codec env) (clk c) i c (dw_meta w) = (Inr (Some ss), s1)" "clocks_ok clk i s1"
    using read_slice_returns [OF assms(5,2,3)] by blast
  define w1 where "w1 = w\<lparr>dw_meta := s1\<rparr>"
  have w1: "good A w1" using assms(1) by (simp add: w1_def good_def)
  have "\<forall>s \<in> set ss. 0 < get_size s" using assms(6) by (auto simp: slice_readable_def)
  then obtain runs where runs: "virtual_runs env ss ?cp (?cp + n) = Some runs"
    using virtual_runs_returns [of ss ?cp "?cp + n"] lt(1) by auto
  note cover = virtual_runs_ok [OF runs le_add1]
  have "\<exists>st w'. read_runs env runs (t, l, ?cp, dst) w1 = (Inr st, w')"
    by (rule read_runs_returns [OF w1 cover(1) _ _ _ _ assms(6)]) (use cover(2) lt assms(9,10) in auto)
  then obtain t' l' cp' dst' w2 where rr: "read_runs env runs (t, l, ?cp, dst) w1 = (Inr (t', l', cp', dst'), w2)" by auto
  have fit: "\<forall>s \<in> set ss. slice_fits s" using assms(6) by (auto simp: slice_readable_def)
  have "dw_meta w2 = dw_meta w1"
    using read_runs_ok [OF w1 rr cover(1) _ _ _ _ fit] cover(2) lt assms(9,10) by auto
  moreover have "read_chunk env (clk c) i offset c (t, l, dst) w = (Inr (Some (t', l', dst')), w2)"
    using rs(1) runs rr
    by (simp add: read_chunk_def Let_def sbind_def in_meta_def szoom_def smap_err_def w1_def n_def chunk_step_def)
  ultimately show ?thesis using rs(2) by (simp add: w1_def)
qed

lemma read_chunks_returns:
  assumes "good A w" "coherent w" "file_fits (dv_kv env) (dv_codec env) (me_backend (dw_meta w)) i"
    "0 < dv_chunk_size env" "clocks_ok clk i (dw_meta w)"
    "chunks_readable (dv_kv env) (dv_codec env) content A (me_backend (dw_meta w)) i (chunk_list (dv_chunk_size env) (offset + t) l)"
    "t + l \<le> length dst" "length dst + dv_chunk_size env < 2 ^ 64"
  shows "\<exists>v w'. read_chunks env clk i offset (chunk_list (dv_chunk_size env) (offset + t) l) (t, l, dst) w = (Inr v, w')"
  using assms
proof (induction l arbitrary: t dst w rule: less_induct)
  case (less l)
  let ?cs = "dv_chunk_size env"
  show ?case
  proof (cases "l = 0")
    case True
    then show ?thesis by (simp add: chunk_list_def)
  next
    case False
    define n where "n = chunk_step offset l t"
    have n: "0 < n" "n \<le> l" using False less.prems(4) by (simp_all add: n_def chunk_step_def)
    let ?c = "(offset + t) div ?cs"
    have cl: "chunk_list ?cs (offset + t) l = ?c # chunk_list ?cs (offset + (t + n)) (l - n)"
      using chunk_list_Cons [of ?cs l "offset + t"] False less.prems(4) by (simp add: n_def chunk_step_def add.assoc)
    obtain ss where ss: "get_chunk_slices (dv_kv env) (dv_codec env) i ?c (me_backend (dw_meta w)) = Inr ss"
        "\<forall>s \<in> set ss. slice_readable content A s"
      using less.prems(6) unfolding cl chunks_readable_def by auto
    obtain st w1 where c1: "read_chunk env (clk ?c) i offset ?c (t, l, dst) w = (Inr st, w1)" "clocks_ok clk i (dw_meta w1)"
      using read_chunk_returns [OF less.prems(1,2,5) refl ss less.prems(4) _ less.prems(7,8)] False by blast
    note ok = read_chunk_ok [OF less.prems(1-4) refl c1(1) less.prems(7,8), folded n_def]
    obtain dst1 where st: "st = Some (t + n, l - n, dst1)" using ok by (cases st) auto
    have len: "length dst1 = length dst" using ok st by (auto simp: filled_def)
    have "\<exists>v w'. read_chunks env clk i offset (chunk_list ?cs (offset + (t + n)) (l - n)) (t + n, l - n, dst1) w1 = (Inr v, w')"
      by (rule less.IH) (use n ok c1 less.prems len cl in \<open>auto simp: chunks_readable_def\<close>)
    then show ?thesis using cl c1 st by (simp add: sbind_def)
  qed
qed

lemma file_reader_read_returns:
  assumes "good A w" "coherent w" "file_fits (dv_kv env) (dv_codec env) (me_backend (dw_meta w)) (fr_ino fr)"
    "0 < dv_chunk_size env" "clocks_ok clk (fr_ino fr) (dw_meta w)"
    "chunks_readable (dv_kv env) (dv_codec env) content A (me_backend (dw_meta w)) (fr_ino fr)
       (chunk_list (dv_chunk_size env) offset (min (length dst) (fr_length fr - offset)))"
    "length dst + dv_chunk_size env < 2 ^ 64"
  shows "\<exists>v w'. file_reader_read env clk fr offset dst w = (Inr v, w')"
proof (cases "offset \<ge> fr_length fr \<or> length dst = 0")
  case True
  then show ?thesis by (auto simp: file_reader_read_def)
next
  case False
  define l where "l = min (length dst) (fr_length fr - offset)"
  have "0 < l" using False by (auto simp: l_def)
  then have "file_reader_read env clk fr offset dst w =
      read_chunks env clk (fr_ino fr) offset (chunk_list (dv_chunk_size env) (offset + 0) l) (0, l, dst) w"
    using False assms(4) by (simp add: file_reader_read_def Let_def chunk_list_def l_def [symmetric] del: upt_Suc)
  then show ?thesis using read_chunks_returns [OF assms(1-5), of offset 0 l dst] assms(6,7) by (simp add: l_def)
qed

end

end
