(* ===== verification/File_Writer.thy ===== *)
theory File_Writer
  imports Vfs_Base
begin

text \<open>
  The write path (\<^verbatim>\<open>vfs/src/writer.rs\<close>). A file writer holds chunk writers, a chunk writer holds
  slice writers in the order of their internal sequence numbers, and a slice writer buffers a
  run of bytes until the flusher task of the file stages and publishes it. Slice writers are
  shared (\<^verbatim>\<open>Arc\<close>): they live in a store indexed by their sequence number, which the code takes
  for their identity, and chunk writers and flush requests name them. Each definition is what the
  code does between two points where another task may run, or a sequence of such pieces.
\<close>

section \<open>States of a slice writer\<close>

datatype slice_writer_state = Idle | Writing | Dirty | Flushing | Committing | Done

primrec state_as_u8 :: "slice_writer_state \<Rightarrow> u8" where
  "state_as_u8 Idle = 0"
| "state_as_u8 Writing = 1"
| "state_as_u8 Dirty = 2"
| "state_as_u8 Flushing = 3"
| "state_as_u8 Committing = 4"
| "state_as_u8 Done = 5"

text \<open>\<open>None\<close> is the panic.\<close>

definition state_from_u8 :: "u8 \<Rightarrow> slice_writer_state option" where
  "state_from_u8 v =
     (if v = 0 then Some Idle else if v = 1 then Some Writing else if v = 2 then Some Dirty
      else if v = 3 then Some Flushing else if v = 4 then Some Committing else if v = 5 then Some Done
      else None)"

section \<open>Data\<close>

record writer_pattern =
  wp_score :: int
  wp_last_write_stop_offset :: nat

definition MAX_RANDOM_SCORE :: int where "MAX_RANDOM_SCORE = -5"
definition MAX_SEQ_SCORE :: int where "MAX_SEQ_SCORE = 20"

definition pattern_new :: writer_pattern where
  "pattern_new = \<lparr> wp_score = 0, wp_last_write_stop_offset = 0 \<rparr>"

definition monitor_write_at :: "nat \<Rightarrow> nat \<Rightarrow> writer_pattern \<Rightarrow> writer_pattern" where
  "monitor_write_at offset n wp =
     (let score = wp_score wp;
          score' = (if wp_last_write_stop_offset wp = offset
                    then (if score < MAX_SEQ_SCORE then score + 1 else score)
                    else if score > MAX_RANDOM_SCORE then score - 1 else score) in
      \<lparr> wp_score = score', wp_last_write_stop_offset = wrap64 (offset + n) \<rparr>)"

definition is_seq :: "writer_pattern \<Rightarrow> bool" where
  "is_seq wp = (wp_score wp \<ge> 0)"

record 'pg slice_writer =
  slw_chunk_index :: nat
  slw_state :: slice_writer_state
  slw_internal_seq :: nat
  slw_slice_id :: nat
  slw_offset_of_chunk :: nat
  slw_buffer :: "'pg slice_buffer"

datatype flush_req = FlushBulk nat nat | FlushFull nat | CommitIdle nat

record 'pg file_writer =
  fw_inode :: ino
  fw_length :: nat
  fw_chunk_writers :: "(nat \<times> nat list) list"
  fw_slices :: "nat \<Rightarrow> 'pg slice_writer option"
  fw_flush_queue :: "flush_req list"
  fw_flusher_alive :: bool
  fw_cancelled :: bool
  fw_ref_count :: nat
  fw_total_slice_writer_cnt :: nat
  fw_pattern :: writer_pattern
  fw_flush_error :: "vfs_error option"
  fw_published_slices :: "nat list"
  fw_notified :: "nat set" \<comment> \<open>chunk writers whose \<^verbatim>\<open>slice_done_notify\<close> holds a permit\<close>

definition file_writer_new :: "ino \<Rightarrow> nat \<Rightarrow> 'pg file_writer" where
  "file_writer_new i len = \<lparr> fw_inode = i, fw_length = len, fw_chunk_writers = [], fw_slices = (\<lambda>_. None),
     fw_flush_queue = [], fw_flusher_alive = True, fw_cancelled = False, fw_ref_count = 0,
     fw_total_slice_writer_cnt = 0, fw_pattern = pattern_new, fw_flush_error = None, fw_published_slices = [],
     fw_notified = {} \<rparr>"

definition slice_writer_new :: "nat \<Rightarrow> slice_writer_state \<Rightarrow> nat \<Rightarrow> nat \<Rightarrow> 'pg slice_writer" where
  "slice_writer_new chunk_index st seq offset_of_chunk = \<lparr> slw_chunk_index = chunk_index, slw_state = st,
     slw_internal_seq = seq, slw_slice_id = EMPTY_SLICE_ID, slw_offset_of_chunk = offset_of_chunk,
     slw_buffer = slice_buffer_new \<rparr>"

section \<open>The world of a file writer\<close>

record ('db, 'f, 'o, 'c, 'm, 'rm, 'vm, 'p, 'pg) writer_env =
  wv_data :: "('db, 'f, 'o, 'c, 'm, 'rm, 'vm) data_env"
  wv_pages :: "('p, 'pg) page_ops"

record ('db, 'f, 'o, 'c, 'm, 'p, 'pg) writer_world =
  ww_data :: "('db, 'f, 'o, 'c, 'm) data_world"
  ww_pool :: 'p
  ww_fw :: "'pg file_writer"

type_synonym ('db, 'f, 'o, 'c, 'm, 'p, 'pg, 'a) wcomp =
  "(('db, 'f, 'o, 'c, 'm, 'p, 'pg) writer_world, vfs_error, 'a) comp"

definition on_fw :: "('pg file_writer \<Rightarrow> 'pg file_writer) \<Rightarrow> ('db, 'f, 'o, 'c, 'm, 'p, 'pg) writer_world \<Rightarrow>
  ('db, 'f, 'o, 'c, 'm, 'p, 'pg) writer_world" where
  "on_fw g w = w\<lparr>ww_fw := g (ww_fw w)\<rparr>"

definition on_slice :: "nat \<Rightarrow> ('pg slice_writer \<Rightarrow> 'pg slice_writer) \<Rightarrow> 'pg file_writer \<Rightarrow> 'pg file_writer" where
  "on_slice q g fw = fw\<lparr>fw_slices := (fw_slices fw)(q := map_option g (fw_slices fw q))\<rparr>"

text \<open>The slice writer behind a reference.\<close>

definition the_slice :: "nat \<Rightarrow> ('db, 'f, 'o, 'c, 'm, 'p, 'pg, 'pg slice_writer) wcomp" where
  "the_slice q = sask (\<lambda>w. ok_or (fw_slices (ww_fw w) q) VPanicked)"

definition in_engine :: "('db, 'a) eng \<Rightarrow> ('db, 'f, 'o, 'c, 'm, 'p, 'pg, 'a) wcomp" where
  "in_engine m = szoom ww_data (\<lambda>d w. w\<lparr>ww_data := d\<rparr>) (in_meta m)"

text \<open>An operation on the buffer of a slice writer, under its lock.\<close>

definition in_buffer ::
  "nat \<Rightarrow> ('p, 'pg, ('f, 'o, 'c) file_cache, 'a) sb_comp \<Rightarrow> ('db, 'f, 'o, 'c, 'm, 'p, 'pg, 'a) wcomp" where
  "in_buffer q m =
     sbind (the_slice q) (\<lambda>s.
     szoom (\<lambda>w. \<lparr> sw_pool = ww_pool w, sw_buf = slw_buffer s, sw_sink = dw_cache (ww_data w) \<rparr>)
       (\<lambda>b w. on_fw (on_slice q (\<lambda>s. s\<lparr>slw_buffer := sw_buf b\<rparr>))
          (w\<lparr>ww_pool := sw_pool b, ww_data := (ww_data w)\<lparr>dw_cache := sw_sink b\<rparr>\<rparr>))
       (smap_err VStorage m))"

text \<open>\<^verbatim>\<open>compare_exchange\<close> of the state: whether it succeeded.\<close>

definition cas_state ::
  "nat \<Rightarrow> slice_writer_state \<Rightarrow> slice_writer_state \<Rightarrow> ('db, 'f, 'o, 'c, 'm, 'p, 'pg, bool) wcomp" where
  "cas_state q old new =
     sbind (the_slice q) (\<lambda>s.
     if slw_state s = old
     then sbind (smod (on_fw (on_slice q (\<lambda>s. s\<lparr>slw_state := new\<rparr>)))) (\<lambda>_. sret True)
     else sret False)"

section \<open>Where a write goes\<close>

record chunk_write_ctx =
  cx_file_offset :: nat
  cx_chunk_idx :: nat
  cx_chunk_offset :: nat
  cx_need_write_len :: nat
  cx_buf_start_at :: nat

fun locate_loop :: "nat \<Rightarrow> nat \<Rightarrow> nat list \<Rightarrow> nat \<Rightarrow> nat \<Rightarrow> nat \<Rightarrow> chunk_write_ctx list" where
  "locate_loop chunk_size offset [] chunk_pos buf_start_at left = []"
| "locate_loop chunk_size offset (idx # idxs) chunk_pos buf_start_at left =
     (let max_can_write = min (chunk_size - chunk_pos) left in
      \<lparr> cx_file_offset = offset + buf_start_at, cx_chunk_idx = idx, cx_chunk_offset = chunk_pos,
        cx_need_write_len = max_can_write, cx_buf_start_at = buf_start_at \<rparr> #
      locate_loop chunk_size offset idxs (cal_chunk_offset (chunk_pos + max_can_write) chunk_size)
        (buf_start_at + max_can_write) (left - max_can_write))"

definition locate_chunk :: "nat \<Rightarrow> nat \<Rightarrow> nat \<Rightarrow> chunk_write_ctx list" where
  "locate_chunk chunk_size offset expected_write_len =
     locate_loop chunk_size offset
       [cal_chunk_idx offset chunk_size..<Suc (cal_chunk_idx (offset + expected_write_len - 1) chunk_size)]
       (cal_chunk_offset offset chunk_size) 0 expected_write_len"

section \<open>Errors, requests, notifications\<close>

definition record_flush_error :: "vfs_error \<Rightarrow> 'pg file_writer \<Rightarrow> 'pg file_writer" where
  "record_flush_error e fw = (if fw_flush_error fw = None then fw\<lparr>fw_flush_error := Some e\<rparr> else fw)"

definition take_flush_error :: "('db, 'f, 'o, 'c, 'm, 'p, 'pg, vfs_error option) wcomp" where
  "take_flush_error =
     sbind (sget (\<lambda>w. fw_flush_error (ww_fw w))) (\<lambda>e.
     sbind (smod (on_fw (\<lambda>fw. fw\<lparr>fw_flush_error := None\<rparr>))) (\<lambda>_. sret e))"

definition has_flush_error :: "'pg file_writer \<Rightarrow> bool" where
  "has_flush_error fw = (fw_flush_error fw \<noteq> None)"

definition record_published_slice :: "nat \<Rightarrow> 'pg file_writer \<Rightarrow> 'pg file_writer" where
  "record_published_slice sid fw = fw\<lparr>fw_published_slices := List.insert sid (fw_published_slices fw)\<rparr>"

text \<open>A request is refused when the flusher task is gone.\<close>

definition send_req :: "flush_req \<Rightarrow> ('db, 'f, 'o, 'c, 'm, 'p, 'pg, bool) wcomp" where
  "send_req req =
     sbind (sget (\<lambda>w. fw_flusher_alive (ww_fw w))) (\<lambda>alive.
     if alive then sbind (smod (on_fw (\<lambda>fw. fw\<lparr>fw_flush_queue := fw_flush_queue fw @ [req]\<rparr>))) (\<lambda>_. sret True)
     else sret False)"

definition cw_alive :: "nat \<Rightarrow> 'pg file_writer \<Rightarrow> bool" where
  "cw_alive c fw = (map_of (fw_chunk_writers fw) c \<noteq> None)"

text \<open>\<^verbatim>\<open>notify_one\<close> on the chunk writer of a slice writer, if that is still there.\<close>

definition notify_done :: "nat \<Rightarrow> 'pg file_writer \<Rightarrow> 'pg file_writer" where
  "notify_done q fw =
     (case fw_slices fw q of
        None \<Rightarrow> fw
      | Some s \<Rightarrow> if cw_alive (slw_chunk_index s) fw
                  then fw\<lparr>fw_notified := insert (slw_chunk_index s) (fw_notified fw)\<rparr> else fw)"

section \<open>Slice writers\<close>

definition slw_write_at ::
  "('db, 'f, 'o, 'c, 'm, 'rm, 'vm, 'p, 'pg) writer_env \<Rightarrow> nat \<Rightarrow> slice_writer_state \<Rightarrow> nat \<Rightarrow> bytes \<Rightarrow>
   ('db, 'f, 'o, 'c, 'm, 'p, 'pg, nat) wcomp" where
  "slw_write_at env q before_state offset data w =
     (case in_buffer q (sb_write_at (wv_pages env) offset data) w of
        (Inl e, w') \<Rightarrow>
          sbind (cas_state q Writing before_state) (\<lambda>_.
          sbind (smod (on_fw (notify_done q))) (\<lambda>_.
          sfail e)) w'
      | (Inr written, w') \<Rightarrow>
          sbind (cas_state q Writing (if written = 0 then before_state else Dirty)) (\<lambda>ok.
          if ok then sret written else sfail (VLibc EIO)) w')"

definition prepare_slice_id ::
  "('db, 'f, 'o, 'c, 'm, 'rm, 'vm, 'p, 'pg) writer_env \<Rightarrow> nat \<Rightarrow> ('db, 'f, 'o, 'c, 'm, 'p, 'pg, nat) wcomp" where
  "prepare_slice_id env q =
     sbind (the_slice q) (\<lambda>s.
     if slw_slice_id s \<noteq> EMPTY_SLICE_ID then sret (slw_slice_id s)
     else
       sbind (in_engine (next_slice_id (dv_kv (wv_data env)) (dv_codec (wv_data env)))) (\<lambda>sid.
       sbind (smod (on_fw (on_slice q (\<lambda>s. if slw_slice_id s = 0 then s\<lparr>slw_slice_id := sid\<rparr> else s)))) (\<lambda>_.
       sret sid)))"

definition do_flush_bulk ::
  "('db, 'f, 'o, 'c, 'm, 'rm, 'vm, 'p, 'pg) writer_env \<Rightarrow> nat \<Rightarrow> nat \<Rightarrow> ('db, 'f, 'o, 'c, 'm, 'p, 'pg, unit) wcomp" where
  "do_flush_bulk env q offset =
     sbind (prepare_slice_id env q) (\<lambda>sid.
     sbind (in_buffer q (sb_stage (dv_cache (wv_data env)) (wv_pages env) sid offset)) (\<lambda>_.
     sbind (cas_state q Flushing Idle) (\<lambda>ok.
     if ok then smod (on_fw (notify_done q)) else sfail (VLibc EIO))))"

definition reset_after_flush_failure :: "nat \<Rightarrow> ('db, 'f, 'o, 'c, 'm, 'p, 'pg, unit) wcomp" where
  "reset_after_flush_failure q =
     sbind (cas_state q Flushing Dirty) (\<lambda>_. smod (on_fw (notify_done q)))"

definition reset_after_commit_failure :: "nat \<Rightarrow> ('db, 'f, 'o, 'c, 'm, 'p, 'pg, unit) wcomp" where
  "reset_after_commit_failure q =
     sbind (cas_state q Committing Idle) (\<lambda>_. smod (on_fw (notify_done q)))"

text \<open>The slice a slice writer publishes.\<close>

definition publish_slice ::
  "('db, 'f, 'o, 'c, 'm, 'rm, 'vm, 'p, 'pg) writer_env \<Rightarrow> clock \<Rightarrow> 'pg slice_writer \<Rightarrow> nat \<Rightarrow> nat \<Rightarrow>
   ('db, 'f, 'o, 'c, 'm, 'p, 'pg, unit) wcomp" where
  "publish_slice env clk s sid len =
     sbind (sget (\<lambda>w. fw_inode (ww_fw w))) (\<lambda>inode.
     in_engine (write_slice (dv_kv (wv_data env)) (dv_codec (wv_data env)) clk inode (slw_chunk_index s)
       (slw_offset_of_chunk s) (Owned (as_u32 (slw_offset_of_chunk s)) sid (as_u32 len) 0)))"

definition slice_done :: "nat \<Rightarrow> slice_writer_state \<Rightarrow> ('db, 'f, 'o, 'c, 'm, 'p, 'pg, unit) wcomp" where
  "slice_done q from_state =
     sbind (smod (on_fw (\<lambda>fw. fw\<lparr>fw_total_slice_writer_cnt := wrap_sub64 (fw_total_slice_writer_cnt fw) 1\<rparr>))) (\<lambda>_.
     sbind (cas_state q from_state Done) (\<lambda>_.
     smod (on_fw (notify_done q))))"

definition flush_and_commit ::
  "('db, 'f, 'o, 'c, 'm, 'rm, 'vm, 'p, 'pg) writer_env \<Rightarrow> clock \<Rightarrow> nat \<Rightarrow> ('db, 'f, 'o, 'c, 'm, 'p, 'pg, unit) wcomp" where
  "flush_and_commit env clk q =
     sbind (prepare_slice_id env q) (\<lambda>sid.
     sbind (in_buffer q (flush_v2 (dv_cache (wv_data env)) (wv_pages env) sid)) (\<lambda>_.
     sbind (the_slice q) (\<lambda>s.
     sbind (publish_slice env clk s sid (sb_length (slw_buffer s))) (\<lambda>_.
     sbind (sask (\<lambda>w. if cw_alive (slw_chunk_index s) (ww_fw w) then Inr () else Inl (VLibc EIO))) (\<lambda>_.
     sbind (smod (on_fw (record_published_slice sid))) (\<lambda>_.
     slice_done q Flushing))))))"

text \<open>An empty slice writer is dropped without a trace in the metadata.\<close>

definition commit_partial ::
  "('db, 'f, 'o, 'c, 'm, 'rm, 'vm, 'p, 'pg) writer_env \<Rightarrow> clock \<Rightarrow> nat \<Rightarrow> ('db, 'f, 'o, 'c, 'm, 'p, 'pg, unit) wcomp" where
  "commit_partial env clk q =
     sbind (the_slice q) (\<lambda>s.
     sbind (sask (\<lambda>w. if cw_alive (slw_chunk_index s) (ww_fw w) then Inr () else Inl VPanicked)) (\<lambda>_.
     let sid = slw_slice_id s; len = sb_length (slw_buffer s) in
     sbind (if len \<noteq> 0
            then sbind (publish_slice env clk s sid len) (\<lambda>_. smod (on_fw (record_published_slice sid)))
            else sret ()) (\<lambda>_.
     slice_done q Committing)))"

definition cas_req ::
  "nat \<Rightarrow> slice_writer_state \<Rightarrow> slice_writer_state \<Rightarrow> flush_req \<Rightarrow> ('db, 'f, 'o, 'c, 'm, 'p, 'pg, flush_req option) wcomp" where
  "cas_req q old new req = sbind (cas_state q old new) (\<lambda>ok. sret (if ok then Some req else None))"

definition make_flush_req :: "nat \<Rightarrow> bool \<Rightarrow> bool \<Rightarrow> ('db, 'f, 'o, 'c, 'm, 'p, 'pg, flush_req option) wcomp" where
  "make_flush_req q seq finish =
     sbind (the_slice q) (\<lambda>s.
     case slw_state s of
       Idle \<Rightarrow> if finish then cas_req q Idle Committing (CommitIdle q) else sret None
     | Dirty \<Rightarrow>
         if finish then cas_req q Dirty Flushing (FlushFull q)
         else let len = sb_length (slw_buffer s); flushed_len = sb_flushed_length (slw_buffer s) in
           if len = CHUNK_SIZE then cas_req q Dirty Flushing (FlushFull q)
           else if wrap_sub64 len flushed_len \<ge> BLOCK_SIZE \<and> \<not> seq then cas_req q Dirty Flushing (FlushBulk q len)
           else sret None
     | _ \<Rightarrow> sret None)"

section \<open>The flusher task\<close>

definition on_error :: "('s, 'e, 'a) comp \<Rightarrow> ('e \<Rightarrow> ('s, 'e, 'a) comp) \<Rightarrow> ('s, 'e, 'a) comp" where
  "on_error m h s = (case m s of (Inl e, s') \<Rightarrow> h e s' | (Inr x, s') \<Rightarrow> (Inr x, s'))"

definition serve_req ::
  "('db, 'f, 'o, 'c, 'm, 'rm, 'vm, 'p, 'pg) writer_env \<Rightarrow> clock \<Rightarrow> flush_req \<Rightarrow> ('db, 'f, 'o, 'c, 'm, 'p, 'pg, unit) wcomp" where
  "serve_req env clk req =
     (case req of
        FlushBulk q offset \<Rightarrow>
          on_error (do_flush_bulk env q offset) (\<lambda>e.
            sbind (smod (on_fw (record_flush_error e))) (\<lambda>_. reset_after_flush_failure q))
      | FlushFull q \<Rightarrow>
          on_error (flush_and_commit env clk q) (\<lambda>e.
            sbind (smod (on_fw (record_flush_error e))) (\<lambda>_. reset_after_flush_failure q))
      | CommitIdle q \<Rightarrow>
          on_error (commit_partial env clk q) (\<lambda>e.
            sbind (smod (on_fw (record_flush_error e))) (\<lambda>_. reset_after_commit_failure q)))"

text \<open>One turn: the next request. A cancelled flusher ends, and its queue goes with it.\<close>

definition flusher_turn ::
  "('db, 'f, 'o, 'c, 'm, 'rm, 'vm, 'p, 'pg) writer_env \<Rightarrow> clock \<Rightarrow> ('db, 'f, 'o, 'c, 'm, 'p, 'pg, unit) wcomp" where
  "flusher_turn env clk w =
     (case fw_flush_queue (ww_fw w) of
        [] \<Rightarrow> (Inr (), w)
      | req # rest \<Rightarrow> serve_req env clk req (on_fw (\<lambda>fw. fw\<lparr>fw_flush_queue := rest\<rparr>) w))"

definition flusher_exit :: "'pg file_writer \<Rightarrow> 'pg file_writer" where
  "flusher_exit fw = fw\<lparr>fw_flusher_alive := False, fw_flush_queue := []\<rparr>"

section \<open>Chunk writers\<close>

text \<open>The search of a writable slice writer, from the newest one: the fourth and older ones that do
  not fit are flushed in advance.\<close>

fun find_slice_loop ::
  "chunk_write_ctx \<Rightarrow> nat \<Rightarrow> nat list \<Rightarrow> ('db, 'f, 'o, 'c, 'm, 'p, 'pg, (nat \<times> slice_writer_state) option) wcomp" where
  "find_slice_loop l idx [] = sret None"
| "find_slice_loop l idx (q # qs) =
     sbind (the_slice q) (\<lambda>s.
     let flushed = sb_flushed_length (slw_buffer s); len = sb_length (slw_buffer s); old_state = slw_state s in
     if old_state \<noteq> Idle \<and> old_state \<noteq> Dirty then find_slice_loop l (Suc idx) qs
     else if slw_offset_of_chunk s + flushed \<le> cx_chunk_offset l \<and> cx_chunk_offset l \<le> slw_offset_of_chunk s + len
     then sbind (cas_state q old_state Writing) (\<lambda>ok.
          if ok then sret (Some (q, old_state)) else find_slice_loop l (Suc idx) qs)
     else if idx \<ge> 3
     then sbind (sget (\<lambda>w. is_seq (fw_pattern (ww_fw w)))) (\<lambda>seq.
          sbind (make_flush_req q seq True) (\<lambda>req.
          sbind (case req of
                   None \<Rightarrow> sret ()
                 | Some req \<Rightarrow>
                     sbind (send_req req) (\<lambda>sent.
                     if sent then sret () else smod (on_fw (record_flush_error (VLibc EIO))))) (\<lambda>_.
          find_slice_loop l (Suc idx) qs)))
     else find_slice_loop l (Suc idx) qs)"

text \<open>The chunk writer of an index, created when it is missing.\<close>

definition ensure_chunk_writer :: "nat \<Rightarrow> 'pg file_writer \<Rightarrow> 'pg file_writer" where
  "ensure_chunk_writer c fw =
     (if cw_alive c fw then fw else fw\<lparr>fw_chunk_writers := fw_chunk_writers fw @ [(c, [])]\<rparr>)"

definition chunk_slices :: "nat \<Rightarrow> 'pg file_writer \<Rightarrow> nat list" where
  "chunk_slices c fw = (case map_of (fw_chunk_writers fw) c of None \<Rightarrow> [] | Some qs \<Rightarrow> qs)"

definition on_chunk :: "nat \<Rightarrow> (nat list \<Rightarrow> nat list) \<Rightarrow> 'pg file_writer \<Rightarrow> 'pg file_writer" where
  "on_chunk c g fw = fw\<lparr>fw_chunk_writers := map (\<lambda>(i, qs). (i, if i = c then g qs else qs)) (fw_chunk_writers fw)\<rparr>"

definition add_slice_writer :: "nat \<Rightarrow> chunk_write_ctx \<Rightarrow> 'pg file_writer \<Rightarrow> 'pg file_writer" where
  "add_slice_writer q l fw =
     on_chunk (cx_chunk_idx l) (\<lambda>qs. insort q (removeAll q qs))
       (fw\<lparr>fw_slices := (fw_slices fw)(q \<mapsto> slice_writer_new (cx_chunk_idx l) Writing q (cx_chunk_offset l)),
           fw_total_slice_writer_cnt := wrap64 (fw_total_slice_writer_cnt fw + 1)\<rparr>)"

text \<open>\<open>q\<close> is the next identifier of the sequence generator.\<close>

definition find_writable_slice_writer ::
  "nat \<Rightarrow> chunk_write_ctx \<Rightarrow> ('db, 'f, 'o, 'c, 'm, 'p, 'pg, nat \<times> slice_writer_state) wcomp" where
  "find_writable_slice_writer q l =
     sbind (smod (on_fw (ensure_chunk_writer (cx_chunk_idx l)))) (\<lambda>_.
     sbind (sget (\<lambda>w. chunk_slices (cx_chunk_idx l) (ww_fw w))) (\<lambda>qs.
     sbind (find_slice_loop l 0 (rev qs)) (\<lambda>found.
     case found of
       Some x \<Rightarrow> sret x
     | None \<Rightarrow> sbind (smod (on_fw (add_slice_writer q l))) (\<lambda>_. sret (q, Idle)))))"

fun find_writable_slice_writers ::
  "(nat \<Rightarrow> nat) \<Rightarrow> chunk_write_ctx list \<Rightarrow>
   ('db, 'f, 'o, 'c, 'm, 'p, 'pg, (nat \<times> slice_writer_state \<times> chunk_write_ctx) list) wcomp" where
  "find_writable_slice_writers gen [] = sret []"
| "find_writable_slice_writers gen (l # ls) =
     sbind (find_writable_slice_writer (gen (cx_chunk_idx l)) l) (\<lambda>(q, st).
     sbind (find_writable_slice_writers gen ls) (\<lambda>rest. sret ((q, st, l) # rest)))"

section \<open>Writing\<close>

text \<open>One slice of a write, then the request it may raise.\<close>

definition write_part ::
  "('db, 'f, 'o, 'c, 'm, 'rm, 'vm, 'p, 'pg) writer_env \<Rightarrow> bytes \<Rightarrow> nat \<times> slice_writer_state \<times> chunk_write_ctx \<Rightarrow>
   ('db, 'f, 'o, 'c, 'm, 'p, 'pg, nat) wcomp" where
  "write_part env data part =
     (case part of (q, st, l) \<Rightarrow>
      sbind (the_slice q) (\<lambda>s.
      sbind (slw_write_at env q st (wrap_sub64 (cx_chunk_offset l) (slw_offset_of_chunk s))
               (sub_bytes (cx_buf_start_at l) (cx_need_write_len l) data)) (\<lambda>n.
      sbind (sget (\<lambda>w. is_seq (fw_pattern (ww_fw w)))) (\<lambda>seq.
      sbind (make_flush_req q seq False) (\<lambda>req.
      sbind (case req of None \<Rightarrow> sret True | Some req \<Rightarrow> send_req req) (\<lambda>sent.
      if sent then sret n else sfail (VLibc EIO)))))))"

fun write_parts ::
  "('db, 'f, 'o, 'c, 'm, 'rm, 'vm, 'p, 'pg) writer_env \<Rightarrow> bytes \<Rightarrow>
   (nat \<times> slice_writer_state \<times> chunk_write_ctx) list \<Rightarrow> nat \<Rightarrow> ('db, 'f, 'o, 'c, 'm, 'p, 'pg, nat) wcomp" where
  "write_parts env data [] write_len = sret write_len"
| "write_parts env data (part # parts) write_len =
     sbind (write_part env data part) (\<lambda>n. write_parts env data parts (write_len + n))"

text \<open>The loop of \<^verbatim>\<open>compare_exchange\<close> on the length keeps the larger one.\<close>

definition grow_length :: "nat \<Rightarrow> 'pg file_writer \<Rightarrow> 'pg file_writer" where
  "grow_length may_new_len fw = fw\<lparr>fw_length := max (fw_length fw) may_new_len\<rparr>"

text \<open>\<^verbatim>\<open>FileWriter::write\<close> once fewer than 1000 slice writers are open, which it waits for.\<close>

definition file_writer_write ::
  "('db, 'f, 'o, 'c, 'm, 'rm, 'vm, 'p, 'pg) writer_env \<Rightarrow> (nat \<Rightarrow> nat) \<Rightarrow> nat \<Rightarrow> bytes \<Rightarrow>
   ('db, 'f, 'o, 'c, 'm, 'p, 'pg, nat) wcomp" where
  "file_writer_write env gen offset data =
     (if data = [] then sret 0
      else
        sbind take_flush_error (\<lambda>err.
        case err of
          Some e \<Rightarrow> sfail e
        | None \<Rightarrow>
            sbind (smod (on_fw (\<lambda>fw. fw\<lparr>fw_pattern := monitor_write_at offset (length data) (fw_pattern fw)\<rparr>))) (\<lambda>_.
            sbind (find_writable_slice_writers gen (locate_chunk CHUNK_SIZE offset (length data))) (\<lambda>parts.
            sbind (write_parts env data parts 0) (\<lambda>write_len.
            sbind (smod (on_fw (grow_length (offset + write_len)))) (\<lambda>_.
            sret write_len))))))"

section \<open>Flushing a file\<close>

text \<open>One round of \<^verbatim>\<open>ChunkWriter::finish\<close>: requests for the slice writers that are not busy. The
  result lists the finished ones; \<open>None\<close> is the return when the flusher is gone.\<close>

fun finish_slices :: "nat list \<Rightarrow> nat list \<Rightarrow> ('db, 'f, 'o, 'c, 'm, 'p, 'pg, nat list option) wcomp" where
  "finish_slices [] finished = sret (Some finished)"
| "finish_slices (q # qs) finished =
     sbind (the_slice q) (\<lambda>s.
     if slw_state s = Writing \<or> slw_state s = Flushing then finish_slices qs finished
     else if slw_state s = Done then finish_slices qs (finished @ [q])
     else
       sbind (make_flush_req q False True) (\<lambda>req.
       case req of
         None \<Rightarrow> finish_slices qs finished
       | Some req \<Rightarrow>
           sbind (send_req req) (\<lambda>sent.
           if sent then finish_slices qs finished
           else sbind (smod (on_fw (record_flush_error (VLibc EIO)))) (\<lambda>_. sret None))))"

text \<open>Whether \<^verbatim>\<open>finish\<close> returns after the round; otherwise it waits for a notification.\<close>

definition finish_round :: "nat \<Rightarrow> ('db, 'f, 'o, 'c, 'm, 'p, 'pg, bool) wcomp" where
  "finish_round c =
     sbind (sget (\<lambda>w. (has_flush_error (ww_fw w), chunk_slices c (ww_fw w)))) (\<lambda>(err, qs).
     if err \<or> qs = [] then sret True
     else
       sbind (finish_slices qs []) (\<lambda>res.
       case res of
         None \<Rightarrow> sret True
       | Some finished \<Rightarrow>
           if finished = [] then sret False
           else
             sbind (smod (on_fw (on_chunk c (filter (\<lambda>q. q \<notin> set finished))))) (\<lambda>_.
             sget (\<lambda>w. chunk_slices c (ww_fw w) = []))))"

text \<open>
  The loop: without a permit the task sleeps, and the flusher, the only other task that may run
  under the write side of the operation lock, takes a turn. \<open>None\<close> stands for more rounds than the
  fuel allows.
\<close>

fun chunk_finish ::
  "('db, 'f, 'o, 'c, 'm, 'rm, 'vm, 'p, 'pg) writer_env \<Rightarrow> clock \<Rightarrow> nat \<Rightarrow> nat \<Rightarrow> ('db, 'f, 'o, 'c, 'm, 'p, 'pg, unit option) wcomp" and
  chunk_wait ::
  "('db, 'f, 'o, 'c, 'm, 'rm, 'vm, 'p, 'pg) writer_env \<Rightarrow> clock \<Rightarrow> nat \<Rightarrow> nat \<Rightarrow> ('db, 'f, 'o, 'c, 'm, 'p, 'pg, unit option) wcomp" where
  "chunk_finish env clk 0 c = sret None"
| "chunk_finish env clk (Suc fuel) c =
     sbind (finish_round c) (\<lambda>returned. if returned then sret (Some ()) else chunk_wait env clk fuel c)"
| "chunk_wait env clk 0 c = sret None"
| "chunk_wait env clk (Suc fuel) c =
     sbind (sget (\<lambda>w. c \<in> fw_notified (ww_fw w))) (\<lambda>permit.
     if permit
     then sbind (smod (on_fw (\<lambda>fw. fw\<lparr>fw_notified := fw_notified fw - {c}\<rparr>))) (\<lambda>_. chunk_finish env clk fuel c)
     else sbind (flusher_turn env clk) (\<lambda>_. chunk_wait env clk fuel c))"

fun finish_chunks ::
  "('db, 'f, 'o, 'c, 'm, 'rm, 'vm, 'p, 'pg) writer_env \<Rightarrow> clock \<Rightarrow> nat \<Rightarrow> nat list \<Rightarrow> ('db, 'f, 'o, 'c, 'm, 'p, 'pg, unit option) wcomp" where
  "finish_chunks env clk fuel [] = sret (Some ())"
| "finish_chunks env clk fuel (c # cs) =
     sbind (chunk_finish env clk fuel c) (\<lambda>res.
     case res of None \<Rightarrow> sret None | Some _ \<Rightarrow> finish_chunks env clk fuel cs)"

definition finish_local ::
  "('db, 'f, 'o, 'c, 'm, 'rm, 'vm, 'p, 'pg) writer_env \<Rightarrow> clock \<Rightarrow> nat \<Rightarrow> ('db, 'f, 'o, 'c, 'm, 'p, 'pg, unit option) wcomp" where
  "finish_local env clk fuel =
     sbind take_flush_error (\<lambda>err.
     case err of
       Some e \<Rightarrow> sfail e
     | None \<Rightarrow>
         sbind (sget (\<lambda>w. map fst (fw_chunk_writers (ww_fw w)))) (\<lambda>cs.
         if cs = [] then sret (Some ())
         else
           sbind (finish_chunks env clk fuel cs) (\<lambda>res.
           case res of
             None \<Rightarrow> sret None
           | Some _ \<Rightarrow>
               sbind take_flush_error (\<lambda>err.
               case err of
                 Some e \<Rightarrow> sfail e
               | None \<Rightarrow>
                   sbind (smod (on_fw (\<lambda>fw. fw\<lparr>fw_chunk_writers := [], fw_notified := {}\<rparr>))) (\<lambda>_. sret (Some ()))))))"

fun flush_published ::
  "('db, 'f, 'o, 'c, 'm, 'rm, 'vm, 'p, 'pg) writer_env \<Rightarrow> nat list \<Rightarrow> ('db, 'f, 'o, 'c, 'm, 'p, 'pg, unit) wcomp" where
  "flush_published env [] = sret ()"
| "flush_published env (sid # sids) =
     sbind (szoom ww_data (\<lambda>d w. w\<lparr>ww_data := d\<rparr>) (in_cache (flush_slice (dv_cache (wv_data env)) sid))) (\<lambda>_.
     sbind (smod (on_fw (\<lambda>fw. fw\<lparr>fw_published_slices := removeAll sid (fw_published_slices fw)\<rparr>))) (\<lambda>_.
     flush_published env sids))"

definition flush_published_slices ::
  "('db, 'f, 'o, 'c, 'm, 'rm, 'vm, 'p, 'pg) writer_env \<Rightarrow> ('db, 'f, 'o, 'c, 'm, 'p, 'pg, unit) wcomp" where
  "flush_published_slices env = sbind (sget (\<lambda>w. fw_published_slices (ww_fw w))) (flush_published env)"

datatype durability = Local | Remote

definition flush_to ::
  "('db, 'f, 'o, 'c, 'm, 'rm, 'vm, 'p, 'pg) writer_env \<Rightarrow> clock \<Rightarrow> nat \<Rightarrow> durability \<Rightarrow>
   ('db, 'f, 'o, 'c, 'm, 'p, 'pg, unit option) wcomp" where
  "flush_to env clk fuel dur =
     sbind (finish_local env clk fuel) (\<lambda>res.
     case res of
       None \<Rightarrow> sret None
     | Some _ \<Rightarrow> if dur = Remote then sbind (flush_published_slices env) (\<lambda>_. sret (Some ())) else sret (Some ()))"

definition finish where "finish env clk fuel = flush_to env clk fuel Local"

definition sync_remote where "sync_remote env clk fuel = flush_to env clk fuel Remote"

end
