(* ===== verification/Writer_Control.thy ===== *)
theory Writer_Control
  imports File_Writer
begin

text \<open>
  The control state of a file writer: which slice writer is in which state, which requests are
  queued, which chunk writers are notified. The buffers, the page pool, the stage cache and the
  metadata do not matter here, so the operations on them are the identity.
\<close>

lemma state_from_as [simp]: "state_from_u8 (state_as_u8 s) = Some s"
  by (cases s) (simp_all add: state_from_u8_def)

record control =
  ct_slices :: "nat \<Rightarrow> (slice_writer_state \<times> nat) option"
  ct_chunks :: "(nat \<times> nat list) list"
  ct_queue :: "flush_req list"
  ct_alive :: bool
  ct_count :: nat
  ct_error :: "vfs_error option"
  ct_notified :: "nat set"

definition fw_control :: "'pg file_writer \<Rightarrow> control" where
  "fw_control fw = \<lparr> ct_slices = (\<lambda>q. map_option (\<lambda>s. (slw_state s, slw_chunk_index s)) (fw_slices fw q)),
     ct_chunks = fw_chunk_writers fw, ct_queue = fw_flush_queue fw, ct_alive = fw_flusher_alive fw,
     ct_count = fw_total_slice_writer_cnt fw, ct_error = fw_flush_error fw, ct_notified = fw_notified fw \<rparr>"

abbreviation control_of :: "('db, 'f, 'o, 'c, 'm, 'p, 'pg) writer_world \<Rightarrow> control" where
  "control_of w \<equiv> fw_control (ww_fw w)"

lemma fw_control_sel [simp]:
  "ct_slices (fw_control fw) q = map_option (\<lambda>s. (slw_state s, slw_chunk_index s)) (fw_slices fw q)"
  "ct_chunks (fw_control fw) = fw_chunk_writers fw" "ct_queue (fw_control fw) = fw_flush_queue fw"
  "ct_alive (fw_control fw) = fw_flusher_alive fw" "ct_count (fw_control fw) = fw_total_slice_writer_cnt fw"
  "ct_error (fw_control fw) = fw_flush_error fw" "ct_notified (fw_control fw) = fw_notified fw"
  by (simp_all add: fw_control_def)

lemma control_data [simp]: "control_of (w\<lparr>ww_data := d\<rparr>) = control_of w" "control_of (w\<lparr>ww_pool := p\<rparr>) = control_of w"
  by simp_all

lemma control_eqI:
  assumes "\<And>q. map_option (\<lambda>s. (slw_state s, slw_chunk_index s)) (fw_slices fw q) =
      map_option (\<lambda>s. (slw_state s, slw_chunk_index s)) (fw_slices fw' q)"
    "fw_chunk_writers fw = fw_chunk_writers fw'" "fw_flush_queue fw = fw_flush_queue fw'"
    "fw_flusher_alive fw = fw_flusher_alive fw'" "fw_total_slice_writer_cnt fw = fw_total_slice_writer_cnt fw'"
    "fw_flush_error fw = fw_flush_error fw'" "fw_notified fw = fw_notified fw'"
  shows "fw_control fw = fw_control fw'"
  using assms by (simp add: fw_control_def)

lemma control_on_slice:
  assumes "\<And>s. fw_slices fw q = Some s \<Longrightarrow> slw_state (g s) = slw_state s \<and> slw_chunk_index (g s) = slw_chunk_index s"
  shows "fw_control (on_slice q g fw) = fw_control fw"
  by (rule control_eqI) (use assms in \<open>auto simp: on_slice_def map_option_case split: option.splits\<close>)

lemma control_published [simp]: "fw_control (record_published_slice sid fw) = fw_control fw"
  by (rule control_eqI) (simp_all add: record_published_slice_def)

lemma in_buffer_control: "in_buffer q m w = (r, w') \<Longrightarrow> control_of w' = control_of w"
  by (auto simp: in_buffer_def the_slice_def sbind_eq szoom_eq on_fw_def intro!: control_on_slice)

lemma in_engine_control: "in_engine m w = (r, w') \<Longrightarrow> ww_fw w' = ww_fw w"
  by (auto simp: in_engine_def szoom_eq)

lemma the_slice_run: "the_slice q w = (r, w') \<longleftrightarrow> w' = w \<and> r = ok_or (fw_slices (ww_fw w) q) VPanicked"
  by (auto simp: the_slice_def)

lemma prepare_slice_id_control: "prepare_slice_id env q w = (r, w') \<Longrightarrow> control_of w' = control_of w"
  by (auto simp: prepare_slice_id_def sbind_eq the_slice_run on_fw_def split: if_splits
      dest!: in_engine_control intro!: control_on_slice)

lemma publish_slice_control: "publish_slice env clk s sid len w = (r, w') \<Longrightarrow> ww_fw w' = ww_fw w"
  by (auto simp: publish_slice_def dest!: in_engine_control)

section \<open>Changes of the control state\<close>

definition ct_state :: "control \<Rightarrow> nat \<Rightarrow> slice_writer_state option" where
  "ct_state c q = map_option fst (ct_slices c q)"

definition set_state :: "nat \<Rightarrow> slice_writer_state \<Rightarrow> control \<Rightarrow> control" where
  "set_state q st c = c\<lparr>ct_slices := (ct_slices c)(q := map_option (\<lambda>(_, ch). (st, ch)) (ct_slices c q))\<rparr>"

definition ct_notify :: "nat \<Rightarrow> control \<Rightarrow> control" where
  "ct_notify q c =
     (case ct_slices c q of
        None \<Rightarrow> c
      | Some (_, ch) \<Rightarrow> if map_of (ct_chunks c) ch \<noteq> None then c\<lparr>ct_notified := insert ch (ct_notified c)\<rparr> else c)"

definition ct_fail :: "vfs_error \<Rightarrow> control \<Rightarrow> control" where
  "ct_fail e c = (if ct_error c = None then c\<lparr>ct_error := Some e\<rparr> else c)"

lemma ct_state_fw: "ct_state (fw_control fw) q = map_option slw_state (fw_slices fw q)"
  by (simp add: ct_state_def option.map_comp comp_def)

lemma control_set_state: "fw_control (on_slice q (\<lambda>s. s\<lparr>slw_state := st\<rparr>) fw) = set_state q st (fw_control fw)"
  by (simp add: fw_control_def on_slice_def set_state_def fun_eq_iff option.map_comp comp_def)

lemma control_notify: "fw_control (notify_done q fw) = ct_notify q (fw_control fw)"
  by (cases "fw_slices fw q") (auto simp: notify_done_def ct_notify_def fw_control_def cw_alive_def)

lemma control_fail: "fw_control (record_flush_error e fw) = ct_fail e (fw_control fw)"
  by (simp add: fw_control_def record_flush_error_def ct_fail_def)

lemma cas_state_run:
  "cas_state q old new w = (r, w') \<longleftrightarrow>
     (case fw_slices (ww_fw w) q of
        None \<Rightarrow> r = Inl VPanicked \<and> w' = w
      | Some s \<Rightarrow> if slw_state s = old
                  then r = Inr True \<and> w' = on_fw (on_slice q (\<lambda>s. s\<lparr>slw_state := new\<rparr>)) w
                  else r = Inr False \<and> w' = w)"
  by (auto simp: cas_state_def sbind_eq the_slice_run split: option.splits)

text \<open>A successful exchange, seen on the control state.\<close>

lemma cas_state_control:
  assumes "cas_state q old new w = (r, w')" "ct_state (control_of w) q = Some old"
  shows "r = Inr True \<and> control_of w' = set_state q new (control_of w)"
  using assms by (auto simp: cas_state_run ct_state_fw on_fw_def control_set_state split: option.splits if_splits)

section \<open>The protocol\<close>

text \<open>
  What the tasks of a file do to the control state, as a step relation. The second component
  remembers for every slice writer in \<open>Writing\<close> the state its holder found it in.
\<close>

primrec target :: "flush_req \<Rightarrow> nat" where
  "target (FlushBulk q n) = q" | "target (FlushFull q) = q" | "target (CommitIdle q) = q"

primrec before_req :: "flush_req \<Rightarrow> slice_writer_state" where
  "before_req (FlushBulk q n) = Dirty" | "before_req (FlushFull q) = Dirty" | "before_req (CommitIdle q) = Idle"

primrec busy :: "flush_req \<Rightarrow> slice_writer_state" where
  "busy (FlushBulk q n) = Flushing" | "busy (FlushFull q) = Flushing" | "busy (CommitIdle q) = Committing"

text \<open>The state after the request was served, and the one after a failure.\<close>

primrec after_req :: "flush_req \<Rightarrow> slice_writer_state" where
  "after_req (FlushBulk q n) = Idle" | "after_req (FlushFull q) = Done" | "after_req (CommitIdle q) = Done"

definition uncount :: "slice_writer_state \<Rightarrow> control \<Rightarrow> control" where
  "uncount st c = (if st = Done then c\<lparr>ct_count := wrap_sub64 (ct_count c) 1\<rparr> else c)"

definition served :: "flush_req \<Rightarrow> control \<Rightarrow> control" where
  "served req c = ct_notify (target req) (set_state (target req) (after_req req) (uncount (after_req req) c))"

definition refused :: "flush_req \<Rightarrow> vfs_error \<Rightarrow> control \<Rightarrow> control" where
  "refused req e c = ct_notify (target req) (set_state (target req) (before_req req) (ct_fail e c))"

definition queued :: "flush_req \<Rightarrow> control \<Rightarrow> control" where
  "queued req c = (set_state (target req) (busy req) c)\<lparr>ct_queue := ct_queue c @ [req]\<rparr>"

definition created :: "nat \<Rightarrow> nat \<Rightarrow> control \<Rightarrow> control" where
  "created q ch c = c\<lparr>ct_slices := (ct_slices c)(q \<mapsto> (Writing, ch)),
     ct_chunks := map (\<lambda>(i, qs). (i, if i = ch then insort q (removeAll q qs) else qs)) (ct_chunks c),
     ct_count := wrap64 (ct_count c + 1)\<rparr>"

inductive protocol_step ::
  "control \<times> (nat \<Rightarrow> slice_writer_state option) \<Rightarrow> control \<times> (nat \<Rightarrow> slice_writer_state option) \<Rightarrow> bool" where
  ps_chunk: "map_of (ct_chunks c) ch = None \<Longrightarrow> protocol_step (c, h) (c\<lparr>ct_chunks := ct_chunks c @ [(ch, [])]\<rparr>, h)"
| ps_acquire: "ct_state c q = Some st \<Longrightarrow> st = Idle \<or> st = Dirty \<Longrightarrow>
    protocol_step (c, h) (set_state q Writing c, h(q \<mapsto> st))"
| ps_create: "ct_slices c q = None \<Longrightarrow> map_of (ct_chunks c) ch \<noteq> None \<Longrightarrow>
    protocol_step (c, h) (created q ch c, h(q \<mapsto> Idle))"
| ps_release: "h q = Some st \<Longrightarrow> st' = st \<or> st' = Dirty \<Longrightarrow>
    protocol_step (c, h) (set_state q st' c, h(q := None))"
| ps_release_notify: "h q = Some st \<Longrightarrow> protocol_step (c, h) (ct_notify q (set_state q st c), h(q := None))"
| ps_request: "ct_state c (target req) = Some (before_req req) \<Longrightarrow> ct_alive c \<Longrightarrow> protocol_step (c, h) (queued req c, h)"
| ps_request_lost: "ct_state c (target req) = Some (before_req req) \<Longrightarrow> \<not> ct_alive c \<Longrightarrow>
    protocol_step (c, h) (set_state (target req) (busy req) c, h)"
| ps_fail: "protocol_step (c, h) (ct_fail e c, h)"
| ps_serve: "ct_queue c = req # rest \<Longrightarrow> protocol_step (c, h) (served req (c\<lparr>ct_queue := rest\<rparr>), h)"
| ps_refuse: "ct_queue c = req # rest \<Longrightarrow> protocol_step (c, h) (refused req e (c\<lparr>ct_queue := rest\<rparr>), h)"
| ps_take_error: "protocol_step (c, h) (c\<lparr>ct_error := None\<rparr>, h)"
| ps_reap: "\<forall>q \<in> qs. ct_state c q = Some Done \<Longrightarrow>
    protocol_step (c, h) (c\<lparr>ct_chunks := map (\<lambda>(i, xs). (i, if i = ch then filter (\<lambda>q. q \<notin> qs) xs else xs)) (ct_chunks c)\<rparr>, h)"
| ps_permit: "protocol_step (c, h) (c\<lparr>ct_notified := ct_notified c - {ch}\<rparr>, h)"
| ps_clear: "\<forall>(ch, qs) \<in> set (ct_chunks c). qs = [] \<Longrightarrow> protocol_step (c, h) (c\<lparr>ct_chunks := [], ct_notified := {}\<rparr>, h)"
| ps_exit: "protocol_step (c, h) (c\<lparr>ct_alive := False, ct_queue := []\<rparr>, h)"

abbreviation "protocol_steps \<equiv> protocol_step\<^sup>*\<^sup>*"

text \<open>
  The invariant. A slice writer in \<open>Writing\<close> has one holder; one in \<open>Flushing\<close> or \<open>Committing\<close> has
  exactly one request in the queue of a live flusher; the counter counts the unfinished ones, and
  their chunk writer lists them.
\<close>

definition open_slices :: "control \<Rightarrow> nat set" where
  "open_slices c = {q. \<exists>st ch. ct_slices c q = Some (st, ch) \<and> st \<noteq> Done}"

definition holders_ok :: "control \<Rightarrow> (nat \<Rightarrow> slice_writer_state option) \<Rightarrow> bool" where
  "holders_ok c h \<longleftrightarrow>
     (\<forall>q. h q \<noteq> None \<longleftrightarrow> ct_state c q = Some Writing) \<and> (\<forall>q st. h q = Some st \<longrightarrow> st = Idle \<or> st = Dirty)"

definition queue_ok :: "control \<Rightarrow> bool" where
  "queue_ok c \<longleftrightarrow> distinct (map target (ct_queue c)) \<and>
     (\<forall>req \<in> set (ct_queue c). ct_state c (target req) = Some (busy req)) \<and>
     (ct_alive c \<longrightarrow> (\<forall>q. ct_state c q = Some Flushing \<or> ct_state c q = Some Committing \<longrightarrow>
        q \<in> target ` set (ct_queue c)))"

definition count_ok :: "control \<Rightarrow> bool" where
  "count_ok c \<longleftrightarrow> finite (open_slices c) \<and> ct_count c = wrap64 (card (open_slices c))"

definition lists_ok :: "control \<Rightarrow> bool" where
  "lists_ok c \<longleftrightarrow> distinct (map fst (ct_chunks c)) \<and>
     (\<forall>ch qs q. (ch, qs) \<in> set (ct_chunks c) \<longrightarrow> q \<in> set qs \<longrightarrow> (\<exists>st. ct_slices c q = Some (st, ch))) \<and>
     (\<forall>q st ch. ct_slices c q = Some (st, ch) \<longrightarrow> st \<noteq> Done \<longrightarrow> (\<exists>qs. (ch, qs) \<in> set (ct_chunks c) \<and> q \<in> set qs))"

definition control_inv :: "control \<Rightarrow> (nat \<Rightarrow> slice_writer_state option) \<Rightarrow> bool" where
  "control_inv c h \<longleftrightarrow> holders_ok c h \<and> queue_ok c \<and> count_ok c \<and> lists_ok c"

lemma set_state_sel [simp]:
  "ct_chunks (set_state q st c) = ct_chunks c" "ct_queue (set_state q st c) = ct_queue c"
  "ct_alive (set_state q st c) = ct_alive c" "ct_count (set_state q st c) = ct_count c"
  "ct_error (set_state q st c) = ct_error c" "ct_notified (set_state q st c) = ct_notified c"
  by (simp_all add: set_state_def)

lemma ct_state_set [simp]:
  "ct_state (set_state q st c) p = (if p = q then map_option (\<lambda>_. st) (ct_state c q) else ct_state c p)"
  by (auto simp: ct_state_def set_state_def option.map_comp comp_def split_def)

lemma ct_slices_set [simp]:
  "ct_slices (set_state q st c) p = (if p = q then map_option (\<lambda>(_, ch). (st, ch)) (ct_slices c q) else ct_slices c p)"
  by (simp add: set_state_def)

lemma ct_notify_sel [simp]:
  "ct_slices (ct_notify q c) = ct_slices c" "ct_chunks (ct_notify q c) = ct_chunks c" "ct_queue (ct_notify q c) = ct_queue c"
  "ct_alive (ct_notify q c) = ct_alive c" "ct_count (ct_notify q c) = ct_count c" "ct_error (ct_notify q c) = ct_error c"
  by (auto simp: ct_notify_def split: option.splits)

lemma ct_fail_sel [simp]:
  "ct_slices (ct_fail e c) = ct_slices c" "ct_chunks (ct_fail e c) = ct_chunks c" "ct_queue (ct_fail e c) = ct_queue c"
  "ct_alive (ct_fail e c) = ct_alive c" "ct_count (ct_fail e c) = ct_count c" "ct_notified (ct_fail e c) = ct_notified c"
  "ct_error (ct_fail e c) \<noteq> None"
  by (auto simp: ct_fail_def)

lemma uncount_sel [simp]:
  "ct_slices (uncount st c) = ct_slices c" "ct_chunks (uncount st c) = ct_chunks c" "ct_queue (uncount st c) = ct_queue c"
  "ct_alive (uncount st c) = ct_alive c" "ct_error (uncount st c) = ct_error c" "ct_notified (uncount st c) = ct_notified c"
  by (simp_all add: uncount_def)

lemma ct_state_cong [simp]:
  "ct_state (ct_notify q c) = ct_state c" "ct_state (ct_fail e c) = ct_state c" "ct_state (uncount st c) = ct_state c"
  "ct_state (c\<lparr>ct_queue := rest\<rparr>) = ct_state c" "ct_state (c\<lparr>ct_error := e'\<rparr>) = ct_state c"
  "ct_state (c\<lparr>ct_chunks := cs\<rparr>) = ct_state c" "ct_state (c\<lparr>ct_notified := ns\<rparr>) = ct_state c"
  "ct_state (c\<lparr>ct_alive := b\<rparr>) = ct_state c" "ct_state (c\<lparr>ct_count := n\<rparr>) = ct_state c"
  by (simp_all add: ct_state_def fun_eq_iff)

lemma ct_state_created [simp]: "ct_state (created q ch c) p = (if p = q then Some Writing else ct_state c p)"
  by (simp add: ct_state_def created_def)

lemma created_sel [simp]:
  "ct_queue (created q ch c) = ct_queue c" "ct_alive (created q ch c) = ct_alive c"
  "ct_error (created q ch c) = ct_error c" "ct_notified (created q ch c) = ct_notified c"
  by (simp_all add: created_def)

lemma ct_state_None [simp]: "ct_state c q = None \<longleftrightarrow> ct_slices c q = None"
  by (simp add: ct_state_def)

section \<open>The invariant holds\<close>

lemma busy_states: "busy req = Flushing \<or> busy req = Committing" "busy req \<noteq> Writing" "busy req \<noteq> Done" "busy req \<noteq> Idle"
  "busy req \<noteq> Dirty" "before_req req = Idle \<or> before_req req = Dirty" "before_req req \<noteq> Writing" "before_req req \<noteq> Done"
  "after_req req = Idle \<or> after_req req = Done" "after_req req \<noteq> Writing"
  by (cases req; simp)+

lemma holders_step:
  assumes "protocol_step x y" "holders_ok (fst x) (snd x)" "queue_ok (fst x)"
  shows "holders_ok (fst y) (snd y)"
  using assms(1)
proof cases
  case (ps_serve c req rest h)
  have "ct_state c (target req) = Some (busy req)" using assms(3) ps_serve by (auto simp: queue_ok_def)
  then show ?thesis using assms(2) ps_serve busy_states [of req] by (auto simp: holders_ok_def served_def)
next
  case (ps_refuse c req rest h e)
  have "ct_state c (target req) = Some (busy req)" using assms(3) ps_refuse by (auto simp: queue_ok_def)
  then show ?thesis using assms(2) ps_refuse busy_states [of req] by (auto simp: holders_ok_def refused_def)
next
  case (ps_request c req h)
  then show ?thesis using assms(2) busy_states [of req] by (auto simp: holders_ok_def queued_def)
next
  case (ps_request_lost c req h)
  then show ?thesis using assms(2) busy_states [of req] by (auto simp: holders_ok_def)
qed (use assms(2) in \<open>auto simp: holders_ok_def\<close>)

definition is_busy :: "slice_writer_state \<Rightarrow> bool" where
  "is_busy st \<longleftrightarrow> st = Flushing \<or> st = Committing"

lemma is_busy_simps [simp]:
  "is_busy (busy req)" "\<not> is_busy (before_req req)" "\<not> is_busy (after_req req)"
  "\<not> is_busy Idle" "\<not> is_busy Dirty" "\<not> is_busy Writing" "\<not> is_busy Done" "is_busy Flushing" "is_busy Committing"
  by (cases req; simp add: is_busy_def) (cases req; simp add: is_busy_def)+

lemma holders_held:
  assumes "holders_ok c h" "h q = Some st"
  shows "ct_state c q = Some Writing" "\<not> is_busy st" "st \<noteq> Done"
proof -
  show "ct_state c q = Some Writing" using assms by (auto simp: holders_ok_def)
  have "st = Idle \<or> st = Dirty" using assms unfolding holders_ok_def by blast
  then show "\<not> is_busy st" "st \<noteq> Done" by auto
qed

lemma queue_ok_alt:
  "queue_ok c \<longleftrightarrow> distinct (map target (ct_queue c)) \<and>
     (\<forall>req \<in> set (ct_queue c). ct_state c (target req) = Some (busy req)) \<and>
     (ct_alive c \<longrightarrow> (\<forall>q st. ct_state c q = Some st \<longrightarrow> is_busy st \<longrightarrow> q \<in> target ` set (ct_queue c)))"
  unfolding queue_ok_def is_busy_def by blast

lemma queue_ok_pop:
  assumes "queue_ok c" "ct_queue c = req # rest" "\<not> is_busy st"
    "ct_queue c' = rest" "ct_alive c' = ct_alive c" "ct_state c' = (ct_state c)(target req \<mapsto> st)"
  shows "queue_ok c'"
proof -
  have "target req \<notin> target ` set rest" using assms(1,2) by (simp add: queue_ok_alt)
  then have "\<forall>x \<in> set rest. target x \<noteq> target req" by (metis imageI)
  then show ?thesis using assms by (simp add: queue_ok_alt) blast
qed

lemma queue_ok_move:
  assumes "queue_ok c" "\<forall>st0. ct_state c q = Some st0 \<longrightarrow> \<not> is_busy st0" "\<not> is_busy st"
    "ct_queue c' = ct_queue c" "ct_alive c' = ct_alive c" "ct_state c' = (ct_state c)(q \<mapsto> st)"
  shows "queue_ok c'"
proof -
  have "\<forall>x \<in> set (ct_queue c). target x \<noteq> q" using assms(1,2) unfolding queue_ok_alt by (metis is_busy_simps(1))
  then show ?thesis using assms by (simp add: queue_ok_alt)
qed

lemma queue_ok_push:
  assumes "queue_ok c" "ct_state c (target req) = Some (before_req req)"
  shows "queue_ok (queued req c)"
proof -
  have "\<forall>x \<in> set (ct_queue c). target x \<noteq> target req"
    using assms unfolding queue_ok_alt by (metis is_busy_simps(1,2) option.inject)
  then show ?thesis using assms by (auto simp: queue_ok_alt queued_def)
qed

lemma queue_ok_lost:
  assumes "queue_ok c" "ct_state c (target req) = Some (before_req req)" "\<not> ct_alive c"
  shows "queue_ok (set_state (target req) (busy req) c)"
proof -
  have "\<forall>x \<in> set (ct_queue c). target x \<noteq> target req"
    using assms unfolding queue_ok_alt by (metis is_busy_simps(1,2) option.inject)
  then show ?thesis using assms by (simp add: queue_ok_alt)
qed

lemma queue_step:
  assumes "protocol_step x y" "holders_ok (fst x) (snd x)" "queue_ok (fst x)"
  shows "queue_ok (fst y)"
  using assms(1)
proof cases
  case (ps_serve c req rest h)
  have "ct_state c (target req) = Some (busy req)" using assms(3) ps_serve by (simp add: queue_ok_alt)
  then have "queue_ok (served req (c\<lparr>ct_queue := rest\<rparr>))"
    by - (rule queue_ok_pop [of c req rest "after_req req"], use assms(3) ps_serve in \<open>simp_all add: served_def fun_eq_iff\<close>)
  then show ?thesis using ps_serve by simp
next
  case (ps_refuse c req rest h e)
  have "ct_state c (target req) = Some (busy req)" using assms(3) ps_refuse by (simp add: queue_ok_alt)
  then have "queue_ok (refused req e (c\<lparr>ct_queue := rest\<rparr>))"
    by - (rule queue_ok_pop [of c req rest "before_req req"], use assms(3) ps_refuse in \<open>simp_all add: refused_def fun_eq_iff\<close>)
  then show ?thesis using ps_refuse by simp
next
  case (ps_request c req h)
  then show ?thesis using assms(3) queue_ok_push by simp
next
  case (ps_request_lost c req h)
  then show ?thesis using assms(3) queue_ok_lost by simp
next
  case (ps_acquire c q st h)
  then have "queue_ok (set_state q Writing c)"
    by - (rule queue_ok_move [of c q Writing], use assms(3) ps_acquire in \<open>auto simp: fun_eq_iff\<close>)
  then show ?thesis using ps_acquire by simp
next
  case (ps_create c q ch h)
  have "ct_state c q = None" using ps_create by simp
  then have "queue_ok (created q ch c)"
    by - (rule queue_ok_move [of c q Writing], use assms(3) ps_create in \<open>simp_all add: fun_eq_iff del: ct_state_None\<close>)
  then show ?thesis using ps_create by simp
next
  case (ps_release h q st st' c)
  then have "ct_state c q = Some Writing" "\<not> is_busy st'" using assms(2) holders_held [of c h q st] by auto
  then have "queue_ok (set_state q st' c)"
    by - (rule queue_ok_move [of c q st'], use assms(3) ps_release in \<open>auto simp: fun_eq_iff\<close>)
  then show ?thesis using ps_release by simp
next
  case (ps_release_notify h q st c)
  then have "ct_state c q = Some Writing" "\<not> is_busy st" using assms(2) holders_held [of c h q st] by auto
  then have "queue_ok (ct_notify q (set_state q st c))"
    by - (rule queue_ok_move [of c q st], use assms(3) ps_release_notify in \<open>auto simp: fun_eq_iff\<close>)
  then show ?thesis using ps_release_notify by simp
qed (use assms(3) in \<open>simp_all add: queue_ok_alt\<close>)

lemma open_slices_alt: "open_slices c = {q. \<exists>st. ct_state c q = Some st \<and> st \<noteq> Done}"
  by (force simp: open_slices_def ct_state_def)

lemma count_ok_same:
  assumes "count_ok c" "ct_count c' = ct_count c" "open_slices c' = open_slices c"
  shows "count_ok c'"
  using assms by (simp add: count_ok_def)

lemma open_slices_move:
  assumes "ct_state c q = Some st0" "st0 \<noteq> Done" "st \<noteq> Done" "ct_state c' = (ct_state c)(q \<mapsto> st)"
  shows "open_slices c' = open_slices c"
  using assms by (auto simp: open_slices_alt)

lemma wrap64_pred: "0 < n \<Longrightarrow> wrap_sub64 (wrap64 n) 1 = wrap64 (n - 1)"
  unfolding wrap_sub64_def wrap64_def by (cases n) (simp_all add: mod_Suc, presburger?)

lemma count_ok_close:
  assumes "count_ok c" "ct_state c q = Some st0" "st0 \<noteq> Done" "ct_state c' = (ct_state c)(q \<mapsto> Done)"
    "ct_count c' = wrap_sub64 (ct_count c) 1"
  shows "count_ok c'"
proof -
  have op: "open_slices c' = open_slices c - {q}" "q \<in> open_slices c" using assms by (auto simp: open_slices_alt)
  then have "0 < card (open_slices c)" using assms(1) by (auto simp: count_ok_def card_gt_0_iff)
  then show ?thesis using assms(1,5) op wrap64_pred [of "card (open_slices c)"] by (simp add: count_ok_def)
qed

lemma count_ok_create:
  assumes "count_ok c" "ct_slices c q = None"
  shows "count_ok (created q ch c)"
proof -
  have "open_slices (created q ch c) = insert q (open_slices c)" "q \<notin> open_slices c"
    using assms(2) by (auto simp: open_slices_def created_def)
  then show ?thesis using assms(1) by (simp add: count_ok_def created_def wrap64_def mod_Suc_eq)
qed

lemma count_step:
  assumes "protocol_step x y" "holders_ok (fst x) (snd x)" "queue_ok (fst x)" "count_ok (fst x)"
  shows "count_ok (fst y)"
  using assms(1)
proof cases
  case (ps_serve c req rest h)
  have st: "ct_state c (target req) = Some (busy req)" using assms(3) ps_serve by (simp add: queue_ok_alt)
  have "count_ok (served req (c\<lparr>ct_queue := rest\<rparr>))"
  proof (cases "after_req req = Done")
    case True
    show ?thesis
      by (rule count_ok_close [of c "target req" "busy req"])
        (use assms(4) ps_serve st True busy_states(3) in \<open>simp_all add: served_def uncount_def fun_eq_iff\<close>)
  next
    case False
    have "open_slices (served req (c\<lparr>ct_queue := rest\<rparr>)) = open_slices c"
      by (rule open_slices_move [of c "target req" "busy req" "after_req req"])
        (use st False busy_states(3) in \<open>simp_all add: served_def fun_eq_iff\<close>)
    then show ?thesis using assms(4) ps_serve False count_ok_same [of c] by (simp_all add: served_def uncount_def)
  qed
  then show ?thesis using ps_serve by simp
next
  case (ps_refuse c req rest h e)
  have st: "ct_state c (target req) = Some (busy req)" using assms(3) ps_refuse by (simp add: queue_ok_alt)
  have "open_slices (refused req e (c\<lparr>ct_queue := rest\<rparr>)) = open_slices c"
    by (rule open_slices_move [of c "target req" "busy req" "before_req req"])
      (use st busy_states in \<open>simp_all add: refused_def fun_eq_iff\<close>)
  then show ?thesis using assms(4) ps_refuse count_ok_same [of c] by (simp_all add: refused_def)
next
  case (ps_request c req h)
  have "open_slices (queued req c) = open_slices c"
    by (rule open_slices_move [of c "target req" "before_req req" "busy req"])
      (use ps_request busy_states in \<open>simp_all add: queued_def fun_eq_iff\<close>)
  then show ?thesis using assms(4) ps_request count_ok_same [of c] by (simp_all add: queued_def)
next
  case (ps_request_lost c req h)
  have "open_slices (set_state (target req) (busy req) c) = open_slices c"
    by (rule open_slices_move [of c "target req" "before_req req" "busy req"])
      (use ps_request_lost busy_states in \<open>simp_all add: fun_eq_iff\<close>)
  then show ?thesis using assms(4) ps_request_lost count_ok_same [of c] by simp_all
next
  case (ps_acquire c q st h)
  have "open_slices (set_state q Writing c) = open_slices c"
    by (rule open_slices_move [of c q st Writing]) (use ps_acquire in \<open>auto simp: fun_eq_iff\<close>)
  then show ?thesis using assms(4) ps_acquire count_ok_same [of c] by simp_all
next
  case (ps_create c q ch h)
  then show ?thesis using assms(4) count_ok_create by simp
next
  case (ps_release h q st st' c)
  then have "ct_state c q = Some Writing" "st' \<noteq> Done" using assms(2) holders_held [of c h q st] by auto
  then have "open_slices (set_state q st' c) = open_slices c"
    by (intro open_slices_move [of c q Writing st']) (simp_all add: fun_eq_iff)
  then show ?thesis using assms(4) ps_release count_ok_same [of c] by simp_all
next
  case (ps_release_notify h q st c)
  then have "ct_state c q = Some Writing" "st \<noteq> Done" using assms(2) holders_held [of c h q st] by auto
  then have "open_slices (ct_notify q (set_state q st c)) = open_slices c"
    by (intro open_slices_move [of c q Writing st]) (simp_all add: fun_eq_iff)
  then show ?thesis using assms(4) ps_release_notify count_ok_same [of c] by simp_all
qed (use assms(4) in \<open>simp_all add: count_ok_def open_slices_alt\<close>)

text \<open>A step that changes the states of listed slice writers only, none from \<open>Done\<close>.\<close>

lemma lists_ok_move:
  assumes "lists_ok c" "ct_slices c q = Some (st0, ch)" "st0 \<noteq> Done" "ct_chunks c' = ct_chunks c"
    "ct_slices c' = (ct_slices c)(q \<mapsto> (st, ch))"
  shows "lists_ok c'"
  using assms unfolding lists_ok_def fun_upd_apply by (metis (no_types, lifting) option.inject prod.inject)

lemma ct_state_slices: "ct_state c q = Some st \<Longrightarrow> \<exists>ch. ct_slices c q = Some (st, ch)"
  by (auto simp: ct_state_def)

lemma lists_listed:
  "lists_ok c \<Longrightarrow> ct_slices c q = Some (st, ch) \<Longrightarrow> st \<noteq> Done \<Longrightarrow> \<exists>qs. (ch, qs) \<in> set (ct_chunks c) \<and> q \<in> set qs"
  unfolding lists_ok_def by blast

lemma lists_ok_create:
  assumes "lists_ok c" "ct_slices c q = None" "map_of (ct_chunks c) ch \<noteq> None"
  shows "lists_ok (created q ch c)"
proof -
  let ?g = "\<lambda>(i, qs). (i, if i = ch then insort q (removeAll q qs) else qs)"
  have fst: "map fst (map ?g xs) = map fst xs" for xs :: "(nat \<times> nat list) list" by (induction xs) auto
  have mem: "(i, xs) \<in> set (map ?g (ct_chunks c)) \<longleftrightarrow>
      (\<exists>ys. (i, ys) \<in> set (ct_chunks c) \<and> xs = (if i = ch then insort q (removeAll q ys) else ys))" for i xs by force
  obtain qs where qs: "(ch, qs) \<in> set (ct_chunks c)" using assms(3) by (auto dest: map_of_SomeD)
  let ?c = "created q ch c"
  have sel: "ct_chunks ?c = map ?g (ct_chunks c)" "ct_slices ?c = (ct_slices c)(q \<mapsto> (Writing, ch))" by (simp_all add: created_def)
  have "\<exists>st. ct_slices ?c p = Some (st, i)" if "(i, xs) \<in> set (ct_chunks ?c)" "p \<in> set xs" for i xs p
    using that(2) assms(1,2) that(1) [unfolded sel mem]
    by (fastforce simp: sel lists_ok_def set_insort_key split: if_splits)
  moreover have "\<exists>xs. (i, xs) \<in> set (ct_chunks ?c) \<and> p \<in> set xs" if o: "ct_slices ?c p = Some (st, i)" "st \<noteq> Done" for p st i
  proof (cases "p = q")
    case True
    then show ?thesis using that(1) qs unfolding sel mem by (auto simp: set_insort_key)
  next
    case False
    then obtain xs where xs: "(i, xs) \<in> set (ct_chunks c)" "p \<in> set xs"
      using lists_listed [OF assms(1), of p st i] o by (auto simp: sel)
    have "p \<in> set (if i = ch then insort q (removeAll q xs) else xs)" using xs(2) False by (simp add: set_insort_key)
    then show ?thesis unfolding sel mem using xs(1) by blast
  qed
  moreover have "distinct (map fst (ct_chunks ?c))" using assms(1) by (simp only: sel fst lists_ok_def)
  ultimately show ?thesis unfolding lists_ok_def by blast
qed

lemma lists_ok_reap:
  assumes "lists_ok c" "\<forall>q \<in> qs. ct_state c q = Some Done"
  shows "lists_ok (c\<lparr>ct_chunks := map (\<lambda>(i, xs). (i, if i = ch then filter (\<lambda>q. q \<notin> qs) xs else xs)) (ct_chunks c)\<rparr>)"
proof -
  let ?g = "\<lambda>(i, xs). (i, if i = ch then filter (\<lambda>q. q \<notin> qs) xs else xs)"
  have fst: "map fst (map ?g xs) = map fst xs" for xs :: "(nat \<times> nat list) list" by (induction xs) auto
  have mem: "(i, xs) \<in> set (map ?g (ct_chunks c)) \<longleftrightarrow>
      (\<exists>ys. (i, ys) \<in> set (ct_chunks c) \<and> xs = (if i = ch then filter (\<lambda>q. q \<notin> qs) ys else ys))" for i xs by force
  let ?c = "c\<lparr>ct_chunks := map ?g (ct_chunks c)\<rparr>"
  have sel: "ct_chunks ?c = map ?g (ct_chunks c)" "ct_slices ?c = ct_slices c" by simp_all
  have "\<exists>st. ct_slices ?c p = Some (st, i)" if "(i, xs) \<in> set (ct_chunks ?c)" "p \<in> set xs" for i xs p
    using that(2) assms(1) that(1) [unfolded sel mem] by (fastforce simp: lists_ok_def split: if_splits)
  moreover have "\<exists>xs. (i, xs) \<in> set (ct_chunks ?c) \<and> p \<in> set xs" if o: "ct_slices ?c p = Some (st, i)" "st \<noteq> Done" for p st i
  proof -
    obtain xs where xs: "(i, xs) \<in> set (ct_chunks c)" "p \<in> set xs" using lists_listed [OF assms(1), of p st i] o by auto
    have "p \<notin> qs" using assms(2) that by (auto simp: ct_state_def)
    then have "p \<in> set (if i = ch then filter (\<lambda>q. q \<notin> qs) xs else xs)" using xs(2) by simp
    then show ?thesis unfolding sel mem using xs(1) by blast
  qed
  moreover have "distinct (map fst (ct_chunks ?c))" using assms(1) by (simp only: sel fst lists_ok_def)
  ultimately show ?thesis unfolding lists_ok_def by blast
qed

lemma lists_step:
  assumes "protocol_step x y" "holders_ok (fst x) (snd x)" "queue_ok (fst x)" "lists_ok (fst x)"
  shows "lists_ok (fst y)"
proof -
  have move: "lists_ok c'" if m: "lists_ok c" "ct_state c q = Some st0" "st0 \<noteq> Done" "ct_chunks c' = ct_chunks c"
      "\<And>p. ct_slices c' p = (if p = q then map_option (\<lambda>(_, ch). (st, ch)) (ct_slices c q) else ct_slices c p)" for c c' q st0 st
  proof -
    obtain ch where ch: "ct_slices c q = Some (st0, ch)" using ct_state_slices [OF m(2)] by blast
    show ?thesis by (rule lists_ok_move [OF m(1) ch m(3,4), of st]) (use m(5) ch in \<open>simp add: fun_eq_iff\<close>)
  qed
  show ?thesis using assms(1)
  proof cases
    case (ps_serve c req rest h)
    have "ct_state c (target req) = Some (busy req)" using assms(3) ps_serve by (simp add: queue_ok_alt)
    then show ?thesis using assms(4) ps_serve move [of c "target req" "busy req" _ "after_req req"] busy_states(3)
      by (simp add: served_def)
  next
    case (ps_refuse c req rest h e)
    have "ct_state c (target req) = Some (busy req)" using assms(3) ps_refuse by (simp add: queue_ok_alt)
    then show ?thesis using assms(4) ps_refuse move [of c "target req" "busy req" _ "before_req req"] busy_states(3)
      by (simp add: refused_def)
  next
    case (ps_request c req h)
    then show ?thesis using assms(4) move [of c "target req" "before_req req" _ "busy req"] busy_states(8)
      by (simp add: queued_def)
  next
    case (ps_request_lost c req h)
    then show ?thesis using assms(4) move [of c "target req" "before_req req" _ "busy req"] busy_states(8) by simp
  next
    case (ps_acquire c q st h)
    then show ?thesis using assms(4) move [of c q st _ Writing] by auto
  next
    case (ps_create c q ch h)
    then show ?thesis using assms(4) lists_ok_create by simp
  next
    case (ps_release h q st st' c)
    then show ?thesis using assms(2,4) holders_held(1) [of c h q st] move [of c q Writing _ st'] by simp
  next
    case (ps_release_notify h q st c)
    then show ?thesis using assms(2,4) holders_held(1) [of c h q st] move [of c q Writing _ st] by simp
  next
    case (ps_reap qs c h ch)
    then show ?thesis using assms(4) lists_ok_reap by simp
  next
    case (ps_chunk c ch h)
    then have "ch \<notin> fst ` set (ct_chunks c)" by (simp add: map_of_eq_None_iff)
    then show ?thesis using assms(4) ps_chunk by (fastforce simp: lists_ok_def)
  next
    case (ps_clear c h)
    then show ?thesis using assms(4) by (fastforce simp: lists_ok_def)
  qed (use assms(4) in \<open>simp_all add: lists_ok_def\<close>)
qed

lemma protocol_inv: "protocol_steps x y \<Longrightarrow> control_inv (fst x) (snd x) \<Longrightarrow> control_inv (fst y) (snd y)"
proof (induction rule: rtranclp_induct)
  case (step y z)
  then have "control_inv (fst y) (snd y)" by simp
  then show ?case
    using holders_step [OF step.hyps(2)] queue_step [OF step.hyps(2)] count_step [OF step.hyps(2)] lists_step [OF step.hyps(2)]
    by (simp add: control_inv_def)
qed

lemma control_inv_new: "control_inv (fw_control (file_writer_new i len)) Map.empty"
  by (simp add: control_inv_def holders_ok_def queue_ok_alt count_ok_def lists_ok_def open_slices_alt ct_state_fw
      file_writer_new_def wrap64_def)

end
