(* ===== verification/Writer_Refine.thy ===== *)
theory Writer_Refine
  imports Writer_Control
begin

text \<open>
  The operations of the write path refine the protocol: whatever they do to a file writer is a
  sequence of steps of \<open>protocol_step\<close>. So the invariant of the protocol holds in every state
  the tasks of a file can reach.
\<close>

lemmas run_simps = sbind_eq the_slice_run on_fw_def

section \<open>Slice writers\<close>

lemma slw_write_at_control:
  assumes "slw_write_at env q st off d w = (r, w')" "ct_state (control_of w) q = Some Writing"
  shows "(\<exists>n. r = Inr n \<and> control_of w' = set_state q (if n = 0 then st else Dirty) (control_of w)) \<or>
    (\<exists>e. r = Inl e \<and> control_of w' = ct_notify q (set_state q st (control_of w)))"
proof -
  obtain r1 w1 where b: "in_buffer q (sb_write_at (wv_pages env) off d) w = (r1, w1)" by fastforce
  have c1: "control_of w1 = control_of w" by (rule in_buffer_control [OF b])
  show ?thesis
  proof (cases r1)
    case (Inl e)
    obtain r2 w2 where cas: "cas_state q Writing st w1 = (r2, w2)" by fastforce
    then have "r2 = Inr True" "control_of w2 = set_state q st (control_of w)"
      using cas_state_control [OF cas] assms(2) c1 by simp_all
    then have "r = Inl e" "w' = on_fw (notify_done q) w2" "control_of w2 = set_state q st (control_of w)"
      using assms(1) b Inl cas by (simp_all add: slw_write_at_def sbind_def)
    then show ?thesis by (simp add: on_fw_def control_notify)
  next
    case (Inr n)
    obtain r2 w2 where cas: "cas_state q Writing (if n = 0 then st else Dirty) w1 = (r2, w2)" by fastforce
    then have "r2 = Inr True" "control_of w2 = set_state q (if n = 0 then st else Dirty) (control_of w)"
      using cas_state_control [OF cas] assms(2) c1 by simp_all
    then show ?thesis using assms(1) b Inr cas by (auto simp: slw_write_at_def sbind_def)
  qed
qed

lemma do_flush_bulk_control:
  assumes "do_flush_bulk env q n w = (r, w')" "ct_state (control_of w) q = Some Flushing"
  shows "r = Inr () \<and> control_of w' = ct_notify q (set_state q Idle (control_of w)) \<or>
    (\<exists>e. r = Inl e \<and> control_of w' = control_of w)"
proof -
  obtain r1 w1 where p: "prepare_slice_id env q w = (r1, w1)" by fastforce
  have c1: "control_of w1 = control_of w" by (rule prepare_slice_id_control [OF p])
  show ?thesis
  proof (cases r1)
    case (Inl e)
    then show ?thesis using assms(1) p c1 by (auto simp: do_flush_bulk_def sbind_def)
  next
    case (Inr sid)
    obtain r2 w2 where b: "in_buffer q (sb_stage (dv_cache (wv_data env)) (wv_pages env) sid n) w1 = (r2, w2)" by fastforce
    have c2: "control_of w2 = control_of w" using in_buffer_control [OF b] c1 by simp
    obtain r3 w3 where cas: "cas_state q Flushing Idle w2 = (r3, w3)" by fastforce
    then have c3: "r3 = Inr True" "control_of w3 = set_state q Idle (control_of w)"
      using cas_state_control [OF cas] assms(2) c2 by simp_all
    show ?thesis using assms(1) p Inr b cas c2 c3
      by (cases r2) (auto simp: do_flush_bulk_def sbind_def on_fw_def control_notify)
  qed
qed

lemma slice_done_control:
  assumes "slice_done q st w = (r, w')" "ct_state (control_of w) q = Some st"
  shows "r = Inr () \<and> control_of w' = ct_notify q (set_state q Done (uncount Done (control_of w)))"
proof -
  let ?w1 = "on_fw (\<lambda>fw. fw\<lparr>fw_total_slice_writer_cnt := wrap_sub64 (fw_total_slice_writer_cnt fw) 1\<rparr>) w"
  have c1: "control_of ?w1 = uncount Done (control_of w)" by (simp add: on_fw_def fw_control_def uncount_def)
  obtain r3 w3 where cas: "cas_state q st Done ?w1 = (r3, w3)" by fastforce
  then have "r3 = Inr True" "control_of w3 = set_state q Done (uncount Done (control_of w))"
    using cas_state_control [OF cas] assms(2) c1 by (simp_all del: fw_control_sel)
  then show ?thesis using assms(1) cas by (auto simp: slice_done_def sbind_def on_fw_def control_notify)
qed

lemma flush_and_commit_control:
  assumes "flush_and_commit env clk q w = (r, w')" "ct_state (control_of w) q = Some Flushing"
  shows "r = Inr () \<and> control_of w' = ct_notify q (set_state q Done (uncount Done (control_of w))) \<or>
    (\<exists>e. r = Inl e \<and> control_of w' = control_of w)"
proof -
  obtain r1 w1 where p: "prepare_slice_id env q w = (r1, w1)" by fastforce
  have c1: "control_of w1 = control_of w" by (rule prepare_slice_id_control [OF p])
  show ?thesis
  proof (cases r1)
    case (Inl e)
    then show ?thesis using assms(1) p c1 by (auto simp: flush_and_commit_def sbind_def)
  next
    case (Inr sid)
    obtain r2 w2 where b: "in_buffer q (flush_v2 (dv_cache (wv_data env)) (wv_pages env) sid) w1 = (r2, w2)" by fastforce
    have c2: "control_of w2 = control_of w" using in_buffer_control [OF b] c1 by simp
    obtain s where s: "fw_slices (ww_fw w2) q = Some s" using assms(2) c2 by (metis ct_state_fw map_option_eq_Some)
    obtain r3 w3 where pub: "publish_slice env clk s sid (sb_length (slw_buffer s)) w2 = (r3, w3)" by fastforce
    have c3: "control_of w3 = control_of w" using publish_slice_control [OF pub] c2 by simp
    let ?w4 = "on_fw (record_published_slice sid) w3"
    have c4: "control_of ?w4 = control_of w" using c3 by (simp add: on_fw_def)
    obtain r5 w5 where sd: "slice_done q Flushing ?w4 = (r5, w5)" by fastforce
    have c5: "r5 = Inr ()" "control_of w5 = ct_notify q (set_state q Done (uncount Done (control_of w)))"
      using slice_done_control [OF sd] assms(2) c4 by simp_all
    show ?thesis using assms(1) p Inr b pub sd c2 c3 c5 s
      by (cases r2; cases r3) (auto simp: flush_and_commit_def sbind_def the_slice_def split: if_splits)
  qed
qed

lemma commit_partial_control:
  assumes "commit_partial env clk q w = (r, w')" "ct_state (control_of w) q = Some Committing"
  shows "r = Inr () \<and> control_of w' = ct_notify q (set_state q Done (uncount Done (control_of w))) \<or>
    (\<exists>e. r = Inl e \<and> control_of w' = control_of w)"
proof -
  obtain s where s: "fw_slices (ww_fw w) q = Some s" using assms(2) by (metis ct_state_fw map_option_eq_Some)
  let ?m = "if sb_length (slw_buffer s) \<noteq> 0
            then sbind (publish_slice env clk s (slw_slice_id s) (sb_length (slw_buffer s)))
                   (\<lambda>_. smod (on_fw (record_published_slice (slw_slice_id s)))) else sret ()"
  obtain r1 w1 where m: "?m w = (r1, w1)" by fastforce
  have c1: "control_of w1 = control_of w"
    using m by (auto simp: sbind_eq on_fw_def split: if_splits dest: publish_slice_control)
  obtain r2 w2 where sd: "slice_done q Committing w1 = (r2, w2)" by fastforce
  have c2: "r2 = Inr ()" "control_of w2 = ct_notify q (set_state q Done (uncount Done (control_of w)))"
    using slice_done_control [OF sd] assms(2) c1 by simp_all
  have run: "commit_partial env clk q w =
      (if cw_alive (slw_chunk_index s) (ww_fw w) then sbind ?m (\<lambda>_. slice_done q Committing) w else (Inl VPanicked, w))"
    using s by (simp add: commit_partial_def sbind_def the_slice_def Let_def)
  show ?thesis using assms(1) m sd c1 c2 unfolding run by (cases r1) (auto simp: sbind_def split: if_splits)
qed

text \<open>The flusher serves a request or refuses it; it never ends with an error of its own.\<close>

lemma reset_flush_control:
  assumes "ct_state c q = Some Flushing" "control_of w = ct_fail e c" "reset_after_flush_failure q w = (r, w')"
  shows "r = Inr () \<and> control_of w' = ct_notify q (set_state q Dirty (ct_fail e c))"
proof -
  obtain r1 w1 where cas: "cas_state q Flushing Dirty w = (r1, w1)" by fastforce
  have "ct_state (control_of w) q = Some Flushing" using assms(1,2) by simp
  then have c1: "r1 = Inr True" "control_of w1 = set_state q Dirty (ct_fail e c)"
    using cas_state_control [OF cas] assms(2) by simp_all
  then have "r = Inr ()" "w' = on_fw (notify_done q) w1"
    using assms(3) cas by (simp_all add: reset_after_flush_failure_def sbind_def)
  then show ?thesis using c1 by (simp add: on_fw_def control_notify)
qed

lemma reset_commit_control:
  assumes "ct_state c q = Some Committing" "control_of w = ct_fail e c" "reset_after_commit_failure q w = (r, w')"
  shows "r = Inr () \<and> control_of w' = ct_notify q (set_state q Idle (ct_fail e c))"
proof -
  obtain r1 w1 where cas: "cas_state q Committing Idle w = (r1, w1)" by fastforce
  have "ct_state (control_of w) q = Some Committing" using assms(1,2) by simp
  then have c1: "r1 = Inr True" "control_of w1 = set_state q Idle (ct_fail e c)"
    using cas_state_control [OF cas] assms(2) by simp_all
  then have "r = Inr ()" "w' = on_fw (notify_done q) w1"
    using assms(3) cas by (simp_all add: reset_after_commit_failure_def sbind_def)
  then show ?thesis using c1 by (simp add: on_fw_def control_notify)
qed

lemma on_error_run:
  assumes "on_error m (\<lambda>e. sbind (smod (on_fw (record_flush_error e))) (\<lambda>_. h)) w = (r, w')"
    "\<And>r1 w1. m w = (r1, w1) \<Longrightarrow> r1 = Inr () \<and> P w1 \<or> (\<exists>e. r1 = Inl e \<and> control_of w1 = control_of w)"
    "\<And>e w1 r2 w2. control_of w1 = ct_fail e (control_of w) \<Longrightarrow> h w1 = (r2, w2) \<Longrightarrow> r2 = Inr () \<and> Q e w2"
  shows "r = Inr () \<and> (P w' \<or> (\<exists>e. Q e w'))"
proof -
  obtain r1 w1 where m: "m w = (r1, w1)" by fastforce
  show ?thesis
  proof (cases r1)
    case (Inr x)
    then show ?thesis using assms(1,2) m by (auto simp: on_error_def)
  next
    case (Inl e)
    then have c1: "control_of w1 = control_of w" using assms(2) m by auto
    let ?w2 = "on_fw (record_flush_error e) w1"
    have "control_of ?w2 = ct_fail e (control_of w)" using c1 by (simp add: on_fw_def control_fail)
    moreover obtain r3 w3 where h: "h ?w2 = (r3, w3)" by fastforce
    ultimately have "r3 = Inr () \<and> Q e w3" using assms(3) by blast
    then show ?thesis using assms(1) m Inl h by (auto simp: on_error_def sbind_def)
  qed
qed

lemma uncount_Idle: "uncount Idle c = c"
  by (simp add: uncount_def)

lemma serve_req_control:
  assumes "serve_req env clk req w = (r, w')" "ct_state (control_of w) (target req) = Some (busy req)"
  shows "r = Inr () \<and> (control_of w' = served req (control_of w) \<or> (\<exists>e. control_of w' = refused req e (control_of w)))"
proof (cases req)
  case (FlushBulk q n)
  have st: "ct_state (control_of w) q = Some Flushing" using assms(2) FlushBulk by simp
  have run: "on_error (do_flush_bulk env q n) (\<lambda>e. sbind (smod (on_fw (record_flush_error e)))
      (\<lambda>_. reset_after_flush_failure q)) w = (r, w')"
    using assms(1) FlushBulk by (simp add: serve_req_def)
  show ?thesis unfolding served_def refused_def FlushBulk target.simps after_req.simps before_req.simps uncount_Idle
    by (rule on_error_run [OF run])
      (erule do_flush_bulk_control [OF _ st], erule (1) reset_flush_control [OF st])
next
  case (FlushFull q)
  have st: "ct_state (control_of w) q = Some Flushing" using assms(2) FlushFull by simp
  have run: "on_error (flush_and_commit env clk q) (\<lambda>e. sbind (smod (on_fw (record_flush_error e)))
      (\<lambda>_. reset_after_flush_failure q)) w = (r, w')"
    using assms(1) FlushFull by (simp add: serve_req_def)
  show ?thesis unfolding served_def refused_def FlushFull target.simps after_req.simps before_req.simps
    by (rule on_error_run [OF run]) (erule flush_and_commit_control [OF _ st], erule (1) reset_flush_control [OF st])
next
  case (CommitIdle q)
  have st: "ct_state (control_of w) q = Some Committing" using assms(2) CommitIdle by simp
  have run: "on_error (commit_partial env clk q) (\<lambda>e. sbind (smod (on_fw (record_flush_error e)))
      (\<lambda>_. reset_after_commit_failure q)) w = (r, w')"
    using assms(1) CommitIdle by (simp add: serve_req_def)
  show ?thesis unfolding served_def refused_def CommitIdle target.simps after_req.simps before_req.simps
    by (rule on_error_run [OF run]) (erule commit_partial_control [OF _ st], erule (1) reset_commit_control [OF st])
qed

lemma flusher_turn_control:
  assumes "flusher_turn env clk w = (r, w')" "queue_ok (control_of w)"
  shows "r = Inr () \<and>
    (case fw_flush_queue (ww_fw w) of
       [] \<Rightarrow> w' = w
     | req # rest \<Rightarrow> control_of w' = served req ((control_of w)\<lparr>ct_queue := rest\<rparr>) \<or>
         (\<exists>e. control_of w' = refused req e ((control_of w)\<lparr>ct_queue := rest\<rparr>)))"
proof (cases "fw_flush_queue (ww_fw w)")
  case Nil
  then show ?thesis using assms(1) by (auto simp: flusher_turn_def)
next
  case (Cons req rest)
  let ?w1 = "on_fw (\<lambda>fw. fw\<lparr>fw_flush_queue := rest\<rparr>) w"
  have c1: "control_of ?w1 = (control_of w)\<lparr>ct_queue := rest\<rparr>" by (simp add: on_fw_def fw_control_def)
  have "ct_state (control_of w) (target req) = Some (busy req)" using assms(2) Cons by (simp add: queue_ok_alt)
  then have "ct_state (control_of ?w1) (target req) = Some (busy req)" unfolding c1 by simp
  moreover have "serve_req env clk req ?w1 = (r, w')" using assms(1) Cons by (simp add: flusher_turn_def)
  ultimately show ?thesis using serve_req_control [of env clk req ?w1 r w'] Cons unfolding c1 by simp
qed

lemma flusher_turn_steps:
  assumes "flusher_turn env clk w = (r, w')" "control_inv (control_of w) h"
  shows "r = Inr () \<and> protocol_steps (control_of w, h) (control_of w', h)"
proof -
  have "queue_ok (control_of w)" using assms(2) by (simp add: control_inv_def)
  note run = flusher_turn_control [OF assms(1) this]
  show ?thesis
  proof (cases "fw_flush_queue (ww_fw w)")
    case (Cons req rest)
    then have "ct_queue (control_of w) = req # rest" by simp
    then show ?thesis using run Cons ps_serve [of "control_of w" req rest h] ps_refuse [of "control_of w" req rest h] by auto
  qed (use run in auto)
qed

section \<open>Requests\<close>

lemma cas_req_run:
  assumes "cas_req q old new req w = (r, w')" "fw_slices (ww_fw w) q = Some s" "slw_state s = old"
  shows "r = Inr (Some req) \<and> control_of w' = set_state q new (control_of w)"
  using assms by (auto simp: cas_req_def sbind_eq cas_state_run on_fw_def control_set_state)

lemma make_flush_req_control:
  assumes "make_flush_req q seq fin w = (r, w')" "fw_slices (ww_fw w) q = Some s"
  shows "r = Inr None \<and> w' = w \<and> (fin \<longrightarrow> slw_state s \<noteq> Idle \<and> slw_state s \<noteq> Dirty) \<or>
    (\<exists>req. r = Inr (Some req) \<and> target req = q \<and> slw_state s = before_req req \<and>
      control_of w' = set_state q (busy req) (control_of w))"
proof (cases "slw_state s")
  case Idle
  then show ?thesis using assms cas_req_run [of q Idle Committing "CommitIdle q" w r w' s]
    by (auto simp: make_flush_req_def sbind_eq the_slice_run split: if_splits intro: exI [of _ "CommitIdle q"])
next
  case Dirty
  let ?len = "sb_length (slw_buffer s)"
  consider "fin \<or> ?len = CHUNK_SIZE" "cas_req q Dirty Flushing (FlushFull q) w = (r, w')"
    | "\<not> fin" "cas_req q Dirty Flushing (FlushBulk q ?len) w = (r, w')" | "\<not> fin" "r = Inr None" "w' = w"
    using assms Dirty by (auto simp: make_flush_req_def sbind_eq the_slice_run Let_def split: if_splits)
  then show ?thesis
  proof cases
    case 1
    then show ?thesis using cas_req_run [OF 1(2) assms(2) Dirty] Dirty by (auto intro: exI [of _ "FlushFull q"])
  next
    case 2
    then show ?thesis using cas_req_run [OF 2(2) assms(2) Dirty] Dirty by (auto intro: exI [of _ "FlushBulk q ?len"])
  qed simp
qed (use assms in \<open>auto simp: make_flush_req_def sbind_eq the_slice_run\<close>)

lemma send_req_control:
  "send_req req w = (r, w') \<Longrightarrow>
     (if fw_flusher_alive (ww_fw w)
      then r = Inr True \<and> control_of w' = (control_of w)\<lparr>ct_queue := ct_queue (control_of w) @ [req]\<rparr>
      else r = Inr False \<and> w' = w)"
  by (auto simp: send_req_def sbind_eq on_fw_def fw_control_def split: if_splits)

text \<open>Asking for a flush: the request is queued, or lost with the flusher.\<close>

lemma request_control:
  assumes "fw_slices (ww_fw w) q = Some s" "target req = q" "slw_state s = before_req req"
    "control_of w1 = set_state q (busy req) (control_of w)" "send_req req w1 = (r, w2)"
  shows "if fw_flusher_alive (ww_fw w) then r = Inr True \<and> control_of w2 = queued req (control_of w)
    else r = Inr False \<and> control_of w2 = set_state q (busy req) (control_of w)"
proof -
  have "fw_flusher_alive (ww_fw w1) = fw_flusher_alive (ww_fw w)" "ct_queue (control_of w1) = ct_queue (control_of w)"
    using arg_cong [OF assms(4), of ct_alive] arg_cong [OF assms(4), of ct_queue] by simp_all
  then show ?thesis using send_req_control [OF assms(5)] assms(2,4) by (auto simp: queued_def split: if_splits)
qed

lemma request_step:
  assumes "fw_slices (ww_fw w) q = Some s" "target req = q" "slw_state s = before_req req"
    "control_of w1 = set_state q (busy req) (control_of w)" "send_req req w1 = (r, w2)"
  shows "protocol_step (control_of w, h) (control_of w2, h)"
proof -
  have "ct_state (control_of w) (target req) = Some (before_req req)" using assms(1-3) by (simp add: ct_state_fw)
  then show ?thesis using request_control [OF assms] assms(2) ps_request [of "control_of w" req h] ps_request_lost [of "control_of w" req h]
    by (simp split: if_splits)
qed

lemma steps_trans: "protocol_step x y \<Longrightarrow> protocol_steps y z \<Longrightarrow> protocol_steps x z"
  by (rule converse_rtranclp_into_rtranclp)

lemma ct_dom_step: "ct_slices (set_state q st c) p = None \<longleftrightarrow> ct_slices c p = None"
  by (auto simp: set_state_def)

text \<open>Requests keep the slice writers that exist.\<close>

lemma request_dom:
  assumes "fw_slices (ww_fw w) q = Some s" "target req = q" "slw_state s = before_req req"
    "control_of w1 = set_state q (busy req) (control_of w)" "send_req req w1 = (r, w2)"
  shows "fw_slices (ww_fw w2) p = None \<longleftrightarrow> fw_slices (ww_fw w) p = None"
proof -
  have "ct_slices (queued req (control_of w)) = ct_slices (set_state q (busy req) (control_of w))"
    by (simp add: queued_def assms(2) del: fw_control_sel)
  moreover have "control_of w2 = queued req (control_of w) \<or> control_of w2 = set_state q (busy req) (control_of w)"
    using request_control [OF assms] by (metis (full_types))
  ultimately have "ct_slices (control_of w2) p = ct_slices (set_state q (busy req) (control_of w)) p" by metis
  then have "ct_slices (control_of w2) p = None \<longleftrightarrow> ct_slices (control_of w) p = None" by (simp only: ct_dom_step)
  then show ?thesis by simp
qed

lemma request_chunks:
  assumes "fw_slices (ww_fw w) q = Some s" "target req = q" "slw_state s = before_req req"
    "control_of w1 = set_state q (busy req) (control_of w)" "send_req req w1 = (r, w2)"
  shows "fw_chunk_writers (ww_fw w2) = fw_chunk_writers (ww_fw w)"
proof -
  have "control_of w2 = queued req (control_of w) \<or> control_of w2 = set_state q (busy req) (control_of w)"
    using request_control [OF assms] by (metis (full_types))
  then have "ct_chunks (control_of w2) = ct_chunks (control_of w)" by (elim disjE) (simp_all only: queued_def, simp_all)
  then show ?thesis by simp
qed

section \<open>Finding a slice writer\<close>

definition same_dom :: "('db, 'f, 'o, 'c, 'm, 'p, 'pg) writer_world \<Rightarrow> ('db, 'f, 'o, 'c, 'm, 'p, 'pg) writer_world \<Rightarrow> bool" where
  "same_dom w w' \<longleftrightarrow> (\<forall>p. fw_slices (ww_fw w') p = None \<longleftrightarrow> fw_slices (ww_fw w) p = None) \<and>
     fw_chunk_writers (ww_fw w') = fw_chunk_writers (ww_fw w)"

definition found_ok where
  "found_ok h w r w' \<longleftrightarrow>
     r = Inr None \<and> protocol_steps (control_of w, h) (control_of w', h) \<and> same_dom w w' \<or>
     (\<exists>q st. r = Inr (Some (q, st)) \<and> protocol_steps (control_of w, h) (control_of w', h(q \<mapsto> st)))"

lemma found_trans:
  assumes "found_ok h w1 r w'" "same_dom w w1" "protocol_steps (control_of w, h) (control_of w1, h)"
  shows "found_ok h w r w'"
proof -
  have "same_dom w w'" if "same_dom w1 w'" using that assms(2) by (simp add: same_dom_def)
  then show ?thesis using assms(1) rtranclp_trans [OF assms(3)] unfolding found_ok_def by blast
qed

lemma find_slice_loop_steps:
  assumes "find_slice_loop l idx qs w = (r, w')" "\<forall>q \<in> set qs. fw_slices (ww_fw w) q \<noteq> None"
  shows "found_ok h w r w'"
  using assms
proof (induction qs arbitrary: idx w)
  case (Cons q qs)
  obtain s where s: "fw_slices (ww_fw w) q = Some s" using Cons.prems(2) by auto
  have rest: "\<forall>q \<in> set qs. fw_slices (ww_fw w) q \<noteq> None" using Cons.prems(2) by simp
  have next_ok: ?case if n: "find_slice_loop l (Suc idx) qs w1 = (r, w')"
      "same_dom w w1" "protocol_steps (control_of w, h) (control_of w1, h)" for w1
  proof (rule found_trans [OF Cons.IH [OF n(1)] n(2,3)])
    show "\<forall>q \<in> set qs. fw_slices (ww_fw w1) q \<noteq> None" using rest n(2) unfolding same_dom_def by blast
  qed
  consider (skip) "find_slice_loop l (Suc idx) qs w = (r, w')"
    | (take) "slw_state s = Idle \<or> slw_state s = Dirty" "sbind (cas_state q (slw_state s) Writing) (\<lambda>ok.
          if ok then sret (Some (q, slw_state s)) else find_slice_loop l (Suc idx) qs) w = (r, w')"
    | (early) seq where "sbind (make_flush_req q seq True) (\<lambda>req.
          sbind (case req of
                   None \<Rightarrow> sret ()
                 | Some req \<Rightarrow>
                     sbind (send_req req) (\<lambda>sent.
                     if sent then sret () else smod (on_fw (record_flush_error (VLibc EIO))))) (\<lambda>_.
          find_slice_loop l (Suc idx) qs)) w = (r, w')"
    using Cons.prems(1) s by (auto simp: sbind_def the_slice_def Let_def split: if_splits)
  then show ?case
  proof cases
    case skip
    then show ?thesis by (rule next_ok) (simp_all add: same_dom_def)
  next
    case take
    have st: "ct_state (control_of w) q = Some (slw_state s)" using s by (simp add: ct_state_fw)
    obtain r1 w1 where cas: "cas_state q (slw_state s) Writing w = (r1, w1)" by fastforce
    have c1: "r1 = Inr True" "control_of w1 = set_state q Writing (control_of w)" using cas_state_control [OF cas st] by simp_all
    then have "r = Inr (Some (q, slw_state s))" "w' = w1" using take(2) cas by (simp_all add: sbind_def)
    then show ?thesis using ps_acquire [OF st take(1), of h] c1 by (auto simp: found_ok_def)
  next
    case early
    obtain r1 w1 where mk: "make_flush_req q seq True w = (r1, w1)" by fastforce
    from make_flush_req_control [OF mk s] show ?thesis
    proof (elim disjE exE conjE)
      assume "r1 = Inr None" "w1 = w"
      then show ?thesis using early mk by (intro next_ok [of w]) (simp_all add: sbind_def same_dom_def)
    next
      fix req assume req: "r1 = Inr (Some req)" "target req = q" "slw_state s = before_req req"
        "control_of w1 = set_state q (busy req) (control_of w)"
      obtain r2 w2 where snd: "send_req req w1 = (r2, w2)" by fastforce
      note step = request_step [OF s req(2-4) snd, of h] and dom = request_dom [OF s req(2-4) snd] request_chunks [OF s req(2-4) snd]
      obtain sent where r2: "r2 = Inr sent" using request_control [OF s req(2-4) snd] by (auto split: if_splits)
      let ?w3 = "if sent then w2 else on_fw (record_flush_error (VLibc EIO)) w2"
      have "find_slice_loop l (Suc idx) qs ?w3 = (r, w')" using early mk req(1) snd r2 by (cases sent) (simp_all add: sbind_def)
      moreover have "protocol_steps (control_of w, h) (control_of ?w3, h)"
        using step ps_fail [of "control_of w2" h "VLibc EIO"] by (auto simp: on_fw_def control_fail intro: steps_trans)
      moreover have "same_dom w ?w3" using dom by (simp add: same_dom_def on_fw_def record_flush_error_def)
      ultimately show ?thesis by (intro next_ok)
    qed
  qed
qed (simp add: found_ok_def same_dom_def)

lemma chunk_slices_listed:
  assumes "control_inv (control_of w) h" "q \<in> set (chunk_slices c (ww_fw w))"
  shows "\<exists>s. fw_slices (ww_fw w) q = Some s"
proof -
  obtain qs where "(c, qs) \<in> set (ct_chunks (control_of w))" "q \<in> set qs"
    using assms(2) map_of_SomeD [of "fw_chunk_writers (ww_fw w)" c]
    by (cases "map_of (fw_chunk_writers (ww_fw w)) c") (auto simp: chunk_slices_def)
  then obtain st where "ct_slices (control_of w) q = Some (st, c)"
    using assms(1) unfolding control_inv_def lists_ok_def by blast
  then show ?thesis by auto
qed

lemma ensure_chunk_control:
  "fw_control (ensure_chunk_writer c fw) =
     (if map_of (ct_chunks (fw_control fw)) c = None
      then (fw_control fw)\<lparr>ct_chunks := ct_chunks (fw_control fw) @ [(c, [])]\<rparr> else fw_control fw)"
  by (simp add: ensure_chunk_writer_def cw_alive_def fw_control_def)

lemma ensure_chunk_step:
  "protocol_steps (control_of w, h) (control_of (on_fw (ensure_chunk_writer c) w), h)"
  using ps_chunk [of "control_of w" c h] by (auto simp: on_fw_def ensure_chunk_control)

lemma ensure_chunk_alive: "map_of (fw_chunk_writers (ensure_chunk_writer c fw)) c \<noteq> None"
  by (auto simp: ensure_chunk_writer_def cw_alive_def map_add_def split: option.splits)

lemma add_slice_writer_control: "fw_control (add_slice_writer q l fw) = created q (cx_chunk_idx l) (fw_control fw)"
  by (simp add: add_slice_writer_def on_chunk_def slice_writer_new_def fw_control_def created_def fun_eq_iff)

lemma find_writable_steps:
  assumes "find_writable_slice_writer q l w = (r, w')" "control_inv (control_of w) h" "fw_slices (ww_fw w) q = None"
  shows "\<exists>p st. r = Inr (p, st) \<and> protocol_steps (control_of w, h) (control_of w', h(p \<mapsto> st))"
proof -
  let ?c = "cx_chunk_idx l"
  let ?w1 = "on_fw (ensure_chunk_writer ?c) w"
  note steps1 = ensure_chunk_step [of w h ?c]
  have inv1: "control_inv (control_of ?w1) h" using protocol_inv [OF steps1] assms(2) by simp
  have new1: "fw_slices (ww_fw ?w1) q = None" using assms(3) by (simp add: on_fw_def ensure_chunk_writer_def)
  obtain r2 w2 where loop: "find_slice_loop l 0 (rev (chunk_slices ?c (ww_fw ?w1))) ?w1 = (r2, w2)" by fastforce
  have "\<forall>q \<in> set (rev (chunk_slices ?c (ww_fw ?w1))). fw_slices (ww_fw ?w1) q \<noteq> None"
    using chunk_slices_listed [OF inv1] by force
  from find_slice_loop_steps [OF loop this, of h] show ?thesis unfolding found_ok_def
  proof (elim disjE exE conjE)
    assume none: "r2 = Inr None" and steps2: "protocol_steps (control_of ?w1, h) (control_of w2, h)" and dom: "same_dom ?w1 w2"
    have "map_of (fw_chunk_writers (ww_fw ?w1)) ?c \<noteq> None" using ensure_chunk_alive by (simp add: on_fw_def)
    then have "ct_slices (control_of w2) q = None" "map_of (ct_chunks (control_of w2)) ?c \<noteq> None"
      using dom new1 by (simp_all add: same_dom_def)
    note step3 = ps_create [OF this, of h]
    have "r = Inr (q, Idle)" "w' = on_fw (add_slice_writer q l) w2"
      using assms(1) loop none by (simp_all add: find_writable_slice_writer_def sbind_def)
    then show ?thesis using steps1 steps2 step3 by (auto simp: on_fw_def add_slice_writer_control)
  next
    fix p st assume some: "r2 = Inr (Some (p, st))" "protocol_steps (control_of ?w1, h) (control_of w2, h(p \<mapsto> st))"
    have "r = Inr (p, st)" "w' = w2"
      using assms(1) loop some(1) by (simp_all add: find_writable_slice_writer_def sbind_def)
    then show ?thesis using steps1 some(2) by auto
  qed
qed

end
