(* ===== verification/Writer_Finish.thy ===== *)
theory Writer_Finish
  imports Writer_Refine
begin

text \<open>
  \<^verbatim>\<open>finish\<close> returns: a live flusher serves every request, each service moves a slice writer
  towards \<open>Done\<close> or records an error that ends the wait, and no notification is lost. The stores
  may fail at any point.
\<close>

section \<open>A round\<close>

text \<open>Requests change idle and dirty slice writers only.\<close>

definition settled :: "control \<Rightarrow> control \<Rightarrow> bool" where
  "settled c c' \<longleftrightarrow> (\<forall>p st. ct_state c p = Some st \<longrightarrow> st \<noteq> Idle \<longrightarrow> st \<noteq> Dirty \<longrightarrow> ct_state c' p = Some st)"

lemma settled_refl [simp]: "settled c c"
  by (simp add: settled_def)

lemma settledD:
  "settled c c' \<Longrightarrow> ct_state c q = Some st \<Longrightarrow> is_busy st \<or> st = Writing \<or> st = Done \<Longrightarrow> ct_state c' q = Some st"
  by (auto simp: settled_def is_busy_def)

lemma settled_trans: "settled c c1 \<Longrightarrow> settled c1 c2 \<Longrightarrow> settled c c2"
  by (auto simp: settled_def)

lemma settled_request: "ct_state c q = Some (before_req req) \<Longrightarrow> settled c (set_state q (busy req) c)"
  using busy_states(6) [of req] by (auto simp: settled_def)

text \<open>How far the slice writers are from being done.\<close>

primrec wt :: "slice_writer_state \<Rightarrow> nat" where
  "wt Dirty = 4" | "wt Flushing = 3" | "wt Idle = 2" | "wt Committing = 1" | "wt Writing = 0" | "wt Done = 0"

definition weight :: "control \<Rightarrow> nat" where
  "weight c = (\<Sum>q \<in> open_slices c. case ct_state c q of None \<Rightarrow> 0 | Some st \<Rightarrow> wt st)"

lemma weight_over:
  assumes "finite S" "open_slices c \<subseteq> S"
  shows "weight c = (\<Sum>q \<in> S. case ct_state c q of None \<Rightarrow> 0 | Some st \<Rightarrow> wt st)"
  unfolding weight_def
  by (rule sum.mono_neutral_left) (use assms in \<open>auto simp: open_slices_alt split: option.splits\<close>)

lemma weight_move:
  assumes "finite (open_slices c)" "ct_state c q = Some st0" "st0 \<noteq> Done" "ct_state c' = (ct_state c)(q \<mapsto> st)" "wt st < wt st0"
  shows "weight c' < weight c"
proof -
  let ?S = "open_slices c"
  have q: "q \<in> ?S" using assms(2,3) by (auto simp: open_slices_alt)
  have sub: "open_slices c' \<subseteq> ?S" using assms(2-4) by (auto simp: open_slices_alt)
  have w': "weight c' = (\<Sum>q \<in> ?S. case ct_state c' q of None \<Rightarrow> 0 | Some st \<Rightarrow> wt st)" by (rule weight_over [OF assms(1) sub])
  have w: "weight c = (\<Sum>q \<in> ?S. case ct_state c q of None \<Rightarrow> 0 | Some st \<Rightarrow> wt st)" by (rule weight_over [OF assms(1) subset_refl])
  show ?thesis unfolding w w'
    by (rule sum_strict_mono_ex1) (use assms q in auto)
qed

lemma wt_req: "wt (busy req) < wt (before_req req)" "wt (after_req req) < wt (busy req)"
  by (cases req; simp)+

lemma weight_request:
  assumes "finite (open_slices c)" "ct_state c (target req) = Some (before_req req)"
  shows "weight (queued req c) < weight c"
  by (rule weight_move [of c "target req" "before_req req" _ "busy req"])
    (use assms busy_states(8) [of req] wt_req(1) [of req] in \<open>auto simp: queued_def fun_eq_iff\<close>)

lemma weight_served:
  assumes "finite (open_slices c)" "ct_state c (target req) = Some (busy req)"
  shows "weight (served req c) < weight c"
  by (rule weight_move [of c "target req" "busy req" _ "after_req req"])
    (use assms busy_states(3) [of req] wt_req(2) [of req] in \<open>auto simp: served_def fun_eq_iff\<close>)

lemma weight_cong: "ct_state c' = ct_state c \<Longrightarrow> weight c' = weight c"
  by (simp add: weight_def open_slices_alt)

text \<open>What the requests of a round leave behind.\<close>

definition round_ok where
  "round_ok w qs finished r w' \<longleftrightarrow>
     (\<exists>d. r = Inr (Some (finished @ d)) \<and> set d \<subseteq> set qs \<and> (\<forall>q \<in> set d. ct_state (control_of w') q = Some Done) \<and>
        (\<forall>q \<in> set qs - set d. \<exists>st. ct_state (control_of w') q = Some st \<and> (is_busy st \<or> st = Writing))) \<and>
     protocol_steps (control_of w, Map.empty) (control_of w', Map.empty) \<and> settled (control_of w) (control_of w') \<and>
     weight (control_of w') \<le> weight (control_of w) \<and> same_dom w w' \<and>
     fw_flush_error (ww_fw w') = fw_flush_error (ww_fw w) \<and> fw_notified (ww_fw w') = fw_notified (ww_fw w) \<and>
     fw_flusher_alive (ww_fw w')"

lemma round_keeps:
  assumes "round_ok w qs finished r w'" "ct_state (control_of w) q = Some st" "is_busy st \<or> st = Writing \<or> st = Done"
  shows "ct_state (control_of w') q = Some st"
  using settledD [OF _ assms(2,3)] assms(1) by (simp add: round_ok_def)

lemma round_ok_Cons:
  assumes "round_ok w qs finished r w'" "\<exists>st. ct_state (control_of w') q = Some st \<and> (is_busy st \<or> st = Writing)"
  shows "round_ok w (q # qs) finished r w'"
  using assms unfolding round_ok_def by auto

lemma round_ok_trans:
  assumes "round_ok w2 qs finished r w'" "protocol_step (control_of w, Map.empty) (control_of w2, Map.empty)"
    "settled (control_of w) (control_of w2)" "weight (control_of w2) \<le> weight (control_of w)" "same_dom w w2"
    "fw_flush_error (ww_fw w2) = fw_flush_error (ww_fw w)" "fw_notified (ww_fw w2) = fw_notified (ww_fw w)"
  shows "round_ok w qs finished r w'"
proof -
  have "same_dom w w'" using assms(1,5) by (simp add: round_ok_def same_dom_def)
  moreover have "protocol_steps (control_of w, Map.empty) (control_of w', Map.empty)"
    using assms(1,2) steps_trans unfolding round_ok_def by blast
  moreover have "settled (control_of w) (control_of w')" using assms(1,3) settled_trans unfolding round_ok_def by blast
  ultimately show ?thesis using assms(1,4,6,7) unfolding round_ok_def by (intro conjI) simp_all
qed

lemma protocol_inv_step: "protocol_step x y \<Longrightarrow> control_inv (fst x) (snd x) \<Longrightarrow> control_inv (fst y) (snd y)"
  using protocol_inv by blast

lemma finish_slices_ok:
  assumes "finish_slices qs finished w = (r, w')" "\<forall>q \<in> set qs. fw_slices (ww_fw w) q \<noteq> None"
    "control_inv (control_of w) Map.empty" "fw_flusher_alive (ww_fw w)"
  shows "round_ok w qs finished r w'"
  using assms
proof (induction qs arbitrary: finished w)
  case Nil
  then show ?case by (auto simp: round_ok_def same_dom_def)
next
  case (Cons q qs)
  obtain s where s: "fw_slices (ww_fw w) q = Some s" using Cons.prems(2) by auto
  have rest: "\<forall>q \<in> set qs. fw_slices (ww_fw w) q \<noteq> None" using Cons.prems(2) by simp
  have st: "ct_state (control_of w) q = Some (slw_state s)" using s by (simp add: ct_state_fw)
  consider (wait) "slw_state s = Writing \<or> slw_state s = Flushing" "finish_slices qs finished w = (r, w')"
    | (fin) "slw_state s = Done" "finish_slices qs (finished @ [q]) w = (r, w')"
    | (req) "slw_state s \<noteq> Writing" "slw_state s \<noteq> Flushing" "slw_state s \<noteq> Done"
      "sbind (make_flush_req q False True) (\<lambda>req.
       case req of
         None \<Rightarrow> finish_slices qs finished
       | Some req \<Rightarrow>
           sbind (send_req req) (\<lambda>sent.
           if sent then finish_slices qs finished
           else sbind (smod (on_fw (record_flush_error (VLibc EIO)))) (\<lambda>_. sret None))) w = (r, w')"
    using Cons.prems(1) s by (auto simp: sbind_def the_slice_def split: if_splits)
  then show ?case
  proof cases
    case wait
    then have "is_busy (slw_state s) \<or> slw_state s = Writing" by auto
    moreover have IH: "round_ok w qs finished r w'" by (rule Cons.IH [OF wait(2) rest Cons.prems(3,4)])
    ultimately have "\<exists>st. ct_state (control_of w') q = Some st \<and> (is_busy st \<or> st = Writing)"
      using round_keeps [OF IH st] by blast
    then show ?thesis by (rule round_ok_Cons [OF IH])
  next
    case fin
    have IH: "round_ok w qs (finished @ [q]) r w'" by (rule Cons.IH [OF fin(2) rest Cons.prems(3,4)])
    then obtain d where d: "r = Inr (Some ((finished @ [q]) @ d))" "set d \<subseteq> set qs"
      "\<forall>q \<in> set d. ct_state (control_of w') q = Some Done"
      "\<forall>q \<in> set qs - set d. \<exists>st. ct_state (control_of w') q = Some st \<and> (is_busy st \<or> st = Writing)"
      unfolding round_ok_def by blast
    have "ct_state (control_of w') q = Some Done" using round_keeps [OF IH st] fin(1) by simp
    then show ?thesis using IH d unfolding round_ok_def by (intro conjI exI [of _ "q # d"]) auto
  next
    case req
    obtain r1 w1 where mk: "make_flush_req q False True w = (r1, w1)" by fastforce
    from make_flush_req_control [OF mk s] show ?thesis
    proof (elim disjE exE conjE)
      assume none: "r1 = Inr None" "w1 = w" "True \<longrightarrow> slw_state s \<noteq> Idle \<and> slw_state s \<noteq> Dirty"
      then have "slw_state s = Committing" using req by (cases "slw_state s") auto
      moreover have IH: "round_ok w qs finished r w'"
        by (rule Cons.IH [OF _ rest Cons.prems(3,4)]) (use req(4) mk none in \<open>simp add: sbind_def\<close>)
      ultimately have "\<exists>st. ct_state (control_of w') q = Some st \<and> (is_busy st \<or> st = Writing)"
        using round_keeps [OF IH st] by simp
      then show ?thesis by (rule round_ok_Cons [OF IH])
    next
      fix rq assume rq: "r1 = Inr (Some rq)" "target rq = q" "slw_state s = before_req rq"
        "control_of w1 = set_state q (busy rq) (control_of w)"
      obtain r2 w2 where snd: "send_req rq w1 = (r2, w2)" by fastforce
      have c2: "r2 = Inr True" "control_of w2 = queued rq (control_of w)"
        using request_control [OF s rq(2-4) snd] Cons.prems(4) by simp_all
      note step = request_step [OF s rq(2-4) snd, of Map.empty]
      have inv2: "control_inv (control_of w2) Map.empty"
        using protocol_inv_step [OF step] Cons.prems(3) by simp
      have dom: "same_dom w w2"
        using request_dom [OF s rq(2-4) snd] request_chunks [OF s rq(2-4) snd] by (simp add: same_dom_def)
      have same: "fw_flusher_alive (ww_fw w2)" "fw_flush_error (ww_fw w2) = fw_flush_error (ww_fw w)"
          "fw_notified (ww_fw w2) = fw_notified (ww_fw w)"
        using arg_cong [OF c2(2), of ct_alive] arg_cong [OF c2(2), of ct_error] arg_cong [OF c2(2), of ct_notified] Cons.prems(4)
        by (simp_all add: queued_def)
      have IH: "round_ok w2 qs finished r w'"
        by (rule Cons.IH [OF _ _ inv2 same(1)])
          (use req(4) mk rq(1) snd c2(1) rest dom in \<open>auto simp: sbind_def same_dom_def\<close>)
      have bq: "ct_state (control_of w) (target rq) = Some (before_req rq)" using st rq(2,3) by simp
      have "finite (open_slices (control_of w))" using Cons.prems(3) by (simp add: control_inv_def count_ok_def)
      then have wt: "weight (control_of w2) \<le> weight (control_of w)" using weight_request [OF _ bq] c2(2) by simp
      have set: "settled (control_of w) (control_of w2)" "ct_state (control_of w2) q = Some (busy rq)"
        using settled_request [OF bq] c2(2) st rq(2) by (simp_all add: settled_def queued_def)
      then have "ct_state (control_of w') q = Some (busy rq)" using round_keeps [OF IH] by simp
      then show ?thesis
        using round_ok_Cons [OF round_ok_trans [OF IH step set(1) wt dom same(2,3)], of q] by simp
    qed
  qed
qed

section \<open>The state of a flush\<close>

definition flushing :: "('db, 'f, 'o, 'c, 'm, 'p, 'pg) writer_world \<Rightarrow> bool" where
  "flushing w \<longleftrightarrow> control_inv (control_of w) Map.empty \<and> fw_flusher_alive (ww_fw w)"

text \<open>Chunk writers only lose slice writers, and a recorded error stays.\<close>

definition shrinks :: "('db, 'f, 'o, 'c, 'm, 'p, 'pg) writer_world \<Rightarrow> ('db, 'f, 'o, 'c, 'm, 'p, 'pg) writer_world \<Rightarrow> bool" where
  "shrinks w w' \<longleftrightarrow> map fst (fw_chunk_writers (ww_fw w')) = map fst (fw_chunk_writers (ww_fw w)) \<and>
     (\<forall>ch. set (chunk_slices ch (ww_fw w')) \<subseteq> set (chunk_slices ch (ww_fw w))) \<and>
     (fw_flush_error (ww_fw w) \<noteq> None \<longrightarrow> fw_flush_error (ww_fw w') \<noteq> None)"

lemma shrinks_refl [simp]: "shrinks w w"
  by (simp add: shrinks_def)

lemma shrinks_trans: "shrinks w w1 \<Longrightarrow> shrinks w1 w2 \<Longrightarrow> shrinks w w2"
  by (fastforce simp: shrinks_def)

lemma shrinks_same:
  "fw_chunk_writers (ww_fw w') = fw_chunk_writers (ww_fw w) \<Longrightarrow>
   (fw_flush_error (ww_fw w) \<noteq> None \<Longrightarrow> fw_flush_error (ww_fw w') \<noteq> None) \<Longrightarrow> shrinks w w'"
  by (simp add: shrinks_def chunk_slices_def)

text \<open>A queued request whose service will notify the chunk writer.\<close>

definition awaited :: "nat \<Rightarrow> ('db, 'f, 'o, 'c, 'm, 'p, 'pg) writer_world \<Rightarrow> bool" where
  "awaited ch w \<longleftrightarrow> map_of (fw_chunk_writers (ww_fw w)) ch \<noteq> None \<and>
     (\<exists>req \<in> set (fw_flush_queue (ww_fw w)). \<exists>st. ct_slices (control_of w) (target req) = Some (st, ch))"

lemma chunk_slices_map_of: "q \<in> set (chunk_slices ch fw) \<Longrightarrow> \<exists>qs. map_of (fw_chunk_writers fw) ch = Some qs \<and> q \<in> set qs"
  by (cases "map_of (fw_chunk_writers fw) ch") (auto simp: chunk_slices_def)

lemma awaitedI:
  assumes "flushing w" "q \<in> set (chunk_slices ch (ww_fw w))" "ct_state (control_of w) q = Some st" "is_busy st \<or> st = Writing"
  shows "awaited ch w"
proof -
  have inv: "holders_ok (control_of w) Map.empty" "queue_ok (control_of w)" "lists_ok (control_of w)"
    using assms(1) by (simp_all add: flushing_def control_inv_def)
  have "st \<noteq> Writing" using inv(1) assms(3) by (auto simp: holders_ok_def)
  then have "q \<in> target ` set (ct_queue (control_of w))"
    using inv(2) assms(1,3,4) unfolding queue_ok_alt flushing_def by (metis fw_control_sel(4))
  moreover obtain qs where qs: "map_of (fw_chunk_writers (ww_fw w)) ch = Some qs" "q \<in> set qs"
    using chunk_slices_map_of [OF assms(2)] by blast
  moreover have "\<exists>st. ct_slices (control_of w) q = Some (st, ch)"
    using inv(3) map_of_SomeD [OF qs(1)] qs(2) unfolding lists_ok_def by (metis fw_control_sel(2))
  ultimately show ?thesis unfolding awaited_def by auto
qed

lemma map_of_map_list:
  "map_of (map (\<lambda>(i, xs). (i, if i = c then g xs else xs)) l) ch =
     map_option (\<lambda>xs. if ch = c then g xs else xs) (map_of l ch)"
  by (induction l) auto

lemma chunk_slices_on_chunk:
  "chunk_slices ch (on_chunk c g fw) = (if ch = c \<and> map_of (fw_chunk_writers fw) ch \<noteq> None
     then g (chunk_slices ch fw) else chunk_slices ch fw)"
  by (auto simp: chunk_slices_def on_chunk_def map_of_map_list split: option.splits)

lemma fst_on_chunk: "map fst (fw_chunk_writers (on_chunk c g fw)) = map fst (fw_chunk_writers fw)"
  by (simp add: on_chunk_def split_def comp_def)

text \<open>A round of \<^verbatim>\<open>finish\<close>: it returns for an error or an empty chunk writer, or a notification will come.\<close>

lemma reap_ok:
  fixes ch :: nat
  assumes "flushing w" "\<forall>q \<in> set fin. ct_state (control_of w) q = Some Done"
  defines "w' \<equiv> on_fw (on_chunk ch (filter (\<lambda>q. q \<notin> set fin))) w"
  shows "flushing w'" "shrinks w w'" "ct_state (control_of w') = ct_state (control_of w)"
    "fw_notified (ww_fw w') = fw_notified (ww_fw w)" "fw_flush_error (ww_fw w') = fw_flush_error (ww_fw w)"
    "set (chunk_slices ch (ww_fw w')) = set (chunk_slices ch (ww_fw w)) - set fin"
proof -
  have c': "control_of w' = (control_of w)\<lparr>ct_chunks := map (\<lambda>(i, xs). (i, if i = ch then filter (\<lambda>q. q \<notin> set fin) xs else xs))
      (ct_chunks (control_of w))\<rparr>"
    by (simp add: w'_def on_fw_def on_chunk_def fw_control_def)
  have alive: "fw_flusher_alive (ww_fw w') = fw_flusher_alive (ww_fw w)" by (simp add: w'_def on_fw_def on_chunk_def)
  show "flushing w'"
    using protocol_inv_step [OF ps_reap [OF assms(2), of Map.empty ch]] assms(1) alive by (simp add: flushing_def c')
  have same: "fw_flush_error (ww_fw w') = fw_flush_error (ww_fw w)" "fw_notified (ww_fw w') = fw_notified (ww_fw w)"
    by (simp_all add: w'_def on_fw_def on_chunk_def)
  show "ct_state (control_of w') = ct_state (control_of w)" unfolding c' by simp
  show "fw_notified (ww_fw w') = fw_notified (ww_fw w)" "fw_flush_error (ww_fw w') = fw_flush_error (ww_fw w)" by (fact same)+
  have "chunk_slices ch (ww_fw w') = filter (\<lambda>q. q \<notin> set fin) (chunk_slices ch (ww_fw w))"
    by (cases "map_of (fw_chunk_writers (ww_fw w)) ch")
      (simp_all add: w'_def on_fw_def chunk_slices_def on_chunk_def map_of_map_list)
  then show "set (chunk_slices ch (ww_fw w')) = set (chunk_slices ch (ww_fw w)) - set fin" by auto
  have "set (chunk_slices i (ww_fw w')) \<subseteq> set (chunk_slices i (ww_fw w))" for i
    by (auto simp: w'_def on_fw_def chunk_slices_on_chunk)
  then show "shrinks w w'" using same fst_on_chunk by (simp add: shrinks_def w'_def on_fw_def)
qed

lemma finish_round_ok:
  assumes "flushing w" "finish_round ch w = (r, w')"
  shows "flushing w' \<and> shrinks w w' \<and> weight (control_of w') \<le> weight (control_of w) \<and>
    fw_notified (ww_fw w') = fw_notified (ww_fw w) \<and>
    (r = Inr True \<and> (fw_flush_error (ww_fw w') \<noteq> None \<or> chunk_slices ch (ww_fw w') = []) \<or>
     r = Inr False \<and> awaited ch w')"
proof (cases "has_flush_error (ww_fw w) \<or> chunk_slices ch (ww_fw w) = []")
  case True
  then show ?thesis using assms by (auto simp: finish_round_def has_flush_error_def)
next
  case False
  let ?qs = "chunk_slices ch (ww_fw w)"
  have ex: "\<forall>q \<in> set ?qs. fw_slices (ww_fw w) q \<noteq> None"
    using chunk_slices_listed [of w Map.empty] assms(1) unfolding flushing_def by blast
  obtain r1 w1 where fs: "finish_slices ?qs [] w = (r1, w1)" by fastforce
  have inv: "control_inv (control_of w) Map.empty" "fw_flusher_alive (ww_fw w)" using assms(1) by (simp_all add: flushing_def)
  have round: "round_ok w ?qs [] r1 w1" by (rule finish_slices_ok [OF fs ex inv])
  then obtain d where d: "r1 = Inr (Some d)" "set d \<subseteq> set ?qs" "\<forall>q \<in> set d. ct_state (control_of w1) q = Some Done"
      "\<forall>q \<in> set ?qs - set d. \<exists>st. ct_state (control_of w1) q = Some st \<and> (is_busy st \<or> st = Writing)"
    unfolding round_ok_def by auto
  have "control_inv (control_of w1) Map.empty" using protocol_inv [of "(control_of w, Map.empty)" "(control_of w1, Map.empty)"] round inv
    by (simp add: round_ok_def)
  moreover have "fw_flusher_alive (ww_fw w1)" using round by (simp add: round_ok_def)
  ultimately have J1: "flushing w1" by (simp add: flushing_def)
  have s1: "chunk_slices c (ww_fw w1) = chunk_slices c (ww_fw w)" for c using round by (simp add: round_ok_def same_dom_def chunk_slices_def)
  have sh1: "shrinks w w1" using round by (intro shrinks_same) (simp_all add: round_ok_def same_dom_def)
  show ?thesis
  proof (cases "d = []")
    case True
    obtain q where q: "q \<in> set ?qs" using False by (cases ?qs) auto
    then obtain st where "ct_state (control_of w1) q = Some st" "is_busy st \<or> st = Writing" using d(4) True by auto
    then have "awaited ch w1" using awaitedI [OF J1] q s1 by simp
    moreover have "r = Inr False" "w' = w1" using assms(2) False fs d(1) True by (simp_all add: finish_round_def sbind_def)
    ultimately show ?thesis using J1 sh1 round by (simp add: round_ok_def)
  next
    case ne: False
    define w2 where "w2 = on_fw (on_chunk ch (filter (\<lambda>q. q \<notin> set d))) w1"
    note reap = reap_ok [OF J1 d(3), of ch, folded w2_def]
    have run: "r = Inr (chunk_slices ch (ww_fw w2) = [])" "w' = w2"
      using assms(2) False fs d(1) ne by (auto simp: finish_round_def sbind_def w2_def)
    have "awaited ch w2" if more: "chunk_slices ch (ww_fw w2) \<noteq> []"
    proof -
      obtain q where q: "q \<in> set (chunk_slices ch (ww_fw w2))" using more by (cases "chunk_slices ch (ww_fw w2)") auto
      then have "q \<in> set ?qs - set d" using reap(6) s1 by simp
      then obtain st where "ct_state (control_of w1) q = Some st" "is_busy st \<or> st = Writing" using d(4) by blast
      then show ?thesis using awaitedI [OF reap(1) q] reap(3) by simp
    qed
    then show ?thesis
      using run reap shrinks_trans [OF sh1 reap(2)] round weight_cong [OF reap(3)] by (auto simp: round_ok_def)
  qed
qed

section \<open>The flusher\<close>

lemma served_sel: "ct_queue (served req c) = ct_queue c" "ct_alive (served req c) = ct_alive c" "ct_chunks (served req c) = ct_chunks c"
  "ct_error (served req c) = ct_error c" "map_option snd (ct_slices (served req c) p) = map_option snd (ct_slices c p)"
  by (auto simp: served_def option.map_comp comp_def split_def)

lemma refused_sel: "ct_queue (refused req e c) = ct_queue c" "ct_alive (refused req e c) = ct_alive c"
  "ct_chunks (refused req e c) = ct_chunks c" "ct_error (refused req e c) \<noteq> None"
  "map_option snd (ct_slices (refused req e c) p) = map_option snd (ct_slices c p)"
  by (auto simp: refused_def option.map_comp comp_def split_def)

lemma ct_notify_adds:
  "ct_slices c q = Some (st, ch) \<Longrightarrow> map_of (ct_chunks c) ch \<noteq> None \<Longrightarrow> ch \<in> ct_notified (ct_notify q c)"
  by (auto simp: ct_notify_def)

lemma notified_req:
  assumes "ct_slices c (target req) = Some (st, ch)" "map_of (ct_chunks c) ch \<noteq> None"
  shows "ch \<in> ct_notified (served req c)" "ch \<in> ct_notified (refused req e c)"
  using assms unfolding served_def refused_def by (auto intro!: ct_notify_adds simp: set_state_def)

text \<open>One turn with a request at hand.\<close>

lemma flusher_turn_ok:
  assumes "flushing w" "flusher_turn env clk w = (r, w')" "fw_flush_queue (ww_fw w) = req # rest"
  shows "r = Inr () \<and> flushing w' \<and> shrinks w w' \<and> fw_flush_queue (ww_fw w') = rest \<and>
    fw_chunk_writers (ww_fw w') = fw_chunk_writers (ww_fw w) \<and>
    (\<forall>p. map_option snd (ct_slices (control_of w') p) = map_option snd (ct_slices (control_of w) p)) \<and>
    (weight (control_of w') < weight (control_of w) \<or> fw_flush_error (ww_fw w') \<noteq> None) \<and>
    (\<forall>st ch. ct_slices (control_of w) (target req) = Some (st, ch) \<longrightarrow> map_of (fw_chunk_writers (ww_fw w)) ch \<noteq> None \<longrightarrow>
       ch \<in> fw_notified (ww_fw w'))"
proof -
  have inv: "control_inv (control_of w) Map.empty" "queue_ok (control_of w)" using assms(1) by (simp_all add: flushing_def control_inv_def)
  define c0 where "c0 = (control_of w)\<lparr>ct_queue := rest\<rparr>"
  have c': "r = Inr ()" "control_of w' = served req c0 \<or> (\<exists>e. control_of w' = refused req e c0)"
    using flusher_turn_control [OF assms(2) inv(2)] assms(3) by (simp_all add: c0_def)
  have c0: "ct_queue c0 = rest" "ct_alive c0 = fw_flusher_alive (ww_fw w)" "ct_chunks c0 = fw_chunk_writers (ww_fw w)"
      "ct_error c0 = fw_flush_error (ww_fw w)" "ct_slices c0 = ct_slices (control_of w)"
    by (simp_all add: c0_def fun_eq_iff)
  have all: "ct_queue (control_of w') = rest" "ct_alive (control_of w') = fw_flusher_alive (ww_fw w)"
      "ct_chunks (control_of w') = fw_chunk_writers (ww_fw w)"
      "ct_error (control_of w') = fw_flush_error (ww_fw w) \<or> ct_error (control_of w') \<noteq> None"
      "\<And>p. map_option snd (ct_slices (control_of w') p) = map_option snd (ct_slices (control_of w) p)"
    using c'(2) served_sel [of req c0] refused_sel [of req _ c0] unfolding c0 by metis+
  have "control_inv (control_of w') Map.empty"
    using flusher_turn_steps [OF assms(2) inv(1)] protocol_inv [of "(control_of w, Map.empty)" "(control_of w', Map.empty)"] inv(1) by simp
  then have J: "flushing w'" using all(2) assms(1) by (simp add: flushing_def)
  have "finite (open_slices c0)" using inv(1) by (simp add: control_inv_def count_ok_def c0_def open_slices_alt)
  moreover have "ct_state c0 (target req) = Some (busy req)" using inv(2) assms(3) by (simp add: queue_ok_alt c0_def)
  ultimately have "weight (served req c0) < weight (control_of w)" using weight_served [of c0 req] weight_cong [of c0 "control_of w"]
    by (simp add: c0_def)
  then have wt: "weight (control_of w') < weight (control_of w) \<or> ct_error (control_of w') \<noteq> None"
    using c'(2) refused_sel(4) by metis
  have "ch \<in> ct_notified (control_of w')"
    if "ct_slices (control_of w) (target req) = Some (st, ch)" "map_of (fw_chunk_writers (ww_fw w)) ch \<noteq> None" for st ch
    using c'(2) notified_req [of c0 req st ch] that c0(3,5) by metis
  moreover have "shrinks w w'" using all(3,4) by (intro shrinks_same) auto
  ultimately show ?thesis using J c'(1) all wt by auto
qed

section \<open>The loops return\<close>

lemma permit_ok:
  fixes ch :: nat
  assumes "flushing w"
  defines "w' \<equiv> on_fw (\<lambda>fw. fw\<lparr>fw_notified := fw_notified fw - {ch}\<rparr>) w"
  shows "flushing w'" "shrinks w w'" "weight (control_of w') = weight (control_of w)" "ch \<notin> fw_notified (ww_fw w')"
proof -
  have c': "control_of w' = (control_of w)\<lparr>ct_notified := ct_notified (control_of w) - {ch}\<rparr>"
    by (simp add: w'_def on_fw_def fw_control_def)
  have alive: "fw_flusher_alive (ww_fw w') = fw_flusher_alive (ww_fw w)" by (simp add: w'_def on_fw_def)
  show "flushing w'" using protocol_inv_step [OF ps_permit [of "control_of w" Map.empty ch]] assms(1) alive
    by (simp add: flushing_def c')
  show "shrinks w w'" by (rule shrinks_same) (simp_all add: w'_def on_fw_def)
  show "weight (control_of w') = weight (control_of w)" by (rule weight_cong) (simp add: c')
  show "ch \<notin> fw_notified (ww_fw w')" by (simp add: w'_def on_fw_def)
qed

lemma chunk_wait_ok:
  assumes "flushing w" "ch \<in> fw_notified (ww_fw w) \<or> awaited ch w"
  shows "\<exists>n w1. (\<forall>fuel. chunk_wait env clk (n + fuel) ch w = chunk_finish env clk fuel ch w1) \<and> flushing w1 \<and> shrinks w w1 \<and>
    ch \<notin> fw_notified (ww_fw w1) \<and>
    (weight (control_of w1) < weight (control_of w) \<or> fw_flush_error (ww_fw w1) \<noteq> None \<or>
     ch \<in> fw_notified (ww_fw w) \<and> weight (control_of w1) \<le> weight (control_of w))"
  using assms
proof (induction "length (fw_flush_queue (ww_fw w))" arbitrary: w rule: less_induct)
  case less
  show ?case
  proof (cases "ch \<in> fw_notified (ww_fw w)")
    case True
    note p = permit_ok [OF less.prems(1), of ch]
    have "chunk_wait env clk (1 + fuel) ch w =
        chunk_finish env clk fuel ch (on_fw (\<lambda>fw. fw\<lparr>fw_notified := fw_notified fw - {ch}\<rparr>) w)" for fuel
      using True by (simp add: sbind_def)
    then show ?thesis using p True
      by (intro exI [of _ 1] exI [of _ "on_fw (\<lambda>fw. fw\<lparr>fw_notified := fw_notified fw - {ch}\<rparr>) w"]) simp
  next
    case False
    then have aw: "awaited ch w" using less.prems(2) by blast
    then obtain req rest where q: "fw_flush_queue (ww_fw w) = req # rest"
      by (cases "fw_flush_queue (ww_fw w)") (auto simp: awaited_def)
    obtain r w2 where turn: "flusher_turn env clk w = (r, w2)" by fastforce
    note t = flusher_turn_ok [OF less.prems(1) turn q]
    have "ch \<in> fw_notified (ww_fw w2) \<or> awaited ch w2"
    proof -
      obtain rq st where rq: "rq \<in> set (req # rest)" "ct_slices (control_of w) (target rq) = Some (st, ch)"
          "map_of (fw_chunk_writers (ww_fw w)) ch \<noteq> None"
        using aw q by (auto simp: awaited_def)
      show ?thesis
      proof (cases "rq = req")
        case True
        then show ?thesis using t rq by blast
      next
        case False
        have "map_option snd (ct_slices (control_of w2) (target rq)) = Some ch" using t rq(2) by (metis option.simps(9) snd_conv)
        then have "\<exists>st. ct_slices (control_of w2) (target rq) = Some (st, ch)" by auto
        then show ?thesis using t rq(1,3) False unfolding awaited_def by auto
      qed
    qed
    then obtain n w1 where IH: "\<And>fuel. chunk_wait env clk (n + fuel) ch w2 = chunk_finish env clk fuel ch w1" "flushing w1"
        "shrinks w2 w1" "ch \<notin> fw_notified (ww_fw w1)"
        "weight (control_of w1) < weight (control_of w2) \<or> fw_flush_error (ww_fw w1) \<noteq> None \<or>
         ch \<in> fw_notified (ww_fw w2) \<and> weight (control_of w1) \<le> weight (control_of w2)"
      using less.hyps [of w2] t q by auto
    have "chunk_wait env clk (Suc n + fuel) ch w = chunk_finish env clk fuel ch w1" for fuel
      using False turn t IH(1) [of fuel] by (simp add: sbind_def)
    moreover have "weight (control_of w1) < weight (control_of w) \<or> fw_flush_error (ww_fw w1) \<noteq> None"
      using IH(3,5) t unfolding shrinks_def by linarith
    ultimately show ?thesis using IH(2-4) t shrinks_trans by (intro exI [of _ "Suc n"] exI [of _ w1]) blast
  qed
qed

lemma chunk_finish_error:
  "fw_flush_error (ww_fw w) \<noteq> None \<Longrightarrow> chunk_finish env clk (Suc fuel) ch w = (Inr (Some ()), w)"
  by (simp add: finish_round_def has_flush_error_def sbind_def)

lemma chunk_finish_ok:
  assumes "flushing w"
  shows "\<exists>n w'. (\<forall>fuel. chunk_finish env clk (n + fuel) ch w = (Inr (Some ()), w')) \<and> flushing w' \<and> shrinks w w' \<and>
    (fw_flush_error (ww_fw w') \<noteq> None \<or> chunk_slices ch (ww_fw w') = [])"
  using assms
proof (induction "2 * weight (control_of w) + (if ch \<in> fw_notified (ww_fw w) then 1 else 0)" arbitrary: w rule: less_induct)
  case less
  obtain r w1 where rd: "finish_round ch w = (r, w1)" by fastforce
  note round = finish_round_ok [OF less.prems rd]
  show ?case
  proof (cases "r = Inr True")
    case True
    then have "chunk_finish env clk (1 + fuel) ch w = (Inr (Some ()), w1)" for fuel using rd by (simp add: sbind_def)
    then show ?thesis using round True by (intro exI [of _ 1] exI [of _ w1]) auto
  next
    case False
    then have r: "r = Inr False" "awaited ch w1" using round by auto
    obtain n w2 where wait: "\<And>fuel. chunk_wait env clk (n + fuel) ch w1 = chunk_finish env clk fuel ch w2" "flushing w2"
        "shrinks w1 w2" "ch \<notin> fw_notified (ww_fw w2)"
        "weight (control_of w2) < weight (control_of w1) \<or> fw_flush_error (ww_fw w2) \<noteq> None \<or>
         ch \<in> fw_notified (ww_fw w1) \<and> weight (control_of w2) \<le> weight (control_of w1)"
      using chunk_wait_ok [of w1 ch env clk] r(2) round by blast
    have "\<exists>m w'. (\<forall>fuel. chunk_finish env clk (m + fuel) ch w2 = (Inr (Some ()), w')) \<and> flushing w' \<and> shrinks w2 w' \<and>
        (fw_flush_error (ww_fw w') \<noteq> None \<or> chunk_slices ch (ww_fw w') = [])"
    proof (cases "fw_flush_error (ww_fw w2)")
      case None
      then have "2 * weight (control_of w2) + (if ch \<in> fw_notified (ww_fw w2) then 1 else 0) <
          2 * weight (control_of w) + (if ch \<in> fw_notified (ww_fw w) then 1 else 0)"
        using wait(4,5) round by auto
      then show ?thesis using less.hyps [of w2] wait(2) by blast
    next
      case (Some e)
      then show ?thesis using chunk_finish_error [of w2 env clk _ ch] wait(2) by (intro exI [of _ 1] exI [of _ w2]) simp
    qed
    then obtain m w' where IH: "\<And>fuel. chunk_finish env clk (m + fuel) ch w2 = (Inr (Some ()), w')" "flushing w'" "shrinks w2 w'"
        "fw_flush_error (ww_fw w') \<noteq> None \<or> chunk_slices ch (ww_fw w') = []" by blast
    have "chunk_finish env clk (Suc (n + m) + fuel) ch w = (Inr (Some ()), w')" for fuel
      using rd r(1) wait(1) [of "m + fuel"] IH(1) [of fuel] by (simp add: sbind_def add.assoc)
    then show ?thesis using IH(2-4) wait(3) round shrinks_trans by (intro exI [of _ "Suc (n + m)"] exI [of _ w']) blast
  qed
qed

lemma shrinks_empty: "shrinks w w' \<Longrightarrow> chunk_slices ch (ww_fw w) = [] \<Longrightarrow> chunk_slices ch (ww_fw w') = []"
  unfolding shrinks_def by (metis empty_set set_empty subset_empty)

lemma finish_chunks_ok:
  assumes "flushing w"
  shows "\<exists>n w'. (\<forall>fuel. finish_chunks env clk (n + fuel) chs w = (Inr (Some ()), w')) \<and> flushing w' \<and> shrinks w w' \<and>
    (fw_flush_error (ww_fw w') \<noteq> None \<or> (\<forall>ch \<in> set chs. chunk_slices ch (ww_fw w') = []))"
  using assms
proof (induction chs arbitrary: w)
  case (Cons ch chs)
  obtain n w1 where c: "\<And>fuel. chunk_finish env clk (n + fuel) ch w = (Inr (Some ()), w1)" "flushing w1" "shrinks w w1"
      "fw_flush_error (ww_fw w1) \<noteq> None \<or> chunk_slices ch (ww_fw w1) = []"
    using chunk_finish_ok [OF Cons.prems] by metis
  obtain m w2 where IH: "\<And>fuel. finish_chunks env clk (m + fuel) chs w1 = (Inr (Some ()), w2)" "flushing w2" "shrinks w1 w2"
      "fw_flush_error (ww_fw w2) \<noteq> None \<or> (\<forall>ch \<in> set chs. chunk_slices ch (ww_fw w2) = [])"
    using Cons.IH [OF c(2)] by metis
  have "finish_chunks env clk (n + m + fuel) (ch # chs) w = (Inr (Some ()), w2)" for fuel
    using c(1) [of "m + fuel"] IH(1) [of "n + fuel"] by (simp add: sbind_def add_ac)
  moreover have "fw_flush_error (ww_fw w2) \<noteq> None \<or> (\<forall>ch \<in> set (ch # chs). chunk_slices ch (ww_fw w2) = [])"
    using c(4) IH(3,4) shrinks_empty [OF IH(3), of ch] unfolding shrinks_def by auto
  ultimately show ?case using IH(2) shrinks_trans [OF c(3) IH(3)] by blast
qed (auto intro!: exI [of _ "0 :: nat"])

lemma take_error_run:
  "take_flush_error w = (r, w') \<longleftrightarrow> r = Inr (fw_flush_error (ww_fw w)) \<and> w' = on_fw (\<lambda>fw. fw\<lparr>fw_flush_error := None\<rparr>) w"
  by (auto simp: take_flush_error_def)

lemma take_error_ok: "flushing w \<Longrightarrow> flushing (on_fw (\<lambda>fw. fw\<lparr>fw_flush_error := None\<rparr>) w)"
proof -
  assume w: "flushing w"
  have "control_of (on_fw (\<lambda>fw. fw\<lparr>fw_flush_error := None\<rparr>) w) = (control_of w)\<lparr>ct_error := None\<rparr>"
    by (simp add: on_fw_def fw_control_def)
  then show ?thesis using protocol_inv_step [OF ps_take_error [of "control_of w" Map.empty]] w by (simp add: flushing_def on_fw_def)
qed

lemma no_open_slices:
  assumes "lists_ok c" "\<forall>(ch, qs) \<in> set (ct_chunks c). qs = []"
  shows "open_slices c = {}"
proof -
  have False if "ct_slices c q = Some (st, ch)" "st \<noteq> Done" for q st ch using lists_listed [OF assms(1) that] assms(2) by fastforce
  then show ?thesis by (auto simp: open_slices_def)
qed

lemma no_busy_queue: "queue_ok c \<Longrightarrow> open_slices c = {} \<Longrightarrow> ct_queue c = []"
proof (cases "ct_queue c")
  case (Cons req rest)
  assume "queue_ok c" "open_slices c = {}"
  then show ?thesis using Cons busy_states(3) [of req] by (fastforce simp: queue_ok_alt open_slices_alt)
qed

lemma clear_ok:
  assumes "flushing w" "\<forall>ch \<in> set (map fst (fw_chunk_writers (ww_fw w))). chunk_slices ch (ww_fw w) = []"
  defines "w' \<equiv> on_fw (\<lambda>fw. fw\<lparr>fw_chunk_writers := [], fw_notified := {}\<rparr>) w"
  shows "flushing w'" "open_slices (control_of w') = {}" "fw_flush_queue (ww_fw w') = []"
proof -
  have ok: "lists_ok (control_of w)" "distinct (map fst (fw_chunk_writers (ww_fw w)))"
    using assms(1) by (simp_all add: flushing_def control_inv_def lists_ok_def)
  have "qs = []" if "(ch, qs) \<in> set (fw_chunk_writers (ww_fw w))" for ch qs
    using map_of_is_SomeI [OF ok(2) that] assms(2) that by (force simp: chunk_slices_def)
  then have empty: "\<forall>(ch, qs) \<in> set (ct_chunks (control_of w)). qs = []" by auto
  have c': "control_of w' = (control_of w)\<lparr>ct_chunks := [], ct_notified := {}\<rparr>" by (simp add: w'_def on_fw_def fw_control_def)
  have alive: "fw_flusher_alive (ww_fw w') = fw_flusher_alive (ww_fw w)" by (simp add: w'_def on_fw_def)
  show "flushing w'" using protocol_inv_step [OF ps_clear [OF empty, of Map.empty]] assms(1) alive by (simp add: flushing_def c')
  show op: "open_slices (control_of w') = {}"
    using no_open_slices [OF ok(1) empty] by (simp add: c' open_slices_alt)
  show "fw_flush_queue (ww_fw w') = []"
    using no_busy_queue [OF _ op] \<open>flushing w'\<close> by (simp add: flushing_def control_inv_def)
qed

lemma finish_local_ok:
  assumes "flushing w"
  shows "\<exists>n r w'. (\<forall>fuel. finish_local env clk (n + fuel) w = (r, w')) \<and> r \<noteq> Inr None \<and> flushing w' \<and>
    (r = Inr (Some ()) \<longrightarrow> open_slices (control_of w') = {} \<and> fw_flush_queue (ww_fw w') = [] \<and> fw_chunk_writers (ww_fw w') = [])"
proof (cases "fw_flush_error (ww_fw w)")
  case (Some e)
  let ?w1 = "on_fw (\<lambda>fw. fw\<lparr>fw_flush_error := None\<rparr>) w"
  have "finish_local env clk fuel w = (Inl e, ?w1)" for fuel
    using Some by (simp add: finish_local_def sbind_def take_flush_error_def)
  then show ?thesis using take_error_ok [OF assms] by blast
next
  case None
  let ?w1 = "on_fw (\<lambda>fw. fw\<lparr>fw_flush_error := None\<rparr>) w"
  let ?chs = "map fst (fw_chunk_writers (ww_fw ?w1))"
  have J1: "flushing ?w1" by (rule take_error_ok [OF assms])
  show ?thesis
  proof (cases "?chs = []")
    case True
    then have "finish_local env clk fuel w = (Inr (Some ()), ?w1)" for fuel
      using None by (simp add: finish_local_def sbind_def take_flush_error_def)
    moreover have "open_slices (control_of ?w1) = {}" "fw_flush_queue (ww_fw ?w1) = []"
      using no_open_slices [of "control_of ?w1"] no_busy_queue [of "control_of ?w1"] J1 True
      by (simp_all add: flushing_def control_inv_def)
    ultimately show ?thesis using J1 True by (intro exI [of _ 0] exI [of _ "Inr (Some ())"] exI [of _ ?w1]) auto
  next
    case False
    obtain n w2 where c: "\<And>fuel. finish_chunks env clk (n + fuel) ?chs ?w1 = (Inr (Some ()), w2)" "flushing w2" "shrinks ?w1 w2"
        "fw_flush_error (ww_fw w2) \<noteq> None \<or> (\<forall>ch \<in> set ?chs. chunk_slices ch (ww_fw w2) = [])"
      using finish_chunks_ok [OF J1] by metis
    let ?w3 = "on_fw (\<lambda>fw. fw\<lparr>fw_flush_error := None\<rparr>) w2"
    have J3: "flushing ?w3" by (rule take_error_ok [OF c(2)])
    show ?thesis
    proof (cases "fw_flush_error (ww_fw w2)")
      case (Some e)
      then have "finish_local env clk (n + fuel) w = (Inl e, ?w3)" for fuel
        using None False c(1) by (simp add: finish_local_def sbind_def take_flush_error_def)
      then show ?thesis using J3 by blast
    next
      case inner: None
      let ?w4 = "on_fw (\<lambda>fw. fw\<lparr>fw_chunk_writers := [], fw_notified := {}\<rparr>) ?w3"
      have "finish_local env clk (n + fuel) w = (Inr (Some ()), ?w4)" for fuel
        using None inner False c(1) by (simp add: finish_local_def sbind_def take_flush_error_def)
      moreover have "\<forall>ch \<in> set (map fst (fw_chunk_writers (ww_fw ?w3))). chunk_slices ch (ww_fw ?w3) = []"
        using c(3,4) inner by (simp add: shrinks_def on_fw_def chunk_slices_def)
      note clear = clear_ok [OF J3 this]
      ultimately show ?thesis by (intro exI [of _ n] exI [of _ "Inr (Some ())"] exI [of _ ?w4]) (simp add: clear on_fw_def)
    qed
  qed
qed

end
