(* ===== verification/Writer_Reach.thy ===== *)
theory Writer_Reach
  imports Writer_Finish
begin

text \<open>
  The states the tasks of a file can reach: writes, the flusher and flushes interleave between
  the pieces of \<open>File_Writer\<close>, while the stores and the page pool change freely.
\<close>

text \<open>The second component remembers which slice writers are held by a write, and the state it
  found them in. \<open>q\<close> of \<open>ws_find\<close> is a fresh number of the sequence generator.\<close>

inductive writer_step ::
  "('db, 'f, 'o, 'c, 'm, 'rm, 'vm, 'p, 'pg) writer_env \<Rightarrow>
   ('db, 'f, 'o, 'c, 'm, 'p, 'pg) writer_world \<times> (nat \<Rightarrow> slice_writer_state option) \<Rightarrow>
   ('db, 'f, 'o, 'c, 'm, 'p, 'pg) writer_world \<times> (nat \<Rightarrow> slice_writer_state option) \<Rightarrow> bool" for env where
  ws_find: "fw_slices (ww_fw w) q = None \<Longrightarrow> find_writable_slice_writer q l w = (Inr (p, st), w') \<Longrightarrow>
    writer_step env (w, h) (w', h(p \<mapsto> st))"
| ws_write: "h q = Some st \<Longrightarrow> slw_write_at env q st off d w = (r, w') \<Longrightarrow> writer_step env (w, h) (w', h(q := None))"
| ws_request: "make_flush_req q seq fin w = (Inr (Some req), w1) \<Longrightarrow> send_req req w1 = (r, w') \<Longrightarrow> writer_step env (w, h) (w', h)"
| ws_length: "writer_step env (w, h) (on_fw (grow_length n) w, h)"
| ws_pattern: "writer_step env (w, h) (on_fw (\<lambda>fw. fw\<lparr>fw_pattern := monitor_write_at off n (fw_pattern fw)\<rparr>) w, h)"
| ws_take_error: "take_flush_error w = (r, w') \<Longrightarrow> writer_step env (w, h) (w', h)"
| ws_flusher: "flusher_turn env clk w = (r, w') \<Longrightarrow> writer_step env (w, h) (w', h)"
| ws_exit: "writer_step env (w, h) (on_fw flusher_exit w, h)"
| ws_round: "finish_round ch w = (r, w') \<Longrightarrow> writer_step env (w, Map.empty) (w', Map.empty)"
| ws_permit: "writer_step env (w, h) (on_fw (\<lambda>fw. fw\<lparr>fw_notified := fw_notified fw - {ch}\<rparr>) w, h)"
| ws_clear: "\<forall>(ch, qs) \<in> set (fw_chunk_writers (ww_fw w)). qs = [] \<Longrightarrow>
    writer_step env (w, Map.empty) (on_fw (\<lambda>fw. fw\<lparr>fw_chunk_writers := [], fw_notified := {}\<rparr>) w, Map.empty)"
| ws_outside: "writer_step env (w, h) (w\<lparr>ww_data := d, ww_pool := p\<rparr>, h)"

text \<open>A round, whether the flusher lives or not.\<close>

definition gathered where
  "gathered h w finished r w' \<longleftrightarrow> (\<exists>x. r = Inr x \<and> protocol_steps (control_of w, h) (control_of w', h) \<and>
     settled (control_of w) (control_of w') \<and>
     (\<forall>f. x = Some f \<longrightarrow> (\<exists>d. f = finished @ d \<and> (\<forall>q \<in> set d. ct_state (control_of w') q = Some Done))))"

lemma gathered_trans:
  assumes "gathered h w1 finished r w'" "protocol_step (control_of w, h) (control_of w1, h)" "settled (control_of w) (control_of w1)"
  shows "gathered h w finished r w'"
proof -
  have "protocol_steps (control_of w, h) (control_of w', h)" "settled (control_of w) (control_of w')"
    using assms steps_trans settled_trans unfolding gathered_def by blast+
  then show ?thesis using assms(1) unfolding gathered_def by blast
qed

lemma finish_slices_steps:
  assumes "finish_slices qs finished w = (r, w')" "\<forall>q \<in> set qs. fw_slices (ww_fw w) q \<noteq> None"
  shows "gathered h w finished r w'"
  using assms
proof (induction qs arbitrary: finished w)
  case (Cons q qs)
  obtain s where s: "fw_slices (ww_fw w) q = Some s" using Cons.prems(2) by auto
  have rest: "\<forall>q \<in> set qs. fw_slices (ww_fw w) q \<noteq> None" using Cons.prems(2) by simp
  have st: "ct_state (control_of w) q = Some (slw_state s)" using s by (simp add: ct_state_fw)
  consider (wait) "finish_slices qs finished w = (r, w')"
    | (fin) "slw_state s = Done" "finish_slices qs (finished @ [q]) w = (r, w')"
    | (req) "sbind (make_flush_req q False True) (\<lambda>req.
       case req of
         None \<Rightarrow> finish_slices qs finished
       | Some req \<Rightarrow>
           sbind (send_req req) (\<lambda>sent.
           if sent then finish_slices qs finished
           else sbind (smod (on_fw (record_flush_error (VLibc EIO)))) (\<lambda>_. sret None))) w = (r, w')"
    using Cons.prems(1) s by (auto simp: sbind_def the_slice_def split: if_splits)
  then show ?case
  proof cases
    case wait
    then show ?thesis by (rule Cons.IH [OF _ rest])
  next
    case fin
    have IH: "gathered h w (finished @ [q]) r w'" by (rule Cons.IH [OF fin(2) rest])
    then have "ct_state (control_of w') q = Some Done" using settledD [OF _ st] fin(1) by (auto simp: gathered_def)
    then show ?thesis using IH unfolding gathered_def by (fastforce intro: exI [of _ "q # _"])
  next
    case req
    obtain r1 w1 where mk: "make_flush_req q False True w = (r1, w1)" by fastforce
    from make_flush_req_control [OF mk s] show ?thesis
    proof (elim disjE exE conjE)
      assume "r1 = Inr None" "w1 = w"
      then show ?thesis using Cons.IH [OF _ rest] req mk by (simp add: sbind_def)
    next
      fix rq assume rq: "r1 = Inr (Some rq)" "target rq = q" "slw_state s = before_req rq"
        "control_of w1 = set_state q (busy rq) (control_of w)"
      obtain r2 w2 where snd: "send_req rq w1 = (r2, w2)" by fastforce
      note c2 = request_control [OF s rq(2-4) snd] and step = request_step [OF s rq(2-4) snd, of h]
      have bq: "ct_state (control_of w) (target rq) = Some (before_req rq)" using st rq(2,3) by simp
      have "ct_state (control_of w2) = ct_state (set_state q (busy rq) (control_of w))"
        using c2 rq(2) by (simp add: queued_def split: if_splits)
      then have set: "settled (control_of w) (control_of w2)" using settled_request [OF bq] rq(2) by (simp add: settled_def)
      show ?thesis
      proof (cases "fw_flusher_alive (ww_fw w)")
        case True
        have "finish_slices qs finished w2 = (r, w')" using req mk rq(1) snd c2 True by (simp add: sbind_def)
        then have "gathered h w2 finished r w'" using Cons.IH [of finished w2] rest request_dom [OF s rq(2-4) snd] by auto
        then show ?thesis by (rule gathered_trans [OF _ step set])
      next
        case False
        let ?w3 = "on_fw (record_flush_error (VLibc EIO)) w2"
        have "r = Inr None" "w' = ?w3" using req mk rq(1) snd c2 False by (simp_all add: sbind_def)
        moreover have "protocol_step (control_of w2, h) (control_of ?w3, h)"
          using ps_fail [of "control_of w2" h "VLibc EIO"] by (simp add: on_fw_def control_fail)
        moreover have "settled (control_of w2) (control_of ?w3)" by (simp add: on_fw_def control_fail settled_def)
        ultimately have "gathered h w2 finished r w'" by (auto simp: gathered_def)
        then show ?thesis by (rule gathered_trans [OF _ step set])
      qed
    qed
  qed
qed (auto simp: gathered_def)

lemma finish_round_steps:
  assumes "finish_round ch w = (r, w')" "control_inv (control_of w) h"
  shows "protocol_steps (control_of w, h) (control_of w', h)"
proof (cases "has_flush_error (ww_fw w) \<or> chunk_slices ch (ww_fw w) = []")
  case True
  then show ?thesis using assms(1) by (auto simp: finish_round_def)
next
  case False
  let ?qs = "chunk_slices ch (ww_fw w)"
  have ex: "\<forall>q \<in> set ?qs. fw_slices (ww_fw w) q \<noteq> None" using chunk_slices_listed [OF assms(2)] by blast
  obtain r1 w1 where fs: "finish_slices ?qs [] w = (r1, w1)" by fastforce
  note g = finish_slices_steps [OF fs ex, of h]
  then obtain x where x: "r1 = Inr x" "protocol_steps (control_of w, h) (control_of w1, h)"
      "\<And>f. x = Some f \<Longrightarrow> \<forall>q \<in> set f. ct_state (control_of w1) q = Some Done"
    unfolding gathered_def by fastforce
  show ?thesis
  proof (cases "x = None \<or> x = Some []")
    case True
    then show ?thesis using assms(1) False fs x by (auto simp: finish_round_def sbind_def)
  next
    case ne: False
    then obtain f where f: "x = Some f" "f \<noteq> []" by auto
    let ?w2 = "on_fw (on_chunk ch (filter (\<lambda>q. q \<notin> set f))) w1"
    have "w' = ?w2" using assms(1) False fs x(1) f by (auto simp: finish_round_def sbind_def)
    moreover have "protocol_step (control_of w1, h) (control_of ?w2, h)"
      using ps_reap [OF x(3) [OF f(1)], of h ch] by (simp add: on_fw_def on_chunk_def fw_control_def)
    ultimately show ?thesis using x(2) by simp
  qed
qed

text \<open>Every step of the tasks is a sequence of steps of the protocol.\<close>

lemma writer_step_refines:
  assumes "writer_step env x y" "control_inv (control_of (fst x)) (snd x)"
  shows "protocol_steps (control_of (fst x), snd x) (control_of (fst y), snd y)"
  using assms(1)
proof cases
  case (ws_find w q l p st w' h)
  then show ?thesis using find_writable_steps [OF ws_find(4)] assms(2) by auto
next
  case (ws_write h q st off d w r w')
  have held: "ct_state (control_of w) q = Some Writing" using assms(2) ws_write holders_held(1) [of "control_of w" h q st] by (simp add: control_inv_def)
  from slw_write_at_control [OF ws_write(4) held] show ?thesis
    using ps_release [of h q st _ "control_of w"] ps_release_notify [of h q st "control_of w"] ws_write by auto
next
  case (ws_request q seq fin w req w1 r w' h)
  have "fw_slices (ww_fw w) q \<noteq> None" 
    using ws_request(3) by (cases "fw_slices (ww_fw w) q") (auto simp: make_flush_req_def sbind_def the_slice_def)
  then obtain s where s: "fw_slices (ww_fw w) q = Some s" by blast
  have "target req = q" "slw_state s = before_req req" "control_of w1 = set_state q (busy req) (control_of w)"
    using make_flush_req_control [OF ws_request(3) s] by auto
  then show ?thesis using request_step [OF s _ _ _ ws_request(4), of h] ws_request by auto
next
  case (ws_length w h n)
  have "control_of (on_fw (grow_length n) w) = control_of w" by (simp add: on_fw_def grow_length_def fw_control_def)
  then show ?thesis using ws_length by simp
next
  case (ws_pattern w h off n)
  have "control_of (on_fw (\<lambda>fw. fw\<lparr>fw_pattern := monitor_write_at off n (fw_pattern fw)\<rparr>) w) = control_of w"
    by (simp add: on_fw_def fw_control_def)
  then show ?thesis using ws_pattern by simp
next
  case (ws_take_error w r w' h)
  then show ?thesis using ps_take_error [of "control_of w" h] by (auto simp: take_error_run on_fw_def fw_control_def)
next
  case (ws_flusher clk w r w' h)
  then show ?thesis using flusher_turn_steps [OF ws_flusher(3), of h] assms(2) by simp
next
  case (ws_exit w h)
  then show ?thesis using ps_exit [of "control_of w" h] by (auto simp: on_fw_def flusher_exit_def fw_control_def)
next
  case (ws_round ch w r w')
  then show ?thesis using finish_round_steps [OF ws_round(3)] assms(2) by simp
next
  case (ws_permit w h ch)
  then show ?thesis using ps_permit [of "control_of w" h ch] by (auto simp: on_fw_def fw_control_def)
next
  case (ws_clear w)
  then show ?thesis using ps_clear [of "control_of w" Map.empty] by (auto simp: on_fw_def fw_control_def)
next
  case (ws_outside w h d p)
  then show ?thesis by simp
qed

lemma writer_reach_inv:
  assumes "(writer_step env)\<^sup>*\<^sup>* x y" "control_inv (control_of (fst x)) (snd x)"
  shows "control_inv (control_of (fst y)) (snd y)"
  using assms
proof (induction rule: rtranclp_induct)
  case (step y z)
  then show ?case using protocol_inv [OF writer_step_refines [OF step.hyps(2)]] by simp
qed

end
