(* ===== verification/Stage_Live.thy ===== *)
theory Stage_Live
  imports Buffer_Flush Cache_Live
begin

text \<open>
  Flushing a buffer into a stage directory that works and has room for it succeeds.
\<close>

locale writable_stage_fs = reliable_stage_fs +
  assumes fs_dir_total: "\<exists>f'. fs_create_dir_all fs f = Some f'"
    and fs_create_total: "\<exists>f'. fs_create fs n f = Inr f'"
    and fs_write_total: "\<exists>f'. fs_write_all fs n d f = (True, f')"
    and fs_sync_total: "\<exists>f'. fs_sync fs n f = (True, f')"
    and fs_rename_total: "files f a = Some d \<Longrightarrow> \<exists>f'. fs_rename fs a b f = Some f'"
begin

lemma write_atomic_succeeds: "\<exists>f'. write_atomic fs n d f = (Inr (), f')"
proof -
  obtain f1 where 1: "fs_create_dir_all fs f = Some f1" using fs_dir_total by blast
  obtain f2 where 2: "fs_create fs (tmp_path n) f1 = Inr f2" using fs_create_total by blast
  obtain f3 where 3: "fs_write_all fs (tmp_path n) d f2 = (True, f3)" using fs_write_total by blast
  obtain f4 where 4: "fs_sync fs (tmp_path n) f3 = (True, f4)" using fs_sync_total by blast
  obtain x where "files f3 = (files f2)(tmp_path n \<mapsto> x)" using write_files [OF 3] by blast
  then have "files f4 (tmp_path n) = Some x" using sync_files [OF 4] by simp
  then obtain f5 where 5: "fs_rename fs (tmp_path n) n f4 = Some f5" using fs_rename_total by blast
  show ?thesis using 1 2 3 4 5 by (simp add: write_atomic_def Let_def)
qed

end

interpretation afs: writable_stage_fs alist_fs map_of
  by unfold_locales (auto simp: alist_fs_def)

text \<open>Room in the stage directory.\<close>

definition stage_room :: "nat \<Rightarrow> ('f, 'o, 'c) file_cache \<Rightarrow> bool" where
  "stage_room n c \<longleftrightarrow> fc_staged_bytes c + n \<le> fc_max_stage_size c \<and> fc_max_stage_size c < 2 ^ 64"

lemma stage_succeeds:
  assumes "writable_stage_fs (ce_fs env) files" "gather_block po p n pages = Inr d" "stage_room (n + m) c"
  shows "\<exists>c'. fc_stage env po p sid idx n pages c = (Inr (n, count_pages pages), c') \<and> stage_room m c'"
proof -
  let ?k = "slice_key_new sid idx n"
  show ?thesis
  proof (cases "map_of (fc_staged_index c) ?k")
    case (Some e)
    then show ?thesis using assms(3) by (auto simp: fc_stage_def Let_def stage_room_def)
  next
    case None
    let ?c1 = "c\<lparr>fc_staged_bytes := fc_staged_bytes c + n\<rparr>"
    have res: "reserve_stage_bytes n c = (Inr (), ?c1)"
      using assms(3) by (simp add: reserve_stage_bytes_def Let_def checked_add64_def stage_room_def)
    have sz: "sk_block_size ?k = n" by (simp add: slice_key_new_def)
    obtain f' where w: "write_atomic (ce_fs env) (object_path ?k) d (fc_local ?c1) = (Inr (), f')"
      using writable_stage_fs.write_atomic_succeeds [OF assms(1)] by blast
    have "\<exists>v c2. index_try_get_with env ?k (stage_block env po p ?k pages) ?c1 = (Inr v, c2) \<and>
        fc_staged_bytes c2 = fc_staged_bytes ?c1 \<and> fc_max_stage_size c2 = fc_max_stage_size c \<and> fc_staged_index c2 = fc_staged_index c"
      using w assms(2) sz by (auto simp: index_try_get_with_def stage_block_def sbind_def split: option.splits)
    then obtain v c2 where c2: "index_try_get_with env ?k (stage_block env po p ?k pages) ?c1 = (Inr v, c2)"
        "fc_staged_bytes c2 = fc_staged_bytes ?c1" "fc_max_stage_size c2 = fc_max_stage_size c" "fc_staged_index c2 = fc_staged_index c"
      by blast
    then show ?thesis using None res assms(3) by (simp add: fc_stage_def Let_def sbind_def stage_room_def)
  qed
qed

lemma block_lengths:
  assumes "gapless sb" "k \<le> CHUNK_SIZE div BLOCK_SIZE" "i \<le> k"
  shows "(\<Sum>bi \<leftarrow> [i..<k]. block_len (sb_block_slots sb ! bi)) \<le> sb_length sb - i * BLOCK_SIZE"
  using assms(2,3)
proof (induction "k - i" arbitrary: i)
  case (Suc n)
  then have i: "i < k" by simp
  then have "block_len (sb_block_slots sb ! i) = min BLOCK_SIZE (sb_length sb - i * BLOCK_SIZE)"
    using assms(1) Suc.prems(1) by (simp add: gapless_def)
  moreover have "(\<Sum>bi \<leftarrow> [Suc i..<k]. block_len (sb_block_slots sb ! bi)) \<le> sb_length sb - Suc i * BLOCK_SIZE"
    by (rule Suc.hyps) (use Suc i in auto)
  moreover have "[i..<k] = i # [Suc i..<k]" using i by (simp add: upt_conv_Cons)
  ultimately show ?case by (auto simp: min_def)
qed auto

locale writable_stage_world = stage_world po page_bytes pool_ok free total env files objects content +
  writable_stage_fs "ce_fs env" files
  for po :: "('p, 'pg) page_ops" and page_bytes pool_ok free total
    and env :: "('f, 'o, 'c) cache_env" and files objects content
begin

lemma stage_blocks_succeeds:
  assumes "staging sid sb A fl released w" "gapless sb" "sb_wf page_bytes sb"
    "distinct idxs" "\<And>i. i \<in> set idxs \<Longrightarrow> i < CHUNK_SIZE div BLOCK_SIZE \<and> i \<notin> fl \<and> sb_block_slots sb ! i \<noteq> BEmpty \<and>
       content (object_path (block_key sid (sb_length sb) i)) = slice_block (sb_byte page_bytes sb) (sb_length sb) i"
    "stage_room (\<Sum>bi \<leftarrow> idxs. block_len (sb_block_slots sb ! bi)) (sw_sink w)"
  shows "\<exists>n w'. stage_blocks env po sid idxs released w = (Inr n, w')"
  using assms
proof (induction idxs arbitrary: fl released w)
  case (Cons i rest)
  obtain db where db: "sb_block_slots sb ! i = BData db" using Cons.prems(5) [of i] by (cases "sb_block_slots sb ! i") auto
  have i: "i < CHUNK_SIZE div BLOCK_SIZE" "i \<notin> fl" using Cons.prems(5) [of i] by auto
  have slot: "sb_block_slots (sw_buf w) ! i = BData db" using Cons.prems(1) i db by (simp add: staging_def)
  have wf: "block_wf page_bytes (BData db)"
    using Cons.prems(3) i db nth_mem [of i "sb_block_slots sb"] by (simp add: sb_wf_def)
  have gather: "gather_block po (sw_pool w) (db_length db) (db_pages db) = Inr (map (block_byte page_bytes (BData db)) [0..<db_length db])"
    using gather_block_bytes [OF _ wf] wf Cons.prems(1) by (simp add: block_wf_def staging_def)
  let ?m = "\<Sum>bi \<leftarrow> rest. block_len (sb_block_slots sb ! bi)"
  have room: "stage_room (db_length db + ?m) (sw_sink w)" using Cons.prems(6) db by (simp add: block_len_def)
  obtain c where run: "fc_stage env po (sw_pool w) sid i (db_length db) (db_pages db) (sw_sink w) =
      (Inr (db_length db, count_pages (db_pages db)), c)" "stage_room ?m c"
    using stage_succeeds [OF writable_stage_fs_axioms gather room] by blast
  have content: "content (object_path (block_key sid (sb_length sb) i)) = map (block_byte page_bytes (BData db)) [0..<db_length db]"
    using Cons.prems(5) [of i] slice_block_data [OF Cons.prems(2) i(1) db] by simp
  obtain w1 where w1: "release_block po i db (w\<lparr>sw_sink := c\<rparr>) = (Inr (), w1)"
      "staging sid sb A (insert i fl) (released + count_pages (db_pages db)) w1"
    using stage_one [OF Cons.prems(1-3) i db content run(1)] by auto
  have "sw_sink w1 = c" using w1(1) by (auto simp: release_block_def upd_buf_def split: sum.splits)
  then have "\<exists>n w'. stage_blocks env po sid rest (released + count_pages (db_pages db)) w1 = (Inr n, w')"
    using Cons.IH [OF w1(2) Cons.prems(2,3)] Cons.prems(4,5) run(2) by auto
  then show ?case using slot run(1) w1(1) by (simp add: sbind_def)
qed simp

lemma flush_v2_succeeds:
  assumes inv: "buf_inv w" and gap: "gapless (sw_buf w)" and fl: "sb_flushed_length (sw_buf w) = 0"
    and okc: "okc A (sw_sink w)" and room: "stage_room (sb_length (sw_buf w)) (sw_sink w)"
    and content: "\<And>bi. bi * BLOCK_SIZE < sb_length (sw_buf w) \<Longrightarrow>
      content (object_path (block_key sid (sb_length (sw_buf w)) bi)) = slice_block (sb_byte page_bytes (sw_buf w)) (sb_length (sw_buf w)) bi"
  shows "\<exists>n w'. flush_v2 env po sid w = (Inr n, w')"
proof (cases "sb_length (sw_buf w) = 0")
  case True
  then show ?thesis by (simp add: flush_v2_def)
next
  case False
  let ?sb = "sw_buf w" let ?k = "(sb_length ?sb - 1) div BLOCK_SIZE + 1"
  have wf: "sb_wf page_bytes ?sb" using inv by (simp add: buffer_inv_def)
  have pend: "pending_blocks (?k * BLOCK_SIZE) ?sb = [0..<?k]" using pending_gapless [OF gap wf] False by simp
  have st: "staging sid ?sb A {} 0 w" using inv okc by (simp add: staging_def buffer_inv_def)
  have blocks: "bi < CHUNK_SIZE div BLOCK_SIZE \<and> sb_block_slots ?sb ! bi \<noteq> BEmpty" if "bi \<in> set [0..<?k]" for bi
    using that unfolding pend [symmetric] pending_blocks_def using wf by (auto simp: sb_wf_def split: block.splits)
  have kle: "?k \<le> CHUNK_SIZE div BLOCK_SIZE" using blocks [of "?k - 1"] by auto
  then have kb: "?k * BLOCK_SIZE \<le> CHUNK_SIZE" by (simp add: sizes)
  have ok: "i < CHUNK_SIZE div BLOCK_SIZE \<and> i \<notin> {} \<and> sb_block_slots ?sb ! i \<noteq> BEmpty \<and>
      content (object_path (block_key sid (sb_length ?sb) i)) = slice_block (sb_byte page_bytes ?sb) (sb_length ?sb) i"
    if i: "i \<in> set [0..<?k]" for i
  proof -
    have "i \<le> (sb_length ?sb - 1) div BLOCK_SIZE" using i by auto
    then have "i * BLOCK_SIZE \<le> sb_length ?sb - 1" using less_eq_div_iff_mult_less_eq [OF sizes_pos(2)] by blast
    then have "i * BLOCK_SIZE < sb_length ?sb" using False by linarith
    then show ?thesis using blocks [OF i] content [of i] by blast
  qed
  have "(\<Sum>bi \<leftarrow> [0..<?k]. block_len (sb_block_slots ?sb ! bi)) \<le> sb_length ?sb" using block_lengths [OF gap kle, of 0] by simp
  then have "stage_room (\<Sum>bi \<leftarrow> [0..<?k]. block_len (sb_block_slots ?sb ! bi)) (sw_sink w)"
    using room unfolding stage_room_def by linarith
  then obtain n w1 where "stage_blocks env po sid [0..<?k] 0 w = (Inr n, w1)"
    using stage_blocks_succeeds [OF st gap wf distinct_upt ok] by blast
  then show ?thesis using False fl kb pend by (simp add: flush_v2_def sb_stage_def check_flush_offset_def sbind_def)
qed

end

end
