(* ===== verification/Writer_Publish.thy ===== *)
theory Writer_Publish
  imports Reader_Live Writer_Reach Stage_Live Engine_Theorems
begin

text \<open>
  What the flusher publishes is what a reader gets: \<^verbatim>\<open>flush_and_commit\<close> stages the blocks of a
  buffer and commits its slice, and from then on the bytes of the buffer are the bytes of the
  file.
\<close>

section \<open>The metadata\<close>

context meta_db
begin

lemma next_slice_views:
  assumes "next_slice_id kv cd s = (r, s')"
  shows "v_attr cd (content (me_backend s')) = v_attr cd (content (me_backend s))"
    "v_chunk (content (me_backend s')) = v_chunk (content (me_backend s))" "me_open_files s' = me_open_files s"
proof -
  obtain r1 t db where n: "id_next kv cd NextSlice (me_free_slices s) (me_backend s) = (r1, t, db)" by (metis prod_cases3)
  then have s': "me_backend s' = db" "me_open_files s' = me_open_files s" using assms by (auto simp: next_slice_id_def)
  have "\<exists>buf. content db = content (me_backend s) \<or> content db = (content (me_backend s))(key_counter NextSlice := Some buf)"
  proof (cases "fst (me_free_slices s) \<ge> snd (me_free_slices s)")
    case True
    obtain q d where f: "id_refill kv cd NextSlice (me_backend s) = (q, d)" by fastforce
    then have "db = d" using n True by (auto simp: id_next_def split: sum.splits prod.splits)
    then show ?thesis using f increase_count_by_run [of NextSlice]
      by (fastforce simp: id_refill_def split: option.splits prod.splits sum.splits)
  next
    case False
    then show ?thesis using n by (auto simp: id_next_def split: prod.splits)
  qed
  then show "v_attr cd (content (me_backend s')) = v_attr cd (content (me_backend s))"
    "v_chunk (content (me_backend s')) = v_chunk (content (me_backend s))"
    using s' by (auto simp: key_render view_simps)
  show "me_open_files s' = me_open_files s" by (fact s'(2))
qed

end

context reliable_meta
begin

lemma chunk_slices_cong:
  assumes "v_chunk (content db') (i, c) = v_chunk (content db) (i, c)"
  shows "get_chunk_slices kv cd i c db' = get_chunk_slices kv cd i c db"
  using assms by (simp add: get_chunk_slices_def kv_get_content v_chunk_def key_render)

text \<open>Publishing a slice: the chunk shows it, the other chunks and the caches of their slices stay.\<close>

lemma write_slice_ok:
  assumes "v_attr cd (content (me_backend s)) i = Some a" "attr_is_file a"
    and "chunk_holds cd (content (me_backend s)) i c ss" "slice_wf (Owned pos sid len 0)" "0 \<le> clk 0" "0 \<le> clk 1"
    and "slices_coherent kv cd s"
  shows "\<exists>s'. write_slice kv cd clk i c pos (Owned pos sid len 0) s = (Inr (), s')
    \<and> get_chunk_slices kv cd i c (me_backend s') = Inr (add_slice (Owned pos sid len 0) ss)
    \<and> (\<forall>x. x \<noteq> (i, c) \<longrightarrow> v_chunk (content (me_backend s')) x = v_chunk (content (me_backend s)) x)
    \<and> slices_coherent kv cd s' \<and> me_open_files s' = ofs_invalid i (OneChunk c) (me_open_files s)"
proof -
  let ?s = "Owned pos sid len 0"
  obtain r db' where run: "commit_slice kv cd i c ?s (clk 0) (clk 1) (me_backend s) = (Inr r, db')"
      and got: "get_chunk_slices kv cd i c db' = Inr (add_slice ?s ss)"
      and rest: "\<forall>x. x \<noteq> (i, c) \<longrightarrow> v_chunk (content db') x = v_chunk (content (me_backend s)) x"
    using commit_read [OF assms(1-6)] by blast
  define s1 where "s1 = (if sc_grew_by r > 0 then snd (stat_add 0 (sc_grew_by r) (s\<lparr>me_backend := db'\<rparr>)) else s\<lparr>me_backend := db'\<rparr>)"
  define s2 where "s2 = s1\<lparr>me_open_files := ofs_invalid i (OneChunk c) (me_open_files s1)\<rparr>"
  have s1: "me_backend s1 = db'" "me_open_files s1 = me_open_files s" by (simp_all add: s1_def stat_add_def)
  have "write_slice kv cd clk i c pos ?s s = (Inr (), s2)"
    using run by (simp add: write_slice_def sbind_def backend_def szoom_def stat_add_def open_files_set_def s1_def s2_def)
  moreover have "slices_coherent kv cd s2"
    unfolding slices_coherent_def
  proof (intro allI impI)
    fix i' f c' xs assume f: "ofs_files (me_open_files s2) i' = Some f" "of_chunks f c' = Some xs"
    then have "\<exists>f. ofs_files (me_open_files s) i' = Some f \<and> of_chunks f c' = Some xs" "(i', c') \<noteq> (i, c)"
      by (auto simp: s2_def s1 ofs_invalid_def ofs_update_def of_invalid_slices_def split: if_splits)
    then show "get_chunk_slices kv cd i' c' (me_backend s2) = Inr xs"
      using assms(7) rest chunk_slices_cong [of db' i' c' "me_backend s"] unfolding slices_coherent_def
      by (auto simp: s2_def s1)
  qed
  ultimately show ?thesis using got rest by (auto simp: s2_def s1)
qed

end

section \<open>The bytes of a published slice\<close>

lemma slice_byte_blocks:
  assumes "\<And>bi. bi * BLOCK_SIZE < len \<Longrightarrow> content (object_path (block_key sid len bi)) = slice_block f len bi"
    "j < len" "len < 2 ^ 64"
  shows "slice_byte content sid len j = f j"
proof -
  let ?bi = "j div BLOCK_SIZE"
  have bi: "?bi * BLOCK_SIZE \<le> j" by simp
  then have lt: "?bi * BLOCK_SIZE < len" using assms(2) by linarith
  have key: "slice_key_new sid ?bi (cal_cached_block_size len ?bi BLOCK_SIZE) = block_key sid len ?bi"
    using cal_cached_block_size_eq [of ?bi len] lt assms(3) by (simp add: block_key_def min.commute)
  have r: "j mod BLOCK_SIZE < BLOCK_SIZE" "j = ?bi * BLOCK_SIZE + j mod BLOCK_SIZE" using BLOCK_SIZE_pos by simp_all
  have "(?bi + 1) * BLOCK_SIZE = ?bi * BLOCK_SIZE + BLOCK_SIZE" by simp
  then have "j < (?bi + 1) * BLOCK_SIZE" using r by linarith
  then have up: "?bi * BLOCK_SIZE + j mod BLOCK_SIZE < min ((?bi + 1) * BLOCK_SIZE) len" using assms(2) by simp
  have "slice_block f len ?bi ! (j mod BLOCK_SIZE) = f ([?bi * BLOCK_SIZE..<min ((?bi + 1) * BLOCK_SIZE) len] ! (j mod BLOCK_SIZE))"
    unfolding slice_block_def by (rule nth_map) (unfold length_upt, use up in linarith)
  also have "\<dots> = f j" unfolding nth_upt [OF up] by simp
  finally have "slice_block f len ?bi ! (j mod BLOCK_SIZE) = f j" .
  then show ?thesis unfolding slice_byte_def key using assms(1) [OF lt] by simp
qed

lemma slice_stored_blocks:
  assumes "\<And>bi. bi * BLOCK_SIZE < len \<Longrightarrow> content (object_path (block_key sid len bi)) = slice_block f len bi"
    "\<And>bi. bi * BLOCK_SIZE < len \<Longrightarrow> block_key sid len bi \<in> A" "len \<le> CHUNK_SIZE"
  shows "slice_stored content A sid len"
proof -
  have "slice_key_new sid bi (min (len - bi * BLOCK_SIZE) BLOCK_SIZE) = block_key sid len bi" for bi
    by (simp add: block_key_def min.commute)
  moreover have "length (slice_block f len bi) = sk_block_size (block_key sid len bi)" if "bi * BLOCK_SIZE < len" for bi
    using that by (auto simp: slice_block_def block_key_def slice_key_new_def min_def)
  ultimately show ?thesis using assms by (simp add: slice_stored_def Let_def)
qed

lemma visible_add:
  "s \<notin> set ss \<Longrightarrow> visible_slice (add_slice s ss) p = (if slice_covers p s then Some s else visible_slice ss p)"
  by (simp add: visible_slice_def add_slice_def)

text \<open>A published slice shows its own bytes, and the rest of the chunk what it showed before.\<close>

lemma chunk_byte_add:
  assumes "Owned pos sid len 0 \<notin> set ss" "sid \<noteq> EMPTY_SLICE_ID"
  shows "chunk_byte content (add_slice (Owned pos sid len 0) ss) p =
    (if pos \<le> p \<and> p < pos + len then slice_byte content sid len (p - pos) else chunk_byte content ss p)"
  using assms by (simp add: chunk_byte_def visible_add slice_covers_def virtual_of_def virtual_byte_def)

section \<open>Flushing a slice writer\<close>

text \<open>A slice writer whose buffer is complete: no block was flushed, and the directory has room.\<close>

locale publish_world =
  writable_stage_world "wv_pages env" page_bytes pool_ok free total "dv_cache (wv_data env)" files objects content +
  meta: reliable_meta "dv_kv (wv_data env)" mcontent "dv_codec (wv_data env)"
  for env :: "('db, 'f, 'o, 'c, 'm, 'rm, 'vm, 'p, 'pg) writer_env"
    and page_bytes pool_ok free total files objects content mcontent
begin

definition flush_ready where
  "flush_ready A sid s w \<longleftrightarrow>
     (let b = \<lparr> sw_pool = ww_pool w, sw_buf = slw_buffer s, sw_sink = dw_cache (ww_data w) \<rparr>; len = sb_length (slw_buffer s) in
      buf_inv b \<and> gapless (slw_buffer s) \<and> sb_flushed_length (slw_buffer s) = 0 \<and> page_count (slw_buffer s) < 2 ^ 64 \<and>
      okc A (dw_cache (ww_data w)) \<and> stage_room len (dw_cache (ww_data w)) \<and>
      (\<forall>bi. bi * BLOCK_SIZE < len \<longrightarrow>
         content (object_path (block_key sid len bi)) = slice_block (sb_byte page_bytes (slw_buffer s)) len bi))"

lemma prepare_slice_id_frame:
  assumes "prepare_slice_id env q w = (Inr sid, w1)" "fw_slices (ww_fw w) q = Some s"
  shows "ww_pool w1 = ww_pool w" "dw_cache (ww_data w1) = dw_cache (ww_data w)" "dw_mem (ww_data w1) = dw_mem (ww_data w)"
    "fw_inode (ww_fw w1) = fw_inode (ww_fw w)" "fw_chunk_writers (ww_fw w1) = fw_chunk_writers (ww_fw w)"
    "v_attr (dv_codec (wv_data env)) (mcontent (me_backend (dw_meta (ww_data w1)))) =
       v_attr (dv_codec (wv_data env)) (mcontent (me_backend (dw_meta (ww_data w))))"
    "v_chunk (mcontent (me_backend (dw_meta (ww_data w1)))) = v_chunk (mcontent (me_backend (dw_meta (ww_data w))))"
    "me_open_files (dw_meta (ww_data w1)) = me_open_files (dw_meta (ww_data w))"
    "\<exists>s1. fw_slices (ww_fw w1) q = Some s1 \<and> slw_buffer s1 = slw_buffer s \<and> slw_state s1 = slw_state s \<and>
       slw_chunk_index s1 = slw_chunk_index s \<and> slw_offset_of_chunk s1 = slw_offset_of_chunk s"
proof -
  show "ww_pool w1 = ww_pool w" "dw_cache (ww_data w1) = dw_cache (ww_data w)" "dw_mem (ww_data w1) = dw_mem (ww_data w)"
    "fw_inode (ww_fw w1) = fw_inode (ww_fw w)" "fw_chunk_writers (ww_fw w1) = fw_chunk_writers (ww_fw w)"
    using assms(1) by (auto simp: prepare_slice_id_def sbind_eq the_slice_run in_engine_def szoom_eq in_meta_eq on_fw_def on_slice_def
        split: if_splits)
  have m: "dw_meta (ww_data w1) = dw_meta (ww_data w) \<or>
      (\<exists>r. next_slice_id (dv_kv (wv_data env)) (dv_codec (wv_data env)) (dw_meta (ww_data w)) = (r, dw_meta (ww_data w1)))"
    using assms(1) by (auto simp: prepare_slice_id_def sbind_eq the_slice_run in_engine_def szoom_eq in_meta_eq on_fw_def
        split: if_splits)
  show "v_attr (dv_codec (wv_data env)) (mcontent (me_backend (dw_meta (ww_data w1)))) =
       v_attr (dv_codec (wv_data env)) (mcontent (me_backend (dw_meta (ww_data w))))"
    "v_chunk (mcontent (me_backend (dw_meta (ww_data w1)))) = v_chunk (mcontent (me_backend (dw_meta (ww_data w))))"
    "me_open_files (dw_meta (ww_data w1)) = me_open_files (dw_meta (ww_data w))"
    using m meta.next_slice_views by (elim disjE exE; force)+
  show "\<exists>s1. fw_slices (ww_fw w1) q = Some s1 \<and> slw_buffer s1 = slw_buffer s \<and> slw_state s1 = slw_state s \<and>
       slw_chunk_index s1 = slw_chunk_index s \<and> slw_offset_of_chunk s1 = slw_offset_of_chunk s"
    using assms by (auto simp: prepare_slice_id_def sbind_eq the_slice_run in_engine_def szoom_eq on_fw_def on_slice_def
        split: if_splits)
qed

end

lemma stage_blocks_length: "stage_blocks env po sid idxs n w = (r, w') \<Longrightarrow> sb_length (sw_buf w') = sb_length (sw_buf w)"
proof (induction idxs arbitrary: n w)
  case (Cons i idxs)
  have rel: "sb_length (sw_buf w1) = sb_length (sw_buf w0)" if "release_block po i db w0 = (r1, w1)" for db w0 r1 w1
    using that by (auto simp: release_block_def upd_buf_def set_slot_def split: sum.splits)
  show ?case using Cons by (fastforce simp: sbind_eq split: block.splits prod.splits sum.splits dest!: rel)
qed simp

lemma flush_v2_length: "flush_v2 env po sid w = (r, w') \<Longrightarrow> sb_length (sw_buf w') = sb_length (sw_buf w)"
  by (auto simp: flush_v2_def sb_stage_def sbind_eq upd_buf_def split: if_splits sum.splits dest!: stage_blocks_length)

context publish_world
begin

lemma in_buffer_run:
  assumes "fw_slices (ww_fw w) q = Some s" "m \<lparr> sw_pool = ww_pool w, sw_buf = slw_buffer s, sw_sink = dw_cache (ww_data w) \<rparr> = (Inr x, b)"
  shows "in_buffer q m w = (Inr x, on_fw (on_slice q (\<lambda>s. s\<lparr>slw_buffer := sw_buf b\<rparr>))
          (w\<lparr>ww_pool := sw_pool b, ww_data := (ww_data w)\<lparr>dw_cache := sw_sink b\<rparr>\<rparr>))"
  using assms by (simp add: in_buffer_def sbind_def the_slice_def szoom_def smap_err_def)

abbreviation "the_kv \<equiv> dv_kv (wv_data env)"
abbreviation "the_codec \<equiv> dv_codec (wv_data env)"
abbreviation "db_of w \<equiv> me_backend (dw_meta (ww_data w))"

text \<open>What publishing leaves behind.\<close>

definition published where
  "published A sid s ss w w' \<longleftrightarrow>
     (let len = sb_length (slw_buffer s); i = fw_inode (ww_fw w); c = slw_chunk_index s in
      okc (A \<union> block_key sid len ` {bi. bi * BLOCK_SIZE < len}) (dw_cache (ww_data w')) \<and> dw_mem (ww_data w') = dw_mem (ww_data w) \<and>
      get_chunk_slices the_kv the_codec i c (db_of w') = Inr (add_slice (Owned (slw_offset_of_chunk s) sid len 0) ss) \<and>
      (\<forall>c'. c' \<noteq> c \<longrightarrow> get_chunk_slices the_kv the_codec i c' (db_of w') = get_chunk_slices the_kv the_codec i c' (db_of w)) \<and>
      slices_coherent the_kv the_codec (dw_meta (ww_data w')) \<and>
      me_open_files (dw_meta (ww_data w')) = ofs_invalid i (OneChunk c) (me_open_files (dw_meta (ww_data w))) \<and>
      sid \<in> set (fw_published_slices (ww_fw w')))"

lemma flush_and_commit_ok:
  assumes s: "fw_slices (ww_fw w) q = Some s" "slw_state s = Flushing" "cw_alive (slw_chunk_index s) (ww_fw w)"
    and prep: "prepare_slice_id env q w = (Inr sid, w1)" and ready: "flush_ready A sid s w"
    and attr: "v_attr the_codec (mcontent (db_of w)) (fw_inode (ww_fw w)) = Some a" "attr_is_file a"
    and hold: "chunk_holds the_codec (mcontent (db_of w)) (fw_inode (ww_fw w)) (slw_chunk_index s) ss"
    and bounds: "slw_offset_of_chunk s < 2 ^ 32" "sb_length (slw_buffer s) < 2 ^ 32" "sid < 2 ^ 64" "0 \<le> clk 0" "0 \<le> clk 1"
    and coh: "slices_coherent the_kv the_codec (dw_meta (ww_data w))"
  shows "\<exists>w'. flush_and_commit env clk q w = (Inr (), w') \<and> published A sid s ss w w'"
proof -
  note frame = prepare_slice_id_frame [OF prep s(1)]
  obtain s1 where s1: "fw_slices (ww_fw w1) q = Some s1" "slw_buffer s1 = slw_buffer s" "slw_state s1 = Flushing"
      "slw_chunk_index s1 = slw_chunk_index s" "slw_offset_of_chunk s1 = slw_offset_of_chunk s"
    using frame(9) s(2) by auto
  let ?b = "\<lparr> sw_pool = ww_pool w1, sw_buf = slw_buffer s1, sw_sink = dw_cache (ww_data w1) \<rparr>"
  have r: "buf_inv ?b" "gapless (sw_buf ?b)" "sb_flushed_length (sw_buf ?b) = 0" "okc A (sw_sink ?b)"
      "stage_room (sb_length (sw_buf ?b)) (sw_sink ?b)" "page_count (sw_buf ?b) < 2 ^ 64"
      "\<And>bi. bi * BLOCK_SIZE < sb_length (sw_buf ?b) \<Longrightarrow>
        content (object_path (block_key sid (sb_length (sw_buf ?b)) bi)) = slice_block (sb_byte page_bytes (sw_buf ?b)) (sb_length (sw_buf ?b)) bi"
    using ready unfolding flush_ready_def Let_def by (simp_all add: frame s1)
  obtain n b where fl: "flush_v2 (dv_cache (wv_data env)) (wv_pages env) sid ?b = (Inr n, b)"
    using flush_v2_succeeds [OF r(1-5,7)] by blast
  have okc: "okc (A \<union> block_key sid (sb_length (slw_buffer s)) ` {bi. bi * BLOCK_SIZE < sb_length (slw_buffer s)}) (sw_sink b)"
    using flush_v2_effect [OF r(1-4,6,7) fl] s1(2) by simp
  have len: "sb_length (sw_buf b) = sb_length (slw_buffer s)" using flush_v2_length [OF fl] s1(2) by simp
  define w2 where "w2 = on_fw (on_slice q (\<lambda>s. s\<lparr>slw_buffer := sw_buf b\<rparr>))
      (w1\<lparr>ww_pool := sw_pool b, ww_data := (ww_data w1)\<lparr>dw_cache := sw_sink b\<rparr>\<rparr>)"
  have run2: "in_buffer q (flush_v2 (dv_cache (wv_data env)) (wv_pages env) sid) w1 = (Inr n, w2)"
    using in_buffer_run [OF s1(1), of "flush_v2 (dv_cache (wv_data env)) (wv_pages env) sid", OF fl] by (simp add: w2_def)
  define s2 where "s2 = s1\<lparr>slw_buffer := sw_buf b\<rparr>"
  have w2: "fw_slices (ww_fw w2) q = Some s2" "dw_meta (ww_data w2) = dw_meta (ww_data w1)" "fw_inode (ww_fw w2) = fw_inode (ww_fw w)"
      "dw_cache (ww_data w2) = sw_sink b" "dw_mem (ww_data w2) = dw_mem (ww_data w)" "fw_chunk_writers (ww_fw w2) = fw_chunk_writers (ww_fw w)"
    using s1(1) by (simp_all add: w2_def s2_def on_fw_def on_slice_def frame)
  have s2: "slw_chunk_index s2 = slw_chunk_index s" "slw_offset_of_chunk s2 = slw_offset_of_chunk s"
      "sb_length (slw_buffer s2) = sb_length (slw_buffer s)" "slw_state s2 = Flushing"
    using s1 len by (simp_all add: s2_def)
  have coh1: "slices_coherent the_kv the_codec (dw_meta (ww_data w1))"
    using coh meta.chunk_slices_cong [of "db_of w1" _ _ "db_of w"] by (simp add: slices_coherent_def frame)
  obtain m where m: "write_slice the_kv the_codec clk (fw_inode (ww_fw w)) (slw_chunk_index s) (slw_offset_of_chunk s)
        (Owned (slw_offset_of_chunk s) sid (sb_length (slw_buffer s)) 0) (dw_meta (ww_data w1)) = (Inr (), m)"
      "get_chunk_slices the_kv the_codec (fw_inode (ww_fw w)) (slw_chunk_index s) (me_backend m) =
         Inr (add_slice (Owned (slw_offset_of_chunk s) sid (sb_length (slw_buffer s)) 0) ss)"
      "\<forall>x. x \<noteq> (fw_inode (ww_fw w), slw_chunk_index s) \<longrightarrow> v_chunk (mcontent (me_backend m)) x = v_chunk (mcontent (db_of w1)) x"
      "slices_coherent the_kv the_codec m"
      "me_open_files m = ofs_invalid (fw_inode (ww_fw w)) (OneChunk (slw_chunk_index s)) (me_open_files (dw_meta (ww_data w1)))"
    using meta.write_slice_ok [of "dw_meta (ww_data w1)" "fw_inode (ww_fw w)" a "slw_chunk_index s" ss "slw_offset_of_chunk s" sid
        "sb_length (slw_buffer s)" clk] attr hold bounds coh1 by (auto simp: frame chunk_holds_def)
  define w3 where "w3 = w2\<lparr>ww_data := (ww_data w2)\<lparr>dw_meta := m\<rparr>\<rparr>"
  have run3: "publish_slice env clk s2 sid (sb_length (slw_buffer s2)) w2 = (Inr (), w3)"
    using m(1) bounds by (simp add: publish_slice_def in_engine_def szoom_def in_meta_def smap_err_def w2 s2 w3_def as_u32_def)
  define w4 where "w4 = on_fw (record_published_slice sid) w3"
  obtain r5 w5 where run5: "slice_done q Flushing w4 = (r5, w5)" by fastforce
  have "ct_state (control_of w4) q = Some Flushing" using w2(1) s2(4) by (simp add: ct_state_fw w4_def w3_def on_fw_def record_published_slice_def)
  then have r5: "r5 = Inr ()" using slice_done_control [OF run5] by blast
  have w5: "ww_data w5 = ww_data w3" "fw_published_slices (ww_fw w5) = fw_published_slices (ww_fw w4)"
    using run5 by (auto simp: slice_done_def sbind_eq cas_state_run on_fw_def on_slice_def notify_done_def w4_def
        split: option.splits if_splits)
  have "flush_and_commit env clk q w = (Inr (), w5)"
    using prep run2 run3 run5 r5 s(3) w2(1)
    by (simp add: flush_and_commit_def sbind_def the_slice_def s2 w3_def w4_def cw_alive_def w2(6))
  moreover have "published A sid s ss w w5"
  proof -
    have "get_chunk_slices the_kv the_codec (fw_inode (ww_fw w)) c' (me_backend m) =
        get_chunk_slices the_kv the_codec (fw_inode (ww_fw w)) c' (db_of w)" if "c' \<noteq> slw_chunk_index s" for c'
      by (rule meta.chunk_slices_cong) (use m(3) that in \<open>simp add: frame\<close>)
    then show ?thesis using okc m(2,4,5) w5
      by (simp add: published_def Let_def w3_def w2 w4_def on_fw_def record_published_slice_def frame)
  qed
  ultimately show ?thesis by blast
qed

end

section \<open>Reading back\<close>

locale publish_read_world =
  publish_world env page_bytes pool_ok free total files objects content mcontent +
  rd: reliable_read_world "wv_data env" files objects content rvalid vvalid
  for env :: "('db, 'f, 'o, 'c, 'm, 'rm, 'vm, 'p, 'pg) writer_env"
    and page_bytes pool_ok free total files objects content mcontent rvalid vvalid
begin

text \<open>A state after publishing meets what a read asks for.\<close>

lemma published_readable:
  assumes pub: "published A sid s ss w w'"
    and good: "mem_coherent (dv_mem (wv_data env)) content (dw_mem (ww_data w))"
    and fits: "file_fits the_kv the_codec (db_of w) (fw_inode (ww_fw w))"
    and blocks: "\<And>bi. bi * BLOCK_SIZE < sb_length (slw_buffer s) \<Longrightarrow>
      content (object_path (block_key sid (sb_length (slw_buffer s)) bi)) =
        slice_block (sb_byte page_bytes (slw_buffer s)) (sb_length (slw_buffer s)) bi"
    and len: "0 < sb_length (slw_buffer s)" "sb_length (slw_buffer s) \<le> CHUNK_SIZE"
    and old: "\<forall>x \<in> set ss. slice_readable content A x"
    and clk: "clocks_ok rclk (fw_inode (ww_fw w)) (dw_meta (ww_data w))"
  shows "\<exists>A'. rd.good A' (ww_data w') \<and> rd.coherent (ww_data w') \<and>
    file_fits the_kv the_codec (db_of w') (fw_inode (ww_fw w)) \<and> clocks_ok rclk (fw_inode (ww_fw w)) (dw_meta (ww_data w')) \<and>
    chunks_readable the_kv the_codec content A' (db_of w') (fw_inode (ww_fw w)) [slw_chunk_index s]"
proof -
  let ?len = "sb_length (slw_buffer s)" let ?i = "fw_inode (ww_fw w)" let ?c = "slw_chunk_index s"
  define B where "B = A \<union> block_key sid ?len ` {bi. bi * BLOCK_SIZE < ?len}"
  note p = pub [unfolded published_def Let_def, folded B_def]
  have old': "slice_readable content B x" if "x \<in> set ss" for x
    using old that by (auto simp: slice_readable_def slice_stored_def B_def Let_def)
  have "slice_stored content B sid ?len" by (rule slice_stored_blocks [OF blocks]) (use len in \<open>auto simp: B_def\<close>)
  then have new: "slice_readable content B (Owned (slw_offset_of_chunk s) sid ?len 0)"
    using len by (simp add: slice_readable_def)
  have set: "set (add_slice (Owned (slw_offset_of_chunk s) sid ?len 0) ss) \<subseteq> insert (Owned (slw_offset_of_chunk s) sid ?len 0) (set ss)"
    by (auto simp: add_slice_def)
  then have "chunks_readable the_kv the_codec content B (db_of w') ?i [?c]"
    using p old' new by (auto simp: chunks_readable_def)
  moreover have "file_fits the_kv the_codec (db_of w') ?i"
    unfolding file_fits_def
  proof (intro allI impI ballI)
    fix c xs x assume x: "get_chunk_slices the_kv the_codec ?i c (db_of w') = Inr xs" "x \<in> set xs"
    show "slice_fits x"
    proof (cases "c = ?c")
      case True
      then show ?thesis using x p old' new set by (auto simp: slice_readable_def)
    next
      case False
      then show ?thesis using x p fits by (auto simp: file_fits_def)
    qed
  qed
  moreover have "clocks_ok rclk ?i (dw_meta (ww_data w'))"
    using p clk by (auto simp: clocks_ok_def ofs_invalid_def ofs_update_def of_invalid_slices_def split: if_splits)
  moreover have "rd.good B (ww_data w')" "rd.coherent (ww_data w')" using p good by (simp_all add: rd.good_def)
  ultimately show ?thesis by blast
qed

text \<open>The bytes of a chunk once a buffer is laid over it.\<close>

lemma read_back:
  assumes pub: "published A sid s ss w w'"
    and good: "mem_coherent (dv_mem (wv_data env)) content (dw_mem (ww_data w))"
    and fits: "file_fits the_kv the_codec (db_of w) (fw_inode (ww_fw w))"
    and blocks: "\<And>bi. bi * BLOCK_SIZE < sb_length (slw_buffer s) \<Longrightarrow>
      content (object_path (block_key sid (sb_length (slw_buffer s)) bi)) =
        slice_block (sb_byte page_bytes (slw_buffer s)) (sb_length (slw_buffer s)) bi"
    and len: "0 < sb_length (slw_buffer s)" "sb_length (slw_buffer s) \<le> CHUNK_SIZE"
    and old: "\<forall>x \<in> set ss. slice_readable content A x"
    and clk: "clocks_ok rclk (fw_inode (ww_fw w)) (dw_meta (ww_data w))"
    and new: "sid \<noteq> EMPTY_SLICE_ID" "Owned (slw_offset_of_chunk s) sid (sb_length (slw_buffer s)) 0 \<notin> set ss"
    and fr: "fr_ino fr = fw_inode (ww_fw w)" "slw_chunk_index s * cs + q + length dst \<le> fr_length fr"
    and cs: "cs = dv_chunk_size (wv_data env)" "0 < length dst" "q + length dst \<le> cs" "length dst + cs < 2 ^ 64"
  shows "\<exists>w''. file_reader_read (wv_data env) rclk fr (slw_chunk_index s * cs + q) dst (ww_data w') =
    (Inr (length dst, map (\<lambda>p. if slw_offset_of_chunk s \<le> p \<and> p < slw_offset_of_chunk s + sb_length (slw_buffer s)
                              then sb_byte page_bytes (slw_buffer s) (p - slw_offset_of_chunk s)
                              else chunk_byte content ss p) [q..<q + length dst]), w'')"
proof -
  let ?i = "fw_inode (ww_fw w)" and ?c = "slw_chunk_index s" and ?n = "length dst"
  define g where "g = (\<lambda>p. if slw_offset_of_chunk s \<le> p \<and> p < slw_offset_of_chunk s + sb_length (slw_buffer s)
      then sb_byte page_bytes (slw_buffer s) (p - slw_offset_of_chunk s) else chunk_byte content ss p)"
  have q: "q < cs" "0 < cs" using cs by linarith+
  have at: "(?c * cs + q + j) div cs = ?c" "(?c * cs + q + j) mod cs = q + j" if "j < ?n" for j
  proof -
    have "q + j < cs" using that cs(3) by linarith
    then have "(?c * cs + (q + j)) div cs = ?c" "(?c * cs + (q + j)) mod cs = q + j"
      by (simp_all only: div_mult_self3 mod_mult_self3 div_less mod_less add_0_right)
    then show "(?c * cs + q + j) div cs = ?c" "(?c * cs + q + j) mod cs = q + j" by (simp_all only: add.assoc)
  qed
  have l: "min ?n (fr_length fr - (?c * cs + q)) = ?n" using fr(2) by simp
  have ch: "chunk_list cs (?c * cs + q) ?n = [?c]"
    using at(1) [of 0] at(1) [of "?n - 1"] cs(2) by (simp add: chunk_list_def)
  obtain A' where r: "rd.good A' (ww_data w')" "rd.coherent (ww_data w')" "file_fits the_kv the_codec (db_of w') (fr_ino fr)"
      "clocks_ok rclk (fr_ino fr) (dw_meta (ww_data w'))"
      "chunks_readable the_kv the_codec content A' (db_of w') (fr_ino fr) [?c]"
    using published_readable [OF pub good fits blocks len old clk] fr(1) by auto
  obtain v w'' where run: "file_reader_read (wv_data env) rclk fr (?c * cs + q) dst (ww_data w') = (Inr v, w'')"
    using rd.file_reader_read_returns [OF r(1-3) _ r(4), of "?c * cs + q" dst] r(5) cs q l ch by auto
  obtain n d where v: "v = (n, d)" by fastforce
  have ok: "n = ?n" "filled dst 0 n (\<lambda>j. file_byte the_kv the_codec content cs (db_of w') ?i (?c * cs + q + j)) d"
    using rd.file_reader_read_ok [OF r(1-3) _ run] v cs q l fr(1) by auto
  have bytes: "slice_byte content sid (sb_length (slw_buffer s)) j = sb_byte page_bytes (slw_buffer s) j" if "j < sb_length (slw_buffer s)" for j
    using slice_byte_blocks [of "sb_length (slw_buffer s)" content sid, OF blocks that] len(2) by (simp add: CHUNK_SIZE_def)
  have "file_byte the_kv the_codec content cs (db_of w') ?i (?c * cs + q + j) = g (q + j)" if "j < ?n" for j
  proof -
    have "file_byte the_kv the_codec content cs (db_of w') ?i (?c * cs + q + j) =
        chunk_byte content (add_slice (Owned (slw_offset_of_chunk s) sid (sb_length (slw_buffer s)) 0) ss) (q + j)"
      using pub at [OF that] by (simp add: file_byte_def published_def Let_def)
    also have "\<dots> = g (q + j)" unfolding chunk_byte_add [OF new(2,1)] g_def by (auto intro!: bytes)
    finally show ?thesis .
  qed
  then have "d = map g [q..<q + ?n]"
    using ok by (intro nth_equalityI) (auto simp: filled_def)
  then show ?thesis using run v ok(1) by (simp add: g_def)
qed

end

end
