(* ===== verification/Vfs_Theorems.thy ===== *)
theory Vfs_Theorems
  imports Writer_Publish Storage_Theorems
begin

text \<open>
  The properties of the reader and the writer of a file, each with an input that satisfies its
  hypotheses.
\<close>

section \<open>A small world\<close>

text \<open>The file \<^verbatim>\<open>a\<close> of the small volume over an empty stage directory, with one page of memory.\<close>

definition demo_data_env where
  "demo_data_env = \<lparr> dv_kv = alist_kv, dv_codec = text_codec, dv_cache = demo_cache_env, dv_mem = list_moka 4,
     dv_overlook = seg_ops, dv_virtual = seg_ops, dv_chunk_size = CHUNK_SIZE \<rparr>"

definition demo_writer_env where
  "demo_writer_env = \<lparr> wv_data = demo_data_env, wv_pages = hybrid_ops demo_pool_env \<rparr>"

abbreviation "free_pages p \<equiv> length (fst (mp_queue (hp_memory p)))"
abbreviation "all_pages p \<equiv> snd (mp_queue (hp_memory p))"

lemma demo_env_simps [simp]:
  "wv_data demo_writer_env = demo_data_env" "wv_pages demo_writer_env = hybrid_ops demo_pool_env"
  "dv_kv demo_data_env = alist_kv" "dv_codec demo_data_env = text_codec" "dv_cache demo_data_env = demo_cache_env"
  "dv_mem demo_data_env = list_moka 4" "dv_overlook demo_data_env = seg_ops" "dv_virtual demo_data_env = seg_ops"
  "dv_chunk_size demo_data_env = CHUNK_SIZE" "ce_fs demo_cache_env = alist_fs" "ce_remote demo_cache_env = alist_store"
  by (simp_all add: demo_writer_env_def demo_data_env_def demo_cache_env_def)

lemma demo_pages: "owned_pages (hybrid_ops demo_pool_env) memory_bytes (memory_only fst snd) free_pages all_pages"
  unfolding demo_pool_env_def by (rule lpq.slice_buffer_pages)

lemma demo_publish_world:
  "publish_read_world demo_writer_env memory_bytes (memory_only fst snd) free_pages all_pages map_of map_of map_of segs_ok segs_ok"
  unfolding publish_read_world_def publish_world_def writable_stage_world_def stage_world_def reliable_read_world_def read_world_def
    demo_env_simps
  by (intro conjI demo_pages demo_cache.cache_world_axioms afs.writable_stage_fs_axioms rmeta.reliable_meta_axioms
    lmk.moka_cache_axioms seg.range_map_axioms afs.reliable_stage_fs_axioms alist_sto.reliable_object_store_axioms)

interpretation small: publish_read_world demo_writer_env memory_bytes "memory_only fst snd" free_pages all_pages map_of map_of content map_of
    segs_ok segs_ok for content
  by (rule demo_publish_world)

section \<open>Reading\<close>

text \<open>The three stores of a mount agree with the blocks: \<open>content\<close> names the bytes of a block by its path,
  and \<open>A\<close> lists the blocks the stage cache acknowledged.\<close>

definition stores_agree ::
  "('db, 'f, 'o, 'c, 'm, 'rm, 'vm) data_env \<Rightarrow> ('f \<Rightarrow> string \<Rightarrow> bytes option) \<Rightarrow> ('o \<Rightarrow> string \<Rightarrow> bytes option) \<Rightarrow>
   (string \<Rightarrow> bytes) \<Rightarrow> slice_key set \<Rightarrow> ('db, 'f, 'o, 'c, 'm) data_world \<Rightarrow> bool" where
  "stores_agree env files objects content A d \<longleftrightarrow>
     fc_inv (dv_cache env) files objects content A (dw_cache d) \<and> mem_coherent (dv_mem env) content (dw_mem d) \<and>
     slices_coherent (dv_kv env) (dv_codec env) (dw_meta d)"


section \<open>Writing, publishing, reading back\<close>

text \<open>A slice writer with data, none of it flushed and no gap in it, beside a stage directory with room.\<close>

definition unflushed where
  "unflushed page_bytes pool_ok free cap s w \<longleftrightarrow>
     buffer_inv page_bytes pool_ok free cap \<lparr> sw_pool = ww_pool w, sw_buf = slw_buffer s, sw_sink = dw_cache (ww_data w) \<rparr> \<and>
     gapless (slw_buffer s) \<and> sb_flushed_length (slw_buffer s) = 0 \<and> page_count (slw_buffer s) < 2 ^ 64 \<and>
     0 < sb_length (slw_buffer s) \<and> slw_offset_of_chunk s < 2 ^ 32 \<and> stage_room (sb_length (slw_buffer s)) (dw_cache (ww_data w))"

text \<open>The paths of the blocks of a new slice name its bytes.\<close>

definition names_slice where
  "names_slice content sid f len \<longleftrightarrow>
     (\<forall>bi. bi * BLOCK_SIZE < len \<longrightarrow> content (object_path (block_key sid len bi)) = slice_block f len bi)"

text \<open>A file whose chunk \<open>c\<close> lists the slices \<open>ss\<close>, all readable.\<close>

definition chunk_ready where
  "chunk_ready env mcontent content A i c ss d \<longleftrightarrow>
     (\<exists>a. v_attr (dv_codec env) (mcontent (me_backend (dw_meta d))) i = Some a \<and> attr_is_file a) \<and>
     chunk_holds (dv_codec env) (mcontent (me_backend (dw_meta d))) i c ss \<and> (\<forall>x \<in> set ss. slice_readable content A x) \<and>
     file_fits (dv_kv env) (dv_codec env) (me_backend (dw_meta d)) i"

text \<open>C2. What the flusher publishes is what a reader gets. Let a slice writer whose buffer is complete and
  not yet flushed be served by \<open>flush_and_commit\<close>, with room in a stage directory that works and a
  metadata store that does not fail. Then it succeeds, and a following read within the chunk returns the
  bytes of the buffer where it lies over the chunk, and what the chunk showed before elsewhere.\<close>

theorem published_slice_reads_back:
  assumes "publish_read_world env page_bytes pool_ok free cap files objects mcontent rvalid vvalid"
    and "fw_slices (ww_fw w) q = Some s" and "slw_state s = Flushing" and "cw_alive (slw_chunk_index s) (ww_fw w)"
    and "prepare_slice_id env q w = (Inr sid, w1)" and "sid \<noteq> EMPTY_SLICE_ID" and "sid < 2 ^ 64"
    and "unflushed page_bytes pool_ok free cap s w"
    and "names_slice content sid (sb_byte page_bytes (slw_buffer s)) (sb_length (slw_buffer s))"
    and "stores_agree (wv_data env) files objects content A (ww_data w)"
    and "chunk_ready (wv_data env) mcontent content A (fw_inode (ww_fw w)) (slw_chunk_index s) ss (ww_data w)"
    and "Owned (slw_offset_of_chunk s) sid (sb_length (slw_buffer s)) 0 \<notin> set ss"
    and "0 \<le> clk 0" and "0 \<le> clk 1" and "clocks_ok rclk (fw_inode (ww_fw w)) (dw_meta (ww_data w))"
    and "fr_ino fr = fw_inode (ww_fw w)" and "slw_chunk_index s * cs + p + length dst \<le> fr_length fr"
    and "cs = dv_chunk_size (wv_data env)" and "0 < length dst" and "p + length dst \<le> cs" and "length dst + cs < 2 ^ 64"
  shows "\<exists>w' d'. flush_and_commit env clk q w = (Inr (), w') \<and>
    file_reader_read (wv_data env) rclk fr (slw_chunk_index s * cs + p) dst (ww_data w') =
      (Inr (length dst, map (\<lambda>x. if slw_offset_of_chunk s \<le> x \<and> x < slw_offset_of_chunk s + sb_length (slw_buffer s)
                             then sb_byte page_bytes (slw_buffer s) (x - slw_offset_of_chunk s)
                             else chunk_byte content ss x) [p..<p + length dst]), d')"
proof -
  note L = assms(1)
  let ?len = "sb_length (slw_buffer s)"
  have P: "publish_world env page_bytes pool_ok free cap files objects mcontent" using L by (simp add: publish_read_world_def)
  note u = assms(8) [unfolded unflushed_def] and st = assms(10) [unfolded stores_agree_def] and ch = assms(11) [unfolded chunk_ready_def]
  have blocks: "content (object_path (block_key sid ?len bi)) = slice_block (sb_byte page_bytes (slw_buffer s)) ?len bi"
    if "bi * BLOCK_SIZE < ?len" for bi using assms(9) that by (simp add: names_slice_def)
  have len: "0 < ?len" "?len \<le> CHUNK_SIZE" "?len < 2 ^ 32" using u by (simp_all add: buffer_inv_def sb_wf_def sizes)
  have ready: "publish_world.flush_ready env page_bytes pool_ok free cap files objects content A sid s w"
    using u st blocks by (simp add: publish_world.flush_ready_def [OF P] Let_def)
  obtain w' where w': "flush_and_commit env clk q w = (Inr (), w')"
      "publish_world.published env files objects content A sid s ss w w'"
    using publish_world.flush_and_commit_ok [OF P assms(2-5) ready _ _ _ _ len(3) assms(7,13,14)] u st ch by blast
  show ?thesis
    using publish_read_world.read_back [OF L w'(2) _ _ blocks len(1,2) _ assms(15,6,12,16,17,18,19,20,21)] w'(1) st ch by blast
qed

text \<open>A slice writer with the two bytes \<^verbatim>\<open>hi\<close> for the start of the file.\<close>

definition demo_buffer :: "page slice_buffer" where
  "demo_buffer = \<lparr> sb_length = 2, sb_flushed_length = 0,
     sb_block_slots = BData \<lparr> db_length = 2, db_pages = Some (MemoryPage (''hi'' @ zeros (PAGE_SIZE - 2))) # replicate 31 None \<rparr>
       # replicate 15 BEmpty, sb_total_page_cnt = 1 \<rparr>"

definition demo_slice :: "page slice_writer" where
  "demo_slice = \<lparr> slw_chunk_index = 0, slw_state = Flushing, slw_internal_seq = 0, slw_slice_id = 7, slw_offset_of_chunk = 0,
     slw_buffer = demo_buffer \<rparr>"

definition demo_file_writer :: "page file_writer" where
  "demo_file_writer = (file_writer_new 2 2)\<lparr>fw_slices := [0 \<mapsto> demo_slice], fw_chunk_writers := [(0, [0])],
     fw_total_slice_writer_cnt := 1\<rparr>"

definition demo_engine :: "alist_db meta_engine" where
  "demo_engine = projr (engine_open alist_kv text_codec (meta_config_default ''/tmp/meta'') demo_db)"

definition demo_world where
  "demo_world = \<lparr> ww_data = \<lparr> dw_meta = demo_engine, dw_cache = demo_cache, dw_mem = [] :: (slice_key \<times> bytes) list \<rparr>,
     ww_pool = big_pool\<lparr>hp_memory := (hp_memory big_pool)\<lparr>mp_queue := ([], 1)\<rparr>\<rparr>, ww_fw = demo_file_writer \<rparr>"

lemma demo_world_simps [simp]:
  "dw_meta (ww_data demo_world) = demo_engine" "dw_cache (ww_data demo_world) = demo_cache" "dw_mem (ww_data demo_world) = []"
  "ww_fw demo_world = demo_file_writer" "fw_slices demo_file_writer = [0 \<mapsto> demo_slice]" "fw_inode demo_file_writer = 2"
  "fw_chunk_writers demo_file_writer = [(0, [0])]"
  by (simp_all add: demo_world_def demo_file_writer_def file_writer_new_def)

lemma demo_slice_simps [simp]:
  "slw_state demo_slice = Flushing" "slw_chunk_index demo_slice = 0" "slw_slice_id demo_slice = 7" "slw_offset_of_chunk demo_slice = 0"
  "slw_buffer demo_slice = demo_buffer" "sb_length demo_buffer = 2" "sb_flushed_length demo_buffer = 0"
  by (simp_all add: demo_slice_def demo_buffer_def)

lemma demo_engine_simps [simp]: "me_backend demo_engine = demo_db" "me_open_files demo_engine = open_files_new 0"
  using demo_format by (simp_all add: demo_engine_def engine_open_def meta_config_default_def)

lemma demo_no_files [simp]: "ofs_files (open_files_new 0) = (\<lambda>_. None)"
  by (simp add: open_files_new_def)

lemma demo_bytes: "map (sb_byte memory_bytes demo_buffer) [0..<2] = ''hi''"
  by (simp add: sb_byte_def block_byte_def demo_buffer_def memory_bytes_def sizes numeral_2_eq_2)

lemma demo_unflushed: "unflushed memory_bytes (memory_only fst snd) free_pages all_pages demo_slice demo_world"
proof -
  have "gapless demo_buffer"
    unfolding gapless_def sizes by (auto simp: demo_buffer_def block_len_def nth_Cons split: nat.splits)
  moreover have "page_count demo_buffer = 1"
    by (simp add: page_count_def demo_buffer_def block_pages_def count_pages_def)
  moreover have "sb_wf memory_bytes demo_buffer"
    by (auto simp: sb_wf_def demo_buffer_def block_wf_def sizes memory_bytes_def)
  ultimately show ?thesis
    by (simp add: unflushed_def buffer_inv_def memory_only_def demo_world_def big_pool_def stage_room_def demo_cache_def
        DEFAULT_STAGE_CACHE_SIZE_def) (simp add: demo_buffer_def)
qed

lemma demo_names: "names_slice (\<lambda>_. ''hi'') sid (sb_byte memory_bytes demo_buffer) 2"
  unfolding names_slice_def
proof (intro allI impI)
  fix bi :: nat assume "bi * BLOCK_SIZE < 2"
  then have "bi = 0" by (cases bi) (simp_all add: sizes)
  then show "''hi'' = slice_block (sb_byte memory_bytes demo_buffer) 2 bi" using demo_bytes by (simp add: slice_block_def sizes)
qed

lemma demo_stores: "stores_agree demo_data_env map_of map_of (\<lambda>_. ''hi'') {} (ww_data demo_world)"
  using demo_cache.file_cache_new_inv [OF demo_cache_new, where content = "\<lambda>_. ''hi''"]
  by (simp add: stores_agree_def mem_coherent_def slices_coherent_def list_moka_def demo_cache_env_def)

lemma demo_no_chunks: "get_chunk_slices alist_kv text_codec i c demo_db \<noteq> Inr ss"
  using demo_chunks [of i c]
  by (simp add: get_chunk_slices_def rmeta.kv_get_content chunk_holds_def v_chunk_def key_render)

lemma demo_ready: "chunk_ready demo_data_env map_of (\<lambda>_. ''hi'') {} 2 0 [] (ww_data demo_world)"
  using demo_chunks [of 2 0] demo_no_chunks
  by (simp add: chunk_ready_def file_fits_def demo_attr_view demo_file_def attr_is_file_def attr_default_def)

lemma demo_clocks: "clocks_ok (\<lambda>_ _. UNIX_EPOCH) i demo_engine"
  by (simp add: clocks_ok_def)

text \<open>After the flush both bytes are read back.\<close>

theorem published_slice_reads_back_witness:
  "\<exists>w' d'. flush_and_commit demo_writer_env (\<lambda>_. 0) 0 demo_world = (Inr (), w') \<and>
     file_reader_read demo_data_env (\<lambda>_ _. UNIX_EPOCH) \<lparr> fr_ino = 2, fr_fh = 0, fr_length = 2, fr_closing = False \<rparr> 0
       (zeros 2) (ww_data w') = (Inr (2, ''hi''), d')"
proof -
  have prep: "prepare_slice_id demo_writer_env 0 demo_world = (Inr 7, demo_world)"
    by (simp add: prepare_slice_id_def sbind_def the_slice_def EMPTY_SLICE_ID_def)
  have "map (\<lambda>x. if 0 \<le> x \<and> x < 0 + 2 then sb_byte memory_bytes demo_buffer (x - 0) else c x) [0..<0 + 2] = ''hi''" for c
    using demo_bytes by (simp add: numeral_2_eq_2)
  then show ?thesis
    using published_slice_reads_back [OF demo_publish_world, of demo_world 0 demo_slice 7 demo_world "\<lambda>_. ''hi''" "{}" "[]" "\<lambda>_. 0"
        "\<lambda>_ _. UNIX_EPOCH" "\<lparr> fr_ino = 2, fr_fh = 0, fr_length = 2, fr_closing = False \<rparr>" CHUNK_SIZE 0 "zeros 2"]
      prep demo_unflushed demo_names [of 7] demo_stores demo_ready demo_clocks [of 2]
    by (simp add: cw_alive_def EMPTY_SLICE_ID_def sizes)
qed

lemma demo_published:
  obtains w' where "flush_and_commit demo_writer_env (\<lambda>_. 0) 0 demo_world = (Inr (), w')"
    "small.published (\<lambda>_. ''hi'') {} 7 demo_slice [] demo_world w'"
proof -
  have prep: "prepare_slice_id demo_writer_env 0 demo_world = (Inr 7, demo_world)"
    by (simp add: prepare_slice_id_def sbind_def the_slice_def EMPTY_SLICE_ID_def)
  have ready: "small.flush_ready (\<lambda>_. ''hi'') {} 7 demo_slice demo_world"
    using demo_unflushed demo_stores demo_names [of 7]
    by (simp add: small.flush_ready_def Let_def unflushed_def stores_agree_def names_slice_def)
  show ?thesis
    using small.flush_and_commit_ok [OF _ _ _ prep ready, of demo_file "[]" "\<lambda>_. 0"] demo_ready demo_stores that
    by (auto simp: cw_alive_def chunk_ready_def stores_agree_def demo_attr_view)
qed


section \<open>The tasks of a file\<close>

lemma new_writer_inv:
  assumes "ww_fw w0 = file_writer_new i len" "(writer_step env)\<^sup>*\<^sup>* (w0, Map.empty) (w, held)"
  shows "control_inv (control_of w) held"
  using writer_reach_inv [OF assms(2)] control_inv_new [of i len] assms(1) by simp


definition fresh_world where
  "fresh_world = demo_world\<lparr>ww_fw := file_writer_new 2 0\<rparr>"

definition demo_ctx_write :: chunk_write_ctx where
  "demo_ctx_write = \<lparr> cx_file_offset = 0, cx_chunk_idx = 0, cx_chunk_offset = 0, cx_need_write_len = 2, cx_buf_start_at = 0 \<rparr>"

definition held_world where
  "held_world = snd (find_writable_slice_writer 0 demo_ctx_write fresh_world)"

lemma demo_find:
  "find_writable_slice_writer 0 demo_ctx_write fresh_world = (Inr (0, Idle), held_world)"
  "fw_slices (ww_fw held_world) = [0 \<mapsto> slice_writer_new 0 Writing 0 0]" "fw_flusher_alive (ww_fw held_world)"
  by (simp_all add: held_world_def find_writable_slice_writer_def sbind_def fresh_world_def demo_ctx_write_def on_fw_def
      ensure_chunk_writer_def cw_alive_def chunk_slices_def add_slice_writer_def on_chunk_def file_writer_new_def)

lemma demo_found: "(writer_step demo_writer_env)\<^sup>*\<^sup>* (fresh_world, Map.empty) (held_world, [0 \<mapsto> Idle])"
  by (rule r_into_rtranclp, rule ws_find [OF _ demo_find(1)]) (simp add: fresh_world_def file_writer_new_def)




section \<open>The tail of an idle slice writer\<close>

text \<open>Staging other blocks does not touch a block.\<close>

lemma fc_stage_other:
  assumes "fc_stage env po p sid bi n pages c = (r, c')" "sk_block_idx k \<noteq> bi"
  shows "map_of (fc_staged_index c') k = map_of (fc_staged_index c) k \<and> fc_remote c' = fc_remote c"
proof -
  have res: "fc_staged_index c1 = fc_staged_index c \<and> fc_remote c1 = fc_remote c" if "reserve_stage_bytes n c = (r1, c1)" for r1 c1
    using that by (auto simp: reserve_stage_bytes_def Let_def schedule_pressure_migration_def spawn_migration_def
        split: option.splits if_splits list.splits prod.splits bool.splits)
  have blk: "fc_staged_index c2 = fc_staged_index c1 \<and> fc_remote c2 = fc_remote c1"
    if "stage_block env po p key pages c1 = (r2, c2)" for key r2 c1 c2
    using that by (cases "gather_block po p (sk_block_size key) pages";
        cases "write_atomic (ce_fs env) (object_path key) (projr (gather_block po p (sk_block_size key) pages)) (fc_local c1)")
      (auto simp: stage_block_def sbind_def slift_def split: sum.splits)
  have ind: "fc_staged_index c2 = fc_staged_index c1 \<and> fc_remote c2 = fc_remote c1"
    if "index_try_get_with env key (stage_block env po p key pages) c1 = (r2, c2)" for key r2 c1 c2
    using that blk [of key c1] by (auto simp: index_try_get_with_def split: option.splits sum.splits prod.splits)
  have k: "k \<noteq> slice_key_new sid bi n" using assms(2) by (auto simp: slice_key_new_def)
  obtain r1 c1 where 1: "reserve_stage_bytes n c = (r1, c1)" by fastforce
  obtain r2 c2 where 2: "index_try_get_with env (slice_key_new sid bi n) (stage_block env po p (slice_key_new sid bi n) pages) c1 = (r2, c2)"
    by fastforce
  note res [OF 1] and ind [OF 2]
  then show ?thesis
    using assms(1) k 1 2
    by (cases r1; cases r2) (auto simp: fc_stage_def Let_def sbind_def release_stage_bytes_def split: option.splits if_splits)
qed

lemma stage_blocks_other:
  assumes "stage_blocks env po sid idxs released w = (r, w')" "bi \<notin> set idxs" "sk_block_idx k = bi"
  shows "sb_block_slots (sw_buf w') ! bi = sb_block_slots (sw_buf w) ! bi \<and> sb_length (sw_buf w') = sb_length (sw_buf w) \<and>
    map_of (fc_staged_index (sw_sink w')) k = map_of (fc_staged_index (sw_sink w)) k \<and> fc_remote (sw_sink w') = fc_remote (sw_sink w)"
  using assms
proof (induction env po sid idxs released w arbitrary: r w' rule: stage_blocks.induct)
  case (2 env po sid idx rest released w)
  have k: "sk_block_idx k \<noteq> idx" "bi \<noteq> idx" "bi \<notin> set rest" using "2.prems" by auto
  show ?case
  proof (cases "sb_block_slots (sw_buf w) ! idx")
    case BEmpty
    then show ?thesis using "2.IH"(1) [OF BEmpty _ k(3) "2.prems"(3)] "2.prems"(1) by simp
  next
    case (BData db)
    obtain r1 c where st: "fc_stage env po (sw_pool w) sid idx (db_length db) (db_pages db) (sw_sink w) = (r1, c)" by fastforce
    note c = fc_stage_other [OF st k(1)]
    show ?thesis
    proof (cases r1)
      case (Inl e)
      then show ?thesis using "2.prems"(1) BData st c by auto
    next
      case (Inr x)
      obtain m n where x: "x = (m, n)" by fastforce
      obtain r2 w2 where rel: "release_block po idx db (w\<lparr>sw_sink := c\<rparr>) = (r2, w2)" by fastforce
      then have w2: "sb_block_slots (sw_buf w2) ! bi = sb_block_slots (sw_buf w) ! bi" "sw_sink w2 = c" "sb_length (sw_buf w2) = sb_length (sw_buf w)"
        using k(2) by (auto simp: release_block_def upd_buf_def set_slot_def split: sum.splits)
      show ?thesis
      proof (cases r2)
        case (Inl e)
        then show ?thesis using "2.prems"(1) BData st Inr x rel w2 c by (auto simp: sbind_def)
      next
        case inner: (Inr u)
        then have "stage_blocks env po sid rest (released + n) w2 = (r, w')"
          using "2.prems"(1) BData st Inr x rel by (simp add: sbind_def)
        then show ?thesis using "2.IH"(2) [OF BData st [symmetric] Inr x [symmetric] _ k(3) "2.prems"(3)] w2 c by simp
      qed
    qed
  qed
qed simp

lemma sb_stage_other:
  assumes "sb_stage env po sid off w = (Inr n, w')" "off < (bi + 1) * BLOCK_SIZE" "sk_block_idx k = bi"
  shows "sb_block_slots (sw_buf w') ! bi = sb_block_slots (sw_buf w) ! bi \<and> sb_length (sw_buf w') = sb_length (sw_buf w) \<and>
    map_of (fc_staged_index (sw_sink w')) k = map_of (fc_staged_index (sw_sink w)) k \<and> fc_remote (sw_sink w') = fc_remote (sw_sink w)"
proof -
  obtain r1 w1 where st: "stage_blocks env po sid (pending_blocks off (sw_buf w)) 0 w = (r1, w1)" by fastforce
  have "bi \<notin> set (pending_blocks off (sw_buf w))" using assms(2) by (auto simp: pending_blocks_def split: block.splits)
  from stage_blocks_other [OF st this assms(3)] assms(1) st show ?thesis
    by (cases r1) (auto simp: sb_stage_def sbind_def upd_buf_def split: sum.splits)
qed

lemma prepare_slice_id_other:
  assumes "prepare_slice_id env q w = (Inr sid, w')" "fw_slices (ww_fw w) q = Some s"
  shows "\<exists>s'. fw_slices (ww_fw w') q = Some s' \<and> slw_buffer s' = slw_buffer s \<and> dw_cache (ww_data w') = dw_cache (ww_data w)"
  using assms by (auto simp: prepare_slice_id_def sbind_eq the_slice_run in_engine_def szoom_eq in_meta_eq on_fw_def on_slice_def
      split: if_splits)

text \<open>The part of a slice writer and of the caches that concerns one block.\<close>

definition keeps_block ::
  "nat \<Rightarrow> nat \<Rightarrow> ('db, 'f, 'o, 'c, 'm, 'p, 'pg) writer_world \<Rightarrow> ('db, 'f, 'o, 'c, 'm, 'p, 'pg) writer_world \<Rightarrow> bool" where
  "keeps_block q bi w w' \<longleftrightarrow>
     (\<forall>s. fw_slices (ww_fw w) q = Some s \<longrightarrow> (\<exists>s'. fw_slices (ww_fw w') q = Some s' \<and>
        sb_block_slots (slw_buffer s') ! bi = sb_block_slots (slw_buffer s) ! bi \<and> sb_length (slw_buffer s') = sb_length (slw_buffer s))) \<and>
     (\<forall>k. sk_block_idx k = bi \<longrightarrow>
        map_of (fc_staged_index (dw_cache (ww_data w'))) k = map_of (fc_staged_index (dw_cache (ww_data w))) k) \<and>
     fc_remote (dw_cache (ww_data w')) = fc_remote (dw_cache (ww_data w))"

lemma keeps_block_trans: "keeps_block q bi w1 w2 \<Longrightarrow> keeps_block q bi w2 w3 \<Longrightarrow> keeps_block q bi w1 w3"
  unfolding keeps_block_def by (metis (no_types, lifting))

lemma keeps_block_state: "keeps_block q bi w (on_fw (on_slice q (\<lambda>s. s\<lparr>slw_state := st\<rparr>)) w)"
  by (simp add: keeps_block_def on_fw_def on_slice_def)

lemma keeps_block_refl: "keeps_block q bi w w"
  by (simp add: keeps_block_def)

lemma cas_req_block: "cas_req q old new req w = (r, w') \<Longrightarrow> keeps_block q bi w w'"
  by (auto simp: cas_req_def sbind_eq cas_state_run keeps_block_state keeps_block_refl split: option.splits if_splits)

lemma make_flush_req_block:
  assumes "make_flush_req q seq fin w = (r, w')"
  shows "keeps_block q bi w w'"
proof (cases "fw_slices (ww_fw w) q")
  case None
  then show ?thesis using assms by (simp add: make_flush_req_def sbind_def the_slice_def keeps_block_refl)
next
  case (Some s)
  then show ?thesis using assms
    by (cases "slw_state s") (auto simp: make_flush_req_def sbind_def the_slice_def Let_def keeps_block_refl dest!: cas_req_block split: if_splits)
qed

lemma do_flush_bulk_block:
  assumes "do_flush_bulk env q off w = (Inr (), w')" "off < (bi + 1) * BLOCK_SIZE" "fw_slices (ww_fw w) q = Some s"
  shows "keeps_block q bi w w' \<and> (\<exists>s'. fw_slices (ww_fw w') q = Some s' \<and> slw_state s' = Idle)"
proof -
  obtain sid w1 n w2 where p: "prepare_slice_id env q w = (Inr sid, w1)"
      and b: "in_buffer q (sb_stage (dv_cache (wv_data env)) (wv_pages env) sid off) w1 = (Inr n, w2)"
      and c: "w' = on_fw (notify_done q) (on_fw (on_slice q (\<lambda>s. s\<lparr>slw_state := Idle\<rparr>)) w2)"
    using assms(1) by (auto simp: do_flush_bulk_def sbind_eq cas_state_run split: option.splits if_splits)
  obtain s1 where s1: "fw_slices (ww_fw w1) q = Some s1" "slw_buffer s1 = slw_buffer s" "dw_cache (ww_data w1) = dw_cache (ww_data w)"
    using prepare_slice_id_other [OF p assms(3)] by blast
  let ?b = "\<lparr> sw_pool = ww_pool w1, sw_buf = slw_buffer s1, sw_sink = dw_cache (ww_data w1) \<rparr>"
  obtain b' where st: "sb_stage (dv_cache (wv_data env)) (wv_pages env) sid off ?b = (Inr n, b')"
      and w2: "w2 = on_fw (on_slice q (\<lambda>s. s\<lparr>slw_buffer := sw_buf b'\<rparr>)) (w1\<lparr>ww_pool := sw_pool b', ww_data := (ww_data w1)\<lparr>dw_cache := sw_sink b'\<rparr>\<rparr>)"
    using b s1(1) by (auto simp: in_buffer_def sbind_eq the_slice_run szoom_eq smap_err_eq)
  have "fw_slices (ww_fw w') q = Some (s1\<lparr>slw_buffer := sw_buf b', slw_state := Idle\<rparr>)" "ww_data w' = (ww_data w1)\<lparr>dw_cache := sw_sink b'\<rparr>"
    using s1(1) by (simp_all add: c w2 on_fw_def on_slice_def notify_done_def)
  then show ?thesis
    using sb_stage_other [OF st assms(2)] sb_stage_other [OF st assms(2), of "slice_key_new sid bi 0"] s1 assms(3)
    by (auto simp: keeps_block_def slice_key_new_def)
qed

lemma keeps_block_same:
  "fw_slices (ww_fw w') = fw_slices (ww_fw w) \<Longrightarrow> dw_cache (ww_data w') = dw_cache (ww_data w) \<Longrightarrow> keeps_block q bi w w'"
  by (simp add: keeps_block_def)

lemma slice_done_block:
  assumes "slice_done q st w = (r, w')"
  shows "keeps_block q bi w w' \<and> ww_data w' = ww_data w \<and> fw_published_slices (ww_fw w') = fw_published_slices (ww_fw w)"
proof -
  let ?w1 = "on_fw (\<lambda>fw. fw\<lparr>fw_total_slice_writer_cnt := wrap_sub64 (fw_total_slice_writer_cnt fw) 1\<rparr>) w"
  obtain r2 w2 where c: "cas_state q st Done ?w1 = (r2, w2)" by fastforce
  have k: "keeps_block q bi w ?w1" by (rule keeps_block_same) (simp_all add: on_fw_def)
  have w2: "w2 = ?w1 \<or> w2 = on_fw (on_slice q (\<lambda>s. s\<lparr>slw_state := Done\<rparr>)) ?w1"
    using c by (auto simp: cas_state_run split: option.splits if_splits)
  then have k2: "keeps_block q bi w w2" using k keeps_block_trans [OF k keeps_block_state] by blast
  have w': "w' = w2 \<or> w' = on_fw (notify_done q) w2" using assms c by (cases r2) (auto simp: slice_done_def sbind_def)
  have "keeps_block q bi w2 (on_fw (notify_done q) w2)" by (rule keeps_block_same) (auto simp: on_fw_def notify_done_def split: option.splits)
  then have "keeps_block q bi w w'" using w' k2 keeps_block_trans [OF k2] by blast
  moreover have "ww_data w' = ww_data w" "fw_published_slices (ww_fw w') = fw_published_slices (ww_fw w)"
    using w' w2 by (auto simp: on_fw_def on_slice_def notify_done_def split: option.splits)
  ultimately show ?thesis by blast
qed

lemma commit_partial_block:
  assumes "commit_partial env clk q w = (Inr (), w')" "fw_slices (ww_fw w) q = Some s" "0 < sb_length (slw_buffer s)"
  shows "keeps_block q bi w w' \<and> slw_slice_id s \<in> set (fw_published_slices (ww_fw w')) \<and>
    (\<exists>m. write_slice (dv_kv (wv_data env)) (dv_codec (wv_data env)) clk (fw_inode (ww_fw w)) (slw_chunk_index s) (slw_offset_of_chunk s)
       (Owned (as_u32 (slw_offset_of_chunk s)) (slw_slice_id s) (as_u32 (sb_length (slw_buffer s))) 0) (dw_meta (ww_data w)) = (Inr (), m) \<and>
       dw_meta (ww_data w') = m)"
proof -
  obtain w1 where p: "publish_slice env clk s (slw_slice_id s) (sb_length (slw_buffer s)) w = (Inr (), w1)"
      and d: "slice_done q Committing (on_fw (record_published_slice (slw_slice_id s)) w1) = (Inr (), w')"
    using assms by (auto simp: commit_partial_def sbind_eq the_slice_run Let_def split: if_splits)
  obtain m where m: "write_slice (dv_kv (wv_data env)) (dv_codec (wv_data env)) clk (fw_inode (ww_fw w)) (slw_chunk_index s)
        (slw_offset_of_chunk s) (Owned (as_u32 (slw_offset_of_chunk s)) (slw_slice_id s) (as_u32 (sb_length (slw_buffer s))) 0)
        (dw_meta (ww_data w)) = (Inr (), m)" and w1: "w1 = w\<lparr>ww_data := (ww_data w)\<lparr>dw_meta := m\<rparr>\<rparr>"
    using p by (auto simp: publish_slice_def sbind_eq in_engine_def szoom_eq in_meta_eq)
  let ?w2 = "on_fw (record_published_slice (slw_slice_id s)) w1"
  have "keeps_block q bi w ?w2" by (rule keeps_block_same) (simp_all add: w1 on_fw_def record_published_slice_def)
  then have "keeps_block q bi w w'" using slice_done_block [OF d] keeps_block_trans by blast
  moreover have "slw_slice_id s \<in> set (fw_published_slices (ww_fw w'))" "dw_meta (ww_data w') = m"
    using slice_done_block [OF d, of bi] by (simp_all add: w1 on_fw_def record_published_slice_def)
  ultimately show ?thesis using m by blast
qed

text \<open>C22. Publishing an idle slice writer can lose its tail. A write that is not sequential asks for a bulk
  flush up to the length of the buffer, which stages whole blocks only and leaves the slice writer idle;
  a later flush commits an idle slice writer without staging anything. Then the slice is published with
  its full length and recorded for the durability barrier, while the last block, which is not full, is
  still in the buffer only: no stage index entry and no object was made for it.\<close>

theorem idle_commit_loses_tail:
  assumes "fw_slices (ww_fw w) q = Some s" and "0 < sb_length (slw_buffer s)"
    and "sb_block_slots (slw_buffer s) ! (sb_length (slw_buffer s) div BLOCK_SIZE) = BData db"
    and "make_flush_req q seq False w = (Inr (Some (FlushBulk q off)), w1)" and "do_flush_bulk env q off w1 = (Inr (), w2)"
    and "make_flush_req q seq' True w2 = (Inr (Some req), w3)" and "commit_partial env clk q w3 = (Inr (), w4)"
  shows "\<exists>s3 s4. req = CommitIdle q \<and> fw_slices (ww_fw w3) q = Some s3 \<and> fw_slices (ww_fw w4) q = Some s4
    \<and> fst (write_slice (dv_kv (wv_data env)) (dv_codec (wv_data env)) clk (fw_inode (ww_fw w3)) (slw_chunk_index s3)
         (slw_offset_of_chunk s3)
         (Owned (as_u32 (slw_offset_of_chunk s3)) (slw_slice_id s3) (as_u32 (sb_length (slw_buffer s))) 0) (dw_meta (ww_data w3))) = Inr ()
    \<and> slw_slice_id s3 \<in> set (fw_published_slices (ww_fw w4))
    \<and> sb_block_slots (slw_buffer s4) ! (sb_length (slw_buffer s) div BLOCK_SIZE) = BData db
    \<and> (\<forall>k. sk_block_idx k = sb_length (slw_buffer s) div BLOCK_SIZE \<longrightarrow>
         map_of (fc_staged_index (dw_cache (ww_data w4))) k = map_of (fc_staged_index (dw_cache (ww_data w))) k)
    \<and> fc_remote (dw_cache (ww_data w4)) = fc_remote (dw_cache (ww_data w))"
proof -
  let ?len = "sb_length (slw_buffer s)"
  let ?bi = "?len div BLOCK_SIZE"
  have off: "off = ?len"
    using assms(1,4) by (auto simp: make_flush_req_def sbind_def the_slice_def Let_def cas_req_def cas_state_def
        split: slice_writer_state.splits if_splits)
  have lt: "off < (?bi + 1) * BLOCK_SIZE" unfolding off using dividend_less_times_div [OF sizes_pos(2), of ?len] by (simp add: mult.commute)
  have k1: "keeps_block q ?bi w w1" by (rule make_flush_req_block [OF assms(4)])
  then obtain s1 where s1: "fw_slices (ww_fw w1) q = Some s1" using assms(1) by (auto simp: keeps_block_def)
  obtain s2 where k2: "keeps_block q ?bi w1 w2" and s2: "fw_slices (ww_fw w2) q = Some s2" "slw_state s2 = Idle"
    using do_flush_bulk_block [OF assms(5) lt s1] by blast
  have k3: "keeps_block q ?bi w2 w3" by (rule make_flush_req_block [OF assms(6)])
  have req: "req = CommitIdle q"
    using assms(6) s2 by (simp add: make_flush_req_def sbind_def the_slice_def cas_req_def cas_state_def split: if_splits)
  have k13: "keeps_block q ?bi w w3" using k1 k2 k3 keeps_block_trans by blast
  then obtain s3 where s3: "fw_slices (ww_fw w3) q = Some s3" "sb_length (slw_buffer s3) = ?len"
    using assms(1) by (auto simp: keeps_block_def)
  note c = commit_partial_block [OF assms(7) s3(1), of ?bi]
  have k14: "keeps_block q ?bi w w4" using keeps_block_trans [OF k13] c s3(2) assms(2) by simp
  then obtain s4 where "fw_slices (ww_fw w4) q = Some s4" "sb_block_slots (slw_buffer s4) ! ?bi = BData db"
    using assms(1,3) by (auto simp: keeps_block_def)
  then show ?thesis using k14 c s3 assms(2) req by (auto simp: keeps_block_def)
qed

text \<open>One byte in the second block of a slice writer of the small volume.\<close>

definition tail_block :: "page data_block" where
  "tail_block = \<lparr> db_length = 1, db_pages = Some (MemoryPage (''x'' @ zeros (PAGE_SIZE - 1))) # replicate 31 None \<rparr>"

definition tail_slice :: "slice_writer_state \<Rightarrow> page slice_writer" where
  "tail_slice st = demo_slice\<lparr>slw_state := st, slw_buffer := \<lparr> sb_length = BLOCK_SIZE + 1, sb_flushed_length = 0,
     sb_block_slots = BEmpty # BData tail_block # replicate 14 BEmpty, sb_total_page_cnt = 1 \<rparr>\<rparr>"

definition tail_world where
  "tail_world st ns = on_fw (\<lambda>fw. fw\<lparr>fw_slices := [0 \<mapsto> tail_slice st], fw_notified := ns\<rparr>) demo_world"

lemma tail_world_simps [simp]:
  "fw_slices (ww_fw (tail_world st ns)) = [0 \<mapsto> tail_slice st]" "ww_data (tail_world st ns) = ww_data demo_world"
  "fw_inode (ww_fw (tail_world st ns)) = 2" "fw_chunk_writers (ww_fw (tail_world st ns)) = [(0, [0])]"
  "slw_state (tail_slice st) = st" "slw_slice_id (tail_slice st) = 7" "slw_chunk_index (tail_slice st) = 0"
  "slw_offset_of_chunk (tail_slice st) = 0" "sb_length (slw_buffer (tail_slice st)) = BLOCK_SIZE + 1"
  "sb_flushed_length (slw_buffer (tail_slice st)) = 0"
  "sb_block_slots (slw_buffer (tail_slice st)) = BEmpty # BData tail_block # replicate 14 BEmpty"
  by (simp_all add: tail_world_def on_fw_def tail_slice_def)

lemma tail_moves: "on_fw (on_slice 0 (\<lambda>s. s\<lparr>slw_state := st'\<rparr>)) (tail_world st ns) = tail_world st' ns"
  by (simp add: tail_world_def on_fw_def on_slice_def tail_slice_def demo_slice_def)

lemma tail_requests:
  "make_flush_req 0 False False (tail_world Dirty ns) = (Inr (Some (FlushBulk 0 (BLOCK_SIZE + 1))), tail_world Flushing ns)"
  "make_flush_req 0 False True (tail_world Idle ns) = (Inr (Some (CommitIdle 0)), tail_world Committing ns)"
  by (simp_all add: make_flush_req_def sbind_def the_slice_def Let_def cas_req_def cas_state_def tail_moves sizes wrap_sub64_def)

lemma tail_bulk: "do_flush_bulk demo_writer_env 0 (BLOCK_SIZE + 1) (tail_world Flushing {}) = (Inr (), tail_world Idle {0})"
proof -
  have prep: "prepare_slice_id demo_writer_env 0 (tail_world Flushing {}) = (Inr 7, tail_world Flushing {})"
    by (simp add: prepare_slice_id_def sbind_def the_slice_def EMPTY_SLICE_ID_def)
  let ?b = "\<lparr> sw_pool = ww_pool (tail_world Flushing {}), sw_buf = slw_buffer (tail_slice Flushing), sw_sink = demo_cache \<rparr>"
  have "pending_blocks (BLOCK_SIZE + 1) (slw_buffer (tail_slice Flushing)) = []"
    by (auto simp: pending_blocks_def filter_empty_conv sizes nth_Cons split: nat.splits block.splits)
  then have "sb_stage demo_cache_env (hybrid_ops demo_pool_env) 7 (BLOCK_SIZE + 1) ?b = (Inr 0, ?b)"
    by (simp add: sb_stage_def check_flush_offset_def sbind_def upd_buf_def sizes) (simp add: tail_slice_def)
  then have "in_buffer 0 (sb_stage demo_cache_env (hybrid_ops demo_pool_env) 7 (BLOCK_SIZE + 1)) (tail_world Flushing {}) =
      (Inr 0, tail_world Flushing {})"
    by (simp add: in_buffer_def sbind_def the_slice_def szoom_def smap_err_def on_fw_def on_slice_def)
  moreover have "on_fw (notify_done 0) (tail_world Idle {}) = tail_world Idle {0}"
    by (simp add: tail_world_def on_fw_def notify_done_def cw_alive_def tail_slice_def)
  ultimately show ?thesis using prep
    by (simp add: do_flush_bulk_def sbind_def cas_state_def the_slice_def tail_moves)
qed

lemma tail_commit:
  obtains w where "commit_partial demo_writer_env (\<lambda>_. 0) 0 (tail_world Committing {0}) = (Inr (), w)"
proof -
  have "chunk_holds text_codec (map_of (me_backend demo_engine)) 2 0 []" using demo_chunks [of 2 0] by simp
  then obtain m where "write_slice alist_kv text_codec (\<lambda>_. 0) 2 0 0 (Owned 0 7 (BLOCK_SIZE + 1) 0) demo_engine = (Inr (), m)"
    using rmeta.write_slice_ok [of demo_engine 2 demo_file 0 "[]" 0 7 "BLOCK_SIZE + 1" "\<lambda>_. 0"]
    by (auto simp: demo_attr_view demo_file_def attr_is_file_def attr_default_def slices_coherent_def sizes)
  then show ?thesis
    by (intro that) (simp add: commit_partial_def sbind_def the_slice_def cw_alive_def Let_def publish_slice_def in_engine_def szoom_def in_meta_def
      smap_err_def as_u32_def sizes slice_done_def cas_state_def on_fw_def record_published_slice_def)
qed

theorem idle_commit_loses_tail_witness:
  "\<exists>w1 w2 w3 w4. make_flush_req 0 False False (tail_world Dirty {}) = (Inr (Some (FlushBulk 0 (BLOCK_SIZE + 1))), w1) \<and>
     do_flush_bulk demo_writer_env 0 (BLOCK_SIZE + 1) w1 = (Inr (), w2) \<and>
     make_flush_req 0 False True w2 = (Inr (Some (CommitIdle 0)), w3) \<and>
     commit_partial demo_writer_env (\<lambda>_. 0) 0 w3 = (Inr (), w4) \<and>
     7 \<in> set (fw_published_slices (ww_fw w4)) \<and>
     map_of (fc_staged_index (dw_cache (ww_data w4))) (block_key 7 (BLOCK_SIZE + 1) 1) = None \<and> fc_remote (dw_cache (ww_data w4)) = []"
proof -
  obtain w where w: "commit_partial demo_writer_env (\<lambda>_. 0) 0 (tail_world Committing {0}) = (Inr (), w)" by (rule tail_commit)
  have "7 \<in> set (fw_published_slices (ww_fw w)) \<and>
      map_of (fc_staged_index (dw_cache (ww_data w))) (block_key 7 (BLOCK_SIZE + 1) 1) = None \<and> fc_remote (dw_cache (ww_data w)) = []"
    using idle_commit_loses_tail [of "tail_world Dirty {}" 0 "tail_slice Dirty" tail_block, OF _ _ _ tail_requests(1) tail_bulk tail_requests(2) w]
    by (auto simp: sizes block_key_def slice_key_new_def demo_cache_def)
  with w show ?thesis using tail_requests tail_bulk by blast
qed

end
