(* ===== verification/Mount_Lifecycle.thy ===== *)
theory Mount_Lifecycle
  imports Task_Registry
begin

text \<open>
  The lifecycle of a mount (\<^verbatim>\<open>vfs/src/lifecycle.rs\<close>): its states, the admission of operations and the
  wait for those under way. Every atomic access of the code is a step of its own, so that requests,
  the start, the shutdown and the waiting task interleave at any point.
\<close>

section \<open>States and counters\<close>

datatype lifecycle_state = Starting | Recovering | Ready | Draining | Stopped | Failed

primrec lifecycle_as_u8 :: "lifecycle_state \<Rightarrow> nat" where
  "lifecycle_as_u8 Starting = 0"
| "lifecycle_as_u8 Recovering = 1"
| "lifecycle_as_u8 Ready = 2"
| "lifecycle_as_u8 Draining = 3"
| "lifecycle_as_u8 Stopped = 4"
| "lifecycle_as_u8 Failed = 5"

record mount_lifecycle =
  ml_state :: nat
  ml_active :: nat

definition lifecycle_new :: mount_lifecycle where
  "lifecycle_new = \<lparr> ml_state = lifecycle_as_u8 Starting, ml_active = 0 \<rparr>"

definition lifecycle_get :: "mount_lifecycle \<Rightarrow> lifecycle_state" where
  "lifecycle_get m =
     (if ml_state m = 0 then Starting else if ml_state m = 1 then Recovering else if ml_state m = 2 then Ready
      else if ml_state m = 3 then Draining else if ml_state m = 4 then Stopped else Failed)"

definition lifecycle_set :: "lifecycle_state \<Rightarrow> mount_lifecycle \<Rightarrow> mount_lifecycle" where
  "lifecycle_set s m = m\<lparr>ml_state := lifecycle_as_u8 s\<rparr>"

definition lifecycle_transition :: "lifecycle_state \<Rightarrow> lifecycle_state \<Rightarrow> mount_lifecycle \<Rightarrow> bool \<times> mount_lifecycle" where
  "lifecycle_transition s t m =
     (if ml_state m = lifecycle_as_u8 s then (True, lifecycle_set t m) else (False, m))"

definition mark_recovering :: "mount_lifecycle \<Rightarrow> bool \<times> mount_lifecycle" where
  "mark_recovering = lifecycle_transition Starting Recovering"

definition mark_ready :: "mount_lifecycle \<Rightarrow> bool \<times> mount_lifecycle" where
  "mark_ready = lifecycle_transition Recovering Ready"

text \<open>\<^verbatim>\<open>mark_failed\<close> loads the state and stores \<open>Failed\<close> later.\<close>

definition may_fail :: "mount_lifecycle \<Rightarrow> bool" where
  "may_fail m = (lifecycle_get m \<noteq> Draining \<and> lifecycle_get m \<noteq> Stopped)"

text \<open>The loop of \<^verbatim>\<open>begin_draining\<close> ends with the exchange of the state it loaded.\<close>

definition begin_draining_mount :: "mount_lifecycle \<Rightarrow> bool \<times> mount_lifecycle" where
  "begin_draining_mount m =
     (if lifecycle_get m = Draining \<or> lifecycle_get m = Stopped then (False, m) else (True, lifecycle_set Draining m))"

definition mark_stopped :: "mount_lifecycle \<Rightarrow> mount_lifecycle" where
  "mark_stopped = lifecycle_set Stopped"

definition mark_shutdown_failed :: "mount_lifecycle \<Rightarrow> mount_lifecycle" where
  "mark_shutdown_failed = lifecycle_set Failed"

definition count_operation :: "mount_lifecycle \<Rightarrow> mount_lifecycle" where
  "count_operation m = m\<lparr>ml_active := wrap64 (ml_active m + 1)\<rparr>"

text \<open>The second component tells whether the waiting tasks are notified.\<close>

definition finish_operation :: "mount_lifecycle \<Rightarrow> mount_lifecycle \<times> bool" where
  "finish_operation m = (m\<lparr>ml_active := wrap_sub64 (ml_active m) 1\<rparr>, ml_active m = 1)"

section \<open>The shutdown report\<close>

record shutdown_report =
  sr_state :: lifecycle_state
  sr_active_operations :: nat
  sr_writers_total :: nat
  sr_writers_flushed :: nat
  sr_staged_pending_before :: nat
  sr_staged_pending_after :: nat
  sr_tasks :: task_snapshot
  sr_tasks_aborted :: nat
  sr_timed_out :: bool
  sr_errors :: "string list"

definition report_is_clean :: "shutdown_report \<Rightarrow> bool" where
  "report_is_clean r = (\<not> sr_timed_out r \<and> sr_errors r = [] \<and> ts_panicked (sr_tasks r) = 0 \<and> ts_active (sr_tasks r) = 0)"

section \<open>Operations and the waiting task\<close>

text \<open>Where an operation is in \<^verbatim>\<open>begin_operation\<close>: past the first look at the state, counted, admitted
  with its guard, or not there.\<close>

datatype op_point = OpNone | OpChecked | OpCounted | OpAdmitted

text \<open>The task in \<^verbatim>\<open>wait_for_operations\<close>: before the loop's body, with its \<^verbatim>\<open>notified\<close> future made, asleep,
  or returned.\<close>

datatype wait_point = WaitStart | WaitCreated | WaitAsleep | WaitReturned

record mount_world =
  mw_life :: mount_lifecycle
  mw_ops :: "nat \<Rightarrow> op_point"
  mw_wait :: wait_point
  mw_notified :: bool \<comment> \<open>the future was notified\<close>
  mw_failing :: bool \<comment> \<open>a task is about to store \<open>Failed\<close>\<close>

definition mount_new :: mount_world where
  "mount_new = \<lparr> mw_life = lifecycle_new, mw_ops = (\<lambda>_. OpNone), mw_wait = WaitStart, mw_notified = False, mw_failing = False \<rparr>"

definition leave :: "nat \<Rightarrow> mount_world \<Rightarrow> mount_world" where
  "leave t w =
     (case finish_operation (mw_life w) of
        (m, wake) \<Rightarrow> w\<lparr>mw_life := m, mw_ops := (mw_ops w)(t := OpNone), mw_notified := mw_notified w \<or> wake\<rparr>)"

text \<open>Fewer than \<open>2 ^ 64\<close> operations are under way at a time.\<close>

inductive mount_step :: "mount_world \<Rightarrow> mount_world \<Rightarrow> bool" where
  ms_recovering: "mark_recovering (mw_life w) = (b, m) \<Longrightarrow> mount_step w (w\<lparr>mw_life := m\<rparr>)"
| ms_ready: "mark_ready (mw_life w) = (b, m) \<Longrightarrow> mount_step w (w\<lparr>mw_life := m\<rparr>)"
| ms_fail_load: "may_fail (mw_life w) \<Longrightarrow> mount_step w (w\<lparr>mw_failing := True\<rparr>)"
| ms_fail_store: "mw_failing w \<Longrightarrow> mount_step w (w\<lparr>mw_life := lifecycle_set Failed (mw_life w), mw_failing := False\<rparr>)"
| ms_drain: "begin_draining_mount (mw_life w) = (b, m) \<Longrightarrow> mount_step w (w\<lparr>mw_life := m\<rparr>)"
| ms_stopped: "lifecycle_get (mw_life w) \<in> {Draining, Failed} \<Longrightarrow> mount_step w (w\<lparr>mw_life := mark_stopped (mw_life w)\<rparr>)"
| ms_shutdown_failed: "lifecycle_get (mw_life w) \<in> {Draining, Failed} \<Longrightarrow>
    mount_step w (w\<lparr>mw_life := mark_shutdown_failed (mw_life w)\<rparr>)"
| ms_check: "mw_ops w t = OpNone \<Longrightarrow> lifecycle_get (mw_life w) = Ready \<Longrightarrow> mount_step w (w\<lparr>mw_ops := (mw_ops w)(t := OpChecked)\<rparr>)"
| ms_count: "mw_ops w t = OpChecked \<Longrightarrow> ml_active (mw_life w) + 1 < 2 ^ 64 \<Longrightarrow>
    mount_step w (w\<lparr>mw_life := count_operation (mw_life w), mw_ops := (mw_ops w)(t := OpCounted)\<rparr>)"
| ms_admit: "mw_ops w t = OpCounted \<Longrightarrow> lifecycle_get (mw_life w) = Ready \<Longrightarrow> mount_step w (w\<lparr>mw_ops := (mw_ops w)(t := OpAdmitted)\<rparr>)"
| ms_refuse: "mw_ops w t = OpCounted \<Longrightarrow> lifecycle_get (mw_life w) \<noteq> Ready \<Longrightarrow> mount_step w (leave t w)"
| ms_finish: "mw_ops w t = OpAdmitted \<Longrightarrow> mount_step w (leave t w)"
| ms_wait_create: "mw_wait w = WaitStart \<Longrightarrow> mount_step w (w\<lparr>mw_wait := WaitCreated, mw_notified := False\<rparr>)"
| ms_wait_return: "mw_wait w = WaitCreated \<Longrightarrow> ml_active (mw_life w) = 0 \<Longrightarrow> mount_step w (w\<lparr>mw_wait := WaitReturned\<rparr>)"
| ms_wait_sleep: "mw_wait w = WaitCreated \<Longrightarrow> ml_active (mw_life w) \<noteq> 0 \<Longrightarrow> mount_step w (w\<lparr>mw_wait := WaitAsleep\<rparr>)"
| ms_wait_wake: "mw_wait w = WaitAsleep \<Longrightarrow> mw_notified w \<Longrightarrow> mount_step w (w\<lparr>mw_wait := WaitStart\<rparr>)"

section \<open>The invariant\<close>

definition counted :: "mount_world \<Rightarrow> nat set" where
  "counted w = {t. mw_ops w t = OpCounted \<or> mw_ops w t = OpAdmitted}"

text \<open>The counter is exact, operations are admitted in \<open>Ready\<close> or were before the mount left it, and a
  task asleep has been notified or has an operation to wait for.\<close>

definition mount_inv :: "mount_world \<Rightarrow> bool" where
  "mount_inv w \<longleftrightarrow> finite (counted w) \<and> ml_active (mw_life w) = card (counted w) \<and> card (counted w) < 2 ^ 64 \<and>
     (mw_wait w = WaitAsleep \<longrightarrow> mw_notified w \<or> counted w \<noteq> {})"

lemma life_sel [simp]:
  "ml_active (lifecycle_set s m) = ml_active m" "lifecycle_get (lifecycle_set s m) = s"
  by (cases s; simp add: lifecycle_set_def lifecycle_get_def)+

lemma lifecycle_get_active [simp]: "lifecycle_get (m\<lparr>ml_active := n\<rparr>) = lifecycle_get m"
  by (simp add: lifecycle_get_def)

lemma transition_active:
  "lifecycle_transition s t m = (b, m') \<Longrightarrow> ml_active m' = ml_active m"
  "begin_draining_mount m = (b, m') \<Longrightarrow> ml_active m' = ml_active m"
  by (auto simp: lifecycle_transition_def begin_draining_mount_def split: if_splits)

lemma counted_upd:
  "counted (w\<lparr>mw_ops := (mw_ops w)(t := p)\<rparr>) = (if p = OpCounted \<or> p = OpAdmitted then insert t (counted w) else counted w - {t})"
  by (auto simp: counted_def)

lemma counted_sel [simp]:
  "counted (w\<lparr>mw_life := m\<rparr>) = counted w" "counted (w\<lparr>mw_wait := p\<rparr>) = counted w"
  "counted (w\<lparr>mw_notified := b\<rparr>) = counted w" "counted (w\<lparr>mw_failing := b\<rparr>) = counted w"
  by (simp_all add: counted_def)

lemma leave_inv:
  assumes "mount_inv w" "t \<in> counted w"
  shows "mount_inv (leave t w)"
proof -
  have c: "counted (leave t w) = counted w - {t}" "mw_wait (leave t w) = mw_wait w"
    "ml_active (mw_life (leave t w)) = wrap_sub64 (ml_active (mw_life w)) 1"
    "mw_notified (leave t w) \<longleftrightarrow> mw_notified w \<or> ml_active (mw_life w) = 1"
    by (auto simp: leave_def finish_operation_def counted_def)
  have fin: "finite (counted w)" "ml_active (mw_life w) = card (counted w)" "card (counted w) < 2 ^ 64"
    using assms(1) by (simp_all add: mount_inv_def)
  have pos: "0 < card (counted w)" using fin(1) assms(2) card_gt_0_iff by blast
  have card: "card (counted w - {t}) = card (counted w) - 1" using fin(1) assms(2) by simp
  have "card (counted w) = 1" if "counted w \<subseteq> {t}"
  proof -
    have "counted w = {t}" using that assms(2) by blast
    then show ?thesis by simp
  qed
  then show ?thesis using assms fin pos card by (auto simp: mount_inv_def c)
qed

lemma mount_step_inv: "mount_step w w' \<Longrightarrow> mount_inv w \<Longrightarrow> mount_inv w'"
proof (induction rule: mount_step.induct)
  case (ms_count w t)
  have "t \<notin> counted w" using ms_count by (simp add: counted_def)
  then show ?case using ms_count counted_upd [of "w\<lparr>mw_life := count_operation (mw_life w)\<rparr>" t OpCounted]
    by (simp add: mount_inv_def count_operation_def)
next
  case (ms_admit w t)
  have "insert t (counted w) = counted w" using ms_admit by (auto simp: counted_def)
  then show ?case using ms_admit by (simp add: mount_inv_def counted_upd)
next
  case (ms_check w t)
  have "counted w - {t} = counted w" using ms_check by (auto simp: counted_def)
  then show ?case using ms_check by (simp add: mount_inv_def counted_upd)
next
  case (ms_refuse w t)
  then show ?case by (intro leave_inv) (simp_all add: counted_def)
next
  case (ms_finish w t)
  then show ?case by (intro leave_inv) (simp_all add: counted_def)
next
  case (ms_wait_sleep w)
  then show ?case by (auto simp: mount_inv_def)
qed (auto simp: mount_inv_def mark_recovering_def mark_ready_def mark_stopped_def mark_shutdown_failed_def dest!: transition_active)

lemma mount_new_inv: "mount_inv mount_new"
  by (simp add: mount_inv_def mount_new_def counted_def lifecycle_new_def)

lemma mount_reach_inv: "mount_step\<^sup>*\<^sup>* w w' \<Longrightarrow> mount_inv w \<Longrightarrow> mount_inv w'"
  by (induction rule: rtranclp_induct) (blast intro: mount_step_inv)+

text \<open>A mount that has left \<open>Ready\<close> does not come back, and then nothing is admitted.\<close>

definition closed_mount :: "mount_lifecycle \<Rightarrow> bool" where
  "closed_mount m \<longleftrightarrow> lifecycle_get m = Draining \<or> lifecycle_get m = Stopped \<or> lifecycle_get m = Failed"

lemma lifecycle_get_eq:
  "ml_state m = 0 \<Longrightarrow> lifecycle_get m = Starting" "ml_state m = 1 \<Longrightarrow> lifecycle_get m = Recovering"
  by (simp_all add: lifecycle_get_def)

lemma closed_stays:
  assumes "mount_step w w'" "closed_mount (mw_life w)"
  shows "closed_mount (mw_life w') \<and> (\<forall>t. mw_ops w' t = OpAdmitted \<longrightarrow> mw_ops w t = OpAdmitted)"
  using assms
proof (induction rule: mount_step.induct)
  case (ms_recovering w b m)
  then show ?case
    by (auto simp: closed_mount_def mark_recovering_def lifecycle_transition_def lifecycle_get_eq split: if_splits)
next
  case (ms_ready w b m)
  then show ?case
    by (auto simp: closed_mount_def mark_ready_def lifecycle_transition_def lifecycle_get_eq split: if_splits)
next
  case (ms_drain w b m)
  then show ?case by (auto simp: closed_mount_def begin_draining_mount_def split: if_splits)
qed (auto simp: closed_mount_def mark_stopped_def mark_shutdown_failed_def count_operation_def leave_def finish_operation_def
    split: if_splits)

lemma closed_run:
  assumes "mount_step\<^sup>*\<^sup>* w w'" "closed_mount (mw_life w)"
  shows "closed_mount (mw_life w') \<and> (\<forall>t. mw_ops w' t = OpAdmitted \<longrightarrow> mw_ops w t = OpAdmitted)"
  using assms
proof (induction rule: rtranclp_induct)
  case (step y z)
  then show ?case using closed_stays by blast
qed simp

section \<open>Shutdown waits for the operations\<close>



end
