(* ===== verification/Handle_Lock.thy ===== *)
theory Handle_Lock
  imports Kiseki_Prelude Storage_Base
begin

text \<open>
  The lock of a file handle (\<^verbatim>\<open>vfs/src/handle.rs\<close>): \<^verbatim>\<open>read_lock\<close>, \<^verbatim>\<open>write_lock\<close> and the drops of their
  guards over three atomics. Every load, store and exchange is a step of its own, with tasks named
  by numbers. A task that finds the lock busy waits; it may be woken at any time, and cancelled while it waits.
\<close>

record handle_lock =
  hl_reader_cnt :: nat
  hl_write_wait_cnt :: nat
  hl_exclusive :: bool

definition handle_lock_new :: handle_lock where
  "handle_lock_new = \<lparr> hl_reader_cnt = 0, hl_write_wait_cnt = 0, hl_exclusive = False \<rparr>"

text \<open>
  Where a task is. \<open>RBlocked\<close> and \<open>WBlocked\<close>: it found the lock busy and awaits a notification or its
  cancellation; \<open>RLoaded\<close>: the reader saw no waiting writer; \<open>RFree\<close>: nor an exclusive holder;
  \<open>RCounted\<close>: it raised the count and looks for a cancellation; \<open>Reading\<close>: it has its guard.
  \<open>WWaiting\<close>: the writer announced itself; \<open>WLoaded\<close>: it saw no reader; \<open>WFree\<close>: nor an exclusive
  holder; \<open>WLocked\<close>: its exchange succeeded; \<open>WTaken\<close>: it no longer waits and looks for a
  cancellation; \<open>Writing\<close>: it has its guard.
\<close>

datatype lock_point = Outside | RBlocked | RLoaded | RFree | RCounted | Reading | WWaiting | WBlocked | WLoaded | WFree | WLocked | WTaken | Writing

type_synonym lock_world = "handle_lock \<times> (nat \<Rightarrow> lock_point)"

definition add_reader :: "handle_lock \<Rightarrow> handle_lock" where
  "add_reader l = l\<lparr>hl_reader_cnt := wrap64 (hl_reader_cnt l + 1)\<rparr>"

definition drop_reader :: "handle_lock \<Rightarrow> handle_lock" where
  "drop_reader l = l\<lparr>hl_reader_cnt := wrap_sub64 (hl_reader_cnt l) 1\<rparr>"

definition add_waiter :: "handle_lock \<Rightarrow> handle_lock" where
  "add_waiter l = l\<lparr>hl_write_wait_cnt := wrap64 (hl_write_wait_cnt l + 1)\<rparr>"

definition drop_waiter :: "handle_lock \<Rightarrow> handle_lock" where
  "drop_waiter l = l\<lparr>hl_write_wait_cnt := wrap_sub64 (hl_write_wait_cnt l) 1\<rparr>"

definition set_exclusive :: "bool \<Rightarrow> handle_lock \<Rightarrow> handle_lock" where
  "set_exclusive b l = l\<lparr>hl_exclusive := b\<rparr>"

text \<open>Fewer than \<open>2 ^ 64\<close> tasks use a handle at a time.\<close>

inductive lock_step :: "lock_world \<Rightarrow> lock_world \<Rightarrow> bool" where
  ls_read_wait: "p t = Outside \<Longrightarrow> lock_step (l, p) (l, p(t := if hl_write_wait_cnt l > 0 then RBlocked else RLoaded))"
| ls_read_excl: "p t = RLoaded \<Longrightarrow> lock_step (l, p) (l, p(t := if hl_exclusive l then RBlocked else RFree))"
| ls_read_wake: "p t = RBlocked \<Longrightarrow> lock_step (l, p) (l, p(t := if hl_write_wait_cnt l > 0 then RBlocked else RLoaded))"
| ls_read_give_up: "p t = RBlocked \<Longrightarrow> lock_step (l, p) (l, p(t := Outside))"
| ls_read_count: "p t = RFree \<Longrightarrow> hl_reader_cnt l + 1 < 2 ^ 64 \<Longrightarrow> lock_step (l, p) (add_reader l, p(t := RCounted))"
| ls_read_enter: "p t = RCounted \<Longrightarrow> lock_step (l, p) (l, p(t := Reading))"
| ls_read_cancel: "p t = RCounted \<Longrightarrow> lock_step (l, p) (drop_reader l, p(t := Outside))"
| ls_read_drop: "p t = Reading \<Longrightarrow> lock_step (l, p) (drop_reader l, p(t := Outside))"
| ls_write_announce: "p t = Outside \<Longrightarrow> hl_write_wait_cnt l + 1 < 2 ^ 64 \<Longrightarrow> lock_step (l, p) (add_waiter l, p(t := WWaiting))"
| ls_write_readers: "p t = WWaiting \<Longrightarrow> lock_step (l, p) (l, p(t := if hl_reader_cnt l > 0 then WBlocked else WLoaded))"
| ls_write_excl: "p t = WLoaded \<Longrightarrow> lock_step (l, p) (l, p(t := if hl_exclusive l then WBlocked else WFree))"
| ls_write_wake: "p t = WBlocked \<Longrightarrow> lock_step (l, p) (l, p(t := WWaiting))"
| ls_write_give_up: "p t = WBlocked \<Longrightarrow> lock_step (l, p) (drop_waiter l, p(t := Outside))"
| ls_write_cas: "p t = WFree \<Longrightarrow> \<not> hl_exclusive l \<Longrightarrow> lock_step (l, p) (set_exclusive True l, p(t := WLocked))"
| ls_write_lose: "p t = WFree \<Longrightarrow> hl_exclusive l \<Longrightarrow> lock_step (l, p) (l, p(t := WWaiting))"
| ls_write_uncount: "p t = WLocked \<Longrightarrow> lock_step (l, p) (drop_waiter l, p(t := WTaken))"
| ls_write_enter: "p t = WTaken \<Longrightarrow> lock_step (l, p) (l, p(t := Writing))"
| ls_write_late_cancel: "p t = WTaken \<Longrightarrow> lock_step (l, p) (set_exclusive False l, p(t := Outside))"
| ls_write_drop: "p t = Writing \<Longrightarrow> lock_step (l, p) (set_exclusive False l, p(t := Outside))"

section \<open>The invariant\<close>

definition readers :: "(nat \<Rightarrow> lock_point) \<Rightarrow> nat set" where
  "readers p = {t. p t = RCounted \<or> p t = Reading}"

definition waiters :: "(nat \<Rightarrow> lock_point) \<Rightarrow> nat set" where
  "waiters p = {t. p t \<in> {WWaiting, WBlocked, WLoaded, WFree, WLocked}}"

definition owners :: "(nat \<Rightarrow> lock_point) \<Rightarrow> nat set" where
  "owners p = {t. p t = WLocked \<or> p t = WTaken \<or> p t = Writing}"

text \<open>A counter of tasks.\<close>

definition counts :: "nat \<Rightarrow> nat set \<Rightarrow> bool" where
  "counts n A \<longleftrightarrow> finite A \<and> n = card A \<and> n < 2 ^ 64"

lemma counts_insert: "counts n A \<Longrightarrow> t \<notin> A \<Longrightarrow> n < 2 ^ 64 - 1 \<Longrightarrow> counts (Suc n) (insert t A)"
  by (auto simp: counts_def)

lemma counts_remove:
  assumes "counts n A" "t \<in> A"
  shows "counts (wrap_sub64 n (Suc 0)) (A - {t})"
proof -
  have "0 < card A" using assms card_gt_0_iff by (auto simp: counts_def)
  then show ?thesis using assms by (auto simp: counts_def)
qed

definition lock_inv :: "lock_world \<Rightarrow> bool" where
  "lock_inv w \<longleftrightarrow> counts (hl_reader_cnt (fst w)) (readers (snd w)) \<and> counts (hl_write_wait_cnt (fst w)) (waiters (snd w)) \<and>
     counts (if hl_exclusive (fst w) then 1 else 0) (owners (snd w))"

lemma point_sets:
  "readers (p(t := x)) = (if x = RCounted \<or> x = Reading then insert t (readers p) else readers p - {t})"
  "waiters (p(t := x)) = (if x \<in> {WWaiting, WBlocked, WLoaded, WFree, WLocked} then insert t (waiters p) else waiters p - {t})"
  "owners (p(t := x)) = (if x = WLocked \<or> x = WTaken \<or> x = Writing then insert t (owners p) else owners p - {t})"
  by (auto simp: readers_def waiters_def owners_def)

lemma in_point_sets:
  "t \<in> readers p \<longleftrightarrow> p t = RCounted \<or> p t = Reading"
  "t \<in> waiters p \<longleftrightarrow> p t \<in> {WWaiting, WBlocked, WLoaded, WFree, WLocked}"
  "t \<in> owners p \<longleftrightarrow> p t = WLocked \<or> p t = WTaken \<or> p t = Writing"
  by (simp_all add: readers_def waiters_def owners_def)

lemma lock_ops [simp]:
  "hl_reader_cnt (add_reader l) = wrap64 (hl_reader_cnt l + 1)" "hl_write_wait_cnt (add_reader l) = hl_write_wait_cnt l"
  "hl_exclusive (add_reader l) = hl_exclusive l"
  "hl_reader_cnt (drop_reader l) = wrap_sub64 (hl_reader_cnt l) 1" "hl_write_wait_cnt (drop_reader l) = hl_write_wait_cnt l"
  "hl_exclusive (drop_reader l) = hl_exclusive l"
  "hl_reader_cnt (add_waiter l) = hl_reader_cnt l" "hl_write_wait_cnt (add_waiter l) = wrap64 (hl_write_wait_cnt l + 1)"
  "hl_exclusive (add_waiter l) = hl_exclusive l"
  "hl_reader_cnt (drop_waiter l) = hl_reader_cnt l" "hl_write_wait_cnt (drop_waiter l) = wrap_sub64 (hl_write_wait_cnt l) 1"
  "hl_exclusive (drop_waiter l) = hl_exclusive l"
  "hl_reader_cnt (set_exclusive b l) = hl_reader_cnt l" "hl_write_wait_cnt (set_exclusive b l) = hl_write_wait_cnt l"
  "hl_exclusive (set_exclusive b l) = b"
  by (simp_all add: add_reader_def drop_reader_def add_waiter_def drop_waiter_def set_exclusive_def)

lemma counts_same: "t \<in> A \<Longrightarrow> counts n (insert t A) = counts n A" "t \<notin> A \<Longrightarrow> counts n (A - {t}) = counts n A"
  by (simp_all add: insert_absorb)

lemma counts_owner: "counts 0 A \<Longrightarrow> counts (Suc 0) (insert t A)" "counts (Suc 0) A \<Longrightarrow> t \<in> A \<Longrightarrow> counts 0 (A - {t})"
  "counts 0 A \<Longrightarrow> t \<notin> A"
  by (auto simp: counts_def card_Suc_eq)

lemma owner_exclusive: "lock_inv (l, p) \<Longrightarrow> t \<in> owners p \<Longrightarrow> hl_exclusive l"
  using counts_owner(3) by (fastforce simp: lock_inv_def split: if_splits)

lemmas lock_inv_rules = lock_inv_def point_sets in_point_sets counts_same

lemma lock_step_inv: "lock_step w w' \<Longrightarrow> lock_inv w \<Longrightarrow> lock_inv w'"
proof (induction rule: lock_step.induct)
  case (ls_write_cas p t l)
  then show ?case by (simp add: lock_inv_rules counts_owner)
next
  case (ls_write_late_cancel p t l)
  moreover have "hl_exclusive l" using owner_exclusive [of l p t] ls_write_late_cancel by (simp add: in_point_sets)
  ultimately show ?case by (simp add: lock_inv_rules counts_owner)
next
  case (ls_write_drop p t l)
  moreover have "hl_exclusive l" using owner_exclusive [of l p t] ls_write_drop by (simp add: in_point_sets)
  ultimately show ?case by (simp add: lock_inv_rules counts_owner)
qed (simp_all add: lock_inv_rules counts_insert counts_remove split: if_splits, auto)

lemma lock_then: "lock_step x y \<Longrightarrow> lock_step\<^sup>*\<^sup>* y z \<Longrightarrow> lock_step\<^sup>*\<^sup>* x z"
  by (rule converse_rtranclp_into_rtranclp)

lemma lock_last: "lock_step x y \<Longrightarrow> lock_step\<^sup>*\<^sup>* x y"
  by blast

lemma lock_reach_inv:
  assumes "lock_step\<^sup>*\<^sup>* (handle_lock_new, \<lambda>_. Outside) w"
  shows "lock_inv w"
  using assms
proof (induction rule: rtranclp_induct)
  case base
  show ?case by (simp add: lock_inv_def handle_lock_new_def counts_def readers_def waiters_def owners_def)
next
  case (step y z)
  then show ?case by (blast intro: lock_step_inv)
qed

text \<open>A reader looks, a writer takes the lock, the reader counts itself.\<close>

definition raced_lock :: handle_lock where
  "raced_lock = add_reader (drop_waiter (set_exclusive True (add_waiter handle_lock_new)))"

definition raced_points :: "nat \<Rightarrow> lock_point" where
  "raced_points = (\<lambda>_. Outside)(0 := RLoaded, 0 := RFree, 1 := Writing, 0 := Reading)"

lemma race_run: "lock_step\<^sup>*\<^sup>* (handle_lock_new, \<lambda>_. Outside) (raced_lock, raced_points)"
proof -
  let ?l0 = handle_lock_new and ?l1 = "add_waiter handle_lock_new"
  let ?l2 = "set_exclusive True ?l1" let ?l3 = "drop_waiter ?l2" let ?l4 = "add_reader ?l3"
  let ?p0 = "\<lambda>_::nat. Outside" let ?p2 = "?p0(0 := RLoaded, 0 := RFree)"
  have 1: "lock_step (?l0, ?p0) (?l0, ?p0(0 := RLoaded))" using ls_read_wait [of ?p0 0 ?l0] by (simp add: handle_lock_new_def)
  have 2: "lock_step (?l0, ?p0(0 := RLoaded)) (?l0, ?p2)"
    using ls_read_excl [of "?p0(0 := RLoaded)" 0 ?l0] by (simp add: handle_lock_new_def)
  have 3: "lock_step (?l0, ?p2) (?l1, ?p2(1 := WWaiting))" by (rule ls_write_announce) (simp_all add: handle_lock_new_def)
  have 4: "lock_step (?l1, ?p2(1 := WWaiting)) (?l1, ?p2(1 := WWaiting, 1 := WLoaded))"
    using ls_write_readers [of "?p2(1 := WWaiting)" 1 ?l1] by (simp add: handle_lock_new_def)
  have 5: "lock_step (?l1, ?p2(1 := WWaiting, 1 := WLoaded)) (?l1, ?p2(1 := WFree))"
    using ls_write_excl [of "?p2(1 := WLoaded)" 1 ?l1] by (simp add: handle_lock_new_def)
  have 6: "lock_step (?l1, ?p2(1 := WFree)) (?l2, ?p2(1 := WLocked))"
    using ls_write_cas [of "?p2(1 := WFree)" 1 ?l1] by (simp add: handle_lock_new_def)
  have 7: "lock_step (?l2, ?p2(1 := WLocked)) (?l3, ?p2(1 := WTaken))" using ls_write_uncount [of "?p2(1 := WLocked)" 1 ?l2] by simp
  have 8: "lock_step (?l3, ?p2(1 := WTaken)) (?l3, ?p2(1 := Writing))" using ls_write_enter [of "?p2(1 := WTaken)" 1 ?l3] by simp
  have 9: "lock_step (?l3, ?p2(1 := Writing)) (?l4, ?p2(1 := Writing, 0 := RCounted))"
    by (rule ls_read_count) (simp_all add: handle_lock_new_def)
  have 10: "lock_step (?l4, ?p2(1 := Writing, 0 := RCounted)) (?l4, ?p2(1 := Writing, 0 := Reading))"
    using ls_read_enter [of "?p2(1 := Writing, 0 := RCounted)" 0 ?l4] by simp
  show ?thesis
    unfolding raced_lock_def raced_points_def
    by (rule lock_then [OF 1 lock_then [OF 2 lock_then [OF 3 lock_then [OF 4 lock_then [OF 5
        lock_then [OF 6 lock_then [OF 7 lock_then [OF 8 lock_then [OF 9 lock_last [OF 10]]]]]]]]]])
qed

section \<open>What the lock gives\<close>

text \<open>C20. Two write guards of a file handle never exist at once, and the three atomics are exact: the
  exclusive flag is set while a task owns the lock, and the counters are the numbers of readers and of
  waiting writers.\<close>

theorem write_guards_exclusive:
  assumes "lock_step\<^sup>*\<^sup>* (handle_lock_new, \<lambda>_. Outside) (l, p)"
  shows "(\<forall>t u. p t = Writing \<longrightarrow> p u = Writing \<longrightarrow> t = u) \<and> (hl_exclusive l \<longleftrightarrow> (\<exists>t. p t \<in> {WLocked, WTaken, Writing}))
    \<and> hl_reader_cnt l = card {t. p t = RCounted \<or> p t = Reading}
    \<and> hl_write_wait_cnt l = card {t. p t \<in> {WWaiting, WBlocked, WLoaded, WFree, WLocked}}"
proof -
  have inv: "lock_inv (l, p)" by (rule lock_reach_inv [OF assms])
  have own: "counts (if hl_exclusive l then 1 else 0) (owners p)" using inv by (simp add: lock_inv_def)
  have "t = u" if "p t = Writing" "p u = Writing" for t u
  proof -
    have "t \<in> owners p" "u \<in> owners p" using that by (simp_all add: in_point_sets)
    moreover have "card (owners p) \<le> 1" "finite (owners p)" using own by (auto simp: counts_def split: if_splits)
    ultimately show ?thesis using card_le_Suc0_iff_eq by force
  qed
  moreover have "hl_exclusive l \<longleftrightarrow> owners p \<noteq> {}" using own by (auto simp: counts_def split: if_splits)
  ultimately show ?thesis
    using inv by (auto simp: lock_inv_def counts_def readers_def waiters_def owners_def)
qed

theorem write_guards_exclusive_witness:
  "raced_points 1 = Writing \<and> hl_exclusive raced_lock \<and> hl_reader_cnt raced_lock = card {t. raced_points t = RCounted \<or> raced_points t = Reading}"
proof (intro conjI)
  show w: "raced_points 1 = Writing" by (simp add: raced_points_def)
  show "hl_exclusive raced_lock" using write_guards_exclusive [OF race_run] w by blast
  show "hl_reader_cnt raced_lock = card {t. raced_points t = RCounted \<or> raced_points t = Reading}"
    using write_guards_exclusive [OF race_run] by blast
qed

text \<open>C21. A read guard and a write guard of one handle can exist at once: a reader that saw the lock free
  raises its count only later, and a writer that comes in between sees no reader and takes the lock.\<close>

theorem reader_and_writer_together:
  "\<exists>l p. lock_step\<^sup>*\<^sup>* (handle_lock_new, \<lambda>_. Outside) (l, p) \<and> p 0 = Reading \<and> p 1 = Writing"
  using race_run by (intro exI [of _ raced_lock] exI [of _ raced_points]) (simp add: raced_points_def)

end
